(* ===== verification/MigPrelude.thy ===== *)
theory MigPrelude
  imports Complex_Main "HOL-Library.Char_ord" "HOL-Library.List_Lexorder" "HOL-Library.Word"
    "HOL-Library.Multiset" "HOL-Library.AList"
begin

text \<open>
  What every component of the development shares: the types of the Go values the platform
  passes around, the fixed pieces of the Go standard library it uses on strings (decimal
  rendering, splitting, searching, case folding), and the generic facts about sorting and
  association lists that the component theories need.

  A Go string is a \<open>string\<close> (a list of bytes). A Go map with string keys is an association
  list with distinct keys, in the order in which one run of the program happens to iterate over
  it; every result that must not depend on that order is proved not to.
\<close>

named_theorems canon_simps "facts about the canonical renderings"
named_theorems fence_simps "facts about fenced writes"

section \<open>Go values\<close>

text \<open>
  A \<open>float64\<close> is its exact rational value together with the text that
  \<open>strconv.FormatFloat(f, 'g', -1, 64)\<close> gives for it, or one of the special values. A
  \<open>time.Time\<close> is its distance in nanoseconds from Go's zero time.
\<close>

datatype gofloat = FFin rat string | FInf bool string | FNaN string

type_synonym gotime = int
type_synonym duration = int

text \<open>
  The dynamic values an \<open>any\<close> can hold in this program. \<open>GInt\<close> covers the signed integer
  types, \<open>GUint\<close> the unsigned ones; a time carries its \<open>RFC3339Nano\<close> text in UTC, and
  \<open>GOther\<close> the \<open>%v\<close> rendering of any other value.
\<close>

datatype gval =
    GNil
  | GString string
  | GBytes string
  | GBool bool
  | GInt int
  | GUint nat
  | GFloat gofloat
  | GTime gotime string
  | GOther string

type_synonym 'a gomap = "(string \<times> 'a) list"
type_synonym row = "gval gomap"
type_synonym uint64 = "64 word"

abbreviation gomap_get :: "gval gomap \<Rightarrow> string \<Rightarrow> gval" where
  "gomap_get m k \<equiv> (case map_of m k of None \<Rightarrow> GNil | Some v \<Rightarrow> v)"

definition min_int64 :: int where "min_int64 = - (2 ^ 63)"
definition max_int64 :: int where "max_int64 = 2 ^ 63 - 1"

text \<open>Go's conversion \<open>int64(u)\<close> of a \<open>uint64\<close>: the same bits read as two's complement.\<close>

definition int64_of :: "uint64 \<Rightarrow> int" where
  "int64_of u = sint u"

lemma int64_of_eq_uint:
  assumes "uint u < 2 ^ 63"
  shows "int64_of u = uint u"
proof -
  have "signed_take_bit 63 (uint u) = uint u"
    by (rule signed_take_bit_int_eq_self) (use assms uint_ge_0 [of u] in linarith)+
  then show ?thesis by (simp add: int64_of_def sint_uint)
qed

lemma int64_of_mono:
  assumes "uint a < 2 ^ 63" and "uint b < 2 ^ 63"
  shows "int64_of a \<le> int64_of b \<longleftrightarrow> a \<le> b"
  using assms by (simp add: int64_of_eq_uint word_le_def)

section \<open>Decimal rendering\<close>

fun digits :: "nat \<Rightarrow> string" where
  "digits n = (if n < 10 then [char_of (48 + n)]
               else digits (n div 10) @ [char_of (48 + n mod 10)])"

declare digits.simps [simp del]

definition undigits :: "string \<Rightarrow> nat" where
  "undigits s = foldl (\<lambda>a c. 10 * a + (of_char c - 48)) 0 s"

definition FormatInt :: "int \<Rightarrow> string" where
  "FormatInt i = (if i < 0 then CHR ''-'' # digits (nat (- i)) else digits (nat i))"

lemma undigits_digits [simp]: "undigits (digits n) = n"
proof (induction n rule: digits.induct)
  case (1 n)
  show ?case
  proof (cases "n < 10")
    case True
    then show ?thesis by (simp add: undigits_def digits.simps [of n])
  next
    case False
    with 1 have "undigits (digits (n div 10)) = n div 10" by simp
    with False show ?thesis by (simp add: undigits_def digits.simps [of n])
  qed
qed

lemma digits_inj [simp]: "digits m = digits n \<longleftrightarrow> m = n"
  by (metis undigits_digits)

lemma digits_chars: "c \<in> set (digits n) \<Longrightarrow> of_char c \<in> {48..57::nat}"
proof (induction n rule: digits.induct)
  case (1 n)
  then show ?case
    by (cases "n < 10") (auto simp: digits.simps [of n])
qed

lemma digits_no_colon [simp]: "CHR '':'' \<notin> set (digits n)"
  using digits_chars [of "CHR '':''" n] by auto

lemma digits_no_minus [simp]: "CHR ''-'' \<notin> set (digits n)"
  using digits_chars [of "CHR ''-''" n] by auto

lemma digits_nonempty [simp]: "digits n \<noteq> []"
  by (simp add: digits.simps [of n])

lemma FormatInt_inj [simp]: "FormatInt i = FormatInt j \<longleftrightarrow> i = j"
proof
  assume eq: "FormatInt i = FormatInt j"
  have hd: "digits n \<noteq> CHR ''-'' # xs" for n xs
    using digits_no_minus [of n] by (metis list.set_intros(1))
  show "i = j"
    using eq hd [of "nat i"] hd [of "nat j"]
    by (auto simp: FormatInt_def split: if_splits) metis+
qed simp

section \<open>Length-prefixed fields\<close>

text \<open>A field whose length is written in front of it can be split off a longer string in one way only.\<close>

definition len_prefixed :: "string \<Rightarrow> string" where
  "len_prefixed s = digits (length s) @ CHR '':'' # s"

lemma split_at_colon:
  assumes "a @ CHR '':'' # r = a' @ CHR '':'' # r'"
    and "CHR '':'' \<notin> set a" and "CHR '':'' \<notin> set a'"
  shows "a = a' \<and> r = r'"
  using assms
proof (induction a arbitrary: a')
  case Nil
  then show ?case by (cases a') auto
next
  case (Cons x a)
  then show ?case by (cases a') auto
qed

lemma len_prefixed_append [canon_simps]:
  "len_prefixed s @ r = len_prefixed s' @ r' \<longleftrightarrow> s = s' \<and> r = r'"
proof
  assume "len_prefixed s @ r = len_prefixed s' @ r'"
  then have "digits (length s) = digits (length s') \<and> s @ r = s' @ r'"
    using split_at_colon [of "digits (length s)" "s @ r" "digits (length s')" "s' @ r'"]
    by (simp add: len_prefixed_def)
  then show "s = s' \<and> r = r'" by (metis append_eq_append_conv digits_inj)
qed simp

section \<open>Strings\<close>

fun starts_with :: "string \<Rightarrow> string \<Rightarrow> bool" where
  "starts_with s [] = True"
| "starts_with [] (p # ps) = False"
| "starts_with (c # s) (p # ps) = (c = p \<and> starts_with s ps)"

text \<open>\<open>strings.Contains\<close>.\<close>

fun contains_str :: "string \<Rightarrow> string \<Rightarrow> bool" where
  "contains_str [] frag = (frag = [])"
| "contains_str (c # s) frag = (starts_with (c # s) frag \<or> contains_str s frag)"

lemma starts_with_append: "starts_with (p @ s) p"
  by (induction p) auto

lemma starts_with_iff: "starts_with s p \<longleftrightarrow> (\<exists>r. s = p @ r)"
  by (induction s p rule: starts_with.induct) auto

lemma contains_str_iff: "contains_str s frag \<longleftrightarrow> (\<exists>u v. s = u @ frag @ v)"
proof (induction s)
  case Nil
  show ?case by auto
next
  case (Cons c s)
  have "(\<exists>u v. c # s = u @ frag @ v) \<longleftrightarrow>
      (\<exists>v. c # s = frag @ v) \<or> (\<exists>u v. s = u @ frag @ v)"
    by (metis append_Cons append_Nil list.inject list.exhaust)
  with Cons show ?case by (simp add: starts_with_iff)
qed

text \<open>ASCII lower case, byte by byte.\<close>

definition lower_char :: "char \<Rightarrow> char" where
  "lower_char c = (if of_char c \<in> {65..90::nat} then char_of (of_char c + 32 :: nat) else c)"

definition ToLower :: "string \<Rightarrow> string" where
  "ToLower s = map lower_char s"

text \<open>\<open>strings.TrimSpace\<close> on ASCII text.\<close>

definition is_space :: "char \<Rightarrow> bool" where
  "is_space c = (of_char c \<in> {9, 10, 11, 12, 13, 32::nat})"

definition TrimSpace :: "string \<Rightarrow> string" where
  "TrimSpace s = rev (dropWhile is_space (rev (dropWhile is_space s)))"

lemma dropWhile_plain: "(\<And>c. c \<in> set xs \<Longrightarrow> \<not> P c) \<Longrightarrow> dropWhile P xs = xs"
  by (cases xs) auto

lemma TrimSpace_id: "(\<And>c. c \<in> set s \<Longrightarrow> \<not> is_space c) \<Longrightarrow> TrimSpace s = s"
  using dropWhile_plain [of s is_space] dropWhile_plain [of "rev s" is_space] by (simp add: TrimSpace_def)

text \<open>\<open>strings.LastIndex(s, sep)\<close> for a one-byte separator, as the split around the last
  occurrence.\<close>

fun split_last :: "char \<Rightarrow> string \<Rightarrow> (string \<times> string) option" where
  "split_last sep [] = None"
| "split_last sep (c # s) =
     (case split_last sep s of
        Some (a, b) \<Rightarrow> Some (c # a, b)
      | None \<Rightarrow> if c = sep then Some ([], s) else None)"

lemma split_last_None: "split_last sep s = None \<longleftrightarrow> sep \<notin> set s"
  by (induction s) (auto split: option.splits)

lemma split_last_Some:
  "split_last sep s = Some (a, b) \<longleftrightarrow> s = a @ sep # b \<and> sep \<notin> set b"
proof (induction s arbitrary: a)
  case Nil
  show ?case by simp
next
  case (Cons c s)
  show ?case
  proof (cases "split_last sep s")
    case None
    then have "sep \<notin> set s" by (simp add: split_last_None)
    with None show ?thesis by (cases a) auto
  next
    case (Some ab)
    then obtain a' b' where ab: "split_last sep s = Some (a', b')" by (cases ab) auto
    have "sep \<in> set s" using ab split_last_None [of sep s] by auto
    moreover have "s = x @ sep # b \<and> sep \<notin> set b \<longleftrightarrow> a' = x \<and> b' = b" for x
      using Cons.IH [of x] ab by auto
    ultimately show ?thesis using ab by (cases a) auto
  qed
qed

text \<open>\<open>strings.Join\<close>.\<close>

fun join_with :: "string \<Rightarrow> string list \<Rightarrow> string" where
  "join_with sep [] = ''''"
| "join_with sep [x] = x"
| "join_with sep (x # y # xs) = x @ sep @ join_with sep (y # xs)"

lemma join_with_append: "xs \<noteq> [] \<Longrightarrow> ys \<noteq> [] \<Longrightarrow> join_with sep (xs @ ys) = join_with sep xs @ sep @ join_with sep ys"
  by (induction xs rule: induct_list012) (auto simp: neq_Nil_conv)

section \<open>Sorting\<close>

lemma sort_key_mset_eq:
  assumes "mset xs = mset ys" and "inj_on f (set xs)"
  shows "sort_key f xs = sort_key f ys"
  using assms sort_key_inj_key_eq [of xs "sort_key f ys" f] by simp

lemma inj_on_fst_distinct: "distinct (map fst xs) \<Longrightarrow> inj_on fst (set xs)"
  by (simp add: distinct_map)

lemma strict_sorted_sort_key:
  assumes "distinct (map f xs)"
  shows "sorted_wrt (<) (map f (sort_key f xs))"
proof -
  have "mset (map f (sort_key f xs)) = mset (map f xs)" by simp
  then have "distinct (map f (sort_key f xs))" using assms mset_eq_imp_distinct_iff by blast
  then show ?thesis by (simp add: strict_sorted_iff)
qed

lemma AList_update_new: "k \<notin> fst ` set al \<Longrightarrow> AList.update k v al = al @ [(k, v)]"
  by (induction al) auto

text \<open>Looking an association list up along an order of its keys finds every entry once.\<close>

lemma length_map_filter_map_of:
  assumes "distinct (map fst al)" and "distinct ks" and "fst ` set al \<subseteq> set ks"
  shows "length (List.map_filter (map_of al) ks) = length al"
proof -
  have "length (List.map_filter (map_of al) ks) = card {k \<in> set ks. map_of al k \<noteq> None}"
    using assms(2)
    by (simp add: map_filter_def comp_def distinct_card [symmetric] distinct_filter flip: set_filter)
  also have "{k \<in> set ks. map_of al k \<noteq> None} = fst ` set al"
    using assms(3) by (auto simp: map_of_eq_None_iff)
  also have "card (fst ` set al) = length al"
    using assms(1) distinct_card [of "map fst al"] by simp
  finally show ?thesis .
qed

end
