(* ===== verification/RowKey.thy ===== *)
theory RowKey
  imports MigPrelude
begin

text \<open>
  Row keys: \<open>internal/model/key.go\<close>. A row key is the list of its key columns, sorted by
  column name; its canonical form length-prefixes every name and value, its hash and its
  partition are derived from the SHA-256 digest of that form. SHA-256 is an argument
  \<open>sum256\<close> that maps a string to the list of its digest bytes.
\<close>

section \<open>Canonical values\<close>

text \<open>
  \<open>int64(f)\<close>: truncation towards zero; outside the range of \<open>int64\<close> and for the special
  values the result is the least \<open>int64\<close>, as on amd64.
\<close>

fun int64_of_float :: "gofloat \<Rightarrow> int" where
  "int64_of_float (FFin q t) =
     (let n = (if q < 0 then \<lceil>q\<rceil> else \<lfloor>q\<rfloor>)
      in if min_int64 \<le> n \<and> n \<le> max_int64 then n else min_int64)"
| "int64_of_float (FInf neg t) = min_int64"
| "int64_of_float (FNaN t) = min_int64"

fun float_text :: "gofloat \<Rightarrow> string" where
  "float_text (FFin q t) = t"
| "float_text (FInf neg t) = t"
| "float_text (FNaN t) = t"

fun float_is_int :: "gofloat \<Rightarrow> int \<Rightarrow> bool" where
  "float_is_int (FFin q t) n = (q = of_int n)"
| "float_is_int (FInf neg t) n = False"
| "float_is_int (FNaN t) n = False"

definition normaliseFloat :: "gofloat \<Rightarrow> string" where
  "normaliseFloat f =
     (if float_is_int f (int64_of_float f) then FormatInt (int64_of_float f)
      else float_text f)"

fun CanonicalValue :: "gval \<Rightarrow> string" where
  "CanonicalValue GNil = CHR 0x00 # ''NULL''"
| "CanonicalValue (GString s) = s"
| "CanonicalValue (GBytes b) = b"
| "CanonicalValue (GBool b) = (if b then ''true'' else ''false'')"
| "CanonicalValue (GInt i) = FormatInt i"
| "CanonicalValue (GUint n) = digits n"
| "CanonicalValue (GFloat f) = normaliseFloat f"
| "CanonicalValue (GTime t txt) = txt"
| "CanonicalValue (GOther s) = s"

section \<open>Row keys\<close>

record key_column =
  kc_Name :: string
  kc_Value :: gval

record row_key =
  cols :: "key_column list"

definition mk_col :: "string \<times> gval \<Rightarrow> key_column" where
  "mk_col e = \<lparr>kc_Name = fst e, kc_Value = snd e\<rparr>"

definition NewRowKey :: "row \<Rightarrow> row_key" where
  "NewRowKey values = \<lparr>cols = sort_key kc_Name (map mk_col values)\<rparr>"

definition NewRowKeyOrdered :: "string list \<Rightarrow> row \<Rightarrow> row_key" where
  "NewRowKeyOrdered names values =
     NewRowKey (fold (\<lambda>n subset. case map_of values n of
                        Some v \<Rightarrow> AList.update n v subset
                      | None \<Rightarrow> subset) names [])"

definition key_Len :: "row_key \<Rightarrow> nat" where
  "key_Len k = length (cols k)"

definition key_Names :: "row_key \<Rightarrow> string list" where
  "key_Names k = map kc_Name (cols k)"

definition key_Values :: "row_key \<Rightarrow> gval list" where
  "key_Values k = map kc_Value (cols k)"

definition key_Map :: "row_key \<Rightarrow> row" where
  "key_Map k = fold (\<lambda>c out. AList.update (kc_Name c) (kc_Value c) out) (cols k) []"

fun canonical_cols :: "key_column list \<Rightarrow> string" where
  "canonical_cols [] = []"
| "canonical_cols (c # cs) =
     (let v = CanonicalValue (kc_Value c)
      in digits (length (kc_Name c)) @ '':'' @ kc_Name c @ ''=''
         @ digits (length v) @ '':'' @ v @ '';'' @ canonical_cols cs)"

definition Canonical :: "row_key \<Rightarrow> string" where
  "Canonical k = canonical_cols (cols k)"

definition key_Equal :: "row_key \<Rightarrow> row_key \<Rightarrow> bool" where
  "key_Equal k other = (Canonical k = Canonical other)"

text \<open>\<open>binary.BigEndian.Uint64\<close> on the first eight bytes.\<close>

definition be_uint64 :: "8 word list \<Rightarrow> uint64" where
  "be_uint64 bs = foldl (\<lambda>a b. push_bit 8 a + ucast b) 0 (take 8 bs)"

definition Partition :: "(string \<Rightarrow> 8 word list) \<Rightarrow> row_key \<Rightarrow> int \<Rightarrow> int" where
  "Partition sum256 k n =
     (if n \<le> 1 then 0
      else uint (be_uint64 (sum256 (Canonical k)) mod of_int n))"

text \<open>\<open>base64.RawURLEncoding\<close>, on byte strings whose length is a multiple of three.\<close>

definition b64_url :: "nat \<Rightarrow> char" where
  "b64_url n =
     (if n < 26 then char_of (65 + n) else if n < 52 then char_of (71 + n)
      else if n < 62 then char_of (n - 4) else if n = 62 then CHR ''-'' else CHR ''_'')"

fun b64_encode3 :: "8 word list \<Rightarrow> string" where
  "b64_encode3 (a # b # c # rest) =
     (let n = unat a * 65536 + unat b * 256 + unat c
      in [b64_url (n div 262144), b64_url (n div 4096 mod 64),
          b64_url (n div 64 mod 64), b64_url (n mod 64)] @ b64_encode3 rest)"
| "b64_encode3 _ = []"

definition Hash :: "(string \<Rightarrow> 8 word list) \<Rightarrow> row_key \<Rightarrow> string" where
  "Hash sum256 k = b64_encode3 (take 9 (sum256 (Canonical k)))"

section \<open>The canonical form identifies a row\<close>

definition canonical_view :: "row_key \<Rightarrow> (string \<times> string) list" where
  "canonical_view k = map (\<lambda>c. (kc_Name c, CanonicalValue (kc_Value c))) (cols k)"

lemma canonical_cols_Cons:
  "canonical_cols (c # cs) =
     len_prefixed (kc_Name c) @ CHR ''='' #
     len_prefixed (CanonicalValue (kc_Value c)) @ CHR '';'' # canonical_cols cs"
  by (simp add: len_prefixed_def Let_def)

lemma canonical_cols_Cons_neq_Nil [simp]: "canonical_cols (c # cs) \<noteq> []"
  by (simp add: Let_def)

declare canonical_cols.simps(2) [simp del]

lemma canonical_cols_inj:
  "canonical_cols cs = canonical_cols ds \<longleftrightarrow>
   map (\<lambda>c. (kc_Name c, CanonicalValue (kc_Value c))) cs =
   map (\<lambda>c. (kc_Name c, CanonicalValue (kc_Value c))) ds"
proof (induction cs arbitrary: ds)
  case Nil
  show ?case
    using canonical_cols_Cons_neq_Nil by (cases ds) (auto dest: sym)
next
  case (Cons c cs)
  then show ?case
    by (cases ds) (simp_all add: canonical_cols_Cons len_prefixed_append)
qed

text \<open>
  two row keys have the same canonical form exactly when they have the same column names,
  in the same order, with the same canonical values: no two different keys collide, whatever
  bytes their names and values hold.
\<close>

theorem Canonical_injective:
  "Canonical k = Canonical k' \<longleftrightarrow> canonical_view k = canonical_view k'"
  by (simp add: Canonical_def canonical_view_def canonical_cols_inj)

lemma Canonical_same_view: "canonical_view k = canonical_view k' \<Longrightarrow> Canonical k = Canonical k'"
  by (simp add: Canonical_def canonical_view_def canonical_cols_inj)

section \<open>Construction does not depend on the iteration order of the map\<close>

lemma mk_col_name [simp]: "kc_Name (mk_col e) = fst e"
  and mk_col_value [simp]: "kc_Value (mk_col e) = snd e"
  by (simp_all add: mk_col_def)

lemma inj_on_name_mk_col:
  "distinct (map fst values) \<Longrightarrow> inj_on kc_Name (set (map mk_col values))"
  by (auto simp: inj_on_def distinct_map)

lemma NewRowKey_perm:
  assumes "mset values = mset values'" and "distinct (map fst values)"
  shows "NewRowKey values = NewRowKey values'"
proof -
  have "mset (map mk_col values) = mset (map mk_col values')"
    using assms(1) by simp
  then show ?thesis
    using inj_on_name_mk_col [OF assms(2)]
    by (simp add: NewRowKey_def sort_key_mset_eq)
qed

lemma key_Names_sorted: "sorted (key_Names (NewRowKey values))"
  by (simp add: key_Names_def NewRowKey_def)

lemma key_Names_set: "set (key_Names (NewRowKey values)) = fst ` set values"
  by (force simp: key_Names_def NewRowKey_def)

text \<open>
  the canonical form, and with it the hash, the partition and equality, does not depend on
  the order in which Go iterates over the map of key columns.
\<close>

theorem NewRowKey_order_independent:
  assumes "mset values = mset values'" and "distinct (map fst values)"
  shows "Canonical (NewRowKey values) = Canonical (NewRowKey values')
    \<and> sorted (key_Names (NewRowKey values))"
  using NewRowKey_perm [OF assms] by (simp add: key_Names_sorted)

theorem NewRowKey_order_independent_witness:
  "Canonical (NewRowKey [(''b'', GInt 7), (''a'', GString ''x'')])
   = Canonical (NewRowKey [(''a'', GString ''x''), (''b'', GInt 7)])"
  using NewRowKey_order_independent
    [of "[(''b'', GInt 7), (''a'', GString ''x'')]" "[(''a'', GString ''x''), (''b'', GInt 7)]"]
  by simp

section \<open>Numbers from JSON and from the snapshot reader agree\<close>

lemma int64_of_float_whole:
  "min_int64 \<le> n \<Longrightarrow> n \<le> max_int64 \<Longrightarrow> int64_of_float (FFin (of_int n) t) = n"
  by (simp add: Let_def)

text \<open>
  an integer that arrives as a \<open>float64\<close> from a JSON event renders exactly like the same
  integer read as an \<open>int64\<close> from a snapshot.
\<close>

theorem CanonicalValue_float_int:
  assumes "min_int64 \<le> n" and "n \<le> max_int64"
  shows "CanonicalValue (GFloat (FFin (of_int n) t)) = CanonicalValue (GInt n)"
  using int64_of_float_whole [OF assms, of t] by (simp add: normaliseFloat_def)

theorem CanonicalValue_float_int_witness:
  "CanonicalValue (GFloat (FFin (of_int 42) ''42'')) = ''42''"
proof -
  have "FormatInt 42 = ''42''" by code_simp
  then show ?thesis
    using CanonicalValue_float_int [of 42 "''42''"] by (simp add: min_int64_def max_int64_def)
qed

section \<open>Partitioning\<close>

lemma uint_mod_of_int:
  assumes "1 < n" and "n < 2 ^ 31"
  shows "uint ((u :: uint64) mod of_int n) = uint u mod n"
proof -
  have "uint (of_int n :: uint64) = n"
    using assms by (simp add: uint_word_of_int take_bit_int_eq_self)
  then show ?thesis by (simp add: uint_mod)
qed

text \<open>
  a partition number lies in \<open>[0, n)\<close> (0 when \<open>n\<close> is at most 1), and two keys that denote
  the same row go to the same partition.
\<close>

theorem Partition_range:
  assumes "n < 2 ^ 31"
  shows "0 \<le> Partition sum256 k n \<and> Partition sum256 k n < max 1 n
    \<and> (key_Equal k k' \<longrightarrow> Partition sum256 k n = Partition sum256 k' n)"
proof (cases "n \<le> 1")
  case True
  then show ?thesis by (simp add: Partition_def)
next
  case False
  then show ?thesis
    using assms by (simp add: Partition_def key_Equal_def uint_mod_of_int)
qed

theorem Partition_range_witness:
  "Partition (\<lambda>s. map (of_nat \<circ> of_char) s) (NewRowKey [(''id'', GInt 7)]) 4 < 4"
  using Partition_range [of 4 "\<lambda>s. map (of_nat \<circ> of_char) s" "NewRowKey [(''id'', GInt 7)]"
      "NewRowKey [(''id'', GInt 7)]"]
  by simp

end
