(* ===== verification/TableSpec.thy ===== *)
theory TableSpec
  imports MigPrelude
begin

text \<open>
  Table references, column specifications, table specifications and the migration plan:
  \<open>internal/model/table.go\<close>. The protection modes and the logical types are Go strings, so a
  configuration can hold values outside the declared constants; validation rejects them.
\<close>

section \<open>Table references\<close>

record table_ref =
  tr_Schema :: string
  tr_Name :: string

definition TableRef_String :: "table_ref \<Rightarrow> string" where
  "TableRef_String t =
     (if tr_Schema t = '''' then tr_Name t else tr_Schema t @ ''.'' @ tr_Name t)"

definition ParseTableRef :: "string \<Rightarrow> table_ref" where
  "ParseTableRef s =
     (case split_last CHR ''.'' s of
        Some (a, b) \<Rightarrow> \<lparr>tr_Schema = a, tr_Name = b\<rparr>
      | None \<Rightarrow> \<lparr>tr_Schema = '''', tr_Name = s\<rparr>)"

lemma table_ref_eqI: "tr_Schema t = tr_Schema u \<Longrightarrow> tr_Name t = tr_Name u \<Longrightarrow> t = (u :: table_ref)"
  by simp

lemma split_last_dot:
  "CHR ''.'' \<notin> set b \<Longrightarrow> split_last CHR ''.'' (a @ CHR ''.'' # b) = Some (a, b)"
  by (simp add: split_last_Some)

lemma ParseTableRef_String:
  assumes "CHR ''.'' \<notin> set (tr_Name t)"
  shows "ParseTableRef (TableRef_String t) = t"
proof (cases "tr_Schema t = ''''")
  case True
  with assms have "split_last CHR ''.'' (TableRef_String t) = None"
    by (simp add: TableRef_String_def split_last_None)
  with True show ?thesis
    by (intro table_ref_eqI) (simp_all add: ParseTableRef_def TableRef_String_def)
next
  case False
  with assms show ?thesis
    by (intro table_ref_eqI) (simp_all add: ParseTableRef_def TableRef_String_def split_last_dot)
qed

text \<open>
  a table reference whose name holds no dot is recovered from its printed form, and two such
  references print alike only when they are equal.
\<close>

theorem TableRef_roundtrip:
  assumes "CHR ''.'' \<notin> set (tr_Name t)" and "CHR ''.'' \<notin> set (tr_Name u)"
  shows "ParseTableRef (TableRef_String t) = t
    \<and> (TableRef_String t = TableRef_String u \<longleftrightarrow> t = u)"
  using ParseTableRef_String [OF assms(1)] ParseTableRef_String [OF assms(2)] by metis

theorem TableRef_roundtrip_witness:
  "ParseTableRef (TableRef_String \<lparr>tr_Schema = ''a.b'', tr_Name = ''t''\<rparr>)
   = \<lparr>tr_Schema = ''a.b'', tr_Name = ''t''\<rparr>"
  using TableRef_roundtrip
    [of "\<lparr>tr_Schema = ''a.b'', tr_Name = ''t''\<rparr>" "\<lparr>tr_Schema = ''a.b'', tr_Name = ''t''\<rparr>"]
  by simp

section \<open>Protection modes\<close>

definition ProtectNone :: string where "ProtectNone = ''none''"
definition ProtectTokenize :: string where "ProtectTokenize = ''tokenize''"
definition ProtectEncrypt :: string where "ProtectEncrypt = ''encrypt''"
definition ProtectRedact :: string where "ProtectRedact = ''redact''"

lemmas protect_defs =
  ProtectNone_def ProtectTokenize_def ProtectEncrypt_def ProtectRedact_def

definition Protection_Valid :: "string \<Rightarrow> bool" where
  "Protection_Valid p =
     (p = ProtectNone \<or> p = ProtectTokenize \<or> p = ProtectEncrypt \<or> p = ProtectRedact)"

definition Deterministic :: "string \<Rightarrow> bool" where
  "Deterministic p = (p = ProtectNone \<or> p = ProtectTokenize)"

section \<open>Column and table specifications\<close>

record column_spec =
  cs_Name :: string
  cs_TargetName :: string
  cs_Type :: string
  cs_Protect :: string
  cs_Nullable :: bool
  cs_TrimTrailingSpace :: bool
  cs_Scale :: int

definition cs_Target :: "column_spec \<Rightarrow> string" where
  "cs_Target c = (if cs_TargetName c \<noteq> '''' then cs_TargetName c else cs_Name c)"

record table_spec =
  ts_Source :: table_ref
  ts_Target :: table_ref
  ts_PrimaryKey :: "string list"
  ts_Columns :: "column_spec list"
  ts_ChunkColumn :: string
  ts_ChunkSize :: int
  ts_ReconcileIntervalSeconds :: int
  ts_Exclude :: string

definition ts_Key :: "table_spec \<Rightarrow> string" where
  "ts_Key t =
     (if ts_ChunkColumn t \<noteq> '''' then ts_ChunkColumn t
      else case ts_PrimaryKey t of k # _ \<Rightarrow> k | [] \<Rightarrow> '''')"

definition ColumnNames :: "table_spec \<Rightarrow> string list" where
  "ColumnNames t = map cs_Name (ts_Columns t)"

definition TargetColumnNames :: "table_spec \<Rightarrow> string list" where
  "TargetColumnNames t = map cs_Target (ts_Columns t)"

definition ts_Column :: "table_spec \<Rightarrow> string \<Rightarrow> column_spec option" where
  "ts_Column t name = find (\<lambda>c. cs_Name c = name) (ts_Columns t)"

definition ProtectedColumns :: "table_spec \<Rightarrow> column_spec list" where
  "ProtectedColumns t = filter (\<lambda>c. cs_Protect c \<noteq> '''' \<and> cs_Protect c \<noteq> ProtectNone) (ts_Columns t)"

definition ComparableColumns :: "table_spec \<Rightarrow> column_spec list" where
  "ComparableColumns t =
     filter (\<lambda>c. \<not> (cs_Protect c = ProtectEncrypt \<or> cs_Protect c = ProtectRedact)) (ts_Columns t)"

section \<open>Validation\<close>

datatype spec_error =
    MissingSourceName
  | MissingTargetName table_ref
  | PrimaryKeyRequired table_ref
  | NoColumnsDeclared table_ref
  | EmptyColumnName table_ref
  | DuplicateColumn table_ref string
  | DuplicateTargetColumn table_ref string
  | UnknownProtection table_ref string string
  | KeyNotInColumns table_ref string
  | KeyNotDeterministic table_ref string string
  | ChunkNotInColumns table_ref string
  | NegativeChunkSize table_ref
  | PlanHasNoTables string
  | DuplicateTable table_ref

text \<open>The column loop: \<open>seen\<close> and \<open>targets\<close> are the two sets the code builds up.\<close>

fun check_columns ::
  "table_ref \<Rightarrow> string list \<Rightarrow> string list \<Rightarrow> column_spec list \<Rightarrow> spec_error option" where
  "check_columns src seen targets [] = None"
| "check_columns src seen targets (c # cs) =
     (if cs_Name c = '''' then Some (EmptyColumnName src)
      else if cs_Name c \<in> set seen then Some (DuplicateColumn src (cs_Name c))
      else if cs_Target c \<in> set targets then Some (DuplicateTargetColumn src (cs_Target c))
      else if cs_Protect c \<noteq> '''' \<and> \<not> Protection_Valid (cs_Protect c)
        then Some (UnknownProtection src (cs_Name c) (cs_Protect c))
      else check_columns src (cs_Name c # seen) (cs_Target c # targets) cs)"

fun check_keys :: "table_spec \<Rightarrow> string list \<Rightarrow> spec_error option" where
  "check_keys t [] = None"
| "check_keys t (pk # pks) =
     (case ts_Column t pk of
        None \<Rightarrow> Some (KeyNotInColumns (ts_Source t) pk)
      | Some col \<Rightarrow>
          if \<not> Deterministic (cs_Protect col) \<and> cs_Protect col \<noteq> ''''
          then Some (KeyNotDeterministic (ts_Source t) pk (cs_Protect col))
          else check_keys t pks)"

definition TableSpec_Validate :: "table_spec \<Rightarrow> spec_error option" where
  "TableSpec_Validate t =
     (if tr_Name (ts_Source t) = '''' then Some MissingSourceName
      else if tr_Name (ts_Target t) = '''' then Some (MissingTargetName (ts_Source t))
      else if ts_PrimaryKey t = [] then Some (PrimaryKeyRequired (ts_Source t))
      else if ts_Columns t = [] then Some (NoColumnsDeclared (ts_Source t))
      else case check_columns (ts_Source t) [] [] (ts_Columns t) of
        Some e \<Rightarrow> Some e
      | None \<Rightarrow>
        (case check_keys t (ts_PrimaryKey t) of
           Some e \<Rightarrow> Some e
         | None \<Rightarrow>
           if ts_Key t \<noteq> '''' \<and> ts_Column t (ts_Key t) = None
             then Some (ChunkNotInColumns (ts_Source t) (ts_Key t))
           else if ts_ChunkSize t < 0 then Some (NegativeChunkSize (ts_Source t))
           else None))"

record plan =
  pl_Name :: string
  pl_Tables :: "table_spec list"

fun check_tables :: "string list \<Rightarrow> table_spec list \<Rightarrow> spec_error option" where
  "check_tables seen [] = None"
| "check_tables seen (t # ts) =
     (case TableSpec_Validate t of
        Some e \<Rightarrow> Some e
      | None \<Rightarrow>
          if TableRef_String (ts_Source t) \<in> set seen then Some (DuplicateTable (ts_Source t))
          else check_tables (TableRef_String (ts_Source t) # seen) ts)"

definition Plan_Validate :: "plan \<Rightarrow> spec_error option" where
  "Plan_Validate p =
     (if pl_Tables p = [] then Some (PlanHasNoTables (pl_Name p))
      else check_tables [] (pl_Tables p))"

definition Plan_Table :: "plan \<Rightarrow> table_ref \<Rightarrow> table_spec option" where
  "Plan_Table p ref =
     (case find (\<lambda>t. ts_Source t = ref) (pl_Tables p) of
        Some t \<Rightarrow> Some t
      | None \<Rightarrow>
          find (\<lambda>t. tr_Name (ts_Source t) = tr_Name ref
                  \<and> (tr_Schema ref = '''' \<or> tr_Schema (ts_Source t) = '''')) (pl_Tables p))"

definition SortedTableNames :: "plan \<Rightarrow> string list" where
  "SortedTableNames p = sort (map (\<lambda>t. TableRef_String (ts_Source t)) (pl_Tables p))"

section \<open>What validation establishes\<close>

definition columns_ok :: "column_spec list \<Rightarrow> bool" where
  "columns_ok cs \<longleftrightarrow> distinct (map cs_Name cs) \<and> distinct (map cs_Target cs)
     \<and> '''' \<notin> set (map cs_Name cs)
     \<and> (\<forall>c \<in> set cs. cs_Protect c = '''' \<or> Protection_Valid (cs_Protect c))"

definition well_formed :: "table_spec \<Rightarrow> bool" where
  "well_formed t \<longleftrightarrow>
     tr_Name (ts_Source t) \<noteq> '''' \<and> tr_Name (ts_Target t) \<noteq> ''''
     \<and> ts_PrimaryKey t \<noteq> [] \<and> ts_Columns t \<noteq> [] \<and> columns_ok (ts_Columns t)
     \<and> (\<forall>pk \<in> set (ts_PrimaryKey t). \<exists>c. ts_Column t pk = Some c
          \<and> (Deterministic (cs_Protect c) \<or> cs_Protect c = ''''))
     \<and> (ts_Key t \<noteq> '''' \<longrightarrow> ts_Column t (ts_Key t) \<noteq> None)
     \<and> 0 \<le> ts_ChunkSize t"

lemma check_columns_None:
  "check_columns src seen targets cs = None \<longleftrightarrow>
     columns_ok cs \<and> set (map cs_Name cs) \<inter> set seen = {}
     \<and> set (map cs_Target cs) \<inter> set targets = {}"
  by (induction cs arbitrary: seen targets) (auto simp: columns_ok_def)

lemma check_keys_None:
  "check_keys t pks = None \<longleftrightarrow>
     (\<forall>pk \<in> set pks. \<exists>c. ts_Column t pk = Some c
        \<and> (Deterministic (cs_Protect c) \<or> cs_Protect c = ''''))"
  by (induction pks) (auto split: option.splits)

lemma TableSpec_Validate_None: "TableSpec_Validate t = None \<longleftrightarrow> well_formed t"
proof -
  have "TableSpec_Validate t = None \<longleftrightarrow>
      tr_Name (ts_Source t) \<noteq> '''' \<and> tr_Name (ts_Target t) \<noteq> ''''
      \<and> ts_PrimaryKey t \<noteq> [] \<and> ts_Columns t \<noteq> []
      \<and> check_columns (ts_Source t) [] [] (ts_Columns t) = None
      \<and> check_keys t (ts_PrimaryKey t) = None
      \<and> (ts_Key t \<noteq> '''' \<longrightarrow> ts_Column t (ts_Key t) \<noteq> None) \<and> 0 \<le> ts_ChunkSize t"
    by (simp add: TableSpec_Validate_def split: option.splits)
  then show ?thesis
    by (simp add: check_columns_None check_keys_None well_formed_def)
qed

lemma ts_Column_Some:
  "ts_Column t n = Some c \<Longrightarrow> c \<in> set (ts_Columns t) \<and> cs_Name c = n"
  by (auto simp: ts_Column_def find_Some_iff)

lemma well_formed_key_comparable:
  assumes "well_formed t" and "pk \<in> set (ts_PrimaryKey t)"
  shows "\<exists>c \<in> set (ComparableColumns t). cs_Name c = pk"
proof -
  from assms obtain c where c: "ts_Column t pk = Some c"
    and det: "Deterministic (cs_Protect c) \<or> cs_Protect c = ''''"
    by (auto simp: well_formed_def)
  from ts_Column_Some [OF c] det show ?thesis
    by (auto simp: ComparableColumns_def Deterministic_def protect_defs intro!: bexI [of _ c])
qed

text \<open>
  validation accepts a table specification exactly when it is well formed: named source
  and target, a primary key, distinct non-empty column names, distinct target names, known
  protection modes, every key column declared and deterministically protected, the chunk column
  declared and the chunk size not negative. Every key column then takes part in the checksums.
\<close>

theorem TableSpec_Validate_iff:
  "(TableSpec_Validate t = None \<longleftrightarrow> well_formed t)
   \<and> (TableSpec_Validate t = None \<longrightarrow>
        set (ts_PrimaryKey t) \<subseteq> cs_Name ` set (ComparableColumns t))"
  using well_formed_key_comparable [of t] by (auto simp: TableSpec_Validate_None)

definition demo_column :: "string \<Rightarrow> column_spec" where
  "demo_column n = \<lparr>cs_Name = n, cs_TargetName = '''', cs_Type = ''string'',
     cs_Protect = ProtectNone, cs_Nullable = False, cs_TrimTrailingSpace = False, cs_Scale = 0\<rparr>"

definition demo_spec :: table_spec where
  "demo_spec = \<lparr>ts_Source = \<lparr>tr_Schema = ''app'', tr_Name = ''accounts''\<rparr>,
     ts_Target = \<lparr>tr_Schema = ''app'', tr_Name = ''accounts''\<rparr>,
     ts_PrimaryKey = [''id''], ts_Columns = [demo_column ''id'', demo_column ''balance''],
     ts_ChunkColumn = '''', ts_ChunkSize = 0, ts_ReconcileIntervalSeconds = 0, ts_Exclude = ''''\<rparr>"

definition demo_plan :: plan where
  "demo_plan = \<lparr>pl_Name = ''demo'', pl_Tables = [demo_spec]\<rparr>"

lemmas demo_defs = demo_spec_def demo_column_def demo_plan_def

lemma demo_spec_valid: "TableSpec_Validate demo_spec = None"
  by code_simp

theorem TableSpec_Validate_iff_witness:
  "well_formed demo_spec
   \<and> set (ts_PrimaryKey demo_spec) \<subseteq> cs_Name ` set (ComparableColumns demo_spec)"
  using TableSpec_Validate_iff [of demo_spec] demo_spec_valid by blast

lemma check_tables_None:
  "check_tables seen ts = None \<longleftrightarrow>
     (\<forall>t \<in> set ts. well_formed t) \<and> distinct (map (\<lambda>t. TableRef_String (ts_Source t)) ts)
     \<and> set (map (\<lambda>t. TableRef_String (ts_Source t)) ts) \<inter> set seen = {}"
  by (induction ts arbitrary: seen)
     (auto simp: TableSpec_Validate_None [symmetric] split: option.splits)

lemma Plan_Validate_distinct:
  assumes "Plan_Validate p = None"
  shows "(\<forall>t \<in> set (pl_Tables p). well_formed t)
    \<and> distinct (map (\<lambda>t. TableRef_String (ts_Source t)) (pl_Tables p))"
  using assms by (auto simp: Plan_Validate_def check_tables_None split: if_splits)

lemma find_distinct:
  assumes "distinct (map f xs)" and "x \<in> set xs"
  shows "find (\<lambda>y. f y = f x) xs = Some x"
  using assms by (induction xs) auto

lemma Plan_Table_source:
  assumes "Plan_Validate p = None" and "t \<in> set (pl_Tables p)"
  shows "Plan_Table p (ts_Source t) = Some t"
proof -
  have "distinct (map ts_Source (pl_Tables p))"
    using Plan_Validate_distinct [OF assms(1)]
      distinct_map [of TableRef_String "map ts_Source (pl_Tables p)"]
    by (simp add: comp_def)
  then show ?thesis
    using assms(2) find_distinct [of ts_Source "pl_Tables p" t] by (simp add: Plan_Table_def)
qed

lemma Plan_Table_in: "Plan_Table p ref = Some t \<Longrightarrow> t \<in> set (pl_Tables p)"
  by (auto simp: Plan_Table_def find_Some_iff split: option.splits)

text \<open>
  in a validated plan the lookup by source reference is total and exact: every table is
  found under its own reference, and whatever is found is a well-formed table of the plan with
  the name that was asked for.
\<close>

theorem Plan_Table_lookup:
  assumes "Plan_Validate p = None"
  shows "(\<forall>t \<in> set (pl_Tables p). Plan_Table p (ts_Source t) = Some t)
    \<and> (\<forall>ref t. Plan_Table p ref = Some t \<longrightarrow>
          well_formed t \<and> tr_Name (ts_Source t) = tr_Name ref)"
proof -
  have "tr_Name (ts_Source t) = tr_Name ref" if "Plan_Table p ref = Some t" for ref t
    using that by (auto simp: Plan_Table_def find_Some_iff split: option.splits)
  then show ?thesis
    using Plan_Table_source [OF assms] Plan_Table_in Plan_Validate_distinct [OF assms] by blast
qed

lemma demo_plan_valid: "Plan_Validate demo_plan = None"
  by code_simp

theorem Plan_Table_lookup_witness:
  "Plan_Table demo_plan \<lparr>tr_Schema = ''app'', tr_Name = ''accounts''\<rparr> = Some demo_spec"
  using Plan_Table_lookup [OF demo_plan_valid] by (simp add: demo_plan_def demo_spec_def)

end
