(* ===== verification/Event.thy ===== *)
theory Event
  imports RowKey TableSpec
begin

text \<open>
  Change events: \<open>internal/model/event.go\<close>. The operation is a Go string, as in the source, so
  an event can carry an operation the platform does not know; validation rejects it.
\<close>

section \<open>Operations\<close>

definition OpCreate :: string where "OpCreate = ''c''"
definition OpUpdate :: string where "OpUpdate = ''u''"
definition OpDelete :: string where "OpDelete = ''d''"
definition OpRead :: string where "OpRead = ''r''"
definition OpTruncate :: string where "OpTruncate = ''t''"

lemmas op_defs = OpCreate_def OpUpdate_def OpDelete_def OpRead_def OpTruncate_def

definition Op_Valid :: "string \<Rightarrow> bool" where
  "Op_Valid o' = (o' = OpCreate \<or> o' = OpUpdate \<or> o' = OpDelete \<or> o' = OpRead \<or> o' = OpTruncate)"

definition IsUpsert :: "string \<Rightarrow> bool" where
  "IsUpsert o' = (o' = OpCreate \<or> o' = OpUpdate \<or> o' = OpRead)"

lemma op_cases:
  "Op_Valid o' \<longleftrightarrow> IsUpsert o' \<or> o' = OpDelete \<or> o' = OpTruncate"
  by (auto simp: Op_Valid_def IsUpsert_def)

lemma not_upsert_delete [simp]: "\<not> IsUpsert OpDelete" and not_upsert_truncate [simp]: "\<not> IsUpsert OpTruncate"
  and truncate_neq_delete [simp]: "OpTruncate \<noteq> OpDelete"
  by (simp_all add: IsUpsert_def op_defs)

section \<open>Events\<close>

record source_meta =
  sm_LSN :: uint64
  sm_TxID :: string
  sm_CommitTS :: gotime
  sm_Snapshot :: bool
  sm_Connector :: string

record change_event =
  ev_Table :: table_ref
  ev_Op :: string
  ev_Key :: row_key
  ev_Before :: row
  ev_After :: row
  ev_Source :: source_meta
  ev_Ingested :: gotime
  ev_Topic :: string
  ev_Partition :: int
  ev_Offset :: int
  ev_Raw :: string

abbreviation ev_LSN :: "change_event \<Rightarrow> uint64" where
  "ev_LSN e \<equiv> sm_LSN (ev_Source e)"

definition ev_Values :: "change_event \<Rightarrow> row" where
  "ev_Values e =
     (if ev_Op e = OpDelete
      then (if length (ev_After e) > 0 then ev_After e else ev_Before e)
      else if length (ev_After e) > 0 then ev_After e
      else ev_Before e)"

text \<open>\<open>Time.Sub\<close> saturates at the ends of \<open>int64\<close>.\<close>

definition time_Sub :: "gotime \<Rightarrow> gotime \<Rightarrow> duration" where
  "time_Sub a b = max min_int64 (min max_int64 (a - b))"

definition Lag :: "change_event \<Rightarrow> duration" where
  "Lag e =
     (if sm_CommitTS (ev_Source e) = 0 \<or> ev_Ingested e = 0 then 0
      else let d = time_Sub (ev_Ingested e) (sm_CommitTS (ev_Source e))
           in if d > 0 then d else 0)"

datatype event_error =
    InvalidOp string
  | NoTableName
  | NoPrimaryKey table_ref
  | NoRowImage string table_ref

definition Event_Validate :: "change_event \<Rightarrow> event_error option" where
  "Event_Validate e =
     (if \<not> Op_Valid (ev_Op e) then Some (InvalidOp (ev_Op e))
      else if tr_Name (ev_Table e) = '''' then Some NoTableName
      else if ev_Op e \<noteq> OpTruncate \<and> key_Len (ev_Key e) = 0 then Some (NoPrimaryKey (ev_Table e))
      else if IsUpsert (ev_Op e) \<and> length (ev_Values e) = 0
        then Some (NoRowImage (ev_Op e) (ev_Table e))
      else None)"

lemma Event_Validate_None:
  "Event_Validate e = None \<longleftrightarrow>
     tr_Name (ev_Table e) \<noteq> ''''
     \<and> (IsUpsert (ev_Op e) \<and> key_Len (ev_Key e) \<noteq> 0 \<and> ev_Values e \<noteq> []
        \<or> ev_Op e = OpDelete \<and> key_Len (ev_Key e) \<noteq> 0 \<or> ev_Op e = OpTruncate)"
  by (auto simp: Event_Validate_def op_cases)

end
