(* ===== verification/Batch.thy ===== *)
theory Batch
  imports Event "HOL-Library.Sublist"
begin

text \<open>
  The pure part of the applier, \<open>internal/sink/applier.go\<close>: reducing a batch to one event per row
  (\<open>Coalesce\<close>), grouping, splitting and chunking it, and the offsets it accounts for
  (\<open>HighWaterMarks\<close>). Where the code guards against nil pointers the model has \<open>option\<close>.
\<close>

section \<open>Coalescing\<close>

record slot =
  sl_ev :: change_event
  sl_order :: nat

definition coalesce_key :: "change_event \<Rightarrow> string" where
  "coalesce_key ev = TableRef_String (ev_Table ev) @ CHR 0x00 # Canonical (ev_Key ev)"

definition coalesce_step ::
  "nat \<times> slot gomap \<Rightarrow> change_event option \<Rightarrow> nat \<times> slot gomap" where
  "coalesce_step acc p =
     (case acc of (i, latest) \<Rightarrow>
       (Suc i,
        case p of
          None \<Rightarrow> latest
        | Some ev \<Rightarrow>
            (let k = coalesce_key ev in
             case map_of latest k of
               None \<Rightarrow> AList.update k \<lparr>sl_ev = ev, sl_order = i\<rparr> latest
             | Some prev \<Rightarrow>
                 if ev_LSN ev > ev_LSN (sl_ev prev)
                    \<or> (ev_LSN ev = ev_LSN (sl_ev prev) \<and> ev_Offset ev \<ge> ev_Offset (sl_ev prev))
                 then AList.update k \<lparr>sl_ev = ev, sl_order = i\<rparr> latest
                 else latest)))"

definition Coalesce :: "change_event option list \<Rightarrow> change_event option list" where
  "Coalesce events =
     (if length events \<le> 1 then events
      else let latest = snd (foldl coalesce_step (0, []) events);
               out = sort_key sl_order (map snd latest)
           in map (\<lambda>s. Some (sl_ev s)) out)"

text \<open>Newer by LSN, ties by stream offset.\<close>

definition dominates :: "change_event \<Rightarrow> change_event \<Rightarrow> bool" where
  "dominates a b \<longleftrightarrow> ev_LSN b < ev_LSN a \<or> ev_LSN b = ev_LSN a \<and> ev_Offset b \<le> ev_Offset a"

lemma dominates_cond:
  "(ev_LSN b < ev_LSN a \<or> ev_LSN a = ev_LSN b \<and> ev_Offset b \<le> ev_Offset a) = dominates a b"
  by (auto simp: dominates_def)

lemma dominates_refl [simp]: "dominates a a"
  and dominates_trans: "dominates a b \<Longrightarrow> dominates b c \<Longrightarrow> dominates a c"
  and dominates_total: "dominates a b \<or> dominates b a"
  by (auto simp: dominates_def)

text \<open>The invariant of the loop over the events \<open>xs\<close> seen so far.\<close>

definition slot_ok :: "change_event option list \<Rightarrow> string \<Rightarrow> slot \<Rightarrow> bool" where
  "slot_ok xs k s \<longleftrightarrow> sl_order s < length xs \<and> xs ! sl_order s = Some (sl_ev s)
     \<and> coalesce_key (sl_ev s) = k
     \<and> (\<forall>e. Some e \<in> set xs \<longrightarrow> coalesce_key e = k \<longrightarrow> dominates (sl_ev s) e)"

definition coalesce_inv :: "change_event option list \<Rightarrow> nat \<times> slot gomap \<Rightarrow> bool" where
  "coalesce_inv xs acc \<longleftrightarrow>
     fst acc = length xs \<and> distinct (map fst (snd acc))
     \<and> (\<forall>k s. map_of (snd acc) k = Some s \<longrightarrow> slot_ok xs k s)
     \<and> (\<forall>e. Some e \<in> set xs \<longrightarrow> (\<exists>s. map_of (snd acc) (coalesce_key e) = Some s))"

lemma slot_ok_old:
  "slot_ok xs k s \<Longrightarrow> (\<And>e. p = Some e \<Longrightarrow> coalesce_key e = k \<Longrightarrow> dominates (sl_ev s) e)
   \<Longrightarrow> slot_ok (xs @ [p]) k s"
  by (auto simp: slot_ok_def nth_append)

lemma slot_ok_new:
  "(\<And>e. Some e \<in> set xs \<Longrightarrow> coalesce_key e = coalesce_key ev \<Longrightarrow> dominates ev e)
   \<Longrightarrow> slot_ok (xs @ [Some ev]) (coalesce_key ev) \<lparr>sl_ev = ev, sl_order = length xs\<rparr>"
  by (auto simp: slot_ok_def)

lemma coalesce_inv_put:
  assumes inv: "coalesce_inv xs (i, latest)"
    and newest: "\<And>e. Some e \<in> set xs \<Longrightarrow> coalesce_key e = coalesce_key ev \<Longrightarrow> dominates ev e"
  shows "coalesce_inv (xs @ [Some ev])
    (Suc i, AList.update (coalesce_key ev) \<lparr>sl_ev = ev, sl_order = i\<rparr> latest)"
proof -
  have i: "i = length xs" using inv by (simp add: coalesce_inv_def)
  have "slot_ok (xs @ [Some ev]) k s"
    if "((map_of latest)(coalesce_key ev \<mapsto> \<lparr>sl_ev = ev, sl_order = i\<rparr>)) k = Some s" for k s
  proof (cases "k = coalesce_key ev")
    case True
    have "slot_ok (xs @ [Some ev]) (coalesce_key ev) \<lparr>sl_ev = ev, sl_order = length xs\<rparr>"
      by (rule slot_ok_new) (rule newest)
    with True that i show ?thesis by auto
  next
    case False
    with that inv have "slot_ok xs k s" by (simp add: coalesce_inv_def)
    with False show ?thesis by (intro slot_ok_old) auto
  qed
  then show ?thesis
    using inv by (auto simp: coalesce_inv_def update_conv' distinct_update)
qed

lemma coalesce_inv_keep:
  assumes inv: "coalesce_inv xs (i, latest)"
    and old: "\<And>ev. p = Some ev \<Longrightarrow> \<exists>s. map_of latest (coalesce_key ev) = Some s \<and> dominates (sl_ev s) ev"
  shows "coalesce_inv (xs @ [p]) (Suc i, latest)"
proof -
  have "slot_ok (xs @ [p]) k s" if s: "map_of latest k = Some s" for k s
  proof (rule slot_ok_old)
    show "slot_ok xs k s" using inv s by (simp add: coalesce_inv_def)
    show "dominates (sl_ev s) e" if "p = Some e" "coalesce_key e = k" for e
      using old [OF that(1)] that(2) s by simp
  qed
  moreover have "\<exists>s. map_of latest (coalesce_key e) = Some s" if "Some e \<in> set (xs @ [p])" for e
    using that inv old [of e] by (auto simp: coalesce_inv_def)
  ultimately show ?thesis using inv by (simp add: coalesce_inv_def)
qed

lemma coalesce_inv_step:
  assumes "coalesce_inv xs acc"
  shows "coalesce_inv (xs @ [p]) (coalesce_step acc p)"
proof (cases acc)
  case (Pair i latest)
  then have inv: "coalesce_inv xs (i, latest)" using assms by simp
  show ?thesis
  proof (cases p)
    case None
    have "coalesce_inv (xs @ [p]) (Suc i, latest)"
      by (rule coalesce_inv_keep [OF inv]) (simp add: None)
    then show ?thesis using Pair None by (simp add: coalesce_step_def)
  next
    case (Some ev)
    show ?thesis
    proof (cases "map_of latest (coalesce_key ev)")
      case None
      then have none: "\<not> (Some e \<in> set xs \<and> coalesce_key e = coalesce_key ev)" for e
        using inv by (auto simp: coalesce_inv_def)
      have "coalesce_inv (xs @ [Some ev])
          (Suc i, AList.update (coalesce_key ev) \<lparr>sl_ev = ev, sl_order = i\<rparr> latest)"
        by (rule coalesce_inv_put [OF inv]) (use none in blast)
      then show ?thesis using None Some Pair by (simp add: coalesce_step_def)
    next
      case prev: (Some s)
      then have ok: "slot_ok xs (coalesce_key ev) s" using inv by (simp add: coalesce_inv_def)
      show ?thesis
      proof (cases "dominates ev (sl_ev s)")
        case True
        have "coalesce_inv (xs @ [Some ev])
            (Suc i, AList.update (coalesce_key ev) \<lparr>sl_ev = ev, sl_order = i\<rparr> latest)"
          by (rule coalesce_inv_put [OF inv])
             (use ok True in \<open>auto simp: slot_ok_def intro: dominates_trans\<close>)
        then show ?thesis using True prev Some Pair by (simp add: coalesce_step_def dominates_cond)
      next
        case False
        then have "dominates (sl_ev s) ev" using dominates_total by blast
        then have "coalesce_inv (xs @ [p]) (Suc i, latest)"
          by (intro coalesce_inv_keep [OF inv]) (auto simp: Some prev)
        then show ?thesis using False prev Some Pair by (simp add: coalesce_step_def dominates_cond)
      qed
    qed
  qed
qed

lemma coalesce_inv_fold: "coalesce_inv xs (foldl coalesce_step (0, []) xs)"
proof (induction xs rule: rev_induct)
  case Nil
  show ?case by (simp add: coalesce_inv_def)
next
  case (snoc x xs)
  then show ?case using coalesce_inv_step [OF snoc] by simp
qed

text \<open>Reading a list at strictly increasing positions gives a subsequence of it.\<close>

lemma zip_upt_conv: "zip xs [0..<length xs] = map (\<lambda>i. (xs ! i, i)) [0..<length xs]"
  by (rule nth_equalityI) simp_all

lemma subseq_by_index:
  assumes "sorted_wrt (<) js" and "\<forall>i \<in> set js. i < length xs"
  shows "subseq (map (\<lambda>i. xs ! i) js) xs"
proof -
  have "js = filter (\<lambda>i. i \<in> set js) [0..<length xs]"
    by (rule sorted_distinct_set_unique)
       (use assms in \<open>auto simp: strict_sorted_iff sorted_wrt_filter\<close>)
  then have "map (\<lambda>i. xs ! i) js = nths xs (set js)"
    by (simp add: nths_def zip_upt_conv filter_map comp_def)
  then show ?thesis by (auto simp: subseq_conv_nths)
qed

definition keys_of :: "change_event option list \<Rightarrow> string set" where
  "keys_of events = {k. \<exists>e. Some e \<in> set events \<and> coalesce_key e = k}"

text \<open>The surviving slots, in the order in which they are emitted.\<close>

definition survivors :: "change_event option list \<Rightarrow> slot list" where
  "survivors events = sort_key sl_order (map snd (snd (foldl coalesce_step (0, []) events)))"

lemma Coalesce_survivors:
  "2 \<le> length events \<Longrightarrow> Coalesce events = map (\<lambda>s. Some (sl_ev s)) (survivors events)"
  by (simp add: Coalesce_def survivors_def Let_def)

lemma survivors_slot:
  "s \<in> set (survivors events) \<longleftrightarrow>
     (\<exists>k. map_of (snd (foldl coalesce_step (0, []) events)) k = Some s)"
proof -
  let ?l = "snd (foldl coalesce_step (0, []) events)"
  have d: "distinct (map fst ?l)" using coalesce_inv_fold [of events] by (simp add: coalesce_inv_def)
  have "s \<in> set (survivors events) \<longleftrightarrow> (\<exists>k. (k, s) \<in> set ?l)"
    by (force simp: survivors_def)
  then show ?thesis using map_of_eq_Some_iff [OF d] by simp
qed

lemma survivors_ok:
  assumes "s \<in> set (survivors events)"
  shows "slot_ok events (coalesce_key (sl_ev s)) s
    \<and> map_of (snd (foldl coalesce_step (0, []) events)) (coalesce_key (sl_ev s)) = Some s"
proof -
  obtain k where k: "map_of (snd (foldl coalesce_step (0, []) events)) k = Some s"
    using assms by (auto simp: survivors_slot)
  then have "slot_ok events k s"
    using coalesce_inv_fold [of events] by (simp add: coalesce_inv_def)
  then show ?thesis using k by (auto simp: slot_ok_def)
qed

lemma survivors_key_inj: "inj_on (\<lambda>s. coalesce_key (sl_ev s)) (set (survivors events))"
  by (rule inj_onI) (metis survivors_ok option.inject)

lemma survivors_order_inj: "inj_on sl_order (set (survivors events))"
proof (rule inj_onI)
  fix s t
  assume st: "s \<in> set (survivors events)" "t \<in> set (survivors events)" "sl_order s = sl_order t"
  then have "sl_ev s = sl_ev t"
    using survivors_ok [of s events] survivors_ok [of t events] by (auto simp: slot_ok_def)
  then show "s = t" using survivors_key_inj st by (auto dest: inj_onD)
qed

lemma survivors_distinct: "distinct (survivors events)"
proof -
  let ?l = "snd (foldl coalesce_step (0, []) events)"
  have d: "distinct (map fst ?l)"
    using coalesce_inv_fold [of events] by (simp add: coalesce_inv_def)
  have "fst p = coalesce_key (sl_ev (snd p))" if "p \<in> set ?l" for p
  proof -
    have "map_of ?l (fst p) = Some (snd p)" using that d by simp
    then have "slot_ok events (fst p) (snd p)"
      using coalesce_inv_fold [of events] by (simp add: coalesce_inv_def)
    then show ?thesis by (simp add: slot_ok_def)
  qed
  then have "map fst ?l = map (\<lambda>s. coalesce_key (sl_ev s)) (map snd ?l)" by simp
  with d have "distinct (map snd ?l)" using distinct_map by metis
  then show ?thesis by (simp add: survivors_def)
qed

lemma survivors_sorted: "sorted_wrt (<) (map sl_order (survivors events))"
proof -
  have "sorted (map sl_order (survivors events))" by (simp add: survivors_def)
  moreover have "distinct (map sl_order (survivors events))"
    using survivors_distinct survivors_order_inj by (simp add: distinct_map)
  ultimately show ?thesis by (simp add: strict_sorted_iff)
qed

lemma Coalesce_subseq: "subseq (Coalesce events) events"
proof (cases "2 \<le> length events")
  case True
  have "map (\<lambda>i. events ! i) (map sl_order (survivors events)) = Coalesce events"
    using survivors_ok by (auto simp: Coalesce_survivors [OF True] slot_ok_def)
  moreover have "\<forall>i \<in> set (map sl_order (survivors events)). i < length events"
    using survivors_ok by (auto simp: slot_ok_def)
  ultimately show ?thesis using subseq_by_index [OF survivors_sorted] by metis
next
  case False
  then show ?thesis by (simp add: Coalesce_def)
qed

lemma Coalesce_set: "set (Coalesce events) \<subseteq> set events"
  using Coalesce_subseq [of events] by (auto simp: subseq_conv_nths dest: in_set_nthsD)

lemma Coalesce_keys: "keys_of (Coalesce events) = keys_of events"
proof (cases "2 \<le> length events")
  case True
  have "keys_of (Coalesce events) = (\<lambda>s. coalesce_key (sl_ev s)) ` set (survivors events)"
    by (auto simp: keys_of_def Coalesce_survivors [OF True])
  also have "\<dots> = keys_of events"
  proof (intro equalityI subsetI)
    fix k assume "k \<in> (\<lambda>s. coalesce_key (sl_ev s)) ` set (survivors events)"
    then obtain s where "s \<in> set (survivors events)" "k = coalesce_key (sl_ev s)" by auto
    then have "Some (sl_ev s) \<in> set events"
      using survivors_ok [of s events] by (metis slot_ok_def nth_mem)
    then show "k \<in> keys_of events" using \<open>k = _\<close> by (auto simp: keys_of_def)
  next
    fix k assume "k \<in> keys_of events"
    then obtain e s where "map_of (snd (foldl coalesce_step (0, []) events)) k = Some s"
      using coalesce_inv_fold [of events] by (auto simp: keys_of_def coalesce_inv_def)
    moreover from this have "slot_ok events k s"
      using coalesce_inv_fold [of events] by (simp add: coalesce_inv_def)
    ultimately show "k \<in> (\<lambda>s. coalesce_key (sl_ev s)) ` set (survivors events)"
      by (intro image_eqI [of _ _ s]) (auto simp: slot_ok_def survivors_slot)
  qed
  finally show ?thesis .
next
  case False
  then show ?thesis by (simp add: Coalesce_def)
qed

lemma Coalesce_distinct:
  assumes "Coalesce events = map Some evs"
  shows "distinct (map coalesce_key evs)"
proof (cases "2 \<le> length events")
  case True
  then have "map Some evs = map Some (map sl_ev (survivors events))"
    using assms by (simp add: Coalesce_survivors comp_def)
  then have "evs = map sl_ev (survivors events)"
    by (metis inj_Some inj_map_eq_map)
  then show ?thesis
    using survivors_distinct survivors_key_inj by (simp add: distinct_map comp_def)
next
  case False
  with assms have "length evs \<le> 1" by (auto simp: Coalesce_def)
  then show ?thesis by (cases evs) auto
qed

lemma Coalesce_dominates:
  assumes "Some e \<in> set (Coalesce events)" and "Some e' \<in> set events"
    and "coalesce_key e' = coalesce_key e"
  shows "dominates e e'"
proof (cases "2 \<le> length events")
  case True
  with assms(1) obtain s where "s \<in> set (survivors events)" "e = sl_ev s"
    by (auto simp: Coalesce_survivors)
  with assms(2,3) show ?thesis using survivors_ok [of s events] by (simp add: slot_ok_def)
next
  case False
  with assms(1) have "Some e \<in> set events" by (simp add: Coalesce_def)
  moreover from False obtain x where "events = [] \<or> events = [x]"
    by (cases events rule: remdups_adj.cases) auto
  ultimately have "e' = e" using assms(2) by auto
  then show ?thesis by simp
qed

text \<open>
  coalescing keeps exactly one event for every row of the batch, the newest by LSN with ties
  broken by stream offset, and keeps the survivors in their order of arrival. In particular no
  two tuples of one upsert statement carry the same row key.
\<close>

theorem Coalesce_newest_per_row:
  assumes "Coalesce events = map Some evs"
  shows "distinct (map coalesce_key evs)
    \<and> subseq (map Some evs) events
    \<and> (\<forall>e'. Some e' \<in> set events \<longrightarrow>
          (\<exists>e \<in> set evs. coalesce_key e = coalesce_key e' \<and> dominates e e'))"
proof -
  have "\<exists>e \<in> set evs. coalesce_key e = coalesce_key e' \<and> dominates e e'"
    if e': "Some e' \<in> set events" for e'
  proof -
    have "coalesce_key e' \<in> keys_of (Coalesce events)"
      unfolding Coalesce_keys using e' by (auto simp: keys_of_def)
    then obtain e where "e \<in> set evs" "coalesce_key e = coalesce_key e'"
      using assms by (auto simp: keys_of_def)
    then show ?thesis using Coalesce_dominates [of e events e'] assms e' by auto
  qed
  then show ?thesis
    using Coalesce_distinct [OF assms] Coalesce_subseq [of events] assms by simp
qed

definition demo_event :: "int \<Rightarrow> nat \<Rightarrow> int \<Rightarrow> change_event" where
  "demo_event row lsn off =
     \<lparr>ev_Table = ts_Source demo_spec, ev_Op = OpUpdate, ev_Key = NewRowKey [(''id'', GInt row)],
      ev_Before = [], ev_After = [(''id'', GInt row), (''balance'', GInt off)],
      ev_Source = \<lparr>sm_LSN = of_nat lsn, sm_TxID = [], sm_CommitTS = 0, sm_Snapshot = False,
                    sm_Connector = []\<rparr>,
      ev_Ingested = 0, ev_Topic = ''t'', ev_Partition = 0, ev_Offset = off, ev_Raw = []\<rparr>"

lemma demo_event_simps [simp]:
  "ev_Offset (demo_event r l o') = o'" "ev_LSN (demo_event r l o') = of_nat l"
  "ev_Topic (demo_event r l o') = ''t''" "ev_Partition (demo_event r l o') = 0"
  "ev_Table (demo_event r l o') = ts_Source demo_spec" "ev_Op (demo_event r l o') = OpUpdate"
  by (simp_all add: demo_event_def)

lemma demo_event_key [simp]:
  "coalesce_key (demo_event r l o') = coalesce_key (demo_event r' l' o'') \<longleftrightarrow> r = r'"
  by (simp add: coalesce_key_def demo_event_def NewRowKey_def Canonical_def mk_col_def
      canonical_cols_inj)

lemma Coalesce_demo:
  "Coalesce (map Some [demo_event 1 5 1, demo_event 2 6 2, demo_event 1 7 3, demo_event 2 4 4])
     = map Some [demo_event 2 6 2, demo_event 1 7 3]"
  by (simp add: Coalesce_def coalesce_step_def)

theorem Coalesce_newest_per_row_witness:
  "\<exists>e \<in> set [demo_event 2 6 2, demo_event 1 7 3].
     coalesce_key e = coalesce_key (demo_event 1 5 1) \<and> dominates e (demo_event 1 5 1)"
  using Coalesce_newest_per_row [OF Coalesce_demo] by (simp only: list.simps list.set) blast

section \<open>Grouping, splitting and chunking\<close>

definition group_step ::
  "change_event list gomap \<Rightarrow> change_event \<Rightarrow> change_event list gomap" where
  "group_step out ev =
     (let name = TableRef_String (ev_Table ev) in
      AList.update name ((case map_of out name of None \<Rightarrow> [] | Some es \<Rightarrow> es) @ [ev]) out)"

definition groupByTable :: "change_event list \<Rightarrow> change_event list gomap" where
  "groupByTable events = foldl group_step [] events"

lemma groupByTable_get:
  "map_of (groupByTable events) name =
     (let es = filter (\<lambda>e. TableRef_String (ev_Table e) = name) events
      in if es = [] then None else Some es)"
  unfolding groupByTable_def
proof (induction events rule: rev_induct)
  case (snoc x xs)
  then show ?case
    by (auto simp: group_step_def Let_def update_conv' split: option.splits if_splits)
qed simp

lemma groupByTable_distinct: "distinct (map fst (groupByTable events))"
  unfolding groupByTable_def
  by (induction events rule: rev_induct) (auto simp: group_step_def Let_def distinct_update)

lemma groupByTable_names:
  "set (map fst (groupByTable events)) = (TableRef_String \<circ> ev_Table) ` set events"
proof -
  have "k \<in> fst ` set (groupByTable events) \<longleftrightarrow> map_of (groupByTable events) k \<noteq> None" for k
    by (metis map_of_eq_None_iff)
  then have "k \<in> fst ` set (groupByTable events) \<longleftrightarrow> k \<in> (TableRef_String \<circ> ev_Table) ` set events" for k
    by (simp add: groupByTable_get Let_def filter_empty_conv image_iff) blast
  then show ?thesis by auto
qed

definition splitByOp :: "change_event list \<Rightarrow> change_event list \<times> change_event list" where
  "splitByOp events =
     foldl (\<lambda>(upserts, deletes) ev.
              if ev_Op ev = OpDelete then (upserts, deletes @ [ev])
              else if IsUpsert (ev_Op ev) then (upserts @ [ev], deletes)
              else (upserts, deletes)) ([], []) events"

lemma splitByOp_filter:
  "splitByOp events = (filter (\<lambda>e. IsUpsert (ev_Op e)) events, filter (\<lambda>e. ev_Op e = OpDelete) events)"
  unfolding splitByOp_def
  by (induction events rule: rev_induct) auto

fun chunks_of :: "nat \<Rightarrow> 'a list \<Rightarrow> 'a list list" where
  "chunks_of n xs =
     (if n = 0 \<or> xs = [] then [] else take n xs # chunks_of n (drop n xs))"

declare chunks_of.simps [simp del]

definition chunkEvents :: "'a list \<Rightarrow> int \<Rightarrow> 'a list list" where
  "chunkEvents events sz = chunks_of (nat (if sz \<le> 0 then 500 else sz)) events"

lemma chunks_of_concat: "0 < n \<Longrightarrow> concat (chunks_of n xs) = xs"
  by (induction n xs rule: chunks_of.induct) (subst chunks_of.simps, auto)

lemma chunks_of_length: "c \<in> set (chunks_of n xs) \<Longrightarrow> c \<noteq> [] \<and> length c \<le> n"
proof (induction n xs rule: chunks_of.induct)
  case (1 n xs)
  then show ?case by (subst (asm) (2) chunks_of.simps) (auto split: if_splits)
qed

lemma chunkEvents_concat [simp]: "concat (chunkEvents events sz) = events"
  by (simp add: chunkEvents_def chunks_of_concat)

lemma chunkEvents_length:
  "c \<in> set (chunkEvents events sz) \<Longrightarrow> c \<noteq> [] \<and> int (length c) \<le> (if sz \<le> 0 then 500 else sz)"
  using chunks_of_length by (auto simp: chunkEvents_def split: if_splits) fastforce+

section \<open>Offsets to commit\<close>

text \<open>
  The key of the map of \<open>HighWaterMarks\<close>, ordered as its sort orders positions: by topic, then
  by partition.
\<close>

datatype stream_part = Part (sp_topic: string) (sp_part: int)

instantiation stream_part :: linorder
begin

definition less_eq_stream_part :: "stream_part \<Rightarrow> stream_part \<Rightarrow> bool" where
  "less_eq_stream_part a b \<longleftrightarrow>
     (if sp_topic a \<noteq> sp_topic b then sp_topic a < sp_topic b else sp_part a \<le> sp_part b)"

definition less_stream_part :: "stream_part \<Rightarrow> stream_part \<Rightarrow> bool" where
  "less_stream_part a b \<longleftrightarrow>
     (if sp_topic a \<noteq> sp_topic b then sp_topic a < sp_topic b else sp_part a < sp_part b)"

instance
proof
  fix x y z :: stream_part
  show "(x < y) = (x \<le> y \<and> \<not> y \<le> x)"
    by (auto simp: less_stream_part_def less_eq_stream_part_def)
  show "x \<le> x" by (simp add: less_eq_stream_part_def)
  show "x \<le> z" if "x \<le> y" "y \<le> z"
    using that by (auto simp: less_eq_stream_part_def split: if_splits)
  show "x = y" if "x \<le> y" "y \<le> x"
    using that by (auto simp: less_eq_stream_part_def stream_part.expand split: if_splits)
  show "x \<le> y \<or> y \<le> x" by (auto simp: less_eq_stream_part_def)
qed

end

record position =
  po_Topic :: string
  po_Partition :: int
  po_Offset :: int
  po_LastLSN :: uint64

definition po_part :: "position \<Rightarrow> stream_part" where
  "po_part p = Part (po_Topic p) (po_Partition p)"

definition ev_part :: "change_event \<Rightarrow> stream_part" where
  "ev_part ev = Part (ev_Topic ev) (ev_Partition ev)"

definition position_of :: "change_event \<Rightarrow> position" where
  "position_of ev = \<lparr>po_Topic = ev_Topic ev, po_Partition = ev_Partition ev,
                     po_Offset = ev_Offset ev, po_LastLSN = ev_LSN ev\<rparr>"

lemma position_of_simps [simp]:
  "po_part (position_of ev) = ev_part ev" "po_Offset (position_of ev) = ev_Offset ev"
  by (simp_all add: po_part_def ev_part_def position_of_def)

definition hwm_step ::
  "(stream_part \<times> position) list \<Rightarrow> change_event option \<Rightarrow> (stream_part \<times> position) list" where
  "hwm_step best p =
     (case p of
        None \<Rightarrow> best
      | Some ev \<Rightarrow>
          if ev_Topic ev = '''' then best
          else let k = ev_part ev in
               (case map_of best k of
                  None \<Rightarrow> AList.update k (position_of ev) best
                | Some q \<Rightarrow>
                    if ev_Offset ev > po_Offset q then AList.update k (position_of ev) best
                    else best))"

definition HighWaterMarks :: "change_event option list \<Rightarrow> position list" where
  "HighWaterMarks events = sort_key po_part (map snd (foldl hwm_step [] events))"

text \<open>The events the loop counts for one partition, and its invariant there.\<close>

definition part_events :: "change_event option list \<Rightarrow> stream_part \<Rightarrow> change_event set" where
  "part_events xs k = {e. Some e \<in> set xs \<and> ev_Topic e \<noteq> '''' \<and> ev_part e = k}"

lemma part_events_snoc:
  "part_events (xs @ [p]) k = part_events xs k \<union> {e. p = Some e \<and> ev_Topic e \<noteq> '''' \<and> ev_part e = k}"
  by (auto simp: part_events_def)

fun hwm_at :: "change_event set \<Rightarrow> position option \<Rightarrow> bool" where
  "hwm_at es None \<longleftrightarrow> es = {}"
| "hwm_at es (Some p) \<longleftrightarrow> (\<exists>e \<in> es. p = position_of e) \<and> (\<forall>e \<in> es. ev_Offset e \<le> po_Offset p)"

lemma hwm_step_at:
  assumes "hwm_at (part_events xs k) (map_of best k)"
  shows "hwm_at (part_events (xs @ [p]) k) (map_of (hwm_step best p) k)"
proof (cases "\<exists>ev. p = Some ev \<and> ev_Topic ev \<noteq> '''' \<and> ev_part ev = k")
  case False
  then have "part_events (xs @ [p]) k = part_events xs k" by (auto simp: part_events_snoc)
  moreover from False have "map_of (hwm_step best p) k = map_of best k"
    by (auto simp: hwm_step_def Let_def update_conv' split: option.splits)
  ultimately show ?thesis using assms by simp
next
  case True
  then obtain ev where ev: "p = Some ev" "ev_Topic ev \<noteq> ''''" "ev_part ev = k" by blast
  then have es: "part_events (xs @ [p]) k = insert ev (part_events xs k)"
    by (auto simp: part_events_snoc)
  show ?thesis
  proof (cases "map_of best k")
    case None
    then show ?thesis using assms ev es by (simp add: hwm_step_def update_conv')
  next
    case (Some q)
    then show ?thesis using assms ev es by (auto simp: hwm_step_def update_conv')
  qed
qed

lemma hwm_fold_at: "hwm_at (part_events xs k) (map_of (foldl hwm_step [] xs) k)"
proof (induction xs rule: rev_induct)
  case Nil
  show ?case by (simp add: part_events_def)
next
  case (snoc x xs)
  then show ?case using hwm_step_at [OF snoc] by simp
qed

lemma hwm_fold_distinct: "distinct (map fst (foldl hwm_step [] xs))"
  by (induction xs rule: rev_induct)
     (auto simp: hwm_step_def Let_def distinct_update split: option.splits)

lemma hwm_fold_key:
  assumes "(k, p) \<in> set (foldl hwm_step [] xs)"
  shows "po_part p = k"
proof -
  have "map_of (foldl hwm_step [] xs) k = Some p" using assms hwm_fold_distinct [of xs] by simp
  then show ?thesis using hwm_fold_at [of xs k] by (auto simp: part_events_def)
qed

lemma HighWaterMarks_parts_sorted: "sorted_wrt (<) (map po_part (HighWaterMarks events))"
proof -
  let ?b = "foldl hwm_step [] events"
  have "map po_part (map snd ?b) = map fst ?b"
    using hwm_fold_key [of _ _ events] by auto
  then have "distinct (map po_part (map snd ?b))" using hwm_fold_distinct by metis
  then show ?thesis unfolding HighWaterMarks_def by (rule strict_sorted_sort_key)
qed

lemma HighWaterMarks_set:
  "p \<in> set (HighWaterMarks events) \<longleftrightarrow> map_of (foldl hwm_step [] events) (po_part p) = Some p"
proof -
  have "p \<in> set (HighWaterMarks events) \<longleftrightarrow> (\<exists>k. (k, p) \<in> set (foldl hwm_step [] events))"
    by (force simp: HighWaterMarks_def)
  also have "\<dots> \<longleftrightarrow> (po_part p, p) \<in> set (foldl hwm_step [] events)"
    using hwm_fold_key by blast
  finally show ?thesis using hwm_fold_distinct [of events] by simp
qed

text \<open>
  the offsets to commit hold, in increasing order of topic and partition, exactly one
  position for every partition the batch has an event of, namely the highest offset of that
  partition in the batch with the LSN of the event at it.
\<close>

theorem HighWaterMarks_spec:
  "sorted_wrt (<) (map po_part (HighWaterMarks events))
    \<and> set (map po_part (HighWaterMarks events)) = {k. part_events events k \<noteq> {}}
    \<and> (\<forall>p \<in> set (HighWaterMarks events).
          (\<exists>e \<in> part_events events (po_part p). p = position_of e)
          \<and> (\<forall>e \<in> part_events events (po_part p). ev_Offset e \<le> po_Offset p))"
proof (intro conjI ballI)
  show "sorted_wrt (<) (map po_part (HighWaterMarks events))"
    by (rule HighWaterMarks_parts_sorted)
  have "(\<exists>p. p \<in> set (HighWaterMarks events) \<and> po_part p = k) \<longleftrightarrow> part_events events k \<noteq> {}" for k
    using hwm_fold_at [of events k]
    by (cases "map_of (foldl hwm_step [] events) k")
       (auto simp: HighWaterMarks_set part_events_def, metis position_of_simps(1))
  then show "set (map po_part (HighWaterMarks events)) = {k. part_events events k \<noteq> {}}"
    by (subst list.set_map, unfold image_iff set_eq_iff mem_Collect_eq) metis
  fix p assume "p \<in> set (HighWaterMarks events)"
  then have at: "hwm_at (part_events events (po_part p)) (Some p)"
    using hwm_fold_at [of events "po_part p"] by (simp add: HighWaterMarks_set)
  then show "\<exists>e \<in> part_events events (po_part p). p = position_of e" by simp
  show "\<And>e. e \<in> part_events events (po_part p) \<Longrightarrow> ev_Offset e \<le> po_Offset p"
    using at by simp
qed

theorem HighWaterMarks_spec_witness:
  "\<exists>p \<in> set (HighWaterMarks (map Some [demo_event 1 5 7, demo_event 2 6 9])).
     ev_Offset (demo_event 2 6 9) \<le> po_Offset p"
proof -
  let ?es = "map Some [demo_event 1 5 7, demo_event 2 6 9]" and ?e = "demo_event 2 6 9"
  have e: "?e \<in> part_events ?es (ev_part ?e)"
    by (simp add: part_events_def demo_event_def)
  note spec = HighWaterMarks_spec [of ?es]
  have "ev_part ?e \<in> set (map po_part (HighWaterMarks ?es))"
    unfolding spec [THEN conjunct2, THEN conjunct1] using e by blast
  then obtain p where p: "p \<in> set (HighWaterMarks ?es)" "po_part p = ev_part ?e" by auto
  then have "ev_Offset ?e \<le> po_Offset p"
    using spec [THEN conjunct2, THEN conjunct2] e by fastforce
  with p(1) show ?thesis by blast
qed

end
