(* ===== verification/ErrClass.thy ===== *)
theory ErrClass
  imports MigPrelude
begin

text \<open>
  Error classification: \<open>internal/errclass/errclass.go\<close>. A Go error is a chain: an innermost
  error that comes from a driver, the network or the platform, wrapped any number of times by
  \<open>fmt.Errorf("...: %w", err)\<close> and by the two markers \<open>Permanently\<close> and \<open>Transiently\<close>. The
  innermost error carries what \<open>errors.Is\<close> and \<open>errors.As\<close> can find in it.
\<close>

section \<open>Errors\<close>

datatype sentinel =
    CtxCanceled | CtxDeadlineExceeded | IoEOF | IoErrUnexpectedEOF
  | ECONNRESET | ECONNREFUSED | EPIPE | ETIMEDOUT | EHOSTUNREACH | ENETUNREACH

record base_error =
  be_msg :: string
  be_is :: "sentinel option"
  be_net :: bool
  be_dns :: bool
  be_sqlstate :: "string option"
  be_mysql :: "nat option"

datatype go_error =
    Base base_error
  | Errorf string go_error
  | MarkPermanent go_error
  | MarkTransient go_error

text \<open>\<open>Error()\<close>: a marker prints as what it wraps, \<open>Errorf\<close> puts its text in front.\<close>

fun Error :: "go_error \<Rightarrow> string" where
  "Error (Base b) = be_msg b"
| "Error (Errorf pre e) = pre @ '': '' @ Error e"
| "Error (MarkPermanent e) = Error e"
| "Error (MarkTransient e) = Error e"

fun base_of :: "go_error \<Rightarrow> base_error" where
  "base_of (Base b) = b"
| "base_of (Errorf pre e) = base_of e"
| "base_of (MarkPermanent e) = base_of e"
| "base_of (MarkTransient e) = base_of e"

fun has_permanent :: "go_error \<Rightarrow> bool" where
  "has_permanent (Base b) = False"
| "has_permanent (Errorf pre e) = has_permanent e"
| "has_permanent (MarkPermanent e) = True"
| "has_permanent (MarkTransient e) = has_permanent e"

fun has_transient :: "go_error \<Rightarrow> bool" where
  "has_transient (Base b) = False"
| "has_transient (Errorf pre e) = has_transient e"
| "has_transient (MarkPermanent e) = has_transient e"
| "has_transient (MarkTransient e) = True"

definition plain_error :: "string \<Rightarrow> go_error" where
  "plain_error msg = Base \<lparr>be_msg = msg, be_is = None, be_net = False, be_dns = False,
     be_sqlstate = None, be_mysql = None\<rparr>"

section \<open>Classes\<close>

datatype err_class = Transient | Permanent | Unknown

definition Retryable :: "err_class \<Rightarrow> bool" where
  "Retryable c = (c = Transient \<or> c = Unknown)"

definition Permanently :: "go_error option \<Rightarrow> go_error option" where
  "Permanently err = (case err of None \<Rightarrow> None | Some e \<Rightarrow> Some (MarkPermanent e))"

definition Transiently :: "go_error option \<Rightarrow> go_error option" where
  "Transiently err = (case err of None \<Rightarrow> None | Some e \<Rightarrow> Some (MarkTransient e))"

definition transientMySQL :: "nat list" where
  "transientMySQL = [1040, 1053, 1205, 1213, 1290, 1317, 2006, 2013, 1927]"

definition permanentMySQL :: "nat list" where
  "permanentMySQL = [1062, 1264, 1265, 1292, 1366, 1406, 1452, 1054, 1146, 1364]"

definition classifySQLState :: "string \<Rightarrow> err_class" where
  "classifySQLState state =
     (if length state < 2 then Unknown
      else if state = ''40001'' then Transient
      else if state = ''40P01'' then Transient
      else if state = ''55P03'' then Transient
      else if state \<in> {''57P01'', ''57P02'', ''57P03''} then Transient
      else if state \<in> {''53100'', ''53200'', ''53300''} then Transient
      else if state = ''25006'' then Transient
      else let cls = take 2 state in
        if cls = ''08'' then Transient
        else if cls = ''40'' then Transient
        else if cls = ''53'' then Transient
        else if cls = ''57'' then Transient
        else if cls = ''58'' then Transient
        else if cls = ''23'' then Permanent
        else if cls = ''22'' then Permanent
        else if cls = ''42'' then Permanent
        else if cls = ''3F'' then Permanent
        else if cls = ''0A'' then Permanent
        else Unknown)"

definition transientText :: "string list" where
  "transientText = [''connection reset'', ''connection refused'', ''broken pipe'',
     ''i/o timeout'', ''no such host'', ''server closed the connection'',
     ''driver: bad connection'', ''deadlock'', ''lock wait timeout'', ''too many connections'',
     ''could not serialize'', ''terminating connection'', ''the database system is starting up'',
     ''in recovery mode'', ''read-only'', ''throttl'', ''try again'', ''temporarily unavailable'',
     ''leader not available'', ''not enough replicas'', ''request timed out'',
     ''rebalance in progress'', ''coordinator not available'']"

definition permanentText :: "string list" where
  "permanentText = [''duplicate key'', ''unique constraint'', ''foreign key constraint'',
     ''check constraint'', ''violates not-null'', ''value too long'', ''out of range'',
     ''invalid input syntax'', ''cannot be cast'', ''column does not exist'',
     ''relation does not exist'', ''unknown column'', ''incorrect'', ''data truncated'',
     ''unmarshal'', ''invalid character'', ''unsupported'', ''malformed'', ''decode'']"

definition classifyText :: "string \<Rightarrow> err_class" where
  "classifyText msg =
     (let m = ToLower msg in
      if list_ex (contains_str m) transientText then Transient
      else if list_ex (contains_str m) permanentText then Permanent
      else Unknown)"

definition mysqlNumber :: "go_error \<Rightarrow> nat option" where
  "mysqlNumber e = be_mysql (base_of e)"

text \<open>What follows the structured checks: the MySQL number, then the text.\<close>

definition classify_number_or_text :: "go_error \<Rightarrow> err_class" where
  "classify_number_or_text e =
     (case mysqlNumber e of
        Some n \<Rightarrow> if n \<in> set transientMySQL then Transient
                  else if n \<in> set permanentMySQL then Permanent
                  else classifyText (Error e)
      | None \<Rightarrow> classifyText (Error e))"

definition Classify :: "go_error option \<Rightarrow> err_class" where
  "Classify err =
     (case err of
        None \<Rightarrow> Transient
      | Some e \<Rightarrow>
          if has_permanent e then Permanent
          else if has_transient e then Transient
          else if be_is (base_of e) \<in> {Some CtxCanceled, Some CtxDeadlineExceeded} then Transient
          else if be_is (base_of e) \<in> {Some IoEOF, Some IoErrUnexpectedEOF, Some ECONNRESET,
                 Some ECONNREFUSED, Some EPIPE, Some ETIMEDOUT, Some EHOSTUNREACH,
                 Some ENETUNREACH} then Transient
          else if be_net (base_of e) then Transient
          else if be_dns (base_of e) then Transient
          else case be_sqlstate (base_of e) of
            Some state \<Rightarrow>
              if classifySQLState state \<noteq> Unknown then classifySQLState state
              else classify_number_or_text e
          | None \<Rightarrow> classify_number_or_text e)"

section \<open>Wrapping\<close>

fun wrap_all :: "string list \<Rightarrow> go_error \<Rightarrow> go_error" where
  "wrap_all [] e = e"
| "wrap_all (p # ps) e = Errorf p (wrap_all ps e)"

lemma wrap_all_simps [simp]:
  "base_of (wrap_all ps e) = base_of e"
  "has_permanent (wrap_all ps e) = has_permanent e"
  "has_transient (wrap_all ps e) = has_transient e"
  by (induction ps) auto

text \<open>A base error decides the class without its text: a structured code is known.\<close>

definition structured :: "base_error \<Rightarrow> bool" where
  "structured b \<longleftrightarrow> be_is b \<noteq> None \<or> be_net b \<or> be_dns b
     \<or> (\<exists>s. be_sqlstate b = Some s \<and> classifySQLState s \<noteq> Unknown)
     \<or> (\<exists>n. be_mysql b = Some n \<and> n \<in> set transientMySQL \<union> set permanentMySQL)"

lemma Classify_marked:
  "has_permanent e \<Longrightarrow> Classify (Some e) = Permanent"
  "\<not> has_permanent e \<Longrightarrow> has_transient e \<Longrightarrow> Classify (Some e) = Transient"
  by (simp_all add: Classify_def)

lemma sentinel_cases_all:
  "be_is b = Some s \<Longrightarrow>
     Some s \<in> {Some CtxCanceled, Some CtxDeadlineExceeded}
     \<or> Some s \<in> {Some IoEOF, Some IoErrUnexpectedEOF, Some ECONNRESET, Some ECONNREFUSED,
                Some EPIPE, Some ETIMEDOUT, Some EHOSTUNREACH, Some ENETUNREACH}"
  by (cases s) auto

lemma Classify_structured_wrap:
  assumes "structured (base_of e)"
  shows "Classify (Some (wrap_all ps e)) = Classify (Some e)"
proof (cases "be_is (base_of e)")
  case (Some s)
  then show ?thesis
    using sentinel_cases_all [OF Some] by (auto simp: Classify_def)
next
  case None
  have "classify_number_or_text (wrap_all ps e) = classify_number_or_text e"
    if "be_mysql (base_of e) = Some n" "n \<in> set transientMySQL \<union> set permanentMySQL" for n
    using that by (auto simp: classify_number_or_text_def mysqlNumber_def)
  with None assms show ?thesis
    by (auto simp: Classify_def structured_def split: option.splits)
qed

text \<open>
  an explicit marker decides the class, whatever is wrapped around or below it (the
  permanent one over the transient one), and an error with a recognised sentinel, network type,
  SQLSTATE or MySQL number keeps its class however often it is wrapped with context.
\<close>

theorem Classify_wrapping:
  "Classify (Permanently (Some e)) = Permanent
   \<and> Classify (Some (wrap_all ps (MarkPermanent e))) = Permanent
   \<and> (\<not> has_permanent e \<longrightarrow> Classify (Some (wrap_all ps (MarkTransient e))) = Transient)
   \<and> (structured (base_of e) \<longrightarrow> Classify (Some (wrap_all ps e)) = Classify (Some e))"
  by (simp add: Permanently_def Classify_marked Classify_structured_wrap)

definition demo_deadlock :: go_error where
  "demo_deadlock = Base \<lparr>be_msg = ''canceling statement'', be_is = None, be_net = False,
     be_dns = False, be_sqlstate = Some ''40P01'', be_mysql = None\<rparr>"

theorem Classify_wrapping_witness:
  "Classify (Some (wrap_all [''sink: upserting 3 rows''] demo_deadlock)) = Transient"
proof -
  have "structured (base_of demo_deadlock)"
    by (simp add: structured_def demo_deadlock_def classifySQLState_def)
  moreover have "Classify (Some demo_deadlock) = Transient"
    by (simp add: Classify_def demo_deadlock_def classifySQLState_def)
  ultimately show ?thesis
    using Classify_wrapping [where e = demo_deadlock and ps = "[''sink: upserting 3 rows'']"]
    by simp
qed

text \<open>
  the SQLSTATE table: connection, rollback, resource, operator and system errors (and lock
  or read-only failures) are transient; data, integrity, syntax, schema and feature errors are
  permanent, and every other class is left to the later checks. A serialisation failure is never
  permanent and a constraint violation never transient.
\<close>

theorem classifySQLState_classes:
  assumes "length state = 5"
  shows "classifySQLState state =
    (if take 2 state \<in> {''08'', ''40'', ''53'', ''57'', ''58''} \<or> state \<in> {''55P03'', ''25006''}
       then Transient
     else if take 2 state \<in> {''22'', ''23'', ''42'', ''3F'', ''0A''} then Permanent
     else Unknown)"
  using assms by (simp add: classifySQLState_def Let_def)

theorem classifySQLState_classes_witness: "classifySQLState ''23505'' = Permanent"
  using classifySQLState_classes [of "''23505''"] by simp

end
