(* ===== verification/SqlFence.thy ===== *)
theory SqlFence
  imports Event
begin

text \<open>
  The LSN fence: what the statements that \<open>internal/dialect/postgres.go\<close> and
  \<open>internal/dialect/mysql.go\<close> render do to a target table. A table maps a primary key (the list
  of its column values, in the order of the specification) to a stored row: the column values,
  NULL being \<open>GNil\<close>, the LSN in \<open>_mig_lsn\<close> and the tombstone flag in \<open>_mig_deleted\<close>. The
  forensic column \<open>_mig_updated_at\<close> plays no part in the fence and is left out.

  The PostgreSQL statements guard the whole \<open>DO UPDATE\<close> with one \<open>WHERE\<close>. MySQL has no such
  clause: every assignment carries its own \<open>IF(fence, new, old)\<close>, and MySQL evaluates the
  assignments from left to right, each seeing the columns the earlier ones have already written.
\<close>

section \<open>Target tables\<close>

record stored =
  sr_vals :: "string \<Rightarrow> gval"
  sr_lsn :: int
  sr_deleted :: bool

type_synonym table = "gval list \<Rightarrow> stored option"

text \<open>One incoming tuple of a statement: its column values and its LSN.\<close>

definition incoming_row :: "string list \<Rightarrow> gval list \<Rightarrow> string \<Rightarrow> gval" where
  "incoming_row columns vals c = gomap_get (zip columns vals) c"

definition row_key_of :: "string list \<Rightarrow> (string \<Rightarrow> gval) \<Rightarrow> gval list" where
  "row_key_of pk v = map v pk"

section \<open>PostgreSQL: one guard for the whole update\<close>

definition pg_upsert_row ::
  "string list \<Rightarrow> string list \<Rightarrow> gval list \<Rightarrow> int \<Rightarrow> table \<Rightarrow> table" where
  "pg_upsert_row pk columns vals lsn tbl =
     (let new = incoming_row columns vals; key = row_key_of pk new in
      case tbl key of
        None \<Rightarrow> tbl(key \<mapsto> \<lparr>sr_vals = new, sr_lsn = lsn, sr_deleted = False\<rparr>)
      | Some r \<Rightarrow>
          if sr_lsn r \<le> lsn
          then tbl(key \<mapsto> \<lparr>sr_vals = (\<lambda>c. if c \<in> set columns \<and> c \<notin> set pk then new c
                                            else sr_vals r c),
                               sr_lsn = lsn, sr_deleted = False\<rparr>)
          else tbl)"

definition pg_delete_row :: "string list \<Rightarrow> gval list \<Rightarrow> int \<Rightarrow> table \<Rightarrow> table" where
  "pg_delete_row pk keyvals lsn tbl =
     (let new = incoming_row pk keyvals; key = row_key_of pk new in
      case tbl key of
        None \<Rightarrow> tbl(key \<mapsto> \<lparr>sr_vals = new, sr_lsn = lsn, sr_deleted = True\<rparr>)
      | Some r \<Rightarrow>
          if sr_lsn r \<le> lsn then tbl(key \<mapsto> r\<lparr>sr_deleted := True, sr_lsn := lsn\<rparr>)
          else tbl)"

definition pg_merge_row ::
  "string list \<Rightarrow> string list \<Rightarrow> int \<Rightarrow> gval list \<Rightarrow> table \<Rightarrow> table" where
  "pg_merge_row pk columns extractLSN vals tbl =
     (let new = incoming_row columns vals; key = row_key_of pk new in
      case tbl key of
        None \<Rightarrow> tbl(key \<mapsto> \<lparr>sr_vals = new, sr_lsn = extractLSN, sr_deleted = False\<rparr>)
      | Some r \<Rightarrow>
          if sr_lsn r \<le> extractLSN
          then tbl(key \<mapsto> r\<lparr>sr_vals := (\<lambda>c. if c \<in> set columns \<and> c \<notin> set pk then new c
                                            else sr_vals r c),
                               sr_lsn := extractLSN\<rparr>)
          else tbl)"

section \<open>MySQL: a guarded assignment per column, from left to right\<close>

datatype assignment = AssignCol string | AssignLsn | AssignDeleted bool

text \<open>
  \<open>c = IF(target._mig_lsn <= new_row._mig_lsn, new_row.c, target.c)\<close>, and the like for the two
  metadata columns: \<open>r\<close> is the row as the earlier assignments left it, \<open>new\<close> and \<open>lsn\<close> the
  incoming tuple.
\<close>

fun my_assign :: "(string \<Rightarrow> gval) \<Rightarrow> int \<Rightarrow> stored \<Rightarrow> assignment \<Rightarrow> stored" where
  "my_assign new lsn r (AssignCol c) =
     r\<lparr>sr_vals := (sr_vals r)(c := (if sr_lsn r \<le> lsn then new c else sr_vals r c))\<rparr>"
| "my_assign new lsn r AssignLsn =
     r\<lparr>sr_lsn := (if sr_lsn r \<le> lsn then lsn else sr_lsn r)\<rparr>"
| "my_assign new lsn r (AssignDeleted d) =
     r\<lparr>sr_deleted := (if sr_lsn r \<le> lsn then d else sr_deleted r)\<rparr>"

definition my_update ::
  "(string \<Rightarrow> gval) \<Rightarrow> int \<Rightarrow> assignment list \<Rightarrow> stored \<Rightarrow> stored" where
  "my_update new lsn as r = foldl (my_assign new lsn) r as"

definition my_column_assignments :: "string list \<Rightarrow> string list \<Rightarrow> assignment list" where
  "my_column_assignments pk columns = map AssignCol (filter (\<lambda>c. c \<notin> set pk) columns)"

definition my_upsert_row ::
  "string list \<Rightarrow> string list \<Rightarrow> gval list \<Rightarrow> int \<Rightarrow> table \<Rightarrow> table" where
  "my_upsert_row pk columns vals lsn tbl =
     (let new = incoming_row columns vals; key = row_key_of pk new in
      case tbl key of
        None \<Rightarrow> tbl(key \<mapsto> \<lparr>sr_vals = new, sr_lsn = lsn, sr_deleted = False\<rparr>)
      | Some r \<Rightarrow> tbl(key \<mapsto>
          my_update new lsn (my_column_assignments pk columns @ [AssignLsn, AssignDeleted False]) r))"

definition my_delete_row :: "string list \<Rightarrow> gval list \<Rightarrow> int \<Rightarrow> table \<Rightarrow> table" where
  "my_delete_row pk keyvals lsn tbl =
     (let new = incoming_row pk keyvals; key = row_key_of pk new in
      case tbl key of
        None \<Rightarrow> tbl(key \<mapsto> \<lparr>sr_vals = new, sr_lsn = lsn, sr_deleted = True\<rparr>)
      | Some r \<Rightarrow> tbl(key \<mapsto> my_update new lsn [AssignDeleted True, AssignLsn] r))"

definition my_merge_row ::
  "string list \<Rightarrow> string list \<Rightarrow> int \<Rightarrow> gval list \<Rightarrow> table \<Rightarrow> table" where
  "my_merge_row pk columns extractLSN vals tbl =
     (let new = incoming_row columns vals; key = row_key_of pk new in
      case tbl key of
        None \<Rightarrow> tbl(key \<mapsto> \<lparr>sr_vals = new, sr_lsn = extractLSN, sr_deleted = False\<rparr>)
      | Some r \<Rightarrow> tbl(key \<mapsto>
          my_update new extractLSN (my_column_assignments pk columns @ [AssignLsn]) r))"

subsection \<open>The two engines do the same\<close>

lemma my_update_rejected: "\<not> sr_lsn r \<le> lsn \<Longrightarrow> my_update new lsn as r = r"
proof (induction as)
  case Nil
  show ?case by (simp add: my_update_def)
next
  case (Cons a as)
  then have "my_assign new lsn r a = r" by (cases a) simp_all
  with Cons show ?case by (simp add: my_update_def)
qed

lemma my_update_columns:
  "sr_lsn r \<le> lsn \<Longrightarrow>
   my_update new lsn (map AssignCol cs) r =
     r\<lparr>sr_vals := (\<lambda>c. if c \<in> set cs then new c else sr_vals r c)\<rparr>"
proof (induction cs arbitrary: r)
  case Nil
  show ?case by (simp add: my_update_def)
next
  case (Cons c cs)
  let ?r = "r\<lparr>sr_vals := (sr_vals r)(c := new c)\<rparr>"
  have "my_update new lsn (map AssignCol (c # cs)) r = my_update new lsn (map AssignCol cs) ?r"
    using Cons.prems by (simp add: my_update_def)
  also have "\<dots> = ?r\<lparr>sr_vals := (\<lambda>d. if d \<in> set cs then new d else sr_vals ?r d)\<rparr>"
    using Cons.prems by (intro Cons.IH) simp
  also have "\<dots> = r\<lparr>sr_vals := (\<lambda>d. if d \<in> set (c # cs) then new d else sr_vals r d)\<rparr>"
    by (simp add: fun_eq_iff)
  finally show ?case .
qed

lemma my_update_append:
  "my_update new lsn (as @ bs) r = my_update new lsn bs (my_update new lsn as r)"
  by (simp add: my_update_def)

lemma my_update_meta:
  "sr_lsn r \<le> lsn \<Longrightarrow> my_update new lsn [AssignLsn] r = r\<lparr>sr_lsn := lsn\<rparr>"
  "sr_lsn r \<le> lsn \<Longrightarrow> my_update new lsn [AssignLsn, AssignDeleted d] r = r\<lparr>sr_lsn := lsn, sr_deleted := d\<rparr>"
  "sr_lsn r \<le> lsn \<Longrightarrow> my_update new lsn [AssignDeleted d, AssignLsn] r = r\<lparr>sr_lsn := lsn, sr_deleted := d\<rparr>"
  by (simp_all add: my_update_def)

lemmas my_update_simps =
  my_update_rejected my_update_append my_update_columns my_update_meta my_column_assignments_def

lemma my_upsert_row_eq: "my_upsert_row pk columns vals lsn tbl = pg_upsert_row pk columns vals lsn tbl"
proof (cases "tbl (row_key_of pk (incoming_row columns vals))")
  case None
  then show ?thesis by (simp add: my_upsert_row_def pg_upsert_row_def Let_def)
next
  case (Some r)
  then show ?thesis
    by (cases r; cases "sr_lsn r \<le> lsn")
       (simp_all add: my_upsert_row_def pg_upsert_row_def Let_def my_update_simps fun_upd_idem
         conj_commute)
qed

lemma my_delete_row_eq: "my_delete_row pk kv lsn tbl = pg_delete_row pk kv lsn tbl"
proof (cases "tbl (row_key_of pk (incoming_row pk kv))")
  case None
  then show ?thesis by (simp add: my_delete_row_def pg_delete_row_def Let_def)
next
  case (Some r)
  then show ?thesis
    by (cases r; cases "sr_lsn r \<le> lsn")
       (simp_all add: my_delete_row_def pg_delete_row_def Let_def my_update_simps fun_upd_idem)
qed

lemma my_merge_row_eq: "my_merge_row pk columns x vals tbl = pg_merge_row pk columns x vals tbl"
proof (cases "tbl (row_key_of pk (incoming_row columns vals))")
  case None
  then show ?thesis by (simp add: my_merge_row_def pg_merge_row_def Let_def)
next
  case (Some r)
  then show ?thesis
    by (cases r; cases "sr_lsn r \<le> x")
       (simp_all add: my_merge_row_def pg_merge_row_def Let_def my_update_simps fun_upd_idem
         conj_commute)
qed

section \<open>The stream offset\<close>

record applied_offset =
  ao_offset :: int
  ao_last_lsn :: int

type_synonym offset_table = "string \<times> string \<times> int \<Rightarrow> applied_offset option"

definition pg_upsert_offset :: "string \<Rightarrow> string \<Rightarrow> int \<Rightarrow> int \<Rightarrow> int \<Rightarrow> offset_table \<Rightarrow> offset_table" where
  "pg_upsert_offset mig topic part off lsn tbl =
     (case tbl (mig, topic, part) of
        None \<Rightarrow> tbl((mig, topic, part) \<mapsto> \<lparr>ao_offset = off, ao_last_lsn = lsn\<rparr>)
      | Some o' \<Rightarrow>
          if ao_offset o' \<le> off
          then tbl((mig, topic, part) \<mapsto> \<lparr>ao_offset = off, ao_last_lsn = lsn\<rparr>)
          else tbl)"

text \<open>MySQL assigns \<open>offset\<close> first and then tests the new value again for \<open>last_lsn\<close>.\<close>

definition my_upsert_offset :: "string \<Rightarrow> string \<Rightarrow> int \<Rightarrow> int \<Rightarrow> int \<Rightarrow> offset_table \<Rightarrow> offset_table" where
  "my_upsert_offset mig topic part off lsn tbl =
     (case tbl (mig, topic, part) of
        None \<Rightarrow> tbl((mig, topic, part) \<mapsto> \<lparr>ao_offset = off, ao_last_lsn = lsn\<rparr>)
      | Some o' \<Rightarrow>
          (let o1 = o'\<lparr>ao_offset := (if ao_offset o' \<le> off then off else ao_offset o')\<rparr>;
               o2 = o1\<lparr>ao_last_lsn := (if ao_offset o1 \<le> off then lsn else ao_last_lsn o1)\<rparr>
           in tbl((mig, topic, part) \<mapsto> o2)))"

lemma my_upsert_offset_eq:
  "my_upsert_offset mig topic part off lsn tbl = pg_upsert_offset mig topic part off lsn tbl"
proof (cases "tbl (mig, topic, part)")
  case None
  then show ?thesis by (simp add: my_upsert_offset_def pg_upsert_offset_def)
next
  case (Some o')
  then show ?thesis
    by (cases o') (auto simp: my_upsert_offset_def pg_upsert_offset_def Let_def fun_upd_idem)
qed


end
