(* ===== verification/Fence.thy ===== *)
theory Fence
  imports SqlFence
begin

text \<open>
  What the LSN fence buys: the visible contents of a target table depend only on which writes
  reach it, not on their order nor on how often each is delivered. The argument is made once, in
  the locale \<open>fenced_register\<close>, for any register whose writes are accepted or rejected by LSN;
  the row of a target table under the rendered statements is an instance.
\<close>

section \<open>The contract of a fenced write\<close>

locale fenced_register =
  fixes apply_w :: "'w \<Rightarrow> 's \<Rightarrow> 's"
    and wlsn :: "'w \<Rightarrow> int"
    and slsn :: "'s \<Rightarrow> int option"
    and view :: "'s \<Rightarrow> 'v"
    and base :: "'s \<Rightarrow> 'b"
    and result :: "'w \<Rightarrow> 'b \<Rightarrow> 'v"
    and winv :: "'w \<Rightarrow> bool"
    and inv :: "'s \<Rightarrow> bool"
  assumes accepted: "winv w \<Longrightarrow> inv s \<Longrightarrow> \<forall>l. slsn s = Some l \<longrightarrow> l \<le> wlsn w \<Longrightarrow>
        slsn (apply_w w s) = Some (wlsn w) \<and> view (apply_w w s) = result w (base s)"
    and rejected: "slsn s = Some l \<Longrightarrow> wlsn w < l \<Longrightarrow> apply_w w s = s"
    and base_kept: "winv w \<Longrightarrow> inv s \<Longrightarrow> base (apply_w w s) = base s"
    and inv_kept: "winv w \<Longrightarrow> inv s \<Longrightarrow> inv (apply_w w s)"
begin

definition stale :: "'s \<Rightarrow> 'w \<Rightarrow> bool" where
  "stale s w \<longleftrightarrow> (\<exists>l. slsn s = Some l \<and> wlsn w < l)"

definition newest :: "'w list \<Rightarrow> 's \<Rightarrow> 'w \<Rightarrow> bool" where
  "newest ws s w \<longleftrightarrow> w \<in> set ws \<and> \<not> stale s w \<and> (\<forall>w' \<in> set ws. wlsn w' \<le> wlsn w)"

lemma not_staleD: "\<not> stale s w \<Longrightarrow> slsn s = Some l \<Longrightarrow> l \<le> wlsn w"
  by (auto simp: stale_def not_less)

text \<open>After any run, either every write was stale and nothing changed, or a newest write won.\<close>

lemma run_outcome:
  assumes "inv s" and "\<forall>w \<in> set ws. winv w"
  defines "t \<equiv> fold apply_w ws s"
  shows "inv t \<and> base t = base s \<and>
    ((\<forall>w \<in> set ws. stale s w) \<and> t = s \<or>
     (\<exists>w. newest ws s w \<and> slsn t = Some (wlsn w) \<and> view t = result w (base s)))"
  using assms(2) unfolding t_def
proof (induction ws rule: rev_induct)
  case Nil
  show ?case using assms(1) by simp
next
  case (snoc x ws)
  let ?u = "fold apply_w ws s"
  let ?v = "apply_w x ?u"
  have x: "winv x" and IH: "inv ?u" "base ?u = base s"
    "(\<forall>w \<in> set ws. stale s w) \<and> ?u = s \<or>
     (\<exists>w. newest ws s w \<and> slsn ?u = Some (wlsn w) \<and> view ?u = result w (base s))"
    using snoc by auto
  have kept: "inv ?v" "base ?v = base s"
    using inv_kept [OF x IH(1)] base_kept [OF x IH(1)] IH(2) by simp_all
  have acc: "slsn ?v = Some (wlsn x) \<and> view ?v = result x (base s)"
    if "\<forall>l. slsn ?u = Some l \<longrightarrow> l \<le> wlsn x"
    using accepted [OF x IH(1) that] IH(2) by simp
  have "(\<forall>w \<in> set (ws @ [x]). stale s w) \<and> ?v = s \<or>
     (\<exists>w. newest (ws @ [x]) s w \<and> slsn ?v = Some (wlsn w) \<and> view ?v = result w (base s))"
    using IH(3)
  proof (elim disjE exE conjE)
    assume old: "\<forall>w \<in> set ws. stale s w" and same: "?u = s"
    show ?thesis
    proof (cases "stale s x")
      case True
      then show ?thesis using old same rejected by (auto simp: stale_def)
    next
      case False
      then have "newest (ws @ [x]) s x"
        using old not_staleD [OF False] by (fastforce simp: newest_def stale_def)
      then show ?thesis using acc not_staleD [OF False] same by auto
    qed
  next
    fix w
    assume w: "newest ws s w" and lsn: "slsn ?u = Some (wlsn w)" and vw: "view ?u = result w (base s)"
    show ?thesis
    proof (cases "wlsn x < wlsn w")
      case True
      then have "?v = ?u" and "newest (ws @ [x]) s w"
        using rejected [OF lsn] w by (auto simp: newest_def)
      then show ?thesis using lsn vw by auto
    next
      case False
      then have "newest (ws @ [x]) s x"
        using w by (fastforce simp: newest_def stale_def)
      then show ?thesis using acc lsn False by auto
    qed
  qed
  then show ?case using kept by simp
qed

text \<open>
  Writes that another write dominates may be left out, and order and repetition do not matter,
  when writes with equal LSNs are equal.
\<close>

lemma dominated:
  assumes s: "inv s" and ws: "\<forall>w \<in> set ws. winv w" and sub: "set ws' \<subseteq> set ws"
    and dom: "\<And>w. w \<in> set ws \<Longrightarrow> \<exists>w' \<in> set ws'. wlsn w \<le> wlsn w'"
    and uniq: "\<And>w w'. w \<in> set ws \<Longrightarrow> w' \<in> set ws \<Longrightarrow> wlsn w = wlsn w' \<Longrightarrow> w = w'"
  shows "view (fold apply_w ws s) = view (fold apply_w ws' s)
    \<and> slsn (fold apply_w ws s) = slsn (fold apply_w ws' s)"
proof -
  have ws': "\<forall>w \<in> set ws'. winv w" using ws sub by blast
  show ?thesis
  proof (cases "\<forall>w \<in> set ws. stale s w")
    case True
    then have "\<forall>w \<in> set ws'. stale s w" using sub by blast
    then have "fold apply_w ws s = s" and "fold apply_w ws' s = s"
      using True run_outcome [OF s ws] run_outcome [OF s ws'] by (auto simp: newest_def)
    then show ?thesis by simp
  next
    case False
    then obtain v v' where v: "\<not> stale s v" "v' \<in> set ws'" "wlsn v \<le> wlsn v'" using dom by blast
    then have False': "\<not> (\<forall>w \<in> set ws'. stale s w)" by (fastforce simp: stale_def)
    obtain w where w: "newest ws s w" "slsn (fold apply_w ws s) = Some (wlsn w)"
        "view (fold apply_w ws s) = result w (base s)"
      using run_outcome [OF s ws] False by blast
    obtain w' where w': "newest ws' s w'" "slsn (fold apply_w ws' s) = Some (wlsn w')"
        "view (fold apply_w ws' s) = result w' (base s)"
      using run_outcome [OF s ws'] False' by blast
    obtain u where "u \<in> set ws'" "wlsn w \<le> wlsn u" using dom w(1) by (auto simp: newest_def)
    then have "wlsn w \<le> wlsn w'" using w'(1) by (fastforce simp: newest_def)
    moreover have "w \<in> set ws" "w' \<in> set ws" "wlsn w' \<le> wlsn w"
      using w(1) w'(1) sub by (auto simp: newest_def)
    ultimately have "w = w'" by (intro uniq) auto
    with w w' show ?thesis by simp
  qed
qed

lemma converge:
  assumes "inv s" and "\<forall>w \<in> set ws. winv w" and "set ws = set ws'"
    and "\<And>w w'. w \<in> set ws \<Longrightarrow> w' \<in> set ws \<Longrightarrow> wlsn w = wlsn w' \<Longrightarrow> w = w'"
  shows "view (fold apply_w ws s) = view (fold apply_w ws' s)
    \<and> slsn (fold apply_w ws s) = slsn (fold apply_w ws' s)"
  using assms by (intro dominated) auto

lemma newest_wins:
  assumes s: "inv s" and ws: "\<forall>w \<in> set ws. winv w" and w: "newest ws s w"
    and strict: "\<And>w'. w' \<in> set ws \<Longrightarrow> wlsn w' = wlsn w \<Longrightarrow> w' = w"
  shows "view (fold apply_w ws s) = result w (base s)"
proof -
  have eq: "w' = w" if w': "newest ws s w'" for w'
  proof (rule strict)
    show "w' \<in> set ws" using w' by (simp add: newest_def)
    have "wlsn w' \<le> wlsn w" and "wlsn w \<le> wlsn w'" using w w' by (simp_all add: newest_def)
    then show "wlsn w' = wlsn w" by simp
  qed
  have "\<not> (\<forall>x \<in> set ws. stale s x)" using w by (auto simp: newest_def)
  then obtain w' where "newest ws s w'" "view (fold apply_w ws s) = result w' (base s)"
    using run_outcome [OF s ws] by blast
  with eq show ?thesis by simp
qed

end

section \<open>One row of a target table\<close>

datatype cell_write =
    CellUpsert "string \<Rightarrow> gval" int
  | CellDelete "string \<Rightarrow> gval" int

fun cell_lsn :: "cell_write \<Rightarrow> int" where
  "cell_lsn (CellUpsert v l) = l"
| "cell_lsn (CellDelete v l) = l"

fun cell_step :: "string list \<Rightarrow> string list \<Rightarrow> cell_write \<Rightarrow> stored option \<Rightarrow> stored option" where
  "cell_step pk columns (CellUpsert v l) None = Some \<lparr>sr_vals = v, sr_lsn = l, sr_deleted = False\<rparr>"
| "cell_step pk columns (CellUpsert v l) (Some r) =
     (if sr_lsn r \<le> l
      then Some \<lparr>sr_vals = (\<lambda>c. if c \<in> set columns \<and> c \<notin> set pk then v c else sr_vals r c),
                 sr_lsn = l, sr_deleted = False\<rparr>
      else Some r)"
| "cell_step pk columns (CellDelete v l) None = Some \<lparr>sr_vals = v, sr_lsn = l, sr_deleted = True\<rparr>"
| "cell_step pk columns (CellDelete v l) (Some r) =
     (if sr_lsn r \<le> l then Some (r\<lparr>sr_deleted := True, sr_lsn := l\<rparr>) else Some r)"

text \<open>What an application sees of a row: its LSN and, unless it is a tombstone, its columns.\<close>

definition cell_view :: "stored option \<Rightarrow> (int \<times> (string \<Rightarrow> gval) option) option" where
  "cell_view s = map_option (\<lambda>r. (sr_lsn r, if sr_deleted r then None else Some (sr_vals r))) s"

definition cell_base :: "string list \<Rightarrow> stored option \<Rightarrow> string \<Rightarrow> gval" where
  "cell_base columns s c =
     (if c \<in> set columns then GNil else case s of None \<Rightarrow> GNil | Some r \<Rightarrow> sr_vals r c)"

fun cell_result ::
  "string list \<Rightarrow> cell_write \<Rightarrow> (string \<Rightarrow> gval) \<Rightarrow> (int \<times> (string \<Rightarrow> gval) option) option" where
  "cell_result columns (CellUpsert v l) b = Some (l, Some (\<lambda>c. if c \<in> set columns then v c else b c))"
| "cell_result columns (CellDelete v l) b = Some (l, None)"

text \<open>The row and the write belong to the key \<open>k\<close>, and a write touches only its columns.\<close>

definition cell_inv :: "string list \<Rightarrow> gval list \<Rightarrow> stored option \<Rightarrow> bool" where
  "cell_inv pk k s \<longleftrightarrow> (\<forall>r. s = Some r \<longrightarrow> row_key_of pk (sr_vals r) = k)"

fun cell_winv :: "string list \<Rightarrow> string list \<Rightarrow> gval list \<Rightarrow> cell_write \<Rightarrow> bool" where
  "cell_winv pk columns k (CellUpsert v l) \<longleftrightarrow>
     set pk \<subseteq> set columns \<and> row_key_of pk v = k \<and> (\<forall>c. c \<notin> set columns \<longrightarrow> v c = GNil)"
| "cell_winv pk columns k (CellDelete v l) \<longleftrightarrow>
     set pk \<subseteq> set columns \<and> row_key_of pk v = k \<and> (\<forall>c. c \<notin> set columns \<longrightarrow> v c = GNil)"

lemma row_key_of_eq_iff: "row_key_of pk v = row_key_of pk v' \<longleftrightarrow> (\<forall>c \<in> set pk. v c = v' c)"
  by (simp add: row_key_of_def)

lemma cell_accepted:
  assumes "cell_winv pk columns k w" and "cell_inv pk k s"
    and "\<forall>l. map_option sr_lsn s = Some l \<longrightarrow> l \<le> cell_lsn w"
  shows "map_option sr_lsn (cell_step pk columns w s) = Some (cell_lsn w)
    \<and> cell_view (cell_step pk columns w s) = cell_result columns w (cell_base columns s)"
proof (cases s)
  case None
  with assms(1) show ?thesis
    by (cases w) (auto simp: cell_view_def cell_base_def fun_eq_iff)
next
  case (Some r)
  then have le: "sr_lsn r \<le> cell_lsn w" and key: "row_key_of pk (sr_vals r) = k"
    using assms(2,3) by (auto simp: cell_inv_def)
  show ?thesis
  proof (cases w)
    case (CellUpsert v l)
    have "\<forall>c \<in> set pk. sr_vals r c = v c"
      using assms(1) key CellUpsert by (auto simp: row_key_of_def)
    with le Some CellUpsert show ?thesis
      by (auto simp: cell_view_def cell_base_def fun_eq_iff)
  next
    case (CellDelete v l)
    with le Some show ?thesis by (simp add: cell_view_def)
  qed
qed

lemma cell_rejected:
  "map_option sr_lsn s = Some l \<Longrightarrow> cell_lsn w < l \<Longrightarrow> cell_step pk columns w s = s"
  by (cases w; cases s) auto

lemma cell_base_kept:
  "cell_winv pk columns k w \<Longrightarrow> cell_base columns (cell_step pk columns w s) = cell_base columns s"
  by (cases w; cases s) (auto simp: cell_base_def fun_eq_iff)

lemma cell_inv_kept:
  "cell_winv pk columns k w \<Longrightarrow> cell_inv pk k s \<Longrightarrow> cell_inv pk k (cell_step pk columns w s)"
  by (cases w; cases s) (auto simp: cell_inv_def row_key_of_def)

interpretation cell: fenced_register "cell_step pk columns" cell_lsn "map_option sr_lsn"
  cell_view "cell_base columns" "cell_result columns" "cell_winv pk columns k" "cell_inv pk k"
  for pk columns k
  by (unfold_locales;
      (rule cell_accepted cell_rejected cell_base_kept cell_inv_kept; assumption))

section \<open>A whole table\<close>

text \<open>The two kinds of fenced statement, with their bound values and LSN.\<close>

datatype table_write = WUpsert "gval list" int | WDelete "gval list" int

fun apply_write :: "string list \<Rightarrow> string list \<Rightarrow> table_write \<Rightarrow> table \<Rightarrow> table" where
  "apply_write pk columns (WUpsert vals l) tbl = pg_upsert_row pk columns vals l tbl"
| "apply_write pk columns (WDelete kv l) tbl = pg_delete_row pk kv l tbl"

fun write_key :: "string list \<Rightarrow> string list \<Rightarrow> table_write \<Rightarrow> gval list" where
  "write_key pk columns (WUpsert vals l) = row_key_of pk (incoming_row columns vals)"
| "write_key pk columns (WDelete kv l) = row_key_of pk (incoming_row pk kv)"

fun write_lsn :: "table_write \<Rightarrow> int" where
  "write_lsn (WUpsert vals l) = l"
| "write_lsn (WDelete kv l) = l"

fun cell_of :: "string list \<Rightarrow> string list \<Rightarrow> table_write \<Rightarrow> cell_write" where
  "cell_of pk columns (WUpsert vals l) = CellUpsert (incoming_row columns vals) l"
| "cell_of pk columns (WDelete kv l) = CellDelete (incoming_row pk kv) l"

definition keyed :: "string list \<Rightarrow> table \<Rightarrow> bool" where
  "keyed pk tbl \<longleftrightarrow> (\<forall>k. cell_inv pk k (tbl k))"

definition visible :: "table \<Rightarrow> gval list \<Rightarrow> (int \<times> (string \<Rightarrow> gval) option) option" where
  "visible tbl k = cell_view (tbl k)"

lemma incoming_row_outside: "c \<notin> set columns \<Longrightarrow> incoming_row columns vals c = GNil"
  by (auto simp: incoming_row_def dest: set_zip_leftD map_of_SomeD split: option.splits)

lemma apply_write_at:
  "apply_write pk columns w tbl k =
     (if k = write_key pk columns w then cell_step pk columns (cell_of pk columns w) (tbl k)
      else tbl k)"
  by (cases w) (auto simp: pg_upsert_row_def pg_delete_row_def Let_def split: option.splits)

lemma fold_apply_write_at:
  "fold (apply_write pk columns) ws tbl k =
     fold (cell_step pk columns)
       (map (cell_of pk columns) (filter (\<lambda>w. write_key pk columns w = k) ws)) (tbl k)"
  by (induction ws arbitrary: tbl) (auto simp: apply_write_at)

lemma cell_lsn_of [simp]: "cell_lsn (cell_of pk columns w) = write_lsn w"
  by (cases w) simp_all

lemma cell_winv_of:
  "set pk \<subseteq> set columns \<Longrightarrow> cell_winv pk columns (write_key pk columns w) (cell_of pk columns w)"
  by (cases w) (auto intro!: incoming_row_outside)

definition writes_at :: "string list \<Rightarrow> string list \<Rightarrow> table_write list \<Rightarrow> gval list \<Rightarrow> cell_write list" where
  "writes_at pk columns ws k = map (cell_of pk columns) (filter (\<lambda>w. write_key pk columns w = k) ws)"

lemma writes_at_winv:
  "set pk \<subseteq> set columns \<Longrightarrow> \<forall>c \<in> set (writes_at pk columns ws k). cell_winv pk columns k c"
  using cell_winv_of [of pk columns] by (auto simp: writes_at_def)

lemma writes_at_set:
  "set ws = set ws' \<Longrightarrow> set (writes_at pk columns ws k) = set (writes_at pk columns ws' k)"
  by (auto simp: writes_at_def)

text \<open>Two writes of one row with the same LSN are the same write.\<close>

definition lsn_unique :: "string list \<Rightarrow> string list \<Rightarrow> table_write list \<Rightarrow> bool" where
  "lsn_unique pk columns ws \<longleftrightarrow>
     (\<forall>w \<in> set ws. \<forall>w' \<in> set ws. write_key pk columns w = write_key pk columns w'
        \<longrightarrow> write_lsn w = write_lsn w' \<longrightarrow> w = w')"

lemma writes_at_unique:
  assumes "lsn_unique pk columns ws" and "c \<in> set (writes_at pk columns ws k)"
    and "c' \<in> set (writes_at pk columns ws k)" and "cell_lsn c = cell_lsn c'"
  shows "c = c'"
proof -
  from assms(2,3) obtain w w' where w: "w \<in> set ws" "w' \<in> set ws"
    and key: "write_key pk columns w = k" "write_key pk columns w' = k"
    and c: "c = cell_of pk columns w" "c' = cell_of pk columns w'"
    by (auto simp: writes_at_def)
  with assms(4) have "write_lsn w = write_lsn w'" by simp
  with w key assms(1) have "w = w'" unfolding lsn_unique_def by metis
  with c show ?thesis by simp
qed

lemma writes_at_others:
  assumes "\<And>w'. w' \<in> set ws \<Longrightarrow> write_key pk columns w' = k \<Longrightarrow> w' = w \<or> write_lsn w' < write_lsn w"
    and "c \<in> set (writes_at pk columns ws k)"
  shows "c = cell_of pk columns w \<or> cell_lsn c < write_lsn w"
proof -
  from assms(2) obtain w' where "w' \<in> set ws" "write_key pk columns w' = k" "c = cell_of pk columns w'"
    by (auto simp: writes_at_def)
  with assms(1) [of w'] show ?thesis by auto
qed

lemma visible_fold:
  "visible (fold (apply_write pk columns) ws tbl) k =
     cell_view (fold (cell_step pk columns) (writes_at pk columns ws k) (tbl k))"
  by (simp add: visible_def writes_at_def fold_apply_write_at)

lemma visible_dominated:
  assumes pk: "set pk \<subseteq> set columns" and tbl: "keyed pk tbl"
    and sub: "set ws' \<subseteq> set ws" and uniq: "lsn_unique pk columns ws"
    and dom: "\<And>w. w \<in> set ws \<Longrightarrow>
        \<exists>w' \<in> set ws'. write_key pk columns w' = write_key pk columns w \<and> write_lsn w \<le> write_lsn w'"
  shows "visible (fold (apply_write pk columns) ws tbl)
       = visible (fold (apply_write pk columns) ws' tbl)"
proof
  fix k
  have "cell_inv pk k (tbl k)" using tbl by (simp add: keyed_def)
  moreover have "set (writes_at pk columns ws' k) \<subseteq> set (writes_at pk columns ws k)"
    using sub by (auto simp: writes_at_def)
  moreover have "\<exists>c' \<in> set (writes_at pk columns ws' k). cell_lsn c \<le> cell_lsn c'"
    if "c \<in> set (writes_at pk columns ws k)" for c
    using that dom by (fastforce simp: writes_at_def)
  ultimately show "visible (fold (apply_write pk columns) ws tbl) k
      = visible (fold (apply_write pk columns) ws' tbl) k"
    using cell.dominated [of pk k "tbl k" "writes_at pk columns ws k" columns
        "writes_at pk columns ws' k"]
      writes_at_winv [OF pk] writes_at_unique [OF uniq]
    by (simp add: visible_fold)
qed

text \<open>
  C4: replay safety. Start from any target table and let any two sequences of fenced upserts and
  tombstones reach it that consist of the same writes, in any order and with any repetitions (a
  redelivery, a retry, a dead letter drained late). Where every row has one write per LSN, the
  visible tables are equal.
\<close>

theorem replay_converges:
  assumes "set pk \<subseteq> set columns" and "keyed pk tbl"
    and "set ws = set ws'" and "lsn_unique pk columns ws"
  shows "visible (fold (apply_write pk columns) ws tbl)
       = visible (fold (apply_write pk columns) ws' tbl)"
  by (rule visible_dominated) (use assms in auto)

definition demo_writes :: "table_write list" where
  "demo_writes = [WUpsert [GInt 1, GString ''a''] 10, WDelete [GInt 1] 20,
     WUpsert [GInt 1, GString ''b''] 15]"

theorem replay_converges_witness:
  "visible (fold (apply_write [''id''] [''id'', ''v'']) demo_writes Map.empty)
   = visible (fold (apply_write [''id''] [''id'', ''v'']) (rev demo_writes @ demo_writes) Map.empty)"
  by (rule replay_converges)
     (auto simp: keyed_def cell_inv_def lsn_unique_def demo_writes_def)

text \<open>
  no stale write wins and no deleted row comes back: if one write of a row has a larger LSN
  than every other write of the sequence to that row and than the stored one, then after the
  whole sequence the row shows exactly what that write says, whatever the order of arrival.
\<close>

theorem newest_write_wins:
  assumes "set pk \<subseteq> set columns" and "keyed pk tbl" and "w \<in> set ws"
    and "write_key pk columns w = k"
    and "\<And>w'. w' \<in> set ws \<Longrightarrow> write_key pk columns w' = k \<Longrightarrow> w' = w \<or> write_lsn w' < write_lsn w"
    and "\<And>r. tbl k = Some r \<Longrightarrow> sr_lsn r \<le> write_lsn w"
  shows "visible (fold (apply_write pk columns) ws tbl) k =
    (case w of
       WDelete kv l \<Rightarrow> Some (l, None)
     | WUpsert vals l \<Rightarrow> Some (l, Some (\<lambda>c. if c \<in> set columns then incoming_row columns vals c
                                         else cell_base columns (tbl k) c)))"
proof -
  have inv: "cell_inv pk k (tbl k)" using assms(2) by (simp add: keyed_def)
  have mem: "cell_of pk columns w \<in> set (writes_at pk columns ws k)"
    using assms(3,4) by (auto simp: writes_at_def)
  have others: "c = cell_of pk columns w \<or> cell_lsn c < write_lsn w"
    if "c \<in> set (writes_at pk columns ws k)" for c
    using writes_at_others [OF assms(5) that] .
  have "cell.newest (writes_at pk columns ws k) (tbl k) (cell_of pk columns w)"
    using mem others assms(6) by (fastforce simp: cell.newest_def cell.stale_def)
  then have "cell_view (fold (cell_step pk columns) (writes_at pk columns ws k) (tbl k))
      = cell_result columns (cell_of pk columns w) (cell_base columns (tbl k))"
    using cell.newest_wins [OF inv writes_at_winv [OF assms(1)]] others by fastforce
  then show ?thesis
    by (cases w) (simp_all add: visible_fold)
qed

theorem newest_write_wins_witness:
  "visible (fold (apply_write [''id''] [''id'', ''v'']) demo_writes Map.empty) [GInt 1]
   = Some (20, None)"
proof -
  have "w' = WDelete [GInt 1] 20 \<or> write_lsn w' < 20" if "w' \<in> set demo_writes" for w'
    using that by (auto simp: demo_writes_def)
  moreover have "WDelete [GInt 1] 20 \<in> set demo_writes" by (simp add: demo_writes_def)
  moreover have "write_key [''id''] [''id'', ''v''] (WDelete [GInt 1] 20) = [GInt 1]"
    by (simp add: row_key_of_def incoming_row_def)
  ultimately show ?thesis
    using newest_write_wins [of "[''id'']" "[''id'', ''v'']" Map.empty "WDelete [GInt 1] 20"
        demo_writes "[GInt 1]"]
    by (simp add: keyed_def cell_inv_def)
qed

section \<open>Staged parts\<close>

text \<open>
  C36: a staged part never overwrites a fresher row: merging a row whose stored LSN is newer than
  the extract LSN of the part leaves the table as it was. But the merge does not clear the
  tombstone flag: where the stored row is a tombstone that is not newer than the part, the row
  keeps being deleted while it takes the extract LSN, so that a later upsert with a smaller LSN
  is rejected and the row stays invisible.
\<close>

theorem merge_fence:
  fixes columns vals pk
  defines "k \<equiv> row_key_of pk (incoming_row columns vals)"
  assumes "tbl k = Some r"
  shows "(x < sr_lsn r \<longrightarrow> pg_merge_row pk columns x vals tbl = tbl)
    \<and> (sr_lsn r \<le> x \<longrightarrow> sr_deleted r \<longrightarrow>
        visible (pg_merge_row pk columns x vals tbl) k = Some (x, None)
        \<and> (\<forall>vals' l. row_key_of pk (incoming_row columns vals') = k \<longrightarrow> l < x \<longrightarrow>
             visible (pg_upsert_row pk columns vals' l (pg_merge_row pk columns x vals tbl)) k
               = Some (x, None)))"
  using assms(2)
  by (auto simp: pg_merge_row_def pg_upsert_row_def Let_def k_def [symmetric] visible_def
      cell_view_def)

theorem merge_fence_witness:
  "visible (pg_upsert_row [''id''] [''id'', ''v''] [GInt 1, GString ''new''] 20
     (pg_merge_row [''id''] [''id'', ''v''] 30 [GInt 1, GString ''new'']
       (pg_delete_row [''id''] [GInt 1] 10 Map.empty))) [GInt 1] = Some (30, None)"
proof -
  let ?t = "pg_delete_row [''id''] [GInt 1] 10 Map.empty"
  let ?r = "\<lparr>sr_vals = incoming_row [''id''] [GInt 1], sr_lsn = 10, sr_deleted = True\<rparr>"
  have k: "row_key_of [''id''] (incoming_row [''id'', ''v''] [GInt 1, GString ''new'']) = [GInt 1]"
    "row_key_of [''id''] (incoming_row [''id''] [GInt 1]) = [GInt 1]"
    by (simp_all add: row_key_of_def incoming_row_def)
  then have "?t [GInt 1] = Some ?r" by (simp add: pg_delete_row_def)
  then show ?thesis
    using merge_fence [of ?t "[''id'']" "[''id'', ''v'']" "[GInt 1, GString ''new'']" ?r 30] k
    by simp
qed

end
