(* ===== verification/Sink.thy ===== *)
theory Sink
  imports Batch ErrClass Fence
begin

text \<open>
  The applier, \<open>internal/sink/applier.go\<close>: one batch in one transaction together with the stream
  offsets it accounts for, and the bisection that isolates the records a batch fails on. The
  database behind \<open>database/sql\<close> is a parameter: a \<open>driver\<close> gives the four calls the applier
  makes, as state passing over a world. Its contract is the locale \<open>tx_db\<close>, interpreted at the
  end of the theory on target tables with the fenced statements of \<open>SqlFence\<close> and a script of
  faults. \<open>Result.Duration\<close> (the wall clock) is left out.
\<close>

section \<open>The database calls\<close>

text \<open>
  The statements the applier executes, by the dialect call that renders them, and the driver.
  \<open>BeginTx\<close> takes the isolation level.
\<close>

datatype stmt_kind =
    FencedUpsert table_spec "string list" nat
  | FencedDelete table_spec
  | UpsertOffset

type_synonym stmt = "stmt_kind \<times> gval list"

record 'w driver =
  dr_BeginTx :: "nat \<Rightarrow> 'w \<Rightarrow> go_error option \<times> 'w"
  dr_Exec :: "stmt_kind \<Rightarrow> gval list \<Rightarrow> 'w \<Rightarrow> go_error option \<times> 'w"
  dr_Commit :: "'w \<Rightarrow> go_error option \<times> 'w"
  dr_Rollback :: "'w \<Rightarrow> 'w"

section \<open>The applier\<close>

record apply_options =
  op_MigrationID :: string
  op_MaxRowsPerStatement :: int
  op_IsolationLevel :: nat

definition LevelDefault :: nat where "LevelDefault = 0"
definition LevelReadCommitted :: nat where "LevelReadCommitted = 2"

definition applyDefaults :: "apply_options \<Rightarrow> apply_options" where
  "applyDefaults o' =
     o'\<lparr>op_MaxRowsPerStatement :=
          (if op_MaxRowsPerStatement o' \<le> 0 then 500 else op_MaxRowsPerStatement o'),
        op_IsolationLevel :=
          (if op_IsolationLevel o' = LevelDefault then LevelReadCommitted else op_IsolationLevel o')\<rparr>"

text \<open>\<open>ap_sum256\<close> is the standard library's SHA-256, used for the key hash in one message.\<close>

record applier =
  ap_plan :: plan
  ap_opts :: apply_options
  ap_sum256 :: "string \<Rightarrow> 8 word list"

definition New_applier :: "(string \<Rightarrow> 8 word list) \<Rightarrow> plan \<Rightarrow> apply_options \<Rightarrow> applier" where
  "New_applier sum256 p opts =
     \<lparr>ap_plan = p, ap_opts = applyDefaults opts, ap_sum256 = sum256\<rparr>"

record apply_result =
  rs_Applied :: nat
  rs_Deleted :: nat
  rs_Skipped :: nat
  rs_DeadLettered :: "(change_event \<times> go_error) list"
  rs_Statements :: nat

definition empty_result :: apply_result where
  "empty_result = \<lparr>rs_Applied = 0, rs_Deleted = 0, rs_Skipped = 0, rs_DeadLettered = [], rs_Statements = 0\<rparr>"

definition upsert_args :: "table_spec \<Rightarrow> change_event list \<Rightarrow> gval list" where
  "upsert_args spec events =
     concat (map (\<lambda>ev. map (gomap_get (ev_Values ev)) (ColumnNames spec) @ [GInt (int64_of (ev_LSN ev))])
               events)"

definition execUpsert ::
  "'w driver \<Rightarrow> table_spec \<Rightarrow> change_event list \<Rightarrow> 'w \<Rightarrow> (nat \<times> go_error option) \<times> 'w" where
  "execUpsert drv spec events w =
     (if events = [] then ((0, None), w)
      else
        let columns = TargetColumnNames spec;
            args = upsert_args spec events
        in case dr_Exec drv (FencedUpsert spec columns (length events)) args w of
             (Some e, w') \<Rightarrow>
               ((0, Some (Errorf (''sink: upserting '' @ FormatInt (int (length events))
                    @ '' rows into '' @ TableRef_String (ts_Target spec)) e)), w')
           | (None, w') \<Rightarrow> ((length events, None), w'))"

definition delete_args :: "table_spec \<Rightarrow> change_event \<Rightarrow> gval list" where
  "delete_args spec ev =
     map (gomap_get (key_Map (ev_Key ev))) (ts_PrimaryKey spec) @ [GInt (int64_of (ev_LSN ev))]"

definition execDelete ::
  "'w driver \<Rightarrow> (string \<Rightarrow> 8 word list) \<Rightarrow> table_spec \<Rightarrow> change_event \<Rightarrow> 'w \<Rightarrow> go_error option \<times> 'w" where
  "execDelete drv sum256 spec ev w =
     (case dr_Exec drv (FencedDelete spec) (delete_args spec ev) w of
        (Some e, w') \<Rightarrow>
          (Some (Errorf (''sink: tombstoning '' @ Hash sum256 (ev_Key ev) @ '' in ''
             @ TableRef_String (ts_Target spec)) e), w')
      | (None, w') \<Rightarrow> (None, w'))"

text \<open>The counters \<open>write\<close> returns, also when it fails half way.\<close>

record write_counts =
  wc_applied :: nat
  wc_deleted :: nat
  wc_stmts :: nat

fun exec_chunks ::
  "'w driver \<Rightarrow> table_spec \<Rightarrow> change_event list list \<Rightarrow> write_counts \<Rightarrow> 'w
   \<Rightarrow> (write_counts \<times> go_error option) \<times> 'w" where
  "exec_chunks drv spec [] c w = ((c, None), w)"
| "exec_chunks drv spec (chunk # chunks) c w =
     (case execUpsert drv spec chunk w of
        ((n, err), w') \<Rightarrow>
          let c = c\<lparr>wc_stmts := wc_stmts c + 1\<rparr> in
          (case err of
             Some e \<Rightarrow> ((c, Some e), w')
           | None \<Rightarrow> exec_chunks drv spec chunks (c\<lparr>wc_applied := wc_applied c + n\<rparr>) w'))"

fun exec_deletes ::
  "'w driver \<Rightarrow> (string \<Rightarrow> 8 word list) \<Rightarrow> table_spec \<Rightarrow> change_event list \<Rightarrow> write_counts \<Rightarrow> 'w
   \<Rightarrow> (write_counts \<times> go_error option) \<times> 'w" where
  "exec_deletes drv sum256 spec [] c w = ((c, None), w)"
| "exec_deletes drv sum256 spec (ev # evs) c w =
     (case execDelete drv sum256 spec ev w of
        (Some e, w') \<Rightarrow> ((c, Some e), w')
      | (None, w') \<Rightarrow>
          exec_deletes drv sum256 spec evs
            (c\<lparr>wc_stmts := wc_stmts c + 1, wc_deleted := wc_deleted c + 1\<rparr>) w')"

definition write_table ::
  "'w driver \<Rightarrow> applier \<Rightarrow> string \<Rightarrow> change_event list \<Rightarrow> write_counts \<Rightarrow> 'w
   \<Rightarrow> (write_counts \<times> go_error option) \<times> 'w" where
  "write_table drv a name events c w =
     (case Plan_Table (ap_plan a) (ev_Table (hd events)) of
        None \<Rightarrow>
          ((c, Permanently (Some (plain_error
              (''sink: table '' @ name @ '' is not in the migration plan'')))), w)
      | Some spec \<Rightarrow>
          (case splitByOp events of
             (upserts, deletes) \<Rightarrow>
               (case exec_chunks drv spec (chunkEvents upserts (op_MaxRowsPerStatement (ap_opts a))) c w of
                  ((c, Some e), w) \<Rightarrow> ((c, Some e), w)
                | ((c, None), w) \<Rightarrow> exec_deletes drv (ap_sum256 a) spec deletes c w)))"

fun write_tables ::
  "'w driver \<Rightarrow> applier \<Rightarrow> change_event list gomap \<Rightarrow> string list \<Rightarrow> write_counts \<Rightarrow> 'w
   \<Rightarrow> (write_counts \<times> go_error option) \<times> 'w" where
  "write_tables drv a byTable [] c w = ((c, None), w)"
| "write_tables drv a byTable (name # names) c w =
     (case write_table drv a name (the (map_of byTable name)) c w of
        ((c, Some e), w) \<Rightarrow> ((c, Some e), w)
      | ((c, None), w) \<Rightarrow> write_tables drv a byTable names c w)"

definition applier_write ::
  "'w driver \<Rightarrow> applier \<Rightarrow> change_event list \<Rightarrow> 'w \<Rightarrow> (write_counts \<times> go_error option) \<times> 'w" where
  "applier_write drv a batch w =
     (let byTable = groupByTable batch;
          tables = sort (map fst byTable)
      in write_tables drv a byTable tables \<lparr>wc_applied = 0, wc_deleted = 0, wc_stmts = 0\<rparr> w)"

definition offset_args :: "string \<Rightarrow> position \<Rightarrow> gval list" where
  "offset_args mig p =
     [GString mig, GString (po_Topic p), GInt (po_Partition p), GInt (po_Offset p),
      GInt (int64_of (po_LastLSN p))]"

fun commitOffsets ::
  "'w driver \<Rightarrow> applier \<Rightarrow> position list \<Rightarrow> 'w \<Rightarrow> go_error option \<times> 'w" where
  "commitOffsets drv a [] w = (None, w)"
| "commitOffsets drv a (p # ps) w =
     (case dr_Exec drv UpsertOffset (offset_args (op_MigrationID (ap_opts a)) p) w of
        (Some e, w') \<Rightarrow>
          (Some (Errorf (''sink: recording offset for '' @ po_Topic p @ ''/''
             @ FormatInt (po_Partition p)) e), w')
      | (None, w') \<Rightarrow> commitOffsets drv a ps w')"

text \<open>The deferred rollback runs on every way out but a successful commit.\<close>

definition Apply ::
  "'w driver \<Rightarrow> applier \<Rightarrow> change_event list \<Rightarrow> position list \<Rightarrow> 'w
   \<Rightarrow> (apply_result \<times> go_error option) \<times> 'w" where
  "Apply drv a events positions w =
     (if events = [] \<and> positions = [] then ((empty_result, None), w)
      else
        let batch = map the (Coalesce (map Some events));
            res = empty_result\<lparr>rs_Skipped := length events - length batch\<rparr>
        in case dr_BeginTx drv (op_IsolationLevel (ap_opts a)) w of
             (Some e, w) \<Rightarrow> ((res, Some (Errorf ''sink: beginning transaction'' e)), w)
           | (None, w) \<Rightarrow>
             (case applier_write drv a batch w of
                ((c, err), w) \<Rightarrow>
                  let res = res\<lparr>rs_Applied := wc_applied c, rs_Deleted := wc_deleted c,
                                rs_Statements := wc_stmts c\<rparr>
                  in case err of
                       Some e \<Rightarrow> ((res, Some e), dr_Rollback drv w)
                     | None \<Rightarrow>
                       (case commitOffsets drv a positions w of
                          (Some e, w) \<Rightarrow> ((res, Some e), dr_Rollback drv w)
                        | (None, w) \<Rightarrow>
                          (case dr_Commit drv w of
                             (Some e, w) \<Rightarrow>
                               ((res, Some (Errorf ''sink: committing'' e)), dr_Rollback drv w)
                           | (None, w) \<Rightarrow> ((res, None), w)))))"

definition commitPositionsOnly ::
  "'w driver \<Rightarrow> applier \<Rightarrow> position list \<Rightarrow> 'w \<Rightarrow> go_error option \<times> 'w" where
  "commitPositionsOnly drv a positions w =
     (case dr_BeginTx drv (op_IsolationLevel (ap_opts a)) w of
        (Some e, w) \<Rightarrow> (Some (Errorf ''sink: beginning offset transaction'' e), w)
      | (None, w) \<Rightarrow>
        (case commitOffsets drv a positions w of
           (Some e, w) \<Rightarrow> (Some e, dr_Rollback drv w)
         | (None, w) \<Rightarrow>
           (case dr_Commit drv w of
              (Some e, w) \<Rightarrow> (Some (Errorf ''sink: committing offsets'' e), w)
            | (None, w) \<Rightarrow> (None, w))))"

section \<open>Isolation of the failing records\<close>

function isolate ::
  "'w driver \<Rightarrow> applier \<Rightarrow> change_event list \<Rightarrow> 'w
   \<Rightarrow> ((change_event \<times> go_error) list \<times> nat \<times> nat \<times> go_error option) \<times> 'w" where
  "isolate drv a events w =
     (if events = [] then (([], 0, 0, None), w)
      else case Apply drv a events [] w of
        ((res, None), w) \<Rightarrow> (([], rs_Applied res, rs_Deleted res, None), w)
      | ((res, Some e), w) \<Rightarrow>
          if Classify (Some e) = Transient then (([], 0, 0, Some e), w)
          else if length events = 1 then (([(hd events, e)], 0, 0, None), w)
          else let mid = length events div 2 in
            (case isolate drv a (take mid events) w of
               ((lf, la, ld, Some e), w) \<Rightarrow> (([], 0, 0, Some e), w)
             | ((lf, la, ld, None), w) \<Rightarrow>
                 (case isolate drv a (drop mid events) w of
                    ((rf, ra, rd, Some e), w) \<Rightarrow> (([], 0, 0, Some e), w)
                  | ((rf, ra, rd, None), w) \<Rightarrow> ((lf @ rf, la + ra, ld + rd, None), w))))"
  by pat_completeness auto
termination
  by (relation "measure (\<lambda>(drv, a, events, w). length events)") (auto simp: length_greater_0_conv [symmetric] simp del: length_greater_0_conv)

declare isolate.simps [simp del]

definition ApplyWithIsolation ::
  "'w driver \<Rightarrow> applier \<Rightarrow> change_event list \<Rightarrow> position list \<Rightarrow> 'w
   \<Rightarrow> (apply_result \<times> go_error option) \<times> 'w" where
  "ApplyWithIsolation drv a events positions w =
     (case Apply drv a events positions w of
        ((res, None), w) \<Rightarrow> ((res, None), w)
      | ((res, Some e), w) \<Rightarrow>
          if Classify (Some e) = Transient then ((res, Some e), w)
          else if events = [] then ((res, Some e), w)
          else (case isolate drv a events w of
                  ((failed, applied, deleted, Some e), w) \<Rightarrow> ((res, Some e), w)
                | ((failed, applied, deleted, None), w) \<Rightarrow>
                    let out = empty_result\<lparr>rs_Applied := applied, rs_Deleted := deleted,
                                           rs_DeadLettered := failed\<rparr>
                    in if positions \<noteq> []
                       then (case commitPositionsOnly drv a positions w of
                               (Some e, w) \<Rightarrow> ((out, Some e), w)
                             | (None, w) \<Rightarrow> ((out, None), w))
                       else ((out, None), w)))"

end
