(* ===== verification/SinkAtomic.thy ===== *)
theory SinkAtomic
  imports Sink
begin

text \<open>
  What the applier guarantees over any transactional database: the contract of the driver is the
  locale \<open>tx_db\<close>, and the atomicity of \<open>Apply\<close> and the completeness of \<open>ApplyWithIsolation\<close> are
  proved inside it. The interpretation on target tables, offsets and a script of faults closes
  the theory.
\<close>

section \<open>The statements of a batch\<close>

text \<open>What a batch asks of the database, as one list of statements in execution order.\<close>

definition upsert_stmt :: "table_spec \<Rightarrow> change_event list \<Rightarrow> stmt" where
  "upsert_stmt spec c = (FencedUpsert spec (TargetColumnNames spec) (length c), upsert_args spec c)"

definition delete_stmt :: "table_spec \<Rightarrow> change_event \<Rightarrow> stmt" where
  "delete_stmt spec ev = (FencedDelete spec, delete_args spec ev)"

definition offset_stmt :: "applier \<Rightarrow> position \<Rightarrow> stmt" where
  "offset_stmt a p = (UpsertOffset, offset_args (op_MigrationID (ap_opts a)) p)"

definition table_stmts :: "applier \<Rightarrow> change_event list \<Rightarrow> stmt list" where
  "table_stmts a events =
     (case Plan_Table (ap_plan a) (ev_Table (hd events)) of
        None \<Rightarrow> []
      | Some spec \<Rightarrow>
          map (upsert_stmt spec)
            (chunkEvents (filter (\<lambda>e. IsUpsert (ev_Op e)) events) (op_MaxRowsPerStatement (ap_opts a)))
          @ map (delete_stmt spec) (filter (\<lambda>e. ev_Op e = OpDelete) events))"

definition data_stmts :: "applier \<Rightarrow> change_event list \<Rightarrow> stmt list" where
  "data_stmts a batch =
     (let byTable = groupByTable batch
      in concat (map (\<lambda>name. table_stmts a (the (map_of byTable name))) (sort (map fst byTable))))"

definition coalesced :: "change_event list \<Rightarrow> change_event list" where
  "coalesced events = map the (Coalesce (map Some events))"

definition batch_stmts :: "applier \<Rightarrow> change_event list \<Rightarrow> position list \<Rightarrow> stmt list" where
  "batch_stmts a events positions =
     data_stmts a (coalesced events) @ map (offset_stmt a) positions"

lemma coalesced_Nil [simp]: "coalesced [] = []"
  by (simp add: coalesced_def Coalesce_def)

lemma data_stmts_Nil [simp]: "data_stmts a [] = []"
  by (simp add: data_stmts_def groupByTable_def)

lemma batch_stmts_no_positions [simp]: "batch_stmts a events [] = data_stmts a (coalesced events)"
  by (simp add: batch_stmts_def)

definition run_stmts :: "(stmt_kind \<Rightarrow> gval list \<Rightarrow> 'd \<Rightarrow> 'd) \<Rightarrow> stmt list \<Rightarrow> 'd \<Rightarrow> 'd" where
  "run_stmts sem stmts d = fold (\<lambda>(s, args). sem s args) stmts d"

lemma run_append [simp]: "run_stmts sem (xs @ ys) d = run_stmts sem ys (run_stmts sem xs d)"
  and run_Nil [simp]: "run_stmts sem [] d = d"
  and run_Cons: "run_stmts sem (x # xs) d = run_stmts sem xs (sem (fst x) (snd x) d)"
  by (simp_all add: run_stmts_def case_prod_beta)

text \<open>
  How a bisection divides a batch: consecutive segments, each applied (\<open>None\<close>) or rejected with
  an error. The dead letters are the events of the rejected segments.
\<close>

type_synonym segment = "change_event list \<times> go_error option"

definition segments_effect ::
  "(stmt_kind \<Rightarrow> gval list \<Rightarrow> 'd \<Rightarrow> 'd) \<Rightarrow> applier \<Rightarrow> segment list \<Rightarrow> 'd \<Rightarrow> 'd" where
  "segments_effect sem a segs d =
     fold (\<lambda>(es, r) d. if r = None then run_stmts sem (batch_stmts a es []) d else d) segs d"

definition segments_ok :: "segment list \<Rightarrow> bool" where
  "segments_ok segs \<longleftrightarrow>
     (\<forall>(es, r) \<in> set segs. \<forall>e. r = Some e \<longrightarrow> length es = 1 \<and> Classify (Some e) \<noteq> Transient)"

definition segment_events :: "segment list \<Rightarrow> change_event list" where
  "segment_events segs = concat (map fst segs)"

definition dead_letters :: "segment list \<Rightarrow> (change_event \<times> go_error) list" where
  "dead_letters segs =
     concat (map (\<lambda>(es, r). case r of None \<Rightarrow> [] | Some e \<Rightarrow> [(hd es, e)]) segs)"

lemma segments_append [simp]:
  "segments_effect sem a (xs @ ys) d = segments_effect sem a ys (segments_effect sem a xs d)"
  "segments_ok (xs @ ys) \<longleftrightarrow> segments_ok xs \<and> segments_ok ys"
  "segment_events (xs @ ys) = segment_events xs @ segment_events ys"
  "dead_letters (xs @ ys) = dead_letters xs @ dead_letters ys"
  by (auto simp: segments_effect_def segments_ok_def segment_events_def dead_letters_def)

lemma segments_Nil [simp]:
  "segments_effect sem a [] d = d" "segments_ok []" "segment_events [] = []" "dead_letters [] = []"
  by (simp_all add: segments_effect_def segments_ok_def segment_events_def dead_letters_def)

lemma segments_single [simp]:
  "segments_effect sem a [(es, r)] d = (if r = None then run_stmts sem (batch_stmts a es []) d else d)"
  "segments_ok [(es, r)] \<longleftrightarrow> (\<forall>e. r = Some e \<longrightarrow> length es = 1 \<and> Classify (Some e) \<noteq> Transient)"
  "segment_events [(es, r)] = es"
  "dead_letters [(es, r)] = (case r of None \<Rightarrow> [] | Some e \<Rightarrow> [(hd es, e)])"
  by (simp_all add: segments_effect_def segments_ok_def segment_events_def dead_letters_def)

lemma Apply_DeadLettered: "Apply drv a events positions w = ((res, err), w') \<Longrightarrow> rs_DeadLettered res = []"
  by (auto simp: Apply_def Let_def empty_result_def split: if_splits prod.splits option.splits)

section \<open>The contract of the database\<close>

text \<open>
  \<open>durable\<close> is what the database keeps, \<open>working\<close> what the open transaction sees and \<open>sem\<close> what
  a statement does. Only a commit makes anything durable. A commit that reports an error may have
  happened all the same when the connection broke under it; \<open>lost\<close> are those errors, and they
  are ones \<open>Classify\<close> recognises through a wrapping.
\<close>

locale tx_db =
  fixes drv :: "'w driver"
    and durable :: "'w \<Rightarrow> 'd"
    and working :: "'w \<Rightarrow> 'd"
    and sem :: "stmt_kind \<Rightarrow> gval list \<Rightarrow> 'd \<Rightarrow> 'd"
    and lost :: "go_error \<Rightarrow> bool"
  assumes begin_keeps: "dr_BeginTx drv l w = (r, w') \<Longrightarrow> durable w' = durable w"
    and begin_fresh: "dr_BeginTx drv l w = (None, w') \<Longrightarrow> working w' = durable w"
    and exec_keeps: "dr_Exec drv s args w = (r, w') \<Longrightarrow> durable w' = durable w"
    and exec_sem: "dr_Exec drv s args w = (None, w') \<Longrightarrow> working w' = sem s args (working w)"
    and commit_ok: "dr_Commit drv w = (None, w') \<Longrightarrow> durable w' = working w"
    and commit_error: "dr_Commit drv w = (Some e, w') \<Longrightarrow>
          durable w' = durable w \<or> lost e \<and> durable w' = working w"
    and rollback_keeps: "durable (dr_Rollback drv w) = durable w"
    and lost_transient: "lost e \<Longrightarrow> Classify (Some (Errorf pre e)) = Transient"
begin

abbreviation run :: "stmt list \<Rightarrow> 'd \<Rightarrow> 'd" where
  "run \<equiv> run_stmts sem"

abbreviation segs_effect :: "applier \<Rightarrow> (change_event list \<times> go_error option) list \<Rightarrow> 'd \<Rightarrow> 'd" where
  "segs_effect \<equiv> segments_effect sem"

text \<open>What a step that executes \<open>stmts\<close> inside the transaction does to the world.\<close>

definition executed :: "stmt list \<Rightarrow> 'w \<Rightarrow> go_error option \<Rightarrow> 'w \<Rightarrow> bool" where
  "executed stmts w err w' \<longleftrightarrow>
     durable w' = durable w \<and> (err = None \<longrightarrow> working w' = run stmts (working w))"

lemma executed_trans:
  "executed xs w None w1 \<Longrightarrow> executed ys w1 err w2 \<Longrightarrow> executed (xs @ ys) w err w2"
  by (simp add: executed_def)

lemma executed_failed: "executed xs w (Some e) w1 \<Longrightarrow> executed ys w (Some e') w1"
  by (simp add: executed_def)

lemma executed_Nil [simp]: "executed [] w None w"
  by (simp add: executed_def)

lemma exec_executed: "dr_Exec drv s args w = (err, w') \<Longrightarrow> executed [(s, args)] w err w'"
  using exec_keeps exec_sem by (auto simp: executed_def run_Cons)

lemma execUpsert_executed:
  "events \<noteq> [] \<Longrightarrow> execUpsert drv spec events w = ((n, err), w')
   \<Longrightarrow> executed [upsert_stmt spec events] w err w'"
  by (auto simp: execUpsert_def Let_def upsert_stmt_def dest!: exec_executed split: prod.splits option.splits
        intro: executed_failed)

lemma execDelete_executed:
  "execDelete drv h spec ev w = (err, w') \<Longrightarrow> executed [delete_stmt spec ev] w err w'"
  by (auto simp: execDelete_def delete_stmt_def dest!: exec_executed split: prod.splits option.splits
        intro: executed_failed)

lemma executed_Cons:
  "executed [x] w None w1 \<Longrightarrow> executed xs w1 err w2 \<Longrightarrow> executed (x # xs) w err w2"
  using executed_trans [of "[x]"] by simp

lemma exec_chunks_executed:
  "[] \<notin> set chunks \<Longrightarrow> exec_chunks drv spec chunks c w = ((c', err), w')
   \<Longrightarrow> executed (map (upsert_stmt spec) chunks) w err w'"
proof (induction chunks arbitrary: c w)
  case (Cons chunk chunks)
  obtain n err1 w1 where u: "execUpsert drv spec chunk w = ((n, err1), w1)" by (metis surj_pair)
  have "chunk \<noteq> []" using Cons.prems by auto
  note ex = execUpsert_executed [OF this u]
  show ?case
  proof (cases err1)
    case None
    then have "executed (map (upsert_stmt spec) chunks) w1 err w'"
      using Cons.IH Cons.prems u by (simp add: Let_def)
    then show ?thesis using ex None executed_Cons by simp
  next
    case (Some e)
    then show ?thesis using ex Cons.prems u by (auto simp: Let_def intro: executed_failed)
  qed
qed simp

lemma exec_deletes_executed:
  "exec_deletes drv h spec evs c w = ((c', err), w')
   \<Longrightarrow> executed (map (delete_stmt spec) evs) w err w'"
proof (induction evs arbitrary: c w)
  case (Cons ev evs)
  obtain err1 w1 where u: "execDelete drv h spec ev w = (err1, w1)" by (metis surj_pair)
  note ex = execDelete_executed [OF this]
  show ?case
  proof (cases err1)
    case None
    then have "executed (map (delete_stmt spec) evs) w1 err w'" using Cons.IH Cons.prems u by simp
    then show ?thesis using ex None executed_Cons by simp
  next
    case (Some e)
    then show ?thesis using ex Cons.prems u by (auto intro: executed_failed)
  qed
qed simp

lemma chunkEvents_no_Nil: "[] \<notin> set (chunkEvents xs n)"
  using chunkEvents_length by blast

lemma write_table_executed:
  assumes "write_table drv a name events c w = ((c', err), w')"
  shows "executed (table_stmts a events) w err w'"
proof (cases "Plan_Table (ap_plan a) (ev_Table (hd events))")
  case None
  then show ?thesis
    using assms by (auto simp: write_table_def Permanently_def executed_def)
next
  case (Some spec)
  let ?ups = "filter (\<lambda>e. IsUpsert (ev_Op e)) events" and ?max = "op_MaxRowsPerStatement (ap_opts a)"
  obtain c1 err1 w1 where ch: "exec_chunks drv spec (chunkEvents ?ups ?max) c w = ((c1, err1), w1)"
    by (metis surj_pair)
  note ex = exec_chunks_executed [OF chunkEvents_no_Nil ch]
  show ?thesis
  proof (cases err1)
    case None
    then show ?thesis
      using assms ch ex Some exec_deletes_executed executed_trans
      by (fastforce simp: write_table_def table_stmts_def splitByOp_filter)
  next
    case (Some e)
    then show ?thesis
      using assms ch ex \<open>Plan_Table _ _ = Some spec\<close>
      by (auto simp: write_table_def splitByOp_filter intro: executed_failed)
  qed
qed

lemma write_tables_executed:
  "write_tables drv a by' names c w = ((c', err), w')
   \<Longrightarrow> executed (concat (map (\<lambda>name. table_stmts a (the (map_of by' name))) names)) w err w'"
proof (induction names arbitrary: c w)
  case (Cons name names)
  obtain c1 err1 w1 where wt: "write_table drv a name (the (map_of by' name)) c w = ((c1, err1), w1)"
    by (metis surj_pair)
  note ex = write_table_executed [OF this]
  show ?case
  proof (cases err1)
    case None
    then show ?thesis using ex wt Cons.IH Cons.prems executed_trans by fastforce
  next
    case (Some e)
    then show ?thesis using ex wt Cons.prems by (auto intro: executed_failed)
  qed
qed simp

lemma applier_write_executed:
  "applier_write drv a batch w = ((c, err), w') \<Longrightarrow> executed (data_stmts a batch) w err w'"
  by (simp add: applier_write_def data_stmts_def Let_def write_tables_executed)

lemma commitOffsets_executed:
  "commitOffsets drv a ps w = (err, w') \<Longrightarrow> executed (map (offset_stmt a) ps) w err w'"
proof (induction ps arbitrary: w)
  case (Cons p ps)
  obtain err1 w1 where u: "dr_Exec drv UpsertOffset (offset_args (op_MigrationID (ap_opts a)) p) w = (err1, w1)"
    by (metis surj_pair)
  then have ex: "executed [offset_stmt a p] w err1 w1" by (simp add: offset_stmt_def exec_executed)
  show ?case
  proof (cases err1)
    case None
    then show ?thesis using ex u Cons.IH Cons.prems executed_Cons by simp
  next
    case (Some e)
    then show ?thesis using ex u Cons.prems by (auto intro: executed_failed)
  qed
qed simp

section \<open>One transaction\<close>

lemma Apply_outcome:
  assumes "Apply drv a events positions w = ((res, err), w')"
  shows "durable w' = run (batch_stmts a events positions) (durable w)
           \<and> (\<forall>e. err = Some e \<longrightarrow> Classify err = Transient)
       \<or> err \<noteq> None \<and> durable w' = durable w"
proof (cases "events = [] \<and> positions = []")
  case True
  then show ?thesis using assms by (simp add: Apply_def batch_stmts_def)
next
  case False
  obtain b w1 where b: "dr_BeginTx drv (op_IsolationLevel (ap_opts a)) w = (b, w1)" by (metis surj_pair)
  obtain c werr w2 where wr: "applier_write drv a (coalesced events) w1 = ((c, werr), w2)"
    by (metis surj_pair)
  obtain oerr w3 where off: "commitOffsets drv a positions w2 = (oerr, w3)" by (metis surj_pair)
  obtain cerr w4 where com: "dr_Commit drv w3 = (cerr, w4)" by (metis surj_pair)
  note def = Apply_def Let_def coalesced_def [symmetric] False b wr off com
  have d1: "durable w1 = durable w" using begin_keeps b .
  have d2: "durable w2 = durable w"
    using applier_write_executed [OF wr] d1 by (simp add: executed_def)
  have d3: "durable w3 = durable w"
    using commitOffsets_executed [OF off] d2 by (simp add: executed_def)
  show ?thesis
  proof (cases "b = None \<and> werr = None \<and> oerr = None")
    case True
    then have "working w3 = run (batch_stmts a events positions) (durable w)"
      using applier_write_executed [OF wr] commitOffsets_executed [OF off] begin_fresh b
      by (simp add: executed_def batch_stmts_def)
    then show ?thesis
      using assms True d3 com commit_ok commit_error [of w3] rollback_keeps lost_transient
      by (cases cerr) (fastforce simp: def)+
  next
    case False
    then show ?thesis
      using assms d1 d2 d3 rollback_keeps
      by (cases b; cases werr; cases oerr) (auto simp: def)
  qed
qed

lemma commitPositionsOnly_outcome:
  assumes "commitPositionsOnly drv a positions w = (err, w')"
  shows "durable w' = run (map (offset_stmt a) positions) (durable w) \<or> err \<noteq> None \<and> durable w' = durable w"
proof -
  obtain b w1 where b: "dr_BeginTx drv (op_IsolationLevel (ap_opts a)) w = (b, w1)" by (metis surj_pair)
  obtain oerr w3 where off: "commitOffsets drv a positions w1 = (oerr, w3)" by (metis surj_pair)
  obtain cerr w4 where com: "dr_Commit drv w3 = (cerr, w4)" by (metis surj_pair)
  note def = commitPositionsOnly_def b off com
  have d1: "durable w1 = durable w" using begin_keeps b .
  have d3: "durable w3 = durable w"
    using commitOffsets_executed [OF off] d1 by (simp add: executed_def)
  show ?thesis
  proof (cases "b = None \<and> oerr = None")
    case True
    then have "working w3 = run (map (offset_stmt a) positions) (durable w)"
      using commitOffsets_executed [OF off] begin_fresh b by (simp add: executed_def)
    then show ?thesis
      using assms True d3 com commit_ok commit_error [of w3]
      by (cases cerr) (fastforce simp: def)+
  next
    case False
    then show ?thesis
      using assms d1 d3 rollback_keeps by (cases b; cases oerr) (auto simp: def)
  qed
qed

section \<open>Bisection\<close>

text \<open>
  A bisection that returns has dealt with every event, in order; one that fails has dealt with a
  prefix of them.
\<close>

lemma isolate_outcome:
  "isolate drv a events w = ((failed, applied, deleted, err), w') \<Longrightarrow>
   \<exists>segs. segments_ok segs \<and> durable w' = segs_effect a segs (durable w)
     \<and> prefix (segment_events segs) events
     \<and> (err = None \<longrightarrow> segment_events segs = events \<and> failed = dead_letters segs)
     \<and> (\<forall>e. err = Some e \<longrightarrow> Classify err = Transient)"
proof (induction "length events" arbitrary: events w failed applied deleted err w' rule: less_induct)
  case less
  let ?goal = "\<lambda>segs. segments_ok segs \<and> durable w' = segs_effect a segs (durable w)
     \<and> prefix (segment_events segs) events
     \<and> (err = None \<longrightarrow> segment_events segs = events \<and> failed = dead_letters segs)
     \<and> (\<forall>e. err = Some e \<longrightarrow> Classify err = Transient)"
  show ?case
  proof (cases "events = []")
    case True
    then have "?goal []" using less.prems by (simp add: isolate.simps)
    then show ?thesis by blast
  next
    case nonempty: False
    obtain res aerr w1 where ap: "Apply drv a events [] w = ((res, aerr), w1)" by (metis surj_pair)
    note out = Apply_outcome [OF ap] and iso = less.prems [unfolded isolate.simps [of drv a events]]
    consider (ok) "aerr = None" | (transient) e where "aerr = Some e" "Classify (Some e) = Transient"
      | (single) e where "aerr = Some e" "Classify (Some e) \<noteq> Transient" "length events = 1"
      | (split) e where "aerr = Some e" "Classify (Some e) \<noteq> Transient" "1 < length events"
      using nonempty by (cases aerr) (auto, metis One_nat_def Suc_lessI length_greater_0_conv)
    then show ?thesis
    proof cases
      case ok
      then have "?goal [(events, None)]" using iso ap out nonempty by auto
      then show ?thesis by blast
    next
      case transient
      then have "?goal [(events, None)] \<or> ?goal []" using iso ap out nonempty by auto
      then show ?thesis by blast
    next
      case single
      then have "?goal [(events, Some e)]" using iso ap out nonempty by auto
      then show ?thesis by blast
    next
      case split
      let ?l = "take (length events div 2) events" and ?r = "drop (length events div 2) events"
      obtain lf la ld lerr w2 where l: "isolate drv a ?l w1 = ((lf, la, ld, lerr), w2)"
        by (metis surj_pair)
      obtain rf ra rd rerr w3 where r: "isolate drv a ?r w2 = ((rf, ra, rd, rerr), w3)"
        by (metis surj_pair)
      have d: "durable w1 = durable w" using out split by auto
      have shorter: "length ?l < length events" "length ?r < length events" using split by auto
      obtain ls where ls: "segments_ok ls" "durable w2 = segs_effect a ls (durable w)"
          "prefix (segment_events ls) ?l"
          "lerr = None \<longrightarrow> segment_events ls = ?l \<and> lf = dead_letters ls"
          "\<forall>e. lerr = Some e \<longrightarrow> Classify lerr = Transient"
        using less.hyps [OF shorter(1) l] d by metis
      obtain rs where rs: "segments_ok rs" "durable w3 = segs_effect a rs (durable w2)"
          "prefix (segment_events rs) ?r"
          "rerr = None \<longrightarrow> segment_events rs = ?r \<and> rf = dead_letters rs"
          "\<forall>e. rerr = Some e \<longrightarrow> Classify rerr = Transient"
        using less.hyps [OF shorter(2) r] by metis
      show ?thesis
      proof (cases lerr)
        case (Some e')
        then have "err = lerr" "w' = w2" using iso ap l split nonempty by (auto simp: Let_def)
        then have "?goal ls"
          using ls Some prefix_order.trans [OF ls(3) take_is_prefix] by simp
        then show ?thesis by blast
      next
        case None
        then have "err = rerr" "w' = w3" "rerr = None \<longrightarrow> failed = lf @ rf"
          using iso ap l r split nonempty by (cases rerr; auto simp: Let_def)+
        moreover have "prefix (segment_events (ls @ rs)) events"
          using ls(4) rs(3) None same_prefix_prefix [of ?l "segment_events rs" ?r] by simp
        ultimately have "?goal (ls @ rs)" using ls rs None by simp
        then show ?thesis by blast
      qed
    qed
  qed
qed

text \<open>
  The whole call: the database holds what a sequence of segments did, a prefix of the batch, and
  the offsets only when every event of the batch has been applied or is in the dead letters the
  call returns.
\<close>

lemma ApplyWithIsolation_outcome:
  assumes "ApplyWithIsolation drv a events positions w = ((res, err), w')"
  shows "\<exists>segs. segments_ok segs \<and> prefix (segment_events segs) events
    \<and> (durable w' = run (map (offset_stmt a) positions) (segs_effect a segs (durable w))
         \<and> segment_events segs = events \<and> rs_DeadLettered res = dead_letters segs
       \<or> err \<noteq> None \<and> durable w' = segs_effect a segs (durable w))"
    (is "\<exists>segs. ?goal segs")
proof -
  obtain ares aerr w1 where ap: "Apply drv a events positions w = ((ares, aerr), w1)"
    by (metis surj_pair)
  have dl: "rs_DeadLettered ares = []" using Apply_DeadLettered [OF ap] .
  show ?thesis
  proof (cases "aerr = None \<or> Classify aerr = Transient \<or> events = []")
    case True
    have "ApplyWithIsolation drv a events positions w = ((ares, aerr), w1)"
    proof (cases aerr)
      case None
      then show ?thesis by (simp add: ApplyWithIsolation_def ap)
    next
      case (Some e)
      then have "Classify (Some e) = Transient \<or> events = []" using True by simp
      then show ?thesis using ap Some by (elim disjE) (simp_all add: ApplyWithIsolation_def)
    qed
    then have w': "w' = w1" "res = ares" "err = aerr" using assms by simp_all
    then have "?goal [(events, None)] \<or> ?goal []"
      using Apply_outcome [OF ap] dl by (auto simp: batch_stmts_def)
    then show ?thesis by blast
  next
    case False
    then have d1: "durable w1 = durable w" using Apply_outcome [OF ap] by auto
    obtain f ad de ierr w2 where iso: "isolate drv a events w1 = ((f, ad, de, ierr), w2)"
      by (metis surj_pair)
    obtain perr w3 where pos: "commitPositionsOnly drv a positions w2 = (perr, w3)" by (metis surj_pair)
    obtain segs where segs: "segments_ok segs" "durable w2 = segs_effect a segs (durable w)"
        "prefix (segment_events segs) events"
        "ierr = None \<longrightarrow> segment_events segs = events \<and> f = dead_letters segs"
      using isolate_outcome [OF iso] d1 by metis
    obtain e where e: "aerr = Some e" "Classify (Some e) \<noteq> Transient" "events \<noteq> []"
      using False by auto
    note def = assms [unfolded ApplyWithIsolation_def ap e(1), simplified, unfolded iso]
    consider (failed) e' where "ierr = Some e'" "w' = w2" "err = ierr"
      | (nothing) "ierr = None" "positions = []" "w' = w2" "rs_DeadLettered res = f"
      | (offsets) "ierr = None" "w' = w3" "err = perr" "rs_DeadLettered res = f"
      using def e pos by (cases ierr; cases perr; cases "positions = []") (auto simp: Let_def)
    then have "?goal segs"
    proof cases
      case failed
      then show ?thesis using segs by simp
    next
      case nothing
      then show ?thesis using segs by simp
    next
      case offsets
      then show ?thesis using segs commitPositionsOnly_outcome [OF pos] by simp
    qed
    then show ?thesis by blast
  qed
qed

end

section \<open>A database without faults\<close>

text \<open>
  While nothing is wrong with the database itself (\<open>calm\<close>), only the data decides whether a
  statement is accepted, and what is refused is not mistaken for a transient failure.
\<close>

locale steady_db = tx_db drv durable working sem lost
  for drv :: "'w driver" and durable working :: "'w \<Rightarrow> 'd" and sem lost +
  fixes calm :: "'w \<Rightarrow> bool"
    and accepts :: "stmt_kind \<Rightarrow> gval list \<Rightarrow> bool"
  assumes calm_begin: "calm w \<Longrightarrow> dr_BeginTx drv l w = (r, w') \<Longrightarrow> r = None \<and> calm w'"
    and calm_exec: "calm w \<Longrightarrow> dr_Exec drv s args w = (r, w') \<Longrightarrow> calm w' \<and> (accepts s args \<longrightarrow> r = None)"
    and calm_refused: "calm w \<Longrightarrow> dr_Exec drv s args w = (Some e, w') \<Longrightarrow>
          Classify (Some (Errorf pre e)) \<noteq> Transient"
    and calm_commit: "calm w \<Longrightarrow> dr_Commit drv w = (r, w') \<Longrightarrow> r = None \<and> calm w'"
    and calm_rollback: "calm w \<Longrightarrow> calm (dr_Rollback drv w)"
begin

definition calmly :: "bool \<Rightarrow> go_error option \<Rightarrow> 'w \<Rightarrow> bool" where
  "calmly ok err w' \<longleftrightarrow>
     calm w' \<and> (ok \<longrightarrow> err = None) \<and> (\<forall>e. err = Some e \<longrightarrow> Classify (Some e) \<noteq> Transient)"

lemma calmly_None [simp]: "calmly ok None w' \<longleftrightarrow> calm w'"
  and calmly_Some: "calmly ok (Some e) w' \<longleftrightarrow> calm w' \<and> \<not> ok \<and> Classify (Some e) \<noteq> Transient"
  by (auto simp: calmly_def)

lemma calmly_mono: "calmly ok err w' \<Longrightarrow> (ok' \<Longrightarrow> ok) \<Longrightarrow> calmly ok' err w'"
  by (auto simp: calmly_def)

definition accepted :: "stmt \<Rightarrow> bool" where
  "accepted st \<longleftrightarrow> accepts (fst st) (snd st)"

lemma execUpsert_calmly:
  "calm w \<Longrightarrow> execUpsert drv spec events w = ((n, err), w') \<Longrightarrow> calmly (accepted (upsert_stmt spec events)) err w'"
  using calm_exec calm_refused
  by (fastforce simp: execUpsert_def Let_def calmly_def accepted_def upsert_stmt_def
      split: if_splits prod.splits option.splits)

lemma execDelete_calmly:
  "calm w \<Longrightarrow> execDelete drv h spec ev w = (err, w') \<Longrightarrow> calmly (accepted (delete_stmt spec ev)) err w'"
  using calm_exec calm_refused
  by (fastforce simp: execDelete_def calmly_def accepted_def delete_stmt_def split: prod.splits option.splits)

lemma exec_chunks_calmly:
  "calm w \<Longrightarrow> exec_chunks drv spec chunks c w = ((c', err), w')
   \<Longrightarrow> calmly (\<forall>x \<in> set chunks. accepted (upsert_stmt spec x)) err w'"
proof (induction chunks arbitrary: c w)
  case (Cons chunk chunks)
  obtain n err1 w1 where u: "execUpsert drv spec chunk w = ((n, err1), w1)" by (metis surj_pair)
  note ex = execUpsert_calmly [OF Cons.prems(1) this]
  show ?case
  proof (cases err1)
    case None
    then have "calmly (\<forall>x \<in> set chunks. accepted (upsert_stmt spec x)) err w'"
      using ex Cons.IH Cons.prems u by (simp add: Let_def)
    then show ?thesis by (rule calmly_mono) simp
  next
    case (Some e)
    then show ?thesis using ex Cons.prems u by (auto simp: Let_def calmly_Some)
  qed
qed simp

lemma exec_deletes_calmly:
  "calm w \<Longrightarrow> exec_deletes drv h spec evs c w = ((c', err), w')
   \<Longrightarrow> calmly (\<forall>x \<in> set evs. accepted (delete_stmt spec x)) err w'"
proof (induction evs arbitrary: c w)
  case (Cons ev evs)
  obtain err1 w1 where u: "execDelete drv h spec ev w = (err1, w1)" by (metis surj_pair)
  note ex = execDelete_calmly [OF Cons.prems(1) this]
  show ?case
  proof (cases err1)
    case None
    then have "calmly (\<forall>x \<in> set evs. accepted (delete_stmt spec x)) err w'"
      using ex Cons.IH Cons.prems u by simp
    then show ?thesis by (rule calmly_mono) simp
  next
    case (Some e)
    then show ?thesis using ex Cons.prems u by (auto simp: calmly_Some)
  qed
qed simp

text \<open>The events of one table are writable when the table is in the plan and accepts them.\<close>

definition writable :: "applier \<Rightarrow> change_event list \<Rightarrow> bool" where
  "writable a events \<longleftrightarrow>
     Plan_Table (ap_plan a) (ev_Table (hd events)) \<noteq> None \<and> (\<forall>st \<in> set (table_stmts a events). accepted st)"

lemma write_table_calmly:
  assumes "calm w" and "write_table drv a name events c w = ((c', err), w')"
  shows "calmly (writable a events) err w'"
proof (cases "Plan_Table (ap_plan a) (ev_Table (hd events))")
  case None
  then show ?thesis
    using assms by (auto simp: write_table_def Permanently_def calmly_def writable_def Classify_marked)
next
  case (Some spec)
  let ?ups = "filter (\<lambda>e. IsUpsert (ev_Op e)) events" and ?max = "op_MaxRowsPerStatement (ap_opts a)"
  let ?dels = "filter (\<lambda>e. ev_Op e = OpDelete) events"
  obtain c1 err1 w1 where ch: "exec_chunks drv spec (chunkEvents ?ups ?max) c w = ((c1, err1), w1)"
    by (metis surj_pair)
  note ex = exec_chunks_calmly [OF assms(1) ch]
  show ?thesis
  proof (cases err1)
    case None
    have "calm w1" using ex None by simp
    moreover have "exec_deletes drv (ap_sum256 a) spec ?dels c1 w1 = ((c', err), w')"
      using assms(2) ch Some None by (simp add: write_table_def splitByOp_filter)
    ultimately have "calmly (\<forall>x \<in> set ?dels. accepted (delete_stmt spec x)) err w'"
      by (rule exec_deletes_calmly)
    then show ?thesis by (rule calmly_mono) (simp add: writable_def table_stmts_def Some)
  next
    case err1: (Some e)
    then have "err = err1" "w' = w1"
      using assms(2) ch Some by (auto simp: write_table_def splitByOp_filter)
    then show ?thesis using calmly_mono [OF ex] by (simp add: writable_def table_stmts_def Some)
  qed
qed

lemma write_tables_calmly:
  "calm w \<Longrightarrow> write_tables drv a by' names c w = ((c', err), w')
   \<Longrightarrow> calmly (\<forall>name \<in> set names. writable a (the (map_of by' name))) err w'"
proof (induction names arbitrary: c w)
  case (Cons name names)
  obtain c1 err1 w1 where wt: "write_table drv a name (the (map_of by' name)) c w = ((c1, err1), w1)"
    by (metis surj_pair)
  note ex = write_table_calmly [OF Cons.prems(1) this]
  show ?case
  proof (cases err1)
    case None
    then have "calmly (\<forall>name \<in> set names. writable a (the (map_of by' name))) err w'"
      using ex Cons.IH Cons.prems wt by simp
    then show ?thesis by (rule calmly_mono) simp
  next
    case (Some e)
    then show ?thesis using ex Cons.prems wt by (auto simp: calmly_Some)
  qed
qed simp

lemma commitOffsets_calmly:
  "calm w \<Longrightarrow> commitOffsets drv a ps w = (err, w')
   \<Longrightarrow> calmly (\<forall>p \<in> set ps. accepted (offset_stmt a p)) err w'"
proof (induction ps arbitrary: w)
  case (Cons p ps)
  obtain err1 w1 where u: "dr_Exec drv UpsertOffset (offset_args (op_MigrationID (ap_opts a)) p) w = (err1, w1)"
    by (metis surj_pair)
  note ex = calm_exec [OF Cons.prems(1) u]
  show ?case
  proof (cases err1)
    case None
    then have "calmly (\<forall>p \<in> set ps. accepted (offset_stmt a p)) err w'"
      using ex u Cons.IH Cons.prems by simp
    then show ?thesis by (rule calmly_mono) simp
  next
    case (Some e)
    then show ?thesis
      using ex u Cons.prems calm_refused [of w UpsertOffset _ e w1]
      by (auto simp: calmly_Some accepted_def offset_stmt_def)
  qed
qed simp

definition all_writable :: "applier \<Rightarrow> change_event list \<Rightarrow> bool" where
  "all_writable a batch \<longleftrightarrow>
     (\<forall>name \<in> set (map fst (groupByTable batch)). writable a (the (map_of (groupByTable batch) name)))"

lemma Apply_calmly:
  assumes "calm w" and "Apply drv a events positions w = ((res, err), w')"
  shows "calmly (all_writable a (coalesced events) \<and> (\<forall>p \<in> set positions. accepted (offset_stmt a p))) err w'"
proof (cases "events = [] \<and> positions = []")
  case True
  then show ?thesis using assms by (simp add: Apply_def)
next
  case False
  obtain w1 where b: "dr_BeginTx drv (op_IsolationLevel (ap_opts a)) w = (None, w1)" "calm w1"
    using calm_begin [OF assms(1)] by (metis surj_pair)
  obtain c werr w2 where wr: "applier_write drv a (coalesced events) w1 = ((c, werr), w2)"
    by (metis surj_pair)
  have wc: "calmly (all_writable a (coalesced events)) werr w2"
    using wr write_tables_calmly [OF b(2)] by (fastforce simp: applier_write_def Let_def all_writable_def)
  obtain oerr w3 where off: "commitOffsets drv a positions w2 = (oerr, w3)" by (metis surj_pair)
  obtain cerr w4 where com: "dr_Commit drv w3 = (cerr, w4)" by (metis surj_pair)
  note def = assms(2) [unfolded Apply_def Let_def coalesced_def [symmetric] b(1)]
  show ?thesis
  proof (cases werr)
    case (Some e)
    then show ?thesis using def False wr wc calm_rollback by (auto simp: calmly_Some)
  next
    case None
    then have oc: "calmly (\<forall>p \<in> set positions. accepted (offset_stmt a p)) oerr w3"
      using commitOffsets_calmly off wc by simp
    show ?thesis
    proof (cases oerr)
      case (Some e)
      then show ?thesis using def False wr None off oc calm_rollback by (auto simp: calmly_Some)
    next
      case None
      then show ?thesis
        using def False wr \<open>werr = None\<close> off oc com calm_commit [of w3 cerr w4] by auto
    qed
  qed
qed

lemma isolate_calmly:
  "calm w \<Longrightarrow> isolate drv a events w = ((failed, applied, deleted, err), w')
   \<Longrightarrow> err = None \<and> calm w' \<and> (\<forall>(ev, e) \<in> set failed. \<not> all_writable a [ev])"
proof (induction "length events" arbitrary: events w failed applied deleted err w' rule: less_induct)
  case less
  show ?case
  proof (cases "events = []")
    case True
    then show ?thesis using less.prems by (simp add: isolate.simps)
  next
    case nonempty: False
    obtain res aerr w1 where ap: "Apply drv a events [] w = ((res, aerr), w1)" by (metis surj_pair)
    note ac = Apply_calmly [OF less.prems(1) ap]
      and iso = less.prems(2) [unfolded isolate.simps [of drv a events]]
    show ?thesis
    proof (cases aerr)
      case None
      then show ?thesis using iso ap ac nonempty by simp
    next
      case (Some e)
      then have e: "Classify (Some e) \<noteq> Transient" "calm w1" "\<not> all_writable a (coalesced events)"
        using ac by (simp_all add: calmly_Some)
      show ?thesis
      proof (cases "length events = 1")
        case True
        then obtain ev where "events = [ev]" by (cases events) auto
        then show ?thesis using iso ap Some e by (auto simp: coalesced_def Coalesce_def)
      next
        case False
        let ?l = "take (length events div 2) events" and ?r = "drop (length events div 2) events"
        have shorter: "length ?l < length events" "length ?r < length events"
          using False nonempty by (cases events; auto)+
        obtain lf la ld lerr w2 where l: "isolate drv a ?l w1 = ((lf, la, ld, lerr), w2)"
          by (metis surj_pair)
        note L = less.hyps [OF shorter(1) e(2) l]
        obtain rf ra rd rerr w3 where r: "isolate drv a ?r w2 = ((rf, ra, rd, rerr), w3)"
          by (metis surj_pair)
        note R = less.hyps [OF shorter(2) _ r]
        show ?thesis using iso ap Some e False nonempty l r L R by (auto simp: Let_def)
      qed
    qed
  qed
qed

lemma ApplyWithIsolation_calmly:
  assumes w: "calm w" and ap: "ApplyWithIsolation drv a events positions w = ((res, err), w')"
    and ev: "events \<noteq> []" and pos: "\<forall>p \<in> set positions. accepted (offset_stmt a p)"
  shows "err = None \<and> (\<forall>(ev, e) \<in> set (rs_DeadLettered res). \<not> all_writable a [ev])"
proof -
  obtain ares aerr w1 where ap1: "Apply drv a events positions w = ((ares, aerr), w1)"
    by (metis surj_pair)
  note ac = Apply_calmly [OF w ap1] and dl = Apply_DeadLettered [OF ap1]
  show ?thesis
  proof (cases aerr)
    case None
    then show ?thesis using ap ap1 dl by (auto simp: ApplyWithIsolation_def)
  next
    case (Some e)
    then have e: "Classify (Some e) \<noteq> Transient" "calm w1" using ac by (simp_all add: calmly_Some)
    obtain f ad de ierr w2 where iso: "isolate drv a events w1 = ((f, ad, de, ierr), w2)"
      by (metis surj_pair)
    note ic = isolate_calmly [OF e(2) iso]
    obtain b w3 where b: "dr_BeginTx drv (op_IsolationLevel (ap_opts a)) w2 = (b, w3)" by (metis surj_pair)
    obtain oerr w4 where off: "commitOffsets drv a positions w3 = (oerr, w4)" by (metis surj_pair)
    obtain cerr w5 where com: "dr_Commit drv w4 = (cerr, w5)" by (metis surj_pair)
    have "b = None" "calm w3" using calm_begin b ic by blast+
    moreover from this have "oerr = None" "calm w4"
      using commitOffsets_calmly [OF _ off] pos by (simp_all add: calmly_def)
    moreover from this have "cerr = None" using calm_commit com by blast
    ultimately have "commitPositionsOnly drv a positions w2 = (None, w5)"
      using b off com by (simp add: commitPositionsOnly_def)
    then show ?thesis
      using ap ap1 Some e ev iso ic
      by (cases "positions = []") (auto simp: ApplyWithIsolation_def Let_def)
  qed
qed

end

end
