(* ===== verification/TargetDb.thy ===== *)
theory TargetDb
  imports SinkAtomic
begin

text \<open>
  The applier on a target database: tables and offsets under the fenced statements of
  \<open>SqlFence\<close>, with NOT NULL violations and a script of faults. It interprets the contracts of
  \<open>SinkAtomic\<close>, so that the guarantees of \<open>Apply\<close> and \<open>ApplyWithIsolation\<close> become statements
  about tables and offsets.
\<close>

section \<open>The database\<close>

record target_db =
  td_tables :: "table_ref \<Rightarrow> table"
  td_offsets :: offset_table

definition int_of :: "gval \<Rightarrow> int" where
  "int_of v = (case v of GInt i \<Rightarrow> i | _ \<Rightarrow> 0)"

text \<open>The tuples of an upsert: the column values and the LSN bound after them.\<close>

definition tuples :: "nat \<Rightarrow> gval list \<Rightarrow> (gval list \<times> int) list" where
  "tuples n args = map (\<lambda>t. (butlast t, int_of (last t))) (chunks_of (Suc n) args)"

fun stmt_writes :: "stmt_kind \<Rightarrow> gval list \<Rightarrow> table_write list" where
  "stmt_writes (FencedUpsert spec columns n) args = map (\<lambda>(v, l). WUpsert v l) (tuples (length columns) args)"
| "stmt_writes (FencedDelete spec) args = [WDelete (butlast args) (int_of (last args))]"
| "stmt_writes UpsertOffset args = []"

definition write_target ::
  "table_spec \<Rightarrow> string list \<Rightarrow> table_write list \<Rightarrow> target_db \<Rightarrow> target_db" where
  "write_target spec columns ws db =
     db\<lparr>td_tables := (td_tables db)(ts_Target spec :=
          fold (apply_write (ts_PrimaryKey spec) columns) ws (td_tables db (ts_Target spec)))\<rparr>"

fun sql_sem :: "stmt_kind \<Rightarrow> gval list \<Rightarrow> target_db \<Rightarrow> target_db" where
  "sql_sem (FencedUpsert spec columns n) args db =
     write_target spec columns (stmt_writes (FencedUpsert spec columns n) args) db"
| "sql_sem (FencedDelete spec) args db =
     write_target spec (TargetColumnNames spec) (stmt_writes (FencedDelete spec) args) db"
| "sql_sem UpsertOffset args db =
     (case args of
        [GString mig, GString topic, GInt part, GInt off, GInt lsn] \<Rightarrow>
          db\<lparr>td_offsets := pg_upsert_offset mig topic part off lsn (td_offsets db)\<rparr>
      | _ \<Rightarrow> db)"

text \<open>What the database refuses whatever it holds: NULL in a NOT NULL column (SQLSTATE 23502).\<close>

definition not_null_violation :: go_error where
  "not_null_violation = Base \<lparr>be_msg = ''null value violates not-null constraint'', be_is = None,
     be_net = False, be_dns = False, be_sqlstate = Some ''23502'', be_mysql = None\<rparr>"

fun refused :: "stmt_kind \<Rightarrow> gval list \<Rightarrow> bool" where
  "refused (FencedUpsert spec columns n) args =
     list_ex (\<lambda>(v, l). list_ex (\<lambda>(c, x). \<not> cs_Nullable c \<and> x = GNil) (zip (ts_Columns spec) v))
       (tuples (length columns) args)"
| "refused (FencedDelete spec) args = (GNil \<in> set (butlast args))"
| "refused UpsertOffset args = False"

text \<open>
  The world of the driver: the durable and the working contents, and a script that says for each
  coming call whether it fails, with which error, and for a failing commit whether it took effect
  before the connection broke.
\<close>

record world =
  wd_durable :: target_db
  wd_working :: target_db
  wd_faults :: "(go_error \<times> bool) option list"

definition next_fault :: "world \<Rightarrow> (go_error \<times> bool) option \<times> world" where
  "next_fault w =
     (case wd_faults w of
        [] \<Rightarrow> (None, w)
      | f # fs \<Rightarrow> (f, w\<lparr>wd_faults := fs\<rparr>))"

definition broken_connection :: "go_error \<Rightarrow> bool" where
  "broken_connection e \<longleftrightarrow> structured (base_of e) \<and> Classify (Some e) = Transient"

definition sql_driver :: "world driver" where
  "sql_driver =
     \<lparr>dr_BeginTx = (\<lambda>level w.
        (case next_fault w of
           (Some (e, t), w) \<Rightarrow> (Some e, w)
         | (None, w) \<Rightarrow> (None, w\<lparr>wd_working := wd_durable w\<rparr>))),
      dr_Exec = (\<lambda>s args w.
        (case next_fault w of
           (Some (e, t), w) \<Rightarrow> (Some e, w)
         | (None, w) \<Rightarrow>
             if refused s args then (Some not_null_violation, w)
             else (None, w\<lparr>wd_working := sql_sem s args (wd_working w)\<rparr>))),
      dr_Commit = (\<lambda>w.
        (case next_fault w of
           (Some (e, t), w) \<Rightarrow>
             (Some e, if t \<and> broken_connection e then w\<lparr>wd_durable := wd_working w\<rparr> else w)
         | (None, w) \<Rightarrow> (None, w\<lparr>wd_durable := wd_working w\<rparr>))),
      dr_Rollback = (\<lambda>w. w\<lparr>wd_working := wd_durable w\<rparr>)\<rparr>"

lemma next_fault_keeps:
  "next_fault w = (f, w') \<Longrightarrow> wd_durable w' = wd_durable w \<and> wd_working w' = wd_working w"
  by (auto simp: next_fault_def split: list.splits)

lemma broken_connection_wrap: "broken_connection e \<Longrightarrow> Classify (Some (Errorf pre e)) = Transient"
  using Classify_structured_wrap [of e "[pre]"] by (simp add: broken_connection_def)

lemma not_null_violation_class: "Classify (Some (Errorf pre not_null_violation)) \<noteq> Transient"
proof -
  have "Classify (Some (wrap_all [pre] not_null_violation)) = Classify (Some not_null_violation)"
    by (rule Classify_structured_wrap)
       (simp add: structured_def not_null_violation_def classifySQLState_def)
  then show ?thesis
    by (simp add: Classify_def not_null_violation_def classifySQLState_def)
qed

interpretation sql: tx_db sql_driver wd_durable wd_working sql_sem broken_connection
  by unfold_locales
     (auto simp: sql_driver_def broken_connection_wrap dest!: next_fault_keeps
       split: prod.splits option.splits if_splits)

interpretation quiet: steady_db sql_driver wd_durable wd_working sql_sem broken_connection
    "\<lambda>w. wd_faults w = []" "\<lambda>s args. \<not> refused s args"
  by unfold_locales
     (auto simp: sql_driver_def next_fault_def not_null_violation_class split: if_splits)

section \<open>Atomicity and isolation\<close>

definition demo_applier :: applier where
  "demo_applier = New_applier (\<lambda>s. []) demo_plan
     \<lparr>op_MigrationID = ''m'', op_MaxRowsPerStatement = 0, op_IsolationLevel = 0\<rparr>"

definition demo_db :: target_db where
  "demo_db = \<lparr>td_tables = (\<lambda>t. Map.empty), td_offsets = Map.empty\<rparr>"

definition demo_world :: "(go_error \<times> bool) option list \<Rightarrow> world" where
  "demo_world faults = \<lparr>wd_durable = demo_db, wd_working = demo_db, wd_faults = faults\<rparr>"

definition demo_poison :: change_event where
  "demo_poison = (demo_event 9 8 8)\<lparr>ev_After := [(''id'', GInt 9)]\<rparr>"



text \<open>
  C3: no event is lost and no offset runs ahead. After \<open>ApplyWithIsolation\<close> the database holds
  the effect of consecutive segments of the batch, applied in order from its start, where a
  segment that was not applied is one event with an error that is not transient. The offsets are
  stored only when the segments cover the whole batch and every rejected event is in the dead
  letters handed to the caller.
\<close>

theorem ApplyWithIsolation_no_loss:
  assumes "ApplyWithIsolation sql_driver a events positions w = ((res, err), w')"
  shows "\<exists>segs. segments_ok segs \<and> prefix (segment_events segs) events
    \<and> (wd_durable w' = run_stmts sql_sem (map (offset_stmt a) positions)
                           (segments_effect sql_sem a segs (wd_durable w))
         \<and> segment_events segs = events \<and> rs_DeadLettered res = dead_letters segs
       \<or> err \<noteq> None \<and> wd_durable w' = segments_effect sql_sem a segs (wd_durable w))"
  by (rule sql.ApplyWithIsolation_outcome [OF assms])

theorem ApplyWithIsolation_no_loss_witness:
  "let r = ApplyWithIsolation sql_driver demo_applier [demo_event 1 5 1, demo_poison] [] (demo_world [])
   in \<exists>segs. segments_ok segs \<and> prefix (segment_events segs) [demo_event 1 5 1, demo_poison]
      \<and> wd_durable (snd r) = segments_effect sql_sem demo_applier segs demo_db"
proof -
  let ?r = "ApplyWithIsolation sql_driver demo_applier [demo_event 1 5 1, demo_poison] [] (demo_world [])"
  have "?r = ((fst (fst ?r), snd (fst ?r)), snd ?r)" by simp
  from ApplyWithIsolation_no_loss [OF this] show ?thesis
    by (auto simp: Let_def demo_world_def)
qed

section \<open>Statements as row writes\<close>

definition event_write :: "table_spec \<Rightarrow> change_event \<Rightarrow> table_write" where
  "event_write spec ev =
     (if ev_Op ev = OpDelete
      then WDelete (map (gomap_get (key_Map (ev_Key ev))) (ts_PrimaryKey spec)) (int64_of (ev_LSN ev))
      else WUpsert (map (gomap_get (ev_Values ev)) (ColumnNames spec)) (int64_of (ev_LSN ev)))"

lemma chunks_of_same_length:
  "\<forall>x \<in> set xss. length x = Suc n \<Longrightarrow> chunks_of (Suc n) (concat xss) = xss"
proof (induction xss)
  case Nil
  show ?case by (simp add: chunks_of.simps)
next
  case (Cons x xss)
  then have x: "length x = Suc n" "x \<noteq> []" by auto
  have "chunks_of (Suc n) (x @ concat xss) = x # chunks_of (Suc n) (concat xss)"
    using x by (subst chunks_of.simps) simp
  then show ?case using Cons by simp
qed

lemma upsert_tuples:
  "tuples (length (TargetColumnNames spec)) (upsert_args spec events)
     = map (\<lambda>ev. (map (gomap_get (ev_Values ev)) (ColumnNames spec), int64_of (ev_LSN ev))) events"
proof -
  let ?ts = "map (\<lambda>ev. map (gomap_get (ev_Values ev)) (ColumnNames spec) @ [GInt (int64_of (ev_LSN ev))]) events"
  have "chunks_of (Suc (length (TargetColumnNames spec))) (concat ?ts) = ?ts"
    by (rule chunks_of_same_length) (auto simp: TargetColumnNames_def ColumnNames_def)
  then show ?thesis
    by (simp add: tuples_def upsert_args_def int_of_def comp_def)
qed

lemma upsert_stmt_writes:
  "\<forall>e \<in> set c. ev_Op e \<noteq> OpDelete \<Longrightarrow>
   stmt_writes (fst (upsert_stmt spec c)) (snd (upsert_stmt spec c)) = map (event_write spec) c"
  by (simp add: upsert_stmt_def upsert_tuples event_write_def comp_def)

lemma delete_stmt_writes:
  "ev_Op e = OpDelete \<Longrightarrow>
   stmt_writes (fst (delete_stmt spec e)) (snd (delete_stmt spec e)) = [event_write spec e]"
  by (simp add: delete_stmt_def delete_args_def event_write_def int_of_def)

text \<open>An event whose own write the database refuses, or whose table is not in the plan.\<close>

definition poison :: "applier \<Rightarrow> change_event \<Rightarrow> bool" where
  "poison a ev =
     (case Plan_Table (ap_plan a) (ev_Table ev) of
        None \<Rightarrow> True
      | Some spec \<Rightarrow>
          IsUpsert (ev_Op ev) \<and>
            (\<exists>c \<in> set (ts_Columns spec). \<not> cs_Nullable c \<and> gomap_get (ev_Values ev) (cs_Name c) = GNil)
          \<or> ev_Op ev = OpDelete \<and> (\<exists>k \<in> set (ts_PrimaryKey spec). gomap_get (key_Map (ev_Key ev)) k = GNil))"

lemma chunkEvents_one: "chunkEvents [x] n = [[x]]"
proof -
  obtain m where m: "nat (if n \<le> 0 then 500 else n) = Suc m" by (cases "nat (if n \<le> 0 then 500 else n)") (auto split: if_splits)
  show ?thesis unfolding chunkEvents_def m by (subst chunks_of.simps, subst chunks_of.simps) simp
qed

lemma chunkEvents_Nil: "chunkEvents [] n = []"
  by (simp add: chunkEvents_def chunks_of.simps)

lemma refused_upsert_one:
  "refused (fst (upsert_stmt spec [ev])) (snd (upsert_stmt spec [ev])) \<longleftrightarrow>
     (\<exists>c \<in> set (ts_Columns spec). \<not> cs_Nullable c \<and> gomap_get (ev_Values ev) (cs_Name c) = GNil)"
  by (auto simp: upsert_stmt_def upsert_tuples list_ex_iff ColumnNames_def zip_map2 zip_same_conv_map
      simp del: One_nat_def)

lemma refused_delete:
  "refused (fst (delete_stmt spec ev)) (snd (delete_stmt spec ev)) \<longleftrightarrow>
     (\<exists>k \<in> set (ts_PrimaryKey spec). gomap_get (key_Map (ev_Key ev)) k = GNil)"
  by (simp add: delete_stmt_def delete_args_def image_iff eq_commute [of GNil])

lemma poison_single: "\<not> quiet.all_writable a [ev] \<Longrightarrow> poison a ev"
proof (cases "Plan_Table (ap_plan a) (ev_Table ev)")
  case None
  then show ?thesis by (simp add: poison_def)
next
  case (Some spec)
  assume bad: "\<not> quiet.all_writable a [ev]"
  have "groupByTable [ev] = [(TableRef_String (ev_Table ev), [ev])]"
    by (simp add: groupByTable_def group_step_def Let_def)
  then obtain st where "st \<in> set (table_stmts a [ev])" and "refused (fst st) (snd st)"
    using bad Some by (auto simp: quiet.all_writable_def quiet.writable_def quiet.accepted_def)
  then show ?thesis
    using Some refused_upsert_one [of spec ev] refused_delete [of spec ev]
    by (auto simp: poison_def table_stmts_def chunkEvents_one chunkEvents_Nil split: if_splits)
qed

text \<open>
  C30: one bad record does not stop the stream. On a database without faults the call returns
  without an error, whatever the batch holds, and every event it dead-letters is one whose own
  write is refused: its table is not in the plan or it has NULL where the column or key forbids
  it. All other events are applied.
\<close>

theorem ApplyWithIsolation_only_poison:
  assumes "ApplyWithIsolation sql_driver a events positions w = ((res, err), w')"
    and "wd_faults w = []" and "events \<noteq> []"
  shows "err = None \<and> (\<forall>(ev, e) \<in> set (rs_DeadLettered res). poison a ev)"
proof -
  have "\<forall>p \<in> set positions. quiet.accepted (offset_stmt a p)"
    by (simp add: quiet.accepted_def offset_stmt_def)
  then show ?thesis
    using quiet.ApplyWithIsolation_calmly [OF assms(2,1,3)] poison_single by fastforce
qed

theorem ApplyWithIsolation_only_poison_witness:
  "let r = ApplyWithIsolation sql_driver demo_applier [demo_event 1 5 1, demo_poison] [] (demo_world [])
   in snd (fst r) = None \<and> demo_event 1 5 1 \<notin> fst ` set (rs_DeadLettered (fst (fst r)))"
proof -
  let ?r = "ApplyWithIsolation sql_driver demo_applier [demo_event 1 5 1, demo_poison] [] (demo_world [])"
  have "?r = ((fst (fst ?r), snd (fst ?r)), snd ?r)" by simp
  moreover have "\<not> poison demo_applier (demo_event 1 5 1)"
    by (simp add: poison_def demo_applier_def New_applier_def Plan_Table_def demo_defs ev_Values_def
        demo_event_def op_defs IsUpsert_def)
  ultimately show ?thesis
    using ApplyWithIsolation_only_poison [of demo_applier "[demo_event 1 5 1, demo_poison]" "[]" "demo_world []"]
    by (fastforce simp: Let_def demo_world_def)
qed

section \<open>A batch is its events, one at a time\<close>

fun of_spec :: "table_spec \<Rightarrow> stmt_kind \<Rightarrow> bool" where
  "of_spec spec (FencedUpsert sp columns n) \<longleftrightarrow> sp = spec \<and> columns = TargetColumnNames spec"
| "of_spec spec (FencedDelete sp) \<longleftrightarrow> sp = spec"
| "of_spec spec UpsertOffset \<longleftrightarrow> False"

fun targets :: "stmt_kind \<Rightarrow> table_ref \<Rightarrow> bool" where
  "targets (FencedUpsert sp columns n) t \<longleftrightarrow> ts_Target sp = t"
| "targets (FencedDelete sp) t \<longleftrightarrow> ts_Target sp = t"
| "targets UpsertOffset t \<longleftrightarrow> False"

definition writes_on :: "table_spec \<Rightarrow> stmt list \<Rightarrow> table_write list" where
  "writes_on spec stmts =
     concat (map (\<lambda>(s, args). if of_spec spec s then stmt_writes s args else []) stmts)"

lemma writes_on_simps [simp]:
  "writes_on spec [] = []"
  "writes_on spec (xs @ ys) = writes_on spec xs @ writes_on spec ys"
  "writes_on spec (st # xs) = (if of_spec spec (fst st) then stmt_writes (fst st) (snd st) else []) @ writes_on spec xs"
  by (simp_all add: writes_on_def case_prod_beta)

lemma writes_on_concat: "writes_on spec (concat xss) = concat (map (writes_on spec) xss)"
  by (induction xss) auto

abbreviation spec_write :: "table_spec \<Rightarrow> table_write \<Rightarrow> table \<Rightarrow> table" where
  "spec_write spec \<equiv> apply_write (ts_PrimaryKey spec) (TargetColumnNames spec)"

lemma sql_sem_table:
  assumes "of_spec spec s \<or> \<not> targets s (ts_Target spec)"
  shows "td_tables (sql_sem s args d) (ts_Target spec) =
    fold (spec_write spec) (if of_spec spec s then stmt_writes s args else []) (td_tables d (ts_Target spec))"
  using assms
  by (cases s) (auto simp: write_target_def split: list.splits gval.splits)

lemma run_stmts_table:
  assumes "\<forall>st \<in> set stmts. of_spec spec (fst st) \<or> \<not> targets (fst st) (ts_Target spec)"
  shows "td_tables (run_stmts sql_sem stmts d) (ts_Target spec) =
    fold (spec_write spec) (writes_on spec stmts) (td_tables d (ts_Target spec))"
  using assms
proof (induction stmts arbitrary: d)
  case (Cons st stmts)
  have "td_tables (sql_sem (fst st) (snd st) d) (ts_Target spec) =
      fold (spec_write spec) (if of_spec spec (fst st) then stmt_writes (fst st) (snd st) else [])
        (td_tables d (ts_Target spec))"
    using Cons.prems by (intro sql_sem_table) simp
  with Cons show ?case by (simp add: run_Cons)
qed simp

lemma Plan_Table_group:
  assumes "name \<in> set (map fst (groupByTable batch))"
    and "inj_on TableRef_String (ev_Table ` set batch)"
  obtains t where "the (map_of (groupByTable batch) name) = filter (\<lambda>e. ev_Table e = t) batch"
    and "name = TableRef_String t" and "t \<in> ev_Table ` set batch"
    and "ev_Table (hd (filter (\<lambda>e. ev_Table e = t) batch)) = t"
proof -
  have "name \<in> (TableRef_String \<circ> ev_Table) ` set batch"
    using assms(1) unfolding groupByTable_names .
  then obtain e where e: "e \<in> set batch" "name = TableRef_String (ev_Table e)" by auto
  have eq: "filter (\<lambda>x. TableRef_String (ev_Table x) = name) batch = filter (\<lambda>x. ev_Table x = ev_Table e) batch"
    using e assms(2) by (intro filter_cong) (auto dest: inj_onD)
  have ne: "filter (\<lambda>x. ev_Table x = ev_Table e) batch \<noteq> []" using e by (auto simp: filter_empty_conv)
  then have "the (map_of (groupByTable batch) name) = filter (\<lambda>x. ev_Table x = ev_Table e) batch"
    by (simp add: groupByTable_get eq Let_def)
  moreover have "ev_Table (hd (filter (\<lambda>x. ev_Table x = ev_Table e) batch)) = ev_Table e"
    using hd_in_set [OF ne] by auto
  ultimately show ?thesis using that e by blast
qed

lemma upsert_not_delete: "IsUpsert o' \<Longrightarrow> o' \<noteq> OpDelete"
  by auto

lemma writes_on_upserts:
  "\<forall>c \<in> set cs. \<forall>e \<in> set c. ev_Op e \<noteq> OpDelete \<Longrightarrow>
   writes_on spec (map (upsert_stmt sp) cs) = (if sp = spec then map (event_write spec) (concat cs) else [])"
proof (induction cs)
  case (Cons c cs)
  then show ?case
    using upsert_stmt_writes [of c spec] by (auto simp: upsert_stmt_def)
qed simp

lemma writes_on_deletes:
  "\<forall>e \<in> set es. ev_Op e = OpDelete \<Longrightarrow>
   writes_on spec (map (delete_stmt sp) es) = (if sp = spec then map (event_write spec) es else [])"
proof (induction es)
  case (Cons e es)
  then show ?case
    using delete_stmt_writes [of e spec] by (auto simp: delete_stmt_def)
qed simp

lemma table_stmts_writes:
  "set (writes_on spec (table_stmts a es)) =
     (if Plan_Table (ap_plan a) (ev_Table (hd es)) = Some spec
      then event_write spec ` {e \<in> set es. IsUpsert (ev_Op e) \<or> ev_Op e = OpDelete} else {})"
proof (cases "Plan_Table (ap_plan a) (ev_Table (hd es))")
  case None
  then show ?thesis by (simp add: table_stmts_def)
next
  case (Some sp)
  let ?ups = "filter (\<lambda>e. IsUpsert (ev_Op e)) es"
  let ?cs = "chunkEvents ?ups (op_MaxRowsPerStatement (ap_opts a))"
  have "\<forall>c \<in> set ?cs. \<forall>e \<in> set c. ev_Op e \<noteq> OpDelete"
  proof (intro ballI)
    fix c e assume "c \<in> set ?cs" "e \<in> set c"
    then have "e \<in> set (concat ?cs)" by (auto simp del: chunkEvents_concat)
    then show "ev_Op e \<noteq> OpDelete" using upsert_not_delete by simp
  qed
  then have "writes_on spec (map (upsert_stmt sp) ?cs) = (if sp = spec then map (event_write spec) ?ups else [])"
    by (subst writes_on_upserts) simp_all
  then show ?thesis
    using Some writes_on_deletes [of "filter (\<lambda>e. ev_Op e = OpDelete) es" spec sp]
    by (auto simp: table_stmts_def)
qed

lemma data_stmts_writes:
  assumes inj: "inj_on TableRef_String (ev_Table ` set batch)"
  shows "set (writes_on spec (data_stmts a batch)) =
    event_write spec ` {e \<in> set batch. Plan_Table (ap_plan a) (ev_Table e) = Some spec
                                  \<and> (IsUpsert (ev_Op e) \<or> ev_Op e = OpDelete)}"
    (is "_ = event_write spec ` ?E")
proof -
  let ?g = "\<lambda>name. the (map_of (groupByTable batch) name)"
  let ?W = "\<lambda>name. set (writes_on spec (table_stmts a (?g name)))"
  let ?names = "set (map fst (groupByTable batch))"
  have "set (writes_on spec (data_stmts a batch)) = (\<Union>name \<in> ?names. ?W name)"
    by (simp add: data_stmts_def Let_def writes_on_concat)
  also have "\<dots> = event_write spec ` ?E"
  proof (intro equalityI subsetI)
    fix x assume "x \<in> (\<Union>name \<in> ?names. ?W name)"
    then obtain name where name: "name \<in> ?names" "x \<in> ?W name" by blast
    obtain t where t: "?g name = filter (\<lambda>e. ev_Table e = t) batch" "ev_Table (hd (?g name)) = t"
      using Plan_Table_group [OF name(1) inj] by metis
    show "x \<in> event_write spec ` ?E"
      using name(2) unfolding table_stmts_writes t(2) unfolding t(1)
      by (auto split: if_splits)
  next
    fix x assume "x \<in> event_write spec ` ?E"
    then obtain e where e: "e \<in> ?E" "x = event_write spec e" by blast
    let ?name = "TableRef_String (ev_Table e)"
    have "?name \<in> ?names" unfolding groupByTable_names using e by auto
    moreover obtain t where t: "?g ?name = filter (\<lambda>e. ev_Table e = t) batch" "?name = TableRef_String t"
        "t \<in> ev_Table ` set batch" "ev_Table (hd (?g ?name)) = t"
      using Plan_Table_group [OF calculation inj] by metis
    have "t = ev_Table e" using inj t(2,3) e(1) by (auto dest: inj_onD)
    then have "x \<in> ?W ?name"
      unfolding table_stmts_writes t(4) using e unfolding t(1) by auto
    ultimately show "x \<in> (\<Union>name \<in> ?names. ?W name)" by blast
  qed
  finally show ?thesis .
qed

lemma data_stmts_of_plan:
  assumes "st \<in> set (data_stmts a batch)"
  shows "\<exists>sp \<in> set (pl_Tables (ap_plan a)). of_spec sp (fst st)"
proof -
  obtain es where "st \<in> set (table_stmts a es)" using assms by (auto simp: data_stmts_def Let_def)
  then show ?thesis
    using Plan_Table_in by (auto simp: table_stmts_def upsert_stmt_def delete_stmt_def split: option.splits)
qed

lemma of_spec_targets: "of_spec sp s \<Longrightarrow> targets s t \<Longrightarrow> ts_Target sp = t"
  by (cases s) auto

lemma coalesced_map: "Coalesce (map Some events) = map Some (coalesced events)"
proof -
  have "None \<notin> set (Coalesce (map Some events))"
    using Coalesce_set [of "map Some events"] by auto
  then have "map (Some \<circ> the) (Coalesce (map Some events)) = Coalesce (map Some events)"
    by (intro map_idI) (metis comp_apply not_None_eq option.sel)
  then show ?thesis by (simp add: coalesced_def comp_def)
qed

lemma coalesced_subset: "set (coalesced events) \<subseteq> set events"
proof
  fix e assume "e \<in> set (coalesced events)"
  then have "Some e \<in> set (Coalesce (map Some events))" by (simp add: coalesced_map)
  then show "e \<in> set events" using Coalesce_set [of "map Some events"] by auto
qed

lemma coalesced_dominates:
  assumes "e \<in> set events"
  obtains e' where "e' \<in> set (coalesced events)" "coalesce_key e' = coalesce_key e" "dominates e' e"
proof -
  have "coalesce_key e \<in> keys_of (Coalesce (map Some events))"
    unfolding Coalesce_keys using assms by (auto simp: keys_of_def)
  then obtain e' where "e' \<in> set (coalesced events)" "coalesce_key e' = coalesce_key e"
    by (auto simp: keys_of_def coalesced_map)
  moreover from this have "dominates e' e"
    using Coalesce_dominates [of e' "map Some events" e] assms by (simp add: coalesced_map)
  ultimately show ?thesis using that by blast
qed

text \<open>The events of a batch that go to one table of the plan, as writes in order of arrival.\<close>

definition plan_events :: "applier \<Rightarrow> table_spec \<Rightarrow> change_event list \<Rightarrow> change_event list" where
  "plan_events a spec events = filter (\<lambda>e. Plan_Table (ap_plan a) (ev_Table e) = Some spec) events"

definition event_writes :: "applier \<Rightarrow> table_spec \<Rightarrow> change_event list \<Rightarrow> table_write list" where
  "event_writes a spec events = map (event_write spec) (plan_events a spec events)"

text \<open>
  What the equivalence asks of a batch: row changes only, LSNs in the \<open>int64\<close> range, distinct
  names for distinct tables, and keys that name rows: two events with the same canonical key are
  of the same table and write the same row.
\<close>

definition batch_ok :: "table_spec \<Rightarrow> change_event list \<Rightarrow> bool" where
  "batch_ok spec events \<longleftrightarrow>
     (\<forall>e \<in> set events. (IsUpsert (ev_Op e) \<or> ev_Op e = OpDelete) \<and> uint (ev_LSN e) < 2 ^ 63)
     \<and> inj_on TableRef_String (ev_Table ` set events)
     \<and> (\<forall>e \<in> set events. \<forall>e' \<in> set events. coalesce_key e = coalesce_key e' \<longrightarrow>
          ev_Table e = ev_Table e'
          \<and> write_key (ts_PrimaryKey spec) (TargetColumnNames spec) (event_write spec e)
            = write_key (ts_PrimaryKey spec) (TargetColumnNames spec) (event_write spec e'))"

lemma batch_writes:
  assumes "batch_ok spec events"
  shows "set (writes_on spec (data_stmts a (coalesced events))) =
    event_write spec ` set (plan_events a spec (coalesced events))"
proof -
  have op: "\<forall>e \<in> set events. IsUpsert (ev_Op e) \<or> ev_Op e = OpDelete"
    using assms unfolding batch_ok_def by blast
  have "inj_on TableRef_String (ev_Table ` set events)"
    using assms unfolding batch_ok_def by blast
  then have inj: "inj_on TableRef_String (ev_Table ` set (coalesced events))"
    by (rule inj_on_subset) (rule image_mono [OF coalesced_subset]) have "{e \<in> set (coalesced events). Plan_Table (ap_plan a) (ev_Table e) = Some spec
        \<and> (IsUpsert (ev_Op e) \<or> ev_Op e = OpDelete)} = set (plan_events a spec (coalesced events))"
    using op coalesced_subset [of events] by (auto simp: plan_events_def)
  then show ?thesis unfolding data_stmts_writes [OF inj] by (rule arg_cong)
qed

lemma write_lsn_event [simp]: "write_lsn (event_write spec e) = int64_of (ev_LSN e)"
  by (simp add: event_write_def)

lemma dominates_int64:
  "dominates e' e \<Longrightarrow> uint (ev_LSN e) < 2 ^ 63 \<Longrightarrow> uint (ev_LSN e') < 2 ^ 63
   \<Longrightarrow> int64_of (ev_LSN e) \<le> int64_of (ev_LSN e')"
  by (auto simp: int64_of_mono dominates_def)

lemma coalesced_write:
  assumes ok: "batch_ok spec events" and e: "e \<in> set (plan_events a spec events)"
  shows "\<exists>w' \<in> event_write spec ` set (plan_events a spec (coalesced events)).
    write_key (ts_PrimaryKey spec) (TargetColumnNames spec) w'
      = write_key (ts_PrimaryKey spec) (TargetColumnNames spec) (event_write spec e)
    \<and> write_lsn (event_write spec e) \<le> write_lsn w'"
proof -
  have "e \<in> set events" using e by (simp add: plan_events_def)
  then obtain e' where e': "e' \<in> set (coalesced events)" "coalesce_key e' = coalesce_key e" "dominates e' e"
    by (rule coalesced_dominates)
  then have mem: "e' \<in> set events" using coalesced_subset by blast
  let ?key = "\<lambda>x. write_key (ts_PrimaryKey spec) (TargetColumnNames spec) (event_write spec x)"
  have same: "ev_Table e' = ev_Table e" "?key e' = ?key e"
    using ok mem \<open>e \<in> set events\<close> e'(2) unfolding batch_ok_def by blast+
  have "int64_of (ev_LSN e) \<le> int64_of (ev_LSN e')"
    using ok mem \<open>e \<in> set events\<close> e'(3) dominates_int64 unfolding batch_ok_def by blast
  moreover have "e' \<in> set (plan_events a spec (coalesced events))"
    using e e'(1) same(1) by (simp add: plan_events_def)
  ultimately show ?thesis using same(2) by (intro bexI [of _ "event_write spec e'"]) simp_all
qed

text \<open>
  C1: the applier's batching is an optimisation only. Coalescing, grouping by table, applying
  upserts before deletes and chunking into multi-row statements leave every target table visibly
  equal to the one the events of the batch would give if they were applied one at a time, in
  order of arrival, provided one row has one write per LSN and the primary key columns are
  target columns.
\<close>

theorem batch_is_sequential:
  assumes spec: "spec \<in> set (pl_Tables (ap_plan a))"
    and targets: "inj_on ts_Target (set (pl_Tables (ap_plan a)))"
    and pk: "set (ts_PrimaryKey spec) \<subseteq> set (TargetColumnNames spec)"
    and ok: "batch_ok spec events"
    and uniq: "lsn_unique (ts_PrimaryKey spec) (TargetColumnNames spec) (event_writes a spec events)"
    and tbl: "keyed (ts_PrimaryKey spec) (td_tables d (ts_Target spec))"
  shows "visible (td_tables (run_stmts sql_sem (batch_stmts a events positions) d) (ts_Target spec))
    = visible (fold (spec_write spec) (event_writes a spec events) (td_tables d (ts_Target spec)))"
proof -
  let ?stmts = "batch_stmts a events positions"
  have "of_spec spec (fst st) \<or> \<not> targets (fst st) (ts_Target spec)" if "st \<in> set ?stmts" for st
  proof (cases "st \<in> set (data_stmts a (coalesced events))")
    case True
    then obtain sp where sp: "sp \<in> set (pl_Tables (ap_plan a))" "of_spec sp (fst st)"
      using data_stmts_of_plan by blast
    then show ?thesis using inj_onD [OF targets _ sp(1) spec] of_spec_targets by blast
  next
    case False
    then show ?thesis using that by (auto simp: batch_stmts_def offset_stmt_def)
  qed
  then have run: "td_tables (run_stmts sql_sem ?stmts d) (ts_Target spec) =
      fold (spec_write spec) (writes_on spec ?stmts) (td_tables d (ts_Target spec))"
    by (intro run_stmts_table) blast
  have "writes_on spec (map (offset_stmt a) positions) = []"
    by (induction positions) (auto simp: offset_stmt_def)
  then have ws: "set (writes_on spec ?stmts) = event_write spec ` set (plan_events a spec (coalesced events))"
    by (simp add: batch_stmts_def batch_writes [OF ok])
  have "visible (fold (spec_write spec) (event_writes a spec events) (td_tables d (ts_Target spec)))
      = visible (fold (spec_write spec) (writes_on spec ?stmts) (td_tables d (ts_Target spec)))"
  proof (rule visible_dominated [OF pk tbl _ uniq], unfold ws)
    show "event_write spec ` set (plan_events a spec (coalesced events)) \<subseteq> set (event_writes a spec events)"
      using coalesced_subset by (auto simp: event_writes_def plan_events_def)
    show "\<exists>w' \<in> event_write spec ` set (plan_events a spec (coalesced events)).
        write_key (ts_PrimaryKey spec) (TargetColumnNames spec) w'
          = write_key (ts_PrimaryKey spec) (TargetColumnNames spec) w \<and> write_lsn w \<le> write_lsn w'"
      if "w \<in> set (event_writes a spec events)" for w
      using that coalesced_write [OF ok] by (auto simp: event_writes_def)
  qed
  then show ?thesis by (simp add: run)
qed

lemma demo_Plan_Table: "Plan_Table (ap_plan demo_applier) (ts_Source demo_spec) = Some demo_spec"
  by (simp add: demo_applier_def New_applier_def Plan_Table_def demo_plan_def)

lemma demo_event_write:
  "event_write demo_spec (demo_event r l o') = WUpsert [GInt r, GInt o'] (int64_of (of_nat l))"
  by (simp add: event_write_def ColumnNames_def demo_defs demo_event_def ev_Values_def op_defs)

theorem batch_is_sequential_witness:
  "visible (td_tables (run_stmts sql_sem
        (batch_stmts demo_applier [demo_event 1 5 1, demo_event 1 7 2] []) demo_db) (ts_Target demo_spec))
   = visible (fold (spec_write demo_spec)
        (event_writes demo_applier demo_spec [demo_event 1 5 1, demo_event 1 7 2]) Map.empty)"
proof -
  let ?es = "[demo_event 1 5 1, demo_event 1 7 2]"
  have w: "event_writes demo_applier demo_spec ?es = [WUpsert [GInt 1, GInt 1] 5, WUpsert [GInt 1, GInt 2] 7]"
    by (simp add: event_writes_def plan_events_def demo_Plan_Table demo_event_write int64_of_def)
  have key: "write_key (ts_PrimaryKey demo_spec) (TargetColumnNames demo_spec) (event_write demo_spec (demo_event 1 l o'))
      = [GInt 1]" for l o'
    unfolding demo_event_write
    by (simp add: row_key_of_def incoming_row_def TargetColumnNames_def cs_Target_def demo_defs)
  have "batch_ok demo_spec ?es"
    using key by (simp add: batch_ok_def IsUpsert_def)
  moreover have "lsn_unique (ts_PrimaryKey demo_spec) (TargetColumnNames demo_spec)
      (event_writes demo_applier demo_spec ?es)"
    by (simp add: w lsn_unique_def)
  ultimately show ?thesis
    using batch_is_sequential [of demo_spec demo_applier ?es demo_db "[]"]
    by (simp add: demo_db_def keyed_def cell_inv_def TargetColumnNames_def cs_Target_def
        demo_applier_def New_applier_def demo_defs)
qed

end
