(* ===== verification/Window.thy ===== *)
theory Window
  imports RowKey
begin

text \<open>
  The watermark window of \<open>internal/snapshot/window.go\<close>: the state machine that removes from a
  snapshot chunk the rows for which the change stream carried a fresher version. Every method
  holds the mutex for its whole body, so a run of the window is a sequence of whole operations.
\<close>

section \<open>State\<close>

datatype window_state = WindowIdle | WindowBuffered | WindowOpen

record buffered_row =
  br_key :: row_key
  br_values :: row

record window_stats =
  ws_ChunksCompleted :: int
  ws_RowsBuffered :: int
  ws_RowsEmitted :: int
  ws_RowsEvicted :: int

record window =
  wn_state :: window_state
  wn_chunkID :: string
  wn_buffered :: "buffered_row gomap"
  wn_order :: "string list"
  wn_stats :: window_stats

definition NewWindow :: window where
  "NewWindow = \<lparr>wn_state = WindowIdle, wn_chunkID = '''', wn_buffered = [], wn_order = [],
     wn_stats = \<lparr>ws_ChunksCompleted = 0, ws_RowsBuffered = 0, ws_RowsEmitted = 0, ws_RowsEvicted = 0\<rparr>\<rparr>"

datatype window_error =
    ChunkIDRequired
  | KeysForRows nat nat
  | ErrWindowBusy string window_state
  | DuplicateKey string row_key

section \<open>Operations\<close>

text \<open>The loop of \<open>Buffer\<close>: on a duplicate it returns at once and leaves what it has filled in.\<close>

fun buffer_rows :: "string \<Rightarrow> (row_key \<times> row) list \<Rightarrow> window \<Rightarrow> window_error option \<times> window" where
  "buffer_rows cid [] w = (None, w)"
| "buffer_rows cid ((k, r) # krs) w =
     (let ck = Canonical k in
      if map_of (wn_buffered w) ck \<noteq> None then (Some (DuplicateKey cid k), w)
      else buffer_rows cid krs
             (w\<lparr>wn_buffered := AList.update ck \<lparr>br_key = k, br_values = r\<rparr> (wn_buffered w),
                wn_order := wn_order w @ [ck]\<rparr>))"

definition Buffer :: "string \<Rightarrow> row_key list \<Rightarrow> row list \<Rightarrow> window \<Rightarrow> window_error option \<times> window" where
  "Buffer cid keys rows w =
     (if cid = '''' then (Some ChunkIDRequired, w)
      else if length keys \<noteq> length rows then (Some (KeysForRows (length keys) (length rows)), w)
      else if wn_state w \<noteq> WindowIdle then (Some (ErrWindowBusy (wn_chunkID w) (wn_state w)), w)
      else
        (case buffer_rows cid (zip keys rows) (w\<lparr>wn_chunkID := cid, wn_buffered := [], wn_order := []\<rparr>) of
           (Some e, w) \<Rightarrow> (Some e, w)
         | (None, w) \<Rightarrow>
             (None, w\<lparr>wn_state := WindowBuffered,
                      wn_stats := (wn_stats w)\<lparr>ws_RowsBuffered :=
                        ws_RowsBuffered (wn_stats w) + int (length rows)\<rparr>\<rparr>)))"

definition OnLowWatermark :: "string \<Rightarrow> window \<Rightarrow> bool \<times> window" where
  "OnLowWatermark cid w =
     (if wn_state w \<noteq> WindowBuffered \<or> cid \<noteq> wn_chunkID w then (False, w)
      else (True, w\<lparr>wn_state := WindowOpen\<rparr>))"

definition OnEvent :: "row_key \<Rightarrow> window \<Rightarrow> bool \<times> window" where
  "OnEvent key w =
     (if wn_state w \<noteq> WindowOpen then (False, w)
      else let ck = Canonical key in
        if map_of (wn_buffered w) ck = None then (False, w)
        else (True, w\<lparr>wn_buffered := AList.delete ck (wn_buffered w),
                      wn_stats := (wn_stats w)\<lparr>ws_RowsEvicted := ws_RowsEvicted (wn_stats w) + 1\<rparr>\<rparr>))"

definition OnHighWatermark :: "string \<Rightarrow> window \<Rightarrow> (buffered_row list \<times> bool) \<times> window" where
  "OnHighWatermark cid w =
     (if wn_state w \<noteq> WindowOpen \<or> cid \<noteq> wn_chunkID w then (([], False), w)
      else
        let out = List.map_filter (\<lambda>ck. map_of (wn_buffered w) ck) (wn_order w)
        in ((out, True),
            w\<lparr>wn_state := WindowIdle, wn_chunkID := '''', wn_buffered := [], wn_order := [],
              wn_stats := (wn_stats w)\<lparr>ws_ChunksCompleted := ws_ChunksCompleted (wn_stats w) + 1,
                            ws_RowsEmitted := ws_RowsEmitted (wn_stats w) + int (length out)\<rparr>\<rparr>))"

definition Abort :: "window \<Rightarrow> window" where
  "Abort w = w\<lparr>wn_state := WindowIdle, wn_chunkID := '''', wn_buffered := [], wn_order := []\<rparr>"

definition Pending :: "window \<Rightarrow> nat" where
  "Pending w = length (wn_buffered w)"

section \<open>Runs\<close>

datatype window_op =
    DoBuffer string "row_key list" "row list"
  | DoLow string
  | DoEvent row_key
  | DoHigh string
  | DoAbort

fun window_step :: "window_op \<Rightarrow> window \<Rightarrow> window" where
  "window_step (DoBuffer cid keys rows) w = snd (Buffer cid keys rows w)"
| "window_step (DoLow cid) w = snd (OnLowWatermark cid w)"
| "window_step (DoEvent key) w = snd (OnEvent key w)"
| "window_step (DoHigh cid) w = snd (OnHighWatermark cid w)"
| "window_step DoAbort w = Abort w"

inductive window_reach :: "window \<Rightarrow> bool" where
  reach_new: "window_reach NewWindow"
| reach_step: "window_reach w \<Longrightarrow> window_reach (window_step oper w)"

section \<open>The invariant\<close>

definition window_inv :: "window \<Rightarrow> bool" where
  "window_inv w \<longleftrightarrow>
     distinct (map fst (wn_buffered w)) \<and> distinct (wn_order w)
     \<and> fst ` set (wn_buffered w) \<subseteq> set (wn_order w)
     \<and> (\<forall>(ck, b) \<in> set (wn_buffered w). Canonical (br_key b) = ck)
     \<and> (wn_state w \<noteq> WindowIdle \<longrightarrow> wn_chunkID w \<noteq> '''')"

lemma map_of_None_notin: "map_of xs k = None \<longleftrightarrow> k \<notin> fst ` set xs"
  by (rule map_of_eq_None_iff)

text \<open>Filling the buffer with keys that are distinct and new.\<close>

lemma buffer_rows_ok:
  assumes "distinct (map (Canonical \<circ> fst) krs)"
    and "\<forall>k \<in> set (map (Canonical \<circ> fst) krs). k \<notin> fst ` set (wn_buffered w)"
  shows "buffer_rows cid krs w =
    (None, w\<lparr>wn_buffered := wn_buffered w @
               map (\<lambda>(k, r). (Canonical k, \<lparr>br_key = k, br_values = r\<rparr>)) krs,
             wn_order := wn_order w @ map (Canonical \<circ> fst) krs\<rparr>)"
  using assms
proof (induction krs arbitrary: w)
  case (Cons x krs)
  obtain k r where x: "x = (k, r)" by (cases x)
  have fresh: "Canonical k \<notin> fst ` set (wn_buffered w)" using Cons.prems(2) x by simp
  have upd: "AList.update (Canonical k) v (wn_buffered w) = wn_buffered w @ [(Canonical k, v)]" for v
    using fresh by (rule AList_update_new)
  let ?w = "w\<lparr>wn_buffered := wn_buffered w @ [(Canonical k, \<lparr>br_key = k, br_values = r\<rparr>)],
              wn_order := wn_order w @ [Canonical k]\<rparr>"
  have "buffer_rows cid krs ?w = (None, ?w\<lparr>wn_buffered := wn_buffered ?w @
               map (\<lambda>(k, r). (Canonical k, \<lparr>br_key = k, br_values = r\<rparr>)) krs,
             wn_order := wn_order ?w @ map (Canonical \<circ> fst) krs\<rparr>)"
    by (rule Cons.IH) (use Cons.prems x in \<open>auto simp: image_iff\<close>)
  then show ?case using fresh by (simp add: x Let_def map_of_None_notin upd)
qed simp

lemma buffer_rows_inv:
  "window_inv w \<Longrightarrow> wn_chunkID w \<noteq> '''' \<Longrightarrow> fst ` set (wn_buffered w) = set (wn_order w) \<Longrightarrow>
   buffer_rows cid krs w = (e, w') \<Longrightarrow>
   window_inv w' \<and> wn_chunkID w' = wn_chunkID w \<and> wn_state w' = wn_state w \<and> wn_stats w' = wn_stats w
   \<and> (e = None \<longrightarrow> Pending w' = Pending w + length krs)"
proof (induction krs arbitrary: w)
  case (Cons x krs)
  obtain k r where x: "x = (k, r)" by (cases x)
  show ?case
  proof (cases "map_of (wn_buffered w) (Canonical k)")
    case (Some b)
    then show ?thesis using Cons.prems x by (auto simp: Let_def)
  next
    case None
    let ?w = "w\<lparr>wn_buffered := AList.update (Canonical k) \<lparr>br_key = k, br_values = r\<rparr> (wn_buffered w),
                wn_order := wn_order w @ [Canonical k]\<rparr>"
    have fresh: "Canonical k \<notin> fst ` set (wn_buffered w)" using None by (simp add: map_of_eq_None_iff)
    then have "window_inv ?w" "fst ` set (wn_buffered ?w) = set (wn_order ?w)"
      using Cons.prems(1,3) by (auto simp: window_inv_def AList_update_new)
    moreover have "Pending ?w = Pending w + 1" using fresh by (simp add: Pending_def AList_update_new)
    moreover have "buffer_rows cid krs ?w = (e, w')" using Cons.prems(4) None x by (simp add: Let_def)
    ultimately show ?thesis using Cons.IH [of ?w] Cons.prems(2) by simp
  qed
qed auto

text \<open>The counters: what was buffered is emitted, evicted, pending or was aborted.\<close>

definition in_flight :: "window \<Rightarrow> int" where
  "in_flight w = (if wn_state w = WindowIdle then 0 else int (Pending w))"

definition balance :: "window \<Rightarrow> int" where
  "balance w = ws_RowsBuffered (wn_stats w) - ws_RowsEmitted (wn_stats w)
     - ws_RowsEvicted (wn_stats w) - in_flight w"

lemma Buffer_step:
  assumes "window_inv w" and "Buffer cid keys rows w = (e, w')"
  shows "window_inv w' \<and> balance w' = balance w \<and> (wn_state w \<noteq> WindowIdle \<longrightarrow> w' = w)"
proof (cases "cid = '''' \<or> length keys \<noteq> length rows \<or> wn_state w \<noteq> WindowIdle")
  case True
  then have "w' = w" using assms(2) by (simp add: Buffer_def split: if_splits)
  then show ?thesis using assms(1) by simp
next
  case False
  let ?w = "w\<lparr>wn_chunkID := cid, wn_buffered := [], wn_order := []\<rparr>"
  obtain e1 w1 where b: "buffer_rows cid (zip keys rows) ?w = (e1, w1)" by (metis surj_pair)
  have "window_inv ?w" using False by (simp add: window_inv_def)
  then have w1: "window_inv w1" "wn_chunkID w1 = cid" "wn_state w1 = WindowIdle" "wn_stats w1 = wn_stats w"
      "e1 = None \<Longrightarrow> Pending w1 = length rows"
    using buffer_rows_inv [OF _ _ _ b] False by (auto simp: Pending_def)
  show ?thesis
  proof (cases e1)
    case None
    then have "w' = w1\<lparr>wn_state := WindowBuffered, wn_stats := (wn_stats w)\<lparr>ws_RowsBuffered :=
        ws_RowsBuffered (wn_stats w) + int (length rows)\<rparr>\<rparr>"
      using assms(2) False b w1(4) by (simp add: Buffer_def)
    then show ?thesis
      using w1 None False by (auto simp: window_inv_def balance_def in_flight_def Pending_def)
  next
    case (Some err)
    then have "w' = w1" using assms(2) False b by (simp add: Buffer_def)
    then show ?thesis using w1 False by (simp add: balance_def in_flight_def)
  qed
qed

lemma delete_Pending:
  assumes "distinct (map fst al)" and "map_of al k \<noteq> None"
  shows "Suc (length (AList.delete k al)) = length al"
proof -
  have "k \<in> fst ` set al" using assms(2) by (simp add: map_of_eq_None_iff)
  with assms(1) show ?thesis
    by (induction al) (auto simp: delete_id)
qed

lemma OnEvent_step:
  assumes "window_inv w"
  shows "window_inv (snd (OnEvent key w)) \<and> balance (snd (OnEvent key w)) = balance w"
proof (cases "wn_state w = WindowOpen \<and> map_of (wn_buffered w) (Canonical key) \<noteq> None")
  case True
  let ?al = "wn_buffered w" and ?ck = "Canonical key"
  have "Suc (length (AList.delete ?ck ?al)) = length ?al"
    using True assms by (intro delete_Pending) (auto simp: window_inv_def)
  then have "int (length ?al) = 1 + int (length (AList.delete ?ck ?al))" by linarith
  moreover have "distinct (map fst (AList.delete ?ck ?al))"
    using assms by (simp add: window_inv_def AList.distinct_delete)
  moreover have "set (AList.delete ?ck ?al) \<subseteq> set ?al" by (auto simp: AList.delete_eq)
  ultimately show ?thesis
    using True assms unfolding window_inv_def
    by (auto simp: OnEvent_def Let_def balance_def in_flight_def Pending_def)
next
  case False
  then show ?thesis using assms by (auto simp: OnEvent_def Let_def)
qed

lemma OnHigh_step:
  assumes "window_inv w"
  shows "window_inv (snd (OnHighWatermark cid w)) \<and> balance (snd (OnHighWatermark cid w)) = balance w"
  using assms length_map_filter_map_of [of "wn_buffered w" "wn_order w"]
  by (auto simp: OnHighWatermark_def Let_def window_inv_def balance_def in_flight_def Pending_def)

lemma Abort_step: "window_inv w \<Longrightarrow> window_inv (Abort w) \<and> balance w \<le> balance (Abort w)"
  by (simp add: Abort_def window_inv_def balance_def in_flight_def)

lemma window_step_inv:
  assumes "window_inv w"
  shows "window_inv (window_step oper w) \<and> balance w \<le> balance (window_step oper w)
    \<and> (oper \<noteq> DoAbort \<longrightarrow> balance (window_step oper w) = balance w)"
proof (cases oper)
  case (DoBuffer cid keys rows)
  then show ?thesis using Buffer_step [OF assms] by (metis order_refl prod.collapse window_step.simps(1))
next
  case (DoLow cid)
  then show ?thesis
    using assms by (auto simp: OnLowWatermark_def window_inv_def balance_def in_flight_def Pending_def)
qed (use assms OnEvent_step OnHigh_step Abort_step in simp_all)

lemma NewWindow_inv: "window_inv NewWindow \<and> balance NewWindow = 0"
  by (simp add: NewWindow_def window_inv_def balance_def in_flight_def)

text \<open>
  every reachable window is well formed, and no snapshot row is unaccounted for: what was
  buffered is at least what was emitted, evicted or is still in flight, and exactly that in a run
  without an abort (see the next property for the rows themselves).
\<close>

theorem window_accounting:
  assumes "window_reach w"
  shows "window_inv w \<and> ws_RowsEmitted (wn_stats w) + ws_RowsEvicted (wn_stats w) + in_flight w
           \<le> ws_RowsBuffered (wn_stats w)"
proof -
  have "window_inv w \<and> 0 \<le> balance w"
    using assms
  proof induction
    case reach_new
    show ?case using NewWindow_inv by simp
  next
    case (reach_step w oper)
    then show ?case using window_step_inv [of w oper] by linarith
  qed
  then show ?thesis by (simp add: balance_def)
qed

theorem window_accounting_witness:
  "ws_RowsEmitted (wn_stats (window_step (DoBuffer ''c1'' [NewRowKey [(''id'', GInt 1)]] [[]]) NewWindow)) \<le>
   ws_RowsBuffered (wn_stats (window_step (DoBuffer ''c1'' [NewRowKey [(''id'', GInt 1)]] [[]]) NewWindow))"
proof -
  let ?w = "window_step (DoBuffer ''c1'' [NewRowKey [(''id'', GInt 1)]] [[]]) NewWindow"
  have "window_reach ?w" by (intro reach_step reach_new)
  from window_accounting [OF this]
  have "ws_RowsEmitted (wn_stats ?w) + ws_RowsEvicted (wn_stats ?w) + in_flight ?w \<le> ws_RowsBuffered (wn_stats ?w)"
    by simp
  moreover have "0 \<le> in_flight ?w" by (simp add: in_flight_def)
  moreover have "0 \<le> ws_RowsEvicted (wn_stats ?w)"
    by (simp add: Buffer_def NewWindow_def Let_def split: option.splits prod.splits)
  ultimately show ?thesis by linarith
qed

section \<open>What a chunk emits\<close>

definition entries :: "(row_key \<times> row) list \<Rightarrow> buffered_row gomap" where
  "entries krs = map (\<lambda>(k, r). (Canonical k, \<lparr>br_key = k, br_values = r\<rparr>)) krs"

text \<open>The window holds the chunk \<open>krs\<close> less the keys in \<open>E\<close>.\<close>

definition holds_chunk :: "string \<Rightarrow> (row_key \<times> row) list \<Rightarrow> string set \<Rightarrow> window_state \<Rightarrow> window \<Rightarrow> bool" where
  "holds_chunk cid krs E st w \<longleftrightarrow>
     wn_state w = st \<and> wn_chunkID w = cid \<and> wn_order w = map (Canonical \<circ> fst) krs
     \<and> wn_buffered w = filter (\<lambda>p. fst p \<notin> E) (entries krs)"

lemma entries_keys [simp]: "map fst (entries krs) = map (Canonical \<circ> fst) krs"
  by (auto simp: entries_def)

lemma buffer_rows_distinct:
  assumes "buffer_rows cid krs w = (None, w')"
  shows "distinct (map (Canonical \<circ> fst) krs)
    \<and> (\<forall>k \<in> set (map (Canonical \<circ> fst) krs). k \<notin> fst ` set (wn_buffered w))"
  using assms
proof (induction krs arbitrary: w)
  case (Cons x krs)
  obtain k r where x: "x = (k, r)" by (cases x)
  have none: "map_of (wn_buffered w) (Canonical k) = None"
    using Cons.prems x by (auto simp: Let_def split: if_splits)
  then have fresh: "Canonical k \<notin> fst ` set (wn_buffered w)" by (simp add: map_of_eq_None_iff)
  let ?w = "w\<lparr>wn_buffered := AList.update (Canonical k) \<lparr>br_key = k, br_values = r\<rparr> (wn_buffered w),
              wn_order := wn_order w @ [Canonical k]\<rparr>"
  have "buffer_rows cid krs ?w = (None, w')" using Cons.prems x none by (simp add: Let_def)
  from Cons.IH [OF this] show ?case using fresh by (auto simp: x AList_update_new)
qed simp

lemma Buffer_None:
  assumes "Buffer cid keys rows w = (None, w')"
  shows "distinct (map Canonical keys) \<and> length keys = length rows
    \<and> holds_chunk cid (zip keys rows) {} WindowBuffered w'"
proof -
  let ?w = "w\<lparr>wn_chunkID := cid, wn_buffered := [], wn_order := []\<rparr>"
  have ok: "cid \<noteq> ''''" "length keys = length rows" "wn_state w = WindowIdle"
    using assms by (auto simp: Buffer_def split: if_splits)
  obtain w1 where b: "buffer_rows cid (zip keys rows) ?w = (None, w1)"
    using assms ok by (auto simp: Buffer_def split: prod.splits option.splits)
  have d: "distinct (map (Canonical \<circ> fst) (zip keys rows))" using buffer_rows_distinct [OF b] by simp
  moreover have "map (Canonical \<circ> fst) (zip keys rows) = map Canonical keys"
    using ok(2) by (simp flip: map_map)
  moreover have "holds_chunk cid (zip keys rows) {} WindowBuffered w'"
    using assms ok b buffer_rows_ok [OF d, of ?w cid]
    by (auto simp: Buffer_def holds_chunk_def entries_def)
  ultimately show ?thesis using ok by simp
qed

definition event_keys :: "window_op list \<Rightarrow> string set" where
  "event_keys ops = {Canonical k |k. DoEvent k \<in> set ops}"

lemma event_keys_simps [simp]:
  "event_keys [] = {}" "event_keys [DoEvent k] = {Canonical k}" "event_keys [DoLow c] = {}"
  "event_keys [DoHigh c] = {}" "event_keys [DoBuffer c ks rs] = {}" "event_keys [DoAbort] = {}"
  by (auto simp: event_keys_def)

lemma event_keys_Cons: "event_keys (oper # ops) = event_keys [oper] \<union> event_keys ops"
  by (auto simp: event_keys_def)

lemma hold_buffered:
  assumes "holds_chunk cid krs {} WindowBuffered w" and "oper \<noteq> DoAbort" and "oper \<noteq> DoLow cid"
  shows "holds_chunk cid krs {} WindowBuffered (window_step oper w)"
  using assms
  by (cases oper) (auto simp: holds_chunk_def Buffer_def OnLowWatermark_def OnEvent_def OnHighWatermark_def)

lemma hold_open:
  assumes "holds_chunk cid krs E WindowOpen w" and "oper \<noteq> DoAbort" and "oper \<noteq> DoHigh cid"
  shows "holds_chunk cid krs (E \<union> event_keys [oper]) WindowOpen (window_step oper w)"
proof (cases oper)
  case (DoEvent k)
  have "AList.delete (Canonical k) (filter (\<lambda>p. fst p \<notin> E) xs) = filter (\<lambda>p. fst p \<notin> insert (Canonical k) E) xs"
    for xs :: "buffered_row gomap"
    by (auto simp: AList.delete_eq case_prod_beta intro!: filter_cong)
  moreover have "filter (\<lambda>p. fst p \<notin> insert ck E) xs = filter (\<lambda>p. fst p \<notin> E) xs"
    if "map_of (filter (\<lambda>p. fst p \<notin> E) xs) ck = None" for xs :: "buffered_row gomap" and ck
    using that by (auto simp: map_of_eq_None_iff intro!: filter_cong)
  ultimately show ?thesis
    using assms DoEvent by (auto simp: holds_chunk_def OnEvent_def Let_def)
qed (use assms in \<open>auto simp: holds_chunk_def Buffer_def OnLowWatermark_def OnHighWatermark_def\<close>)

lemma run_buffered:
  "holds_chunk cid krs {} WindowBuffered w \<Longrightarrow> DoAbort \<notin> set ops \<Longrightarrow> DoLow cid \<notin> set ops
   \<Longrightarrow> holds_chunk cid krs {} WindowBuffered (fold window_step ops w)"
proof (induction ops arbitrary: w)
  case (Cons oper ops)
  have "holds_chunk cid krs {} WindowBuffered (window_step oper w)"
    using Cons.prems by (intro hold_buffered) auto
  from Cons.IH [OF this] show ?case using Cons.prems by simp
qed simp

lemma run_open:
  "holds_chunk cid krs E WindowOpen w \<Longrightarrow> DoAbort \<notin> set ops \<Longrightarrow> DoHigh cid \<notin> set ops
   \<Longrightarrow> holds_chunk cid krs (E \<union> event_keys ops) WindowOpen (fold window_step ops w)"
proof (induction ops arbitrary: w E)
  case (Cons oper ops)
  have "holds_chunk cid krs (E \<union> event_keys [oper]) WindowOpen (window_step oper w)"
    using Cons.prems by (intro hold_open) auto
  from Cons.IH [OF this] show ?case using Cons.prems by (subst event_keys_Cons) (simp add: Un_assoc)
qed simp

definition survivors_of :: "(row_key \<times> row) list \<Rightarrow> string set \<Rightarrow> buffered_row list" where
  "survivors_of krs E =
     map (\<lambda>(k, r). \<lparr>br_key = k, br_values = r\<rparr>) (filter (\<lambda>(k, r). Canonical k \<notin> E) krs)"

lemma map_filter_entries:
  assumes "distinct (map (Canonical \<circ> fst) krs)"
  shows "List.map_filter (map_of (filter (\<lambda>p. fst p \<notin> E) (entries krs))) (map (Canonical \<circ> fst) krs)
    = survivors_of krs E"
proof -
  have dist: "distinct (map fst (filter (\<lambda>p. fst p \<notin> E) (entries krs)))"
    by (rule distinct_map_filter) (use assms in simp)
  have look: "map_of (filter (\<lambda>p. fst p \<notin> E) (entries krs)) (Canonical k)
      = (if Canonical k \<in> E then None else Some \<lparr>br_key = k, br_values = r\<rparr>)"
    if "(k, r) \<in> set krs" for k r
  proof (cases "Canonical k \<in> E")
    case True
    then show ?thesis by (auto simp: map_of_eq_None_iff)
  next
    case False
    then have "(Canonical k, \<lparr>br_key = k, br_values = r\<rparr>) \<in> set (filter (\<lambda>p. fst p \<notin> E) (entries krs))"
      using that by (force simp: entries_def)
    then show ?thesis using False map_of_is_SomeI [OF dist] by simp
  qed
  have "List.map_filter (map_of (filter (\<lambda>p. fst p \<notin> E) (entries krs))) (map (Canonical \<circ> fst) xs)
      = survivors_of xs E" if "set xs \<subseteq> set krs" for xs
    using that
  proof (induction xs)
    case (Cons x xs)
    then show ?case
      using look [of "fst x" "snd x"] by (cases x) (auto simp: List.map_filter_simps survivors_of_def)
  qed (simp add: List.map_filter_simps survivors_of_def)
  then show ?thesis by simp
qed

lemma OnHigh_open:
  assumes "holds_chunk cid krs E WindowOpen w" and "distinct (map (Canonical \<circ> fst) krs)"
  shows "OnHighWatermark cid w = ((survivors_of krs E, True), snd (OnHighWatermark cid w))
    \<and> wn_state (snd (OnHighWatermark cid w)) = WindowIdle"
  using assms map_filter_entries [OF assms(2), of E]
  by (simp add: OnHighWatermark_def holds_chunk_def Let_def)

lemma window_run:
  assumes buf: "Buffer cid keys rows w = (None, w1)"
    and pre: "DoAbort \<notin> set pre" "DoLow cid \<notin> set pre"
    and mid: "DoAbort \<notin> set mid" "DoHigh cid \<notin> set mid"
  defines "w2 \<equiv> fold window_step pre w1"
    and "w3 \<equiv> fold window_step mid (snd (OnLowWatermark cid (fold window_step pre w1)))"
  shows "distinct (map Canonical keys) \<and> fst (OnLowWatermark cid w2)
    \<and> fst (OnHighWatermark cid w3) = (survivors_of (zip keys rows) (event_keys mid), True)
    \<and> wn_state (snd (OnHighWatermark cid w3)) = WindowIdle"
proof -
  note b = Buffer_None [OF buf]
  have h2: "holds_chunk cid (zip keys rows) {} WindowBuffered w2"
    unfolding w2_def using b pre by (intro run_buffered) auto
  then have low: "fst (OnLowWatermark cid w2)"
      "holds_chunk cid (zip keys rows) {} WindowOpen (snd (OnLowWatermark cid w2))"
    by (auto simp: OnLowWatermark_def holds_chunk_def)
  have h3: "holds_chunk cid (zip keys rows) (event_keys mid) WindowOpen w3"
    using run_open [OF low(2) mid] by (simp add: w3_def w2_def)
  have "distinct (map (Canonical \<circ> fst) (zip keys rows))" using b by (simp flip: map_map)
  from OnHigh_open [OF h3 this] have "fst (OnHighWatermark cid w3)
      = (survivors_of (zip keys rows) (event_keys mid), True)
    \<and> wn_state (snd (OnHighWatermark cid w3)) = WindowIdle"
    by (metis fst_conv)
  then show ?thesis using b low by simp
qed

text \<open>
  a chunk emits exactly its rows that no change event touched. Once a chunk is buffered, its
  keys are distinct, and through any operations that do not abort it (events, replayed
  watermarks of other chunks, refused chunks) the high watermark emits, in read order, the rows
  of the chunk whose key no event between its low and its high watermark carried. Events before
  the low watermark evict nothing.
\<close>

theorem window_emits:
  assumes buf: "Buffer cid keys rows w = (None, w1)"
    and pre: "DoAbort \<notin> set pre" "DoLow cid \<notin> set pre"
    and mid: "DoAbort \<notin> set mid" "DoHigh cid \<notin> set mid"
  defines "w2 \<equiv> fold window_step pre w1"
    and "w3 \<equiv> fold window_step mid (snd (OnLowWatermark cid (fold window_step pre w1)))"
  shows "distinct (map Canonical keys) \<and> fst (OnLowWatermark cid w2)
    \<and> fst (OnHighWatermark cid w3) = (survivors_of (zip keys rows) (event_keys mid), True)
    \<and> wn_state (snd (OnHighWatermark cid w3)) = WindowIdle"
  unfolding w2_def w3_def using assms(1-5) by (rule window_run)

definition demo_key :: "int \<Rightarrow> row_key" where
  "demo_key i = NewRowKey [(''id'', GInt i)]"

lemma demo_key_canonical [simp]: "Canonical (demo_key i) = Canonical (demo_key j) \<longleftrightarrow> i = j"
  by (simp add: demo_key_def NewRowKey_def mk_col_def Canonical_def canonical_cols_inj)

theorem window_emits_witness:
  "fst (OnHighWatermark ''c'' (fold window_step [DoEvent (demo_key 2)]
      (snd (OnLowWatermark ''c'' (snd (Buffer ''c'' [demo_key 1, demo_key 2] [[], []] NewWindow))))))
   = ([\<lparr>br_key = demo_key 1, br_values = []\<rparr>], True)"
proof -
  have "Buffer ''c'' [demo_key 1, demo_key 2] [[], []] NewWindow
      = (None, snd (Buffer ''c'' [demo_key 1, demo_key 2] [[], []] NewWindow))"
    by (simp add: Buffer_def NewWindow_def Let_def)
  from window_emits [OF this, of "[]" "[DoEvent (demo_key 2)]"] show ?thesis
    by (simp add: survivors_of_def)
qed

section \<open>The watermark protocol\<close>

text \<open>
  The source's log: a change gives a row key, by its canonical form, a new row or deletes it.
\<close>

type_synonym change = "row_key \<times> row option"

definition source_after :: "change list \<Rightarrow> (string \<Rightarrow> row option) \<Rightarrow> string \<Rightarrow> row option" where
  "source_after cs m = fold (\<lambda>(k, r) m. m(Canonical k := r)) cs m"

definition load_emitted :: "buffered_row list \<Rightarrow> (string \<Rightarrow> row option) \<Rightarrow> string \<Rightarrow> row option" where
  "load_emitted bs m = fold (\<lambda>b m. m(Canonical (br_key b) := Some (br_values b))) bs m"

lemma source_after_append: "source_after (xs @ ys) m = source_after ys (source_after xs m)"
  by (simp add: source_after_def)

lemma source_after_untouched:
  "ck \<notin> Canonical ` fst ` set cs \<Longrightarrow> source_after cs m ck = m ck"
  unfolding source_after_def by (induction cs arbitrary: m) auto

lemma source_after_touched:
  "ck \<in> Canonical ` fst ` set cs \<Longrightarrow> source_after cs m ck = source_after cs m' ck"
  unfolding source_after_def
proof (induction cs arbitrary: m m')
  case (Cons c cs)
  obtain k r where c: "c = (k, r)" by (cases c)
  show ?case
  proof (cases "ck \<in> Canonical ` fst ` set cs")
    case True
    from Cons.IH [OF this] show ?thesis by simp
  next
    case False
    then have "ck = Canonical k" using Cons.prems c by auto
    moreover have "source_after cs m1 ck = m1 ck" for m1 using False by (rule source_after_untouched)
    ultimately show ?thesis by (simp add: c source_after_def del: fun_upd_apply) simp
  qed
qed simp

lemma load_emitted_at:
  assumes "distinct (map (Canonical \<circ> fst) krs)"
  shows "load_emitted (survivors_of krs E) m ck =
    (case map_of (map (\<lambda>(k, r). (Canonical k, r)) krs) ck of
       Some r \<Rightarrow> if ck \<in> E then m ck else Some r
     | None \<Rightarrow> m ck)"
  using assms
proof (induction krs arbitrary: m)
  case (Cons x krs)
  obtain k r where x: "x = (k, r)" by (cases x)
  have "map_of (map (\<lambda>(k, r). (Canonical k, r)) krs) (Canonical k) = None"
    using Cons.prems x by (force simp: map_of_eq_None_iff)
  then show ?case
    using Cons.IH Cons.prems x
    by (auto simp: load_emitted_def survivors_of_def split: option.splits)
qed (simp add: load_emitted_def survivors_of_def)

text \<open>
  C5: the watermark protocol loads a chunk without locks and without losing a concurrent write.
  The log is cut at the low watermark (after \<open>pre\<close>), at the instant the chunk is read (after
  \<open>mid1\<close>) and at the high watermark (after \<open>mid2\<close>); the rows are those of the source when the
  chunk is read, for the keys \<open>K\<close> of the chunk. The target holds for each of these keys either
  nothing or what the log said at the low watermark, and applies the log. After the emitted rows
  are loaded at the high watermark, every key of the chunk has exactly its row in the source at
  that point of the log.
\<close>

theorem watermark_exact:
  fixes pre mid1 mid2 :: "change list"
  assumes buf: "Buffer cid keys rows w = (None, w1)"
    and chunk: "\<And>ck. ck \<in> K \<Longrightarrow> map_of (map (\<lambda>(k, r). (Canonical k, r)) (zip keys rows)) ck
                  = source_after (pre @ mid1) src ck"
    and target: "\<And>ck. ck \<in> K \<Longrightarrow> tgt ck = None \<or> tgt ck = source_after pre src ck"
    and ck: "ck \<in> K"
  defines "evs \<equiv> map (DoEvent \<circ> fst) (mid1 @ mid2)"
  defines "w2 \<equiv> snd (OnLowWatermark cid (fold window_step (map (DoEvent \<circ> fst) pre) w1))"
  defines "emitted \<equiv> fst (fst (OnHighWatermark cid (fold window_step evs w2)))"
  shows "load_emitted emitted (source_after (mid1 @ mid2) tgt) ck
    = source_after (pre @ mid1 @ mid2) src ck"
proof -
  let ?krs = "zip keys rows" and ?mid = "mid1 @ mid2"
  let ?E = "Canonical ` fst ` set ?mid"
  have keys: "event_keys evs = ?E" by (force simp: evs_def event_keys_def)
  have no: "DoAbort \<notin> set (map (DoEvent \<circ> fst) xs)" "DoLow cid \<notin> set (map (DoEvent \<circ> fst) xs)"
    "DoHigh cid \<notin> set (map (DoEvent \<circ> fst) xs)" for xs :: "change list" by auto
  have emitted: "emitted = survivors_of ?krs ?E"
    unfolding emitted_def w2_def keys [symmetric] evs_def
    using window_run [OF buf no(1,2) no(1,3), of pre "mid1 @ mid2"] by simp
  have dist: "distinct (map (Canonical \<circ> fst) ?krs)"
    using Buffer_None [OF buf] by (simp flip: map_map)
  show ?thesis
  proof (cases "ck \<in> ?E")
    case True
    then have "load_emitted emitted (source_after ?mid tgt) ck = source_after ?mid tgt ck"
      by (simp add: emitted load_emitted_at [OF dist] split: option.splits)
    also have "\<dots> = source_after ?mid (source_after pre src) ck"
      using True by (intro source_after_touched) simp
    finally show ?thesis by (simp add: source_after_append)
  next
    case False
    then have n: "ck \<notin> Canonical ` fst ` set mid1" "ck \<notin> Canonical ` fst ` set mid2" by auto
    then have "source_after (pre @ ?mid) src ck = source_after pre src ck"
      "source_after ?mid tgt ck = tgt ck" "source_after (pre @ mid1) src ck = source_after pre src ck"
      by (simp_all add: source_after_append source_after_untouched)
    then show ?thesis
      using False chunk [OF ck] target [OF ck]
      by (auto simp: emitted load_emitted_at [OF dist] split: option.splits)
  qed
qed

theorem watermark_exact_witness:
  "load_emitted (fst (fst (OnHighWatermark ''c'' (fold window_step [DoEvent (demo_key 2)]
      (snd (OnLowWatermark ''c'' (snd (Buffer ''c'' [demo_key 1, demo_key 2] [[], []] NewWindow))))))))
     (source_after [(demo_key 2, Some [(''v'', GInt 7)])] (\<lambda>_. None)) (Canonical (demo_key 2))
   = Some [(''v'', GInt 7)]"
proof -
  let ?src = "\<lambda>ck. if ck \<in> {Canonical (demo_key 1), Canonical (demo_key 2)} then Some [] else None :: row option"
  have "Buffer ''c'' [demo_key 1, demo_key 2] [[], []] NewWindow
      = (None, snd (Buffer ''c'' [demo_key 1, demo_key 2] [[], []] NewWindow))"
    by (simp add: Buffer_def NewWindow_def Let_def)
  from watermark_exact [OF this, where K = "{Canonical (demo_key 1), Canonical (demo_key 2)}"
      and pre = "[]" and ?mid1.0 = "[]" and ?mid2.0 = "[(demo_key 2, Some [(''v'', GInt 7)])]"
      and src = ?src and tgt = "\<lambda>_. None" and ck = "Canonical (demo_key 2)"]
  moreover have "map_of (map (\<lambda>(k, r). (Canonical k, r)) (zip [demo_key 1, demo_key 2] [[], []])) ck
      = source_after ([] @ []) ?src ck"
    if "ck \<in> {Canonical (demo_key 1), Canonical (demo_key 2)}" for ck
    using that by (auto simp: source_after_def)
  ultimately show ?thesis by (simp add: source_after_def)
qed

section \<open>The signal table\<close>

definition SignalTableDDL :: "string \<Rightarrow> string" where
  "SignalTableDDL schema = join_with [CHR 0x0A]
     [''CREATE TABLE IF NOT EXISTS '' @ (if schema = '''' then ''migration_ctl'' else schema) @ ''.snapshot_signal ('',
      ''    signal_id   VARCHAR(64)  NOT NULL,'',
      ''    chunk_id    VARCHAR(128) NOT NULL,'',
      ''    kind        VARCHAR(8)   NOT NULL,'',
      ''    table_name  VARCHAR(256) NOT NULL,'',
      ''    created_at  TIMESTAMP    NOT NULL,'',
      ''    PRIMARY KEY (signal_id)'',
      '')'']"

end
