(* ===== verification/Control.thy ===== *)
theory Control
  imports Event
begin

text \<open>
  The migration state machine and the cutover gate, \<open>internal/control/phase.go\<close>. Phases are Go
  strings. A blocker's \<open>Detail\<close> is rendered for people; the model keeps the values it states.
\<close>

section \<open>Phases\<close>

definition PhasePlanning :: string where "PhasePlanning = ''planning''"
definition PhaseExtracting :: string where "PhaseExtracting = ''extracting''"
definition PhaseLoading :: string where "PhaseLoading = ''loading''"
definition PhaseStreaming :: string where "PhaseStreaming = ''streaming''"
definition PhaseVerifying :: string where "PhaseVerifying = ''verifying''"
definition PhaseReady :: string where "PhaseReady = ''ready_for_cutover''"
definition PhaseCuttingOver :: string where "PhaseCuttingOver = ''cutting_over''"
definition PhaseCutover :: string where "PhaseCutover = ''cutover''"
definition PhaseCompleted :: string where "PhaseCompleted = ''completed''"
definition PhaseRolledBack :: string where "PhaseRolledBack = ''rolled_back''"
definition PhaseFailed :: string where "PhaseFailed = ''failed''"

lemmas phase_defs = PhasePlanning_def PhaseExtracting_def PhaseLoading_def PhaseStreaming_def
  PhaseVerifying_def PhaseReady_def PhaseCuttingOver_def PhaseCutover_def PhaseCompleted_def
  PhaseRolledBack_def PhaseFailed_def

definition validTransitions :: "string list gomap" where
  "validTransitions =
     [(PhasePlanning, [PhaseExtracting, PhaseFailed]),
      (PhaseExtracting, [PhaseLoading, PhaseStreaming, PhaseFailed]),
      (PhaseLoading, [PhaseExtracting, PhaseStreaming, PhaseFailed]),
      (PhaseStreaming, [PhaseVerifying, PhaseLoading, PhaseFailed]),
      (PhaseVerifying, [PhaseReady, PhaseStreaming, PhaseFailed]),
      (PhaseReady, [PhaseCuttingOver, PhaseStreaming, PhaseVerifying, PhaseFailed]),
      (PhaseCuttingOver, [PhaseCutover, PhaseRolledBack, PhaseFailed]),
      (PhaseCutover, [PhaseCompleted, PhaseRolledBack]),
      (PhaseCompleted, []),
      (PhaseRolledBack, [PhaseStreaming, PhaseFailed]),
      (PhaseFailed, [PhasePlanning])]"

definition successors :: "string \<Rightarrow> string list" where
  "successors p = (case map_of validTransitions p of None \<Rightarrow> [] | Some ps \<Rightarrow> ps)"

definition Terminal :: "string \<Rightarrow> bool" where
  "Terminal p = (length (successors p) = 0)"

definition CanTransitionTo :: "string \<Rightarrow> string \<Rightarrow> bool" where
  "CanTransitionTo p next = list_ex (\<lambda>allowed. allowed = next) (successors p)"

datatype phase_error =
    UnknownPhase string
  | CannotMove string string "string list"

definition Transition :: "string \<Rightarrow> string \<Rightarrow> phase_error option" where
  "Transition from to =
     (if from = to then None
      else if map_of validTransitions from = None then Some (UnknownPhase from)
      else if map_of validTransitions to = None then Some (UnknownPhase to)
      else if \<not> CanTransitionTo from to then Some (CannotMove from to (successors from))
      else None)"

text \<open>A step of a migration is a change of phase that \<open>Transition\<close> accepts.\<close>

inductive phase_run :: "string list \<Rightarrow> bool" where
  run_start: "phase_run [PhasePlanning]"
| run_move: "phase_run (ps @ [p]) \<Longrightarrow> Transition p q = None \<Longrightarrow> phase_run (ps @ [p, q])"

inductive_cases phase_run_NilE: "phase_run []"

lemma Transition_None:
  "Transition p q = None \<longleftrightarrow> p = q \<or> CanTransitionTo p q"
proof -
  have "map_of validTransitions p \<noteq> None" if "CanTransitionTo p q"
    using that by (auto simp: CanTransitionTo_def successors_def split: option.splits)
  moreover have "map_of validTransitions q \<noteq> None" if "CanTransitionTo p q"
    using that
    by (auto simp: CanTransitionTo_def successors_def validTransitions_def phase_defs split: if_splits)
  ultimately show ?thesis by (auto simp: Transition_def)
qed

text \<open>What may come before the phases around the cutover.\<close>

lemma before_cutover: "CanTransitionTo p PhaseCutover \<Longrightarrow> p = PhaseCuttingOver"
  and before_cutting: "CanTransitionTo p PhaseCuttingOver \<Longrightarrow> p = PhaseReady"
  and before_ready: "CanTransitionTo p PhaseReady \<Longrightarrow> p = PhaseVerifying"
  and before_completed: "CanTransitionTo p PhaseCompleted \<Longrightarrow> p = PhaseCutover"
  by (auto simp: CanTransitionTo_def successors_def validTransitions_def phase_defs split: if_splits)

lemma phase_distinct [simp]:
  "PhaseCutover \<noteq> PhaseCuttingOver" "PhaseCuttingOver \<noteq> PhaseReady" "PhaseReady \<noteq> PhaseVerifying"
  "PhaseCompleted \<noteq> PhaseCutover" "PhasePlanning \<noteq> PhaseCutover" "PhasePlanning \<noteq> PhaseCuttingOver"
  "PhasePlanning \<noteq> PhaseReady" "PhasePlanning \<noteq> PhaseCompleted"
  by (simp_all add: phase_defs)

lemma phase_run_before:
  assumes "phase_run ps" and "q \<in> set ps" and "q \<noteq> PhasePlanning"
    and "\<And>p. CanTransitionTo p q \<Longrightarrow> p = r"
  shows "r \<in> set ps"
  using assms(1,2)
proof induction
  case run_start
  then show ?case using assms(3) by simp
next
  case (run_move ps p q')
  then show ?case using assms(4) by (auto simp: Transition_None)
qed

text \<open>
  C10: no way around the gate. However a migration moves through accepted transitions, a run that
  reaches the cutover has gone through verifying, through ready for cutover and through cutting
  over, and a run that reaches completed has also gone through the cutover. Completed is the only
  known phase without a successor, and from the cutover one can complete or roll back.
\<close>

theorem cutover_is_gated:
  assumes "phase_run ps"
  shows "(PhaseCutover \<in> set ps \<longrightarrow> {PhaseVerifying, PhaseReady, PhaseCuttingOver} \<subseteq> set ps)
    \<and> (PhaseCompleted \<in> set ps \<longrightarrow> {PhaseVerifying, PhaseReady, PhaseCuttingOver, PhaseCutover} \<subseteq> set ps)
    \<and> successors PhaseCutover = [PhaseCompleted, PhaseRolledBack]
    \<and> (\<forall>p \<in> set (map fst validTransitions). Terminal p \<longleftrightarrow> p = PhaseCompleted)"
proof -
  have cut: "PhaseCutover \<in> set ps \<longrightarrow> {PhaseVerifying, PhaseReady, PhaseCuttingOver} \<subseteq> set ps"
    using phase_run_before [OF assms _ _ before_cutover] phase_run_before [OF assms _ _ before_cutting]
      phase_run_before [OF assms _ _ before_ready]
    by (metis empty_subsetI insert_subset phase_distinct(5,6,7))
  moreover have "PhaseCompleted \<in> set ps \<longrightarrow> PhaseCutover \<in> set ps"
    using phase_run_before [OF assms _ _ before_completed] by (metis phase_distinct(8))
  moreover have "successors PhaseCutover = [PhaseCompleted, PhaseRolledBack]"
    by (simp add: successors_def validTransitions_def phase_defs)
  moreover have "\<forall>p \<in> set (map fst validTransitions). Terminal p \<longleftrightarrow> p = PhaseCompleted"
    by (simp add: Terminal_def successors_def validTransitions_def phase_defs)
  ultimately show ?thesis by blast
qed

definition demo_run :: "string list" where
  "demo_run = [PhasePlanning, PhaseExtracting, PhaseStreaming, PhaseVerifying, PhaseReady,
     PhaseCuttingOver, PhaseCutover]"

lemma demo_run_ok: "phase_run demo_run"
proof -
  note can = Transition_None CanTransitionTo_def successors_def validTransitions_def phase_defs
  have "phase_run [PhasePlanning]" by (rule run_start)
  then have "phase_run [PhasePlanning, PhaseExtracting]"
    using run_move [of "[]" PhasePlanning PhaseExtracting] by (simp add: can)
  then have "phase_run [PhasePlanning, PhaseExtracting, PhaseStreaming]"
    using run_move [of "[PhasePlanning]" PhaseExtracting PhaseStreaming] by (simp add: can)
  then have "phase_run [PhasePlanning, PhaseExtracting, PhaseStreaming, PhaseVerifying]"
    using run_move [of "[PhasePlanning, PhaseExtracting]" PhaseStreaming PhaseVerifying] by (simp add: can)
  then have "phase_run [PhasePlanning, PhaseExtracting, PhaseStreaming, PhaseVerifying, PhaseReady]"
    using run_move [of "[PhasePlanning, PhaseExtracting, PhaseStreaming]" PhaseVerifying PhaseReady]
    by (simp add: can)
  then have "phase_run [PhasePlanning, PhaseExtracting, PhaseStreaming, PhaseVerifying, PhaseReady, PhaseCuttingOver]"
    using run_move [of "[PhasePlanning, PhaseExtracting, PhaseStreaming, PhaseVerifying]" PhaseReady PhaseCuttingOver]
    by (simp add: can)
  then show ?thesis
    using run_move [of "[PhasePlanning, PhaseExtracting, PhaseStreaming, PhaseVerifying, PhaseReady]"
        PhaseCuttingOver PhaseCutover]
    by (simp add: can demo_run_def)
qed

theorem cutover_is_gated_witness: "{PhaseVerifying, PhaseReady, PhaseCuttingOver} \<subseteq> set demo_run"
  using cutover_is_gated [OF demo_run_ok] by (simp add: demo_run_def)

section \<open>The cutover gate\<close>

record thresholds =
  th_MaxLag :: duration
  th_LagStableFor :: duration
  th_MaxOpenDeadLetters :: int
  th_MaxReconcileFindings :: int
  th_MaxReconcileAge :: duration
  th_RequireAllPartsLoaded :: bool
  th_RequireReverseReplication :: bool

definition Second :: duration where "Second = 1000000000"
definition Minute :: duration where "Minute = 60 * Second"

definition DefaultThresholds :: thresholds where
  "DefaultThresholds =
     \<lparr>th_MaxLag = 10 * Second, th_LagStableFor = 15 * Minute, th_MaxOpenDeadLetters = 0,
      th_MaxReconcileFindings = 0, th_MaxReconcileAge = 30 * Minute,
      th_RequireAllPartsLoaded = True, th_RequireReverseReplication = True\<rparr>"

record observed =
  ob_Phase :: string
  ob_CurrentLag :: duration
  ob_LagUnderThreshold :: duration
  ob_OpenDeadLetters :: int
  ob_QuarantinedLetters :: int
  ob_ReconcileFindings :: int
  ob_ReconcileRanAt :: gotime
  ob_ReconcileComplete :: bool
  ob_PartsTotal :: int
  ob_PartsLoaded :: int
  ob_ReverseReplicationArmed :: bool
  ob_Now :: gotime

datatype blocker_detail =
    InPhase string
  | LagIs duration duration
  | LagStableOnly duration duration duration
  | UnappliedRecords int int "int option"
  | Discrepancies int int
  | NoCompletePass
  | NeverRan
  | FinishedAgo duration duration
  | PartsLoadedOf int int
  | NoReverseReplication

record blocker =
  bk_Code :: string
  bk_Detail :: blocker_detail

record readiness =
  rd_Ready :: bool
  rd_Blockers :: "blocker list"
  rd_EvaluatedAt :: gotime

definition BlockWrongPhase :: string where "BlockWrongPhase = ''wrong_phase''"
definition BlockLagTooHigh :: string where "BlockLagTooHigh = ''lag_above_threshold''"
definition BlockLagNotStable :: string where "BlockLagNotStable = ''lag_not_stable_long_enough''"
definition BlockOpenDeadLetters :: string where "BlockOpenDeadLetters = ''open_dead_letters''"
definition BlockReconcileFindings :: string where "BlockReconcileFindings = ''reconciliation_findings''"
definition BlockReconcileStale :: string where "BlockReconcileStale = ''reconciliation_stale''"
definition BlockReconcileIncomplete :: string where "BlockReconcileIncomplete = ''reconciliation_incomplete''"
definition BlockPartsUnloaded :: string where "BlockPartsUnloaded = ''parts_not_loaded''"
definition BlockNoRollbackPath :: string where "BlockNoRollbackPath = ''reverse_replication_not_armed''"

lemmas block_defs = BlockWrongPhase_def BlockLagTooHigh_def BlockLagNotStable_def
  BlockOpenDeadLetters_def BlockReconcileFindings_def BlockReconcileStale_def
  BlockReconcileIncomplete_def BlockPartsUnloaded_def BlockNoRollbackPath_def

text \<open>The checks of \<open>Evaluate\<close>, in its order, each with the blockers it appends.\<close>

definition phase_blockers :: "observed \<Rightarrow> blocker list" where
  "phase_blockers obs =
     (if ob_Phase obs \<noteq> PhaseReady \<and> ob_Phase obs \<noteq> PhaseVerifying \<and> ob_Phase obs \<noteq> PhaseStreaming
      then [\<lparr>bk_Code = BlockWrongPhase, bk_Detail = InPhase (ob_Phase obs)\<rparr>] else [])"

definition lag_blockers :: "observed \<Rightarrow> thresholds \<Rightarrow> blocker list" where
  "lag_blockers obs t =
     (if th_MaxLag t > 0 \<and> ob_CurrentLag obs > th_MaxLag t
      then [\<lparr>bk_Code = BlockLagTooHigh, bk_Detail = LagIs (ob_CurrentLag obs) (th_MaxLag t)\<rparr>]
      else if th_LagStableFor t > 0 \<and> ob_LagUnderThreshold obs < th_LagStableFor t
      then [\<lparr>bk_Code = BlockLagNotStable,
             bk_Detail = LagStableOnly (th_MaxLag t) (ob_LagUnderThreshold obs) (th_LagStableFor t)\<rparr>]
      else [])"

definition dead_letter_blockers :: "observed \<Rightarrow> thresholds \<Rightarrow> blocker list" where
  "dead_letter_blockers obs t =
     (if ob_OpenDeadLetters obs > th_MaxOpenDeadLetters t
      then [\<lparr>bk_Code = BlockOpenDeadLetters,
             bk_Detail = UnappliedRecords (ob_OpenDeadLetters obs) (th_MaxOpenDeadLetters t)
               (if ob_QuarantinedLetters obs > 0 then Some (ob_QuarantinedLetters obs) else None)\<rparr>]
      else [])"

definition findings_blockers :: "observed \<Rightarrow> thresholds \<Rightarrow> blocker list" where
  "findings_blockers obs t =
     (if ob_ReconcileFindings obs > th_MaxReconcileFindings t
      then [\<lparr>bk_Code = BlockReconcileFindings,
             bk_Detail = Discrepancies (ob_ReconcileFindings obs) (th_MaxReconcileFindings t)\<rparr>]
      else [])"

definition reconcile_blockers :: "observed \<Rightarrow> thresholds \<Rightarrow> blocker list" where
  "reconcile_blockers obs t =
     (if \<not> ob_ReconcileComplete obs
      then [\<lparr>bk_Code = BlockReconcileIncomplete, bk_Detail = NoCompletePass\<rparr>]
      else if th_MaxReconcileAge t > 0
      then (if ob_ReconcileRanAt obs = 0
            then [\<lparr>bk_Code = BlockReconcileStale, bk_Detail = NeverRan\<rparr>]
            else let age = time_Sub (ob_Now obs) (ob_ReconcileRanAt obs) in
                 if age > th_MaxReconcileAge t
                 then [\<lparr>bk_Code = BlockReconcileStale, bk_Detail = FinishedAgo age (th_MaxReconcileAge t)\<rparr>]
                 else [])
      else [])"

definition parts_blockers :: "observed \<Rightarrow> thresholds \<Rightarrow> blocker list" where
  "parts_blockers obs t =
     (if th_RequireAllPartsLoaded t \<and> ob_PartsLoaded obs < ob_PartsTotal obs
      then [\<lparr>bk_Code = BlockPartsUnloaded,
             bk_Detail = PartsLoadedOf (ob_PartsLoaded obs) (ob_PartsTotal obs)\<rparr>]
      else [])"

definition rollback_blockers :: "observed \<Rightarrow> thresholds \<Rightarrow> blocker list" where
  "rollback_blockers obs t =
     (if th_RequireReverseReplication t \<and> \<not> ob_ReverseReplicationArmed obs
      then [\<lparr>bk_Code = BlockNoRollbackPath, bk_Detail = NoReverseReplication\<rparr>] else [])"

text \<open>\<open>wall\<close> is what \<open>time.Now()\<close> returns, used when the observation carries no time.\<close>

definition Evaluate :: "gotime \<Rightarrow> observed \<Rightarrow> thresholds \<Rightarrow> readiness" where
  "Evaluate wall obs t =
     (let obs = (if ob_Now obs = 0 then obs\<lparr>ob_Now := wall\<rparr> else obs);
          blockers = phase_blockers obs @ lag_blockers obs t @ dead_letter_blockers obs t
            @ findings_blockers obs t @ reconcile_blockers obs t @ parts_blockers obs t
            @ rollback_blockers obs t;
          blockers = sort_key bk_Code blockers
      in \<lparr>rd_Ready = (length blockers = 0), rd_Blockers = blockers, rd_EvaluatedAt = ob_Now obs\<rparr>)"

record override =
  ov_By :: string
  ov_At :: gotime
  ov_Reason :: string
  ov_Acknowledged :: "string list"

datatype override_error =
    NoAuthoriser
  | ThinReason nat
  | Unacknowledged "string list"

definition ValidateOverride :: "override \<Rightarrow> readiness \<Rightarrow> override_error option" where
  "ValidateOverride ov r =
     (if ov_By ov = '''' then Some NoAuthoriser
      else if length (ov_Reason ov) < 20 then Some (ThinReason (length (ov_Reason ov)))
      else let present = remdups (map bk_Code (rd_Blockers r));
               missing = filter (\<lambda>code. code \<notin> set (ov_Acknowledged ov)) present
           in if length missing > 0 then Some (Unacknowledged (sort missing)) else None)"

section \<open>What the gate answers\<close>

text \<open>Each condition that closes the gate, by its code, independently of the order of the checks.\<close>

definition gate_conditions :: "observed \<Rightarrow> thresholds \<Rightarrow> (string \<times> bool) list" where
  "gate_conditions obs t =
     [(BlockWrongPhase, ob_Phase obs \<notin> {PhaseReady, PhaseVerifying, PhaseStreaming}),
      (BlockLagTooHigh, 0 < th_MaxLag t \<and> th_MaxLag t < ob_CurrentLag obs),
      (BlockLagNotStable, \<not> (0 < th_MaxLag t \<and> th_MaxLag t < ob_CurrentLag obs)
         \<and> 0 < th_LagStableFor t \<and> ob_LagUnderThreshold obs < th_LagStableFor t),
      (BlockOpenDeadLetters, th_MaxOpenDeadLetters t < ob_OpenDeadLetters obs),
      (BlockReconcileFindings, th_MaxReconcileFindings t < ob_ReconcileFindings obs),
      (BlockReconcileIncomplete, \<not> ob_ReconcileComplete obs),
      (BlockReconcileStale, ob_ReconcileComplete obs \<and> 0 < th_MaxReconcileAge t
         \<and> (ob_ReconcileRanAt obs = 0
            \<or> th_MaxReconcileAge t < time_Sub (ob_Now obs) (ob_ReconcileRanAt obs))),
      (BlockPartsUnloaded, th_RequireAllPartsLoaded t \<and> ob_PartsLoaded obs < ob_PartsTotal obs),
      (BlockNoRollbackPath, th_RequireReverseReplication t \<and> \<not> ob_ReverseReplicationArmed obs)]"

definition with_now :: "gotime \<Rightarrow> observed \<Rightarrow> observed" where
  "with_now wall obs = (if ob_Now obs = 0 then obs\<lparr>ob_Now := wall\<rparr> else obs)"

lemma gate_codes_distinct: "distinct (map fst (gate_conditions obs t))"
  by (simp add: gate_conditions_def block_defs)

lemma Evaluate_codes:
  "\<exists>bs. rd_Blockers (Evaluate wall obs t) = sort_key bk_Code bs
      \<and> map bk_Code bs = map fst (filter snd (gate_conditions (with_now wall obs) t))"
proof -
  let ?o = "with_now wall obs" and ?on = "\<lambda>cs. map fst (filter snd cs) :: string list"
  let ?C = "gate_conditions ?o t"
  have "map bk_Code (phase_blockers ?o) = ?on (take 1 ?C)"
    "map bk_Code (lag_blockers ?o t) = ?on (take 2 (drop 1 ?C))"
    "map bk_Code (dead_letter_blockers ?o t) = ?on (take 1 (drop 3 ?C))"
    "map bk_Code (findings_blockers ?o t) = ?on (take 1 (drop 4 ?C))"
    "map bk_Code (reconcile_blockers ?o t) = ?on (take 2 (drop 5 ?C))"
    "map bk_Code (parts_blockers ?o t) = ?on (take 1 (drop 7 ?C))"
    "map bk_Code (rollback_blockers ?o t) = ?on (drop 8 ?C)"
    by (simp_all add: gate_conditions_def phase_blockers_def lag_blockers_def dead_letter_blockers_def
        findings_blockers_def reconcile_blockers_def parts_blockers_def rollback_blockers_def Let_def)
  moreover have "?C = take 1 ?C @ take 2 (drop 1 ?C) @ take 1 (drop 3 ?C) @ take 1 (drop 4 ?C)
      @ take 2 (drop 5 ?C) @ take 1 (drop 7 ?C) @ drop 8 ?C"
    by (simp add: gate_conditions_def)
  ultimately have "map bk_Code (phase_blockers ?o @ lag_blockers ?o t @ dead_letter_blockers ?o t
      @ findings_blockers ?o t @ reconcile_blockers ?o t @ parts_blockers ?o t @ rollback_blockers ?o t)
      = ?on ?C"
    by (metis filter_append map_append)
  then show ?thesis
    unfolding Evaluate_def Let_def with_now_def [symmetric] readiness.simps by blast
qed

lemma Evaluate_fields [simp]:
  "rd_Ready (Evaluate wall obs t) \<longleftrightarrow> rd_Blockers (Evaluate wall obs t) = []"
  "rd_EvaluatedAt (Evaluate wall obs t) = ob_Now (with_now wall obs)"
  by (simp_all add: Evaluate_def Let_def with_now_def [symmetric])

lemma Evaluate_blocker_codes:
  "sorted_wrt (<) (map bk_Code (rd_Blockers (Evaluate wall obs t)))
   \<and> set (map bk_Code (rd_Blockers (Evaluate wall obs t)))
       = {c. (c, True) \<in> set (gate_conditions (with_now wall obs) t)}"
proof -
  obtain bs where bs: "rd_Blockers (Evaluate wall obs t) = sort_key bk_Code bs"
      "map bk_Code bs = map fst (filter snd (gate_conditions (with_now wall obs) t))"
    using Evaluate_codes by blast
  have "distinct (map bk_Code bs)"
    unfolding bs(2) by (rule distinct_map_filter [OF gate_codes_distinct])
  moreover have "set (map bk_Code bs) = {c. (c, True) \<in> set (gate_conditions (with_now wall obs) t)}"
    unfolding bs(2) by force
  ultimately show ?thesis by (simp add: bs(1) strict_sorted_sort_key)
qed

text \<open>
  the gate is exact. It reports ready precisely when none of its nine conditions holds, and
  otherwise a blocker for every condition that does (not only the first), each code once and in
  increasing order of code.
\<close>

theorem Evaluate_exact:
  "(rd_Ready (Evaluate wall obs t) \<longleftrightarrow>
      (\<forall>c b. (c, b) \<in> set (gate_conditions (with_now wall obs) t) \<longrightarrow> \<not> b))
   \<and> sorted_wrt (<) (map bk_Code (rd_Blockers (Evaluate wall obs t)))
   \<and> set (map bk_Code (rd_Blockers (Evaluate wall obs t)))
       = {c. (c, True) \<in> set (gate_conditions (with_now wall obs) t)}"
proof -
  have "rd_Blockers (Evaluate wall obs t) = [] \<longleftrightarrow>
      {c. (c, True) \<in> set (gate_conditions (with_now wall obs) t)} = {}"
    using Evaluate_blocker_codes [of wall obs t] by (metis list.map_disc_iff set_empty)
  then show ?thesis using Evaluate_blocker_codes by auto
qed

definition demo_observed :: observed where
  "demo_observed =
     \<lparr>ob_Phase = PhaseReady, ob_CurrentLag = Second, ob_LagUnderThreshold = 20 * Minute,
      ob_OpenDeadLetters = 0, ob_QuarantinedLetters = 0, ob_ReconcileFindings = 0,
      ob_ReconcileRanAt = 100 * Minute, ob_ReconcileComplete = True, ob_PartsTotal = 4,
      ob_PartsLoaded = 4, ob_ReverseReplicationArmed = True, ob_Now = 110 * Minute\<rparr>"

theorem Evaluate_exact_witness:
  "rd_Ready (Evaluate 0 demo_observed DefaultThresholds)
   \<and> map bk_Code (rd_Blockers (Evaluate 0 (demo_observed\<lparr>ob_CurrentLag := Minute\<rparr>) DefaultThresholds))
       = [BlockLagTooHigh]"
proof -
  let ?bad = "demo_observed\<lparr>ob_CurrentLag := Minute\<rparr>"
  note defs = gate_conditions_def with_now_def demo_observed_def DefaultThresholds_def Second_def Minute_def
    time_Sub_def min_int64_def max_int64_def
  have "rd_Ready (Evaluate 0 demo_observed DefaultThresholds)"
    using Evaluate_exact [of 0 demo_observed DefaultThresholds] by (simp add: defs)
  moreover have "{c. (c, True) \<in> set (gate_conditions (with_now 0 ?bad) DefaultThresholds)} = {BlockLagTooHigh}"
    by (auto simp: defs)
  then have "set (map bk_Code (rd_Blockers (Evaluate 0 ?bad DefaultThresholds))) = set [BlockLagTooHigh]"
    and "sorted_wrt (<) (map bk_Code (rd_Blockers (Evaluate 0 ?bad DefaultThresholds)))"
    using Evaluate_exact [of 0 ?bad DefaultThresholds] by simp_all
  then have "map bk_Code (rd_Blockers (Evaluate 0 ?bad DefaultThresholds)) = [BlockLagTooHigh]"
    by (intro strict_sorted_equal) auto
  ultimately show ?thesis by simp
qed

text \<open>
  an override is accepted only when it names who authorised it, gives a reason of at least
  twenty bytes and acknowledges every blocker of the readiness it is checked against; otherwise,
  when the first two hold, the error lists exactly the codes not acknowledged, in order.
\<close>

theorem ValidateOverride_exact:
  "(ValidateOverride ov r = None \<longleftrightarrow>
      ov_By ov \<noteq> [] \<and> 20 \<le> length (ov_Reason ov)
      \<and> set (map bk_Code (rd_Blockers r)) \<subseteq> set (ov_Acknowledged ov))
   \<and> (\<forall>ms. ValidateOverride ov r = Some (Unacknowledged ms) \<longrightarrow>
        sorted_wrt (<) ms \<and> set ms = set (map bk_Code (rd_Blockers r)) - set (ov_Acknowledged ov))"
  by (auto simp: ValidateOverride_def Let_def filter_empty_conv strict_sorted_iff)

theorem ValidateOverride_exact_witness:
  "ValidateOverride \<lparr>ov_By = ''ops'', ov_At = 0, ov_Reason = ''accepted for tonight'', ov_Acknowledged = []\<rparr>
     \<lparr>rd_Ready = False, rd_Blockers = [\<lparr>bk_Code = BlockLagTooHigh, bk_Detail = LagIs 2 1\<rparr>],
      rd_EvaluatedAt = 0\<rparr> \<noteq> None"
  by (subst ValidateOverride_exact [THEN conjunct1]) simp

end
