(* ===== verification/Retry.thy ===== *)
theory Retry
  imports ErrClass
begin

text \<open>
  The backoff policy and the retry loop, \<open>internal/retryx/backoff.go\<close>. The multiplier is a
  \<open>float64\<close> in the code; the model computes the window with exact rationals, so rounding and the
  overflow of \<open>math.Pow\<close> to infinity (which the code caps at \<open>Max\<close> as well) do not appear. The
  random draw of the jitter is a parameter, and so are the context and what the retried function
  returns.
\<close>

section \<open>The policy\<close>

record policy =
  pc_Base :: duration
  pc_Max :: duration
  pc_Multiplier :: rat
  pc_MaxAttempts :: int
  pc_Jitter :: bool

definition Millisecond :: duration where "Millisecond = 1000000"

definition DefaultPolicy :: policy where
  "DefaultPolicy = \<lparr>pc_Base = 100 * Millisecond, pc_Max = 30 * 1000 * Millisecond, pc_Multiplier = 2,
     pc_MaxAttempts = 8, pc_Jitter = True\<rparr>"

definition DLQPolicy :: policy where
  "DLQPolicy = \<lparr>pc_Base = 30 * 1000 * Millisecond, pc_Max = 2 * 3600 * 1000 * Millisecond,
     pc_Multiplier = 3, pc_MaxAttempts = 12, pc_Jitter = True\<rparr>"

datatype policy_error = BaseExceedsMax | NegativeMaxAttempts

text \<open>\<open>Validate\<close> works on a pointer: the defaults stay filled in when it then fails.\<close>

definition policy_defaults :: "policy \<Rightarrow> policy" where
  "policy_defaults p =
     (let p = (if pc_Base p \<le> 0 then p\<lparr>pc_Base := 100 * Millisecond\<rparr> else p);
          p = (if pc_Max p \<le> 0 then p\<lparr>pc_Max := 30 * 1000 * Millisecond\<rparr> else p)
      in if pc_Multiplier p < 1 then p\<lparr>pc_Multiplier := 2\<rparr> else p)"

definition Policy_Validate :: "policy \<Rightarrow> policy_error option \<times> policy" where
  "Policy_Validate p =
     (let p = policy_defaults p in
      if pc_Base p > pc_Max p then (Some BaseExceedsMax, p)
      else if pc_MaxAttempts p < 0 then (Some NegativeMaxAttempts, p)
      else (None, p))"

definition valid_policy :: "policy \<Rightarrow> bool" where
  "valid_policy p \<longleftrightarrow> 0 < pc_Base p \<and> pc_Base p \<le> pc_Max p \<and> 1 \<le> pc_Multiplier p \<and> 0 \<le> pc_MaxAttempts p"

lemma Policy_Validate_valid: "Policy_Validate p = (None, p') \<Longrightarrow> valid_policy p'"
  by (auto simp: Policy_Validate_def policy_defaults_def valid_policy_def Let_def Millisecond_def
      split: if_splits)

text \<open>The window of an attempt, and the conversion of a \<open>float64\<close> to a duration (truncation).\<close>

definition delay_window :: "policy \<Rightarrow> int \<Rightarrow> rat" where
  "delay_window p attempt =
     (let attempt = (if attempt < 1 then 1 else attempt);
          base = of_int (pc_Base p) * pc_Multiplier p ^ nat (attempt - 1)
      in if base > of_int (pc_Max p) then of_int (pc_Max p) else base)"

definition to_duration :: "rat \<Rightarrow> duration" where
  "to_duration r = (if 0 \<le> r then \<lfloor>r\<rfloor> else \<lceil>r\<rceil>)"

text \<open>\<open>draw n\<close> is \<open>rand.Int63n(n)\<close>.\<close>

definition Delay :: "(int \<Rightarrow> int) \<Rightarrow> policy \<Rightarrow> int \<Rightarrow> duration" where
  "Delay draw p attempt =
     (let base = delay_window p attempt in
      if \<not> pc_Jitter p then to_duration base
      else if base \<le> 0 then 0
      else draw (to_duration base + 1))"

definition NextAt :: "(int \<Rightarrow> int) \<Rightarrow> policy \<Rightarrow> gotime \<Rightarrow> int \<Rightarrow> gotime" where
  "NextAt draw p now attempt = now + Delay draw p attempt"

definition Exhausted :: "policy \<Rightarrow> int \<Rightarrow> bool" where
  "Exhausted p attempts = (pc_MaxAttempts p > 0 \<and> attempts \<ge> pc_MaxAttempts p)"

text \<open>The documented range of \<open>rand.Int63n\<close>.\<close>

definition int63n :: "(int \<Rightarrow> int) \<Rightarrow> bool" where
  "int63n draw \<longleftrightarrow> (\<forall>n > 0. 0 \<le> draw n \<and> draw n < n)"

lemma delay_window_range:
  assumes "valid_policy p"
  shows "of_int (pc_Base p) \<le> delay_window p attempt \<and> delay_window p attempt \<le> of_int (pc_Max p)"
proof -
  let ?n = "nat ((if attempt < 1 then 1 else attempt) - 1)"
  have "1 \<le> pc_Multiplier p ^ ?n" using assms by (simp add: valid_policy_def)
  then have "of_int (pc_Base p) * 1 \<le> of_int (pc_Base p) * pc_Multiplier p ^ ?n"
    using assms by (intro mult_left_mono) (auto simp: valid_policy_def)
  then show ?thesis
    using assms by (auto simp: delay_window_def Let_def valid_policy_def)
qed

lemma delay_window_mono:
  assumes "valid_policy p" and "a \<le> b"
  shows "delay_window p a \<le> delay_window p b"
proof -
  let ?n = "\<lambda>a. nat ((if a < 1 then 1 else a) - 1)"
  have "pc_Multiplier p ^ ?n a \<le> pc_Multiplier p ^ ?n b"
    using assms by (intro power_increasing) (auto simp: valid_policy_def)
  then have "of_int (pc_Base p) * pc_Multiplier p ^ ?n a \<le> of_int (pc_Base p) * pc_Multiplier p ^ ?n b"
    using assms by (intro mult_left_mono) (auto simp: valid_policy_def)
  then show ?thesis by (auto simp: delay_window_def Let_def)
qed

lemma to_duration_nonneg: "0 \<le> r \<Longrightarrow> 0 \<le> to_duration r \<and> of_int (to_duration r) \<le> r"
  by (simp add: to_duration_def)

lemma to_duration_mono:
  assumes "r \<le> s"
  shows "to_duration r \<le> to_duration s"
proof (cases "0 \<le> r")
  case True
  then show ?thesis using assms by (simp add: to_duration_def floor_mono)
next
  case False
  then have "\<lceil>r\<rceil> \<le> 0" by (simp add: ceiling_le_iff)
  then have "\<lceil>r\<rceil> \<le> \<lfloor>s\<rfloor>" if "0 \<le> s"
    using that order.trans [of "\<lceil>r\<rceil>" 0 "\<lfloor>s\<rfloor>"] by simp
  then show ?thesis using False assms by (auto simp: to_duration_def ceiling_mono)
qed

lemma Delay_range:
  assumes "Policy_Validate p0 = (None, p)" and "int63n draw"
  shows "0 \<le> Delay draw p attempt \<and> Delay draw p attempt \<le> pc_Max p
    \<and> of_int (Delay draw p attempt) \<le> delay_window p attempt"
proof -
  have p: "valid_policy p" using Policy_Validate_valid [OF assms(1)] .
  let ?w = "delay_window p attempt"
  have w: "0 < ?w" "?w \<le> of_int (pc_Max p)"
    using delay_window_range [OF p, of attempt] p by (auto simp: valid_policy_def)
  have d: "0 \<le> to_duration ?w" "of_int (to_duration ?w) \<le> ?w"
    using to_duration_nonneg [of ?w] w by simp_all
  have "0 \<le> Delay draw p attempt \<and> Delay draw p attempt \<le> to_duration ?w"
    using assms(2) w d by (auto simp: Delay_def Let_def int63n_def zle_add1_eq_le [symmetric] simp del: zle_add1_eq_le)
  moreover from this have "of_int (Delay draw p attempt) \<le> ?w"
    using d(2) by (meson of_int_le_iff order.trans)
  moreover from this have "Delay draw p attempt \<le> pc_Max p"
    using w(2) by (meson of_int_le_iff order.trans)
  ultimately show ?thesis by blast
qed

text \<open>
  a retry delay is never negative and never above the maximum, with full jitter it stays
  inside the window of its attempt, without jitter it is the window itself and never decreases
  from one attempt to the next.
\<close>

theorem Delay_bounds:
  assumes "Policy_Validate p0 = (None, p)" and "int63n draw"
  shows "0 \<le> Delay draw p attempt \<and> Delay draw p attempt \<le> pc_Max p
    \<and> of_int (Delay draw p attempt) \<le> delay_window p attempt
    \<and> (\<not> pc_Jitter p \<longrightarrow> attempt \<le> later \<longrightarrow> Delay draw p attempt \<le> Delay draw p later)"
proof -
  have "Delay draw p attempt \<le> Delay draw p later" if "\<not> pc_Jitter p" "attempt \<le> later"
    using that to_duration_mono delay_window_mono [OF Policy_Validate_valid [OF assms(1)]]
    by (simp add: Delay_def Let_def)
  then show ?thesis using Delay_range [OF assms] by blast
qed

theorem Delay_bounds_witness:
  "0 \<le> Delay (\<lambda>n. n - 1) DefaultPolicy 5 \<and> Delay (\<lambda>n. n - 1) DefaultPolicy 5 \<le> 30000000000"
proof -
  have "Policy_Validate DefaultPolicy = (None, DefaultPolicy)"
    by (simp add: Policy_Validate_def policy_defaults_def DefaultPolicy_def Millisecond_def)
  from Delay_bounds [OF this, of "\<lambda>n. n - 1" 5] show ?thesis
    by (simp add: int63n_def DefaultPolicy_def Millisecond_def)
qed

text \<open>
  \<open>Sleep\<close>: whether the delay ran out before the context was done; a delay that is not positive does not look at
  the context.
\<close>

definition Sleep :: "duration \<Rightarrow> bool \<Rightarrow> bool" where
  "Sleep d cancelled_first \<longleftrightarrow> d \<le> 0 \<or> \<not> cancelled_first"

section \<open>The retry loop\<close>

text \<open>
  \<open>ctx n\<close> is \<open>ctx.Err()\<close> before attempt \<open>n\<close>, \<open>fn n\<close> what the function returns on attempt \<open>n\<close>
  and \<open>slept n\<close> whether the delay after attempt \<open>n\<close> ran out before the context was done. The
  loop has no bound when \<open>MaxAttempts\<close> is zero, so it may not return: \<open>None\<close>. The result is the
  returned error and the number of calls made.
\<close>

partial_function (option) do_loop ::
  "policy \<Rightarrow> (nat \<Rightarrow> go_error option) \<Rightarrow> (nat \<Rightarrow> go_error option) \<Rightarrow> (nat \<Rightarrow> bool)
   \<Rightarrow> go_error option \<Rightarrow> nat \<Rightarrow> (go_error option \<times> nat) option" where
  "do_loop p ctx fn slept prev attempt =
     (case ctx attempt of
        Some e \<Rightarrow> Some (if prev \<noteq> None then prev else Some e, attempt - 1)
      | None \<Rightarrow>
         (case fn attempt of
            None \<Rightarrow> Some (None, attempt)
          | Some e \<Rightarrow>
              if Classify (Some e) = Permanent then Some (Some e, attempt)
              else if pc_MaxAttempts p > 0 \<and> int attempt \<ge> pc_MaxAttempts p then Some (Some e, attempt)
              else if \<not> slept attempt then Some (Some e, attempt)
              else do_loop p ctx fn slept (Some e) (attempt + 1)))"

datatype do_result = PolicyError policy_error | Returned "go_error option" nat

definition Do ::
  "policy \<Rightarrow> (nat \<Rightarrow> go_error option) \<Rightarrow> (nat \<Rightarrow> go_error option) \<Rightarrow> (nat \<Rightarrow> bool)
   \<Rightarrow> do_result option" where
  "Do p ctx fn slept =
     (case Policy_Validate p of
        (Some e, p) \<Rightarrow> Some (PolicyError e)
      | (None, p) \<Rightarrow> map_option (\<lambda>(err, n). Returned err n) (do_loop p ctx fn slept None 1))"

text \<open>What a return of the loop that starts with attempt \<open>a\<close> says.\<close>

definition do_post ::
  "policy \<Rightarrow> (nat \<Rightarrow> go_error option) \<Rightarrow> (nat \<Rightarrow> go_error option) \<Rightarrow> (nat \<Rightarrow> bool)
   \<Rightarrow> go_error option \<Rightarrow> nat \<Rightarrow> go_error option \<Rightarrow> nat \<Rightarrow> bool" where
  "do_post p ctx fn slept prev a err n \<longleftrightarrow>
     a \<le> Suc n
     \<and> (\<forall>i. a \<le> i \<and> i < n \<longrightarrow> (\<exists>e. fn i = Some e \<and> Classify (Some e) \<noteq> Permanent))
     \<and> (a \<le> n \<longrightarrow> err = fn n) \<and> (n < a \<longrightarrow> err = (if prev \<noteq> None then prev else ctx a))
     \<and> (ctx (Suc n) \<noteq> None \<or> a \<le> n \<and>
          (fn n = None \<or> Classify (fn n) = Permanent \<or> \<not> slept n
           \<or> pc_MaxAttempts p > 0 \<and> int n \<ge> pc_MaxAttempts p))"


lemma do_loop_post:
  assumes "do_loop p ctx fn slept prev a = Some y" and "0 < a"
  shows "do_post p ctx fn slept prev a (fst y) (snd y)"
proof -
  have "0 < a \<longrightarrow> do_post p ctx fn slept prev a (fst y) (snd y)"
  proof (rule do_loop.raw_induct [of "\<lambda>p ctx fn slept prev a y.
        0 < a \<longrightarrow> do_post p ctx fn slept prev a (fst y) (snd y)", OF _ assms(1)], intro impI)
    fix loop p ctx fn slept prev a y
    assume IH: "\<And>p ctx fn slept prev a y. loop p ctx fn slept prev a = Some y \<Longrightarrow>
        0 < a \<longrightarrow> do_post p ctx fn slept prev a (fst y) (snd y)"
      and step: "(case ctx a of
        Some e \<Rightarrow> Some (if prev \<noteq> None then prev else Some e, a - 1)
      | None \<Rightarrow>
         (case fn a of
            None \<Rightarrow> Some (None, a)
          | Some e \<Rightarrow>
              if Classify (Some e) = Permanent then Some (Some e, a)
              else if pc_MaxAttempts p > 0 \<and> int a \<ge> pc_MaxAttempts p then Some (Some e, a)
              else if \<not> slept a then Some (Some e, a)
              else loop p ctx fn slept (Some e) (a + 1))) = Some y"
      and a: "0 < a"
    show "do_post p ctx fn slept prev a (fst y) (snd y)"
    proof (cases "ctx a = None \<and> (\<exists>e. fn a = Some e \<and> Classify (Some e) \<noteq> Permanent
        \<and> \<not> (pc_MaxAttempts p > 0 \<and> int a \<ge> pc_MaxAttempts p) \<and> slept a)")
      case False
      then show ?thesis
        using step a by (auto simp: do_post_def split: option.splits if_splits)
    next
      case True
      then obtain e where e: "fn a = Some e" "Classify (Some e) \<noteq> Permanent"
        and rec: "loop p ctx fn slept (Some e) (a + 1) = Some y"
        using step by (auto split: if_splits)
      have "do_post p ctx fn slept (Some e) (Suc a) (fst y) (snd y)" using IH [OF rec] by simp
      then show ?thesis
        using e a unfolding do_post_def by (auto simp: le_Suc_eq Suc_le_eq dest: le_neq_implies_less)
    qed
  qed
  with assms(2) show ?thesis by simp
qed

text \<open>With a bound on the attempts the loop returns, within it.\<close>

lemma do_loop_returns:
  assumes "0 < pc_MaxAttempts p" and "int a \<le> pc_MaxAttempts p"
  shows "\<exists>err n. do_loop p ctx fn slept prev a = Some (err, n) \<and> int n \<le> pc_MaxAttempts p"
  using assms(2)
proof (induction "nat (pc_MaxAttempts p - int a)" arbitrary: a prev rule: less_induct)
  case less
  show ?case
  proof (cases "ctx a = None \<and> (\<exists>e. fn a = Some e \<and> Classify (Some e) \<noteq> Permanent
        \<and> \<not> (pc_MaxAttempts p > 0 \<and> int a \<ge> pc_MaxAttempts p) \<and> slept a)")
    case False
    then show ?thesis
      using less.prems by (subst do_loop.simps) (auto split: option.splits)
  next
    case True
    then obtain e where e: "fn a = Some e" by blast
    have eq: "do_loop p ctx fn slept prev a = do_loop p ctx fn slept (Some e) (Suc a)"
      by (subst do_loop.simps) (use True e in auto)
    have "int a < pc_MaxAttempts p" using True assms(1) by auto
    then show ?thesis unfolding eq by (intro less.hyps) auto
  qed
qed

text \<open>
  C35: the retry loop. With a bound on the attempts, \<open>Do\<close> always returns and never calls the
  function more often than the bound. It stops on the first success, permanent error or last
  attempt (or when the context ends it), every earlier call failed with an error that is not
  permanent, and the error it returns is that of the last call, or the context's if there was no
  call.
\<close>

theorem Do_bounded:
  assumes "Policy_Validate p0 = (None, p)" and "0 < pc_MaxAttempts p"
  shows "\<exists>err n. Do p0 ctx fn slept = Some (Returned err n) \<and> int n \<le> pc_MaxAttempts p
    \<and> (\<forall>i. 1 \<le> i \<and> i < n \<longrightarrow> (\<exists>e. fn i = Some e \<and> Classify (Some e) \<noteq> Permanent))
    \<and> err = (if n = 0 then ctx 1 else fn n)
    \<and> (ctx (Suc n) \<noteq> None \<or> fn n = None \<or> Classify (fn n) = Permanent \<or> \<not> slept n
       \<or> int n = pc_MaxAttempts p)"
proof -
  obtain err n where r: "do_loop p ctx fn slept None 1 = Some (err, n)" "int n \<le> pc_MaxAttempts p"
    using do_loop_returns [OF assms(2), of 1 ctx fn slept None] assms(2) by auto
  have "do_post p ctx fn slept None 1 err n" using do_loop_post [OF r(1)] by simp
  then show ?thesis
    using r assms(1) by (intro exI [of _ err] exI [of _ n]) (auto simp: do_post_def Do_def)
qed

theorem Do_bounded_witness:
  "\<exists>err n. Do DefaultPolicy (\<lambda>i. None) (\<lambda>i. Some demo_deadlock) (\<lambda>i. True) = Some (Returned err n) \<and> n \<le> 8"
proof -
  have "Policy_Validate DefaultPolicy = (None, DefaultPolicy)"
    by (simp add: Policy_Validate_def policy_defaults_def DefaultPolicy_def Millisecond_def)
  from Do_bounded [OF this, of "\<lambda>i. None" "\<lambda>i. Some demo_deadlock" "\<lambda>i. True"] show ?thesis
    by (auto simp: DefaultPolicy_def)
qed

text \<open>
  without a bound the loop is a supervisor loop: it returns only for the context, a success
  or a permanent error, so a function that keeps failing transiently is retried for ever.
\<close>

theorem Do_unbounded:
  assumes "Policy_Validate p0 = (None, p)" and "pc_MaxAttempts p = 0"
    and "\<forall>i. ctx i = None \<and> slept i" and "\<forall>i. \<exists>e. fn i = Some e \<and> Classify (Some e) \<noteq> Permanent"
  shows "Do p0 ctx fn slept = None"
proof (rule ccontr)
  assume "Do p0 ctx fn slept \<noteq> None"
  then obtain err n where "do_loop p ctx fn slept None 1 = Some (err, n)"
    using assms(1) by (auto simp: Do_def)
  from do_loop_post [OF this] have "do_post p ctx fn slept None 1 err n" by simp
  moreover obtain e where "fn n = Some e" "Classify (Some e) \<noteq> Permanent" using assms(4) by blast
  ultimately show False using assms(2,3) by (auto simp: do_post_def)
qed

theorem Do_unbounded_witness:
  "Do (DefaultPolicy\<lparr>pc_MaxAttempts := 0\<rparr>) (\<lambda>i. None) (\<lambda>i. Some demo_deadlock) (\<lambda>i. True) = None"
proof (rule Do_unbounded)
  show "Policy_Validate (DefaultPolicy\<lparr>pc_MaxAttempts := 0\<rparr>) = (None, DefaultPolicy\<lparr>pc_MaxAttempts := 0\<rparr>)"
    by (simp add: Policy_Validate_def policy_defaults_def DefaultPolicy_def Millisecond_def)
  have "Classify (Some demo_deadlock) = Transient"
    by (simp add: Classify_def demo_deadlock_def classifySQLState_def)
  then show "\<forall>i. \<exists>e. Some demo_deadlock = Some e \<and> Classify (Some e) \<noteq> Permanent" by simp
qed simp_all

end
