(* ===== verification/Dlq.thy ===== *)
theory Dlq
  imports Event Retry
begin

text \<open>
  Dead letters, \<open>internal/dlq/entry.go\<close>: the decisions taken when a record fails, and the first
  entry written for it. Byte strings stand for Go strings, so the two non-ASCII characters of the
  messages appear as their UTF-8 bytes.
\<close>

section \<open>Statuses and entries\<close>

definition StatusPending :: string where "StatusPending = ''pending''"
definition StatusRetrying :: string where "StatusRetrying = ''retrying''"
definition StatusQuarantined :: string where "StatusQuarantined = ''quarantined''"
definition StatusResolved :: string where "StatusResolved = ''resolved''"
definition StatusDiscarded :: string where "StatusDiscarded = ''discarded''"

lemmas status_defs = StatusPending_def StatusRetrying_def StatusQuarantined_def StatusResolved_def
  StatusDiscarded_def

definition Status_Open :: "string \<Rightarrow> bool" where
  "Status_Open s = (s = StatusPending \<or> s = StatusRetrying \<or> s = StatusQuarantined)"

text \<open>The Go values of \<open>errclass.Class\<close>.\<close>

fun class_string :: "err_class \<Rightarrow> string" where
  "class_string Transient = ''transient''"
| "class_string Permanent = ''permanent''"
| "class_string Unknown = ''unknown''"

record entry =
  en_ID :: int
  en_MigrationID :: string
  en_SourceTable :: table_ref
  en_Op :: string
  en_KeyHash :: string
  en_Key :: row_key
  en_Payload :: string
  en_PayloadEncrypted :: bool
  en_ErrorClass :: string
  en_LastError :: string
  en_Attempts :: int
  en_Status :: string
  en_FirstSeenAt :: gotime
  en_NextRetryAt :: gotime
  en_ClaimedAt :: gotime
  en_ClaimedBy :: string
  en_ResolvedAt :: gotime
  en_SourceLSN :: uint64
  en_Topic :: string
  en_Partition :: int
  en_Offset :: int

record decision =
  dc_Status :: string
  dc_Attempts :: int
  dc_NextRetryAt :: gotime
  dc_Reason :: string

section \<open>Rendering\<close>

definition ellipsis :: string where "ellipsis = [CHR 0xE2, CHR 0x80, CHR 0xA6]"
definition em_dash :: string where "em_dash = [CHR 0xE2, CHR 0x80, CHR 0x94]"

definition truncate_at :: "string \<Rightarrow> nat \<Rightarrow> string" where
  "truncate_at s n = (if length s \<le> n then s else take n s @ ellipsis @ '' (truncated)'')"

definition summarise :: "go_error option \<Rightarrow> string" where
  "summarise err =
     (case err of
        None \<Rightarrow> ''''
      | Some e \<Rightarrow>
          let msg = map (\<lambda>c. if c = CHR 0x0A then CHR '' '' else c) (Error e)
          in if length msg > 1000 then take 1000 msg @ ellipsis @ '' (truncated)'' else msg)"

text \<open>The hand-written integer rendering, for \<open>int\<close>s that can be negated.\<close>

fun itoa_loop :: "nat \<Rightarrow> string \<Rightarrow> string" where
  "itoa_loop i b = (if i = 0 then b else itoa_loop (i div 10) (char_of (48 + i mod 10) # b))"

declare itoa_loop.simps [simp del]

definition itoa :: "int \<Rightarrow> string" where
  "itoa i = (if i = 0 then ''0'' else
     let neg = i < 0; b = itoa_loop (nat (if neg then - i else i)) [] in
     if neg then CHR ''-'' # b else b)"

text \<open>\<open>Duration.Round(time.Second)\<close> and the \<open>String\<close> of a whole number of seconds.\<close>

definition whole_seconds :: "duration \<Rightarrow> int" where
  "whole_seconds d =
     (let a = \<bar>d\<bar>; s = a div 1000000000; r = a mod 1000000000
      in sgn d * (if r + r < 1000000000 then s else s + 1))"

definition seconds_string :: "int \<Rightarrow> string" where
  "seconds_string s =
     (let a = nat \<bar>s\<bar>;
          body = (if a < 60 then digits a @ ''s''
                  else if a < 3600 then digits (a div 60) @ ''m'' @ digits (a mod 60) @ ''s''
                  else digits (a div 3600) @ ''h'' @ digits (a mod 3600 div 60) @ ''m''
                         @ digits (a mod 60) @ ''s'')
      in if s < 0 then CHR ''-'' # body else body)"

section \<open>Decisions\<close>

definition Dlq_Evaluate ::
  "(int \<Rightarrow> int) \<Rightarrow> entry \<Rightarrow> go_error option \<Rightarrow> policy \<Rightarrow> gotime \<Rightarrow> decision" where
  "Dlq_Evaluate draw e err p now =
     (let attempts = en_Attempts e + 1; class' = Classify err in
      if class' = Permanent then
        \<lparr>dc_Status = StatusQuarantined, dc_Attempts = attempts, dc_NextRetryAt = 0,
         dc_Reason = ''permanent error: '' @ summarise err @ '' '' @ em_dash
           @ '' retrying cannot succeed, this needs a data or schema fix''\<rparr>
      else if Exhausted p attempts then
        \<lparr>dc_Status = StatusQuarantined, dc_Attempts = attempts, dc_NextRetryAt = 0,
         dc_Reason = ''retry budget of '' @ itoa (pc_MaxAttempts p)
           @ '' attempts exhausted; last error: '' @ summarise err\<rparr>
      else
        \<lparr>dc_Status = StatusPending, dc_Attempts = attempts,
         dc_NextRetryAt = NextAt draw p now attempts,
         dc_Reason = class_string class' @ '' error, attempt '' @ itoa attempts @ '' of ''
           @ itoa (pc_MaxAttempts p)\<rparr>)"

definition EvaluateSuccess :: "entry \<Rightarrow> gotime \<Rightarrow> decision" where
  "EvaluateSuccess e now =
     \<lparr>dc_Status = StatusResolved, dc_Attempts = en_Attempts e + 1, dc_NextRetryAt = 0,
      dc_Reason = ''applied successfully after '' @ itoa (en_Attempts e + 1) @ '' attempts over ''
        @ seconds_string (whole_seconds (time_Sub now (en_FirstSeenAt e)))\<rparr>"

definition NewEntry ::
  "(string \<Rightarrow> 8 word list) \<Rightarrow> (int \<Rightarrow> int) \<Rightarrow> string \<Rightarrow> change_event \<Rightarrow> go_error option
   \<Rightarrow> policy \<Rightarrow> gotime \<Rightarrow> entry" where
  "NewEntry sum256 draw migrationID ev err p now =
     (let class' = Classify err;
          e = \<lparr>en_ID = 0, en_MigrationID = migrationID, en_SourceTable = ev_Table ev, en_Op = ev_Op ev,
               en_KeyHash = Hash sum256 (ev_Key ev), en_Key = ev_Key ev, en_Payload = ev_Raw ev,
               en_PayloadEncrypted = False, en_ErrorClass = class_string class',
               en_LastError = summarise err, en_Attempts = 1, en_Status = '''', en_FirstSeenAt = now,
               en_NextRetryAt = 0, en_ClaimedAt = 0, en_ClaimedBy = '''', en_ResolvedAt = 0,
               en_SourceLSN = ev_LSN ev, en_Topic = ev_Topic ev, en_Partition = ev_Partition ev,
               en_Offset = ev_Offset ev\<rparr>
      in if class' = Permanent then e\<lparr>en_Status := StatusQuarantined\<rparr>
         else e\<lparr>en_Status := StatusPending, en_NextRetryAt := NextAt draw p now 1\<rparr>)"

record dlq_counts =
  cn_Pending :: int
  cn_Retrying :: int
  cn_Quarantined :: int
  cn_Resolved :: int
  cn_Discarded :: int
  cn_OldestOpenAge :: duration

definition Counts_Open :: "dlq_counts \<Rightarrow> int" where
  "Counts_Open c = cn_Pending c + cn_Retrying c + cn_Quarantined c"

definition Counts_Clean :: "dlq_counts \<Rightarrow> bool" where
  "Counts_Clean c = (Counts_Open c = 0)"

section \<open>What the decisions guarantee\<close>

lemma itoa_loop_digits: "0 < i \<Longrightarrow> itoa_loop i b = digits i @ b"
proof (induction i b rule: itoa_loop.induct)
  case (1 i b)
  show ?case
  proof (cases "i div 10 = 0")
    case True
    then have "i < 10" by simp
    then show ?thesis using 1 by (simp add: itoa_loop.simps [of i] itoa_loop.simps [of 0] digits.simps [of i])
  next
    case False
    then show ?thesis using 1 by (subst itoa_loop.simps) (simp add: digits.simps [of i])
  qed
qed

lemma digits_0: "digits 0 = ''0''"
  by code_simp

lemma itoa_FormatInt: "itoa i = FormatInt i"
  by (auto simp: itoa_def FormatInt_def itoa_loop_digits digits_0 Let_def)

lemma status_neq [simp]:
  "StatusPending \<noteq> StatusQuarantined" "StatusQuarantined \<noteq> StatusPending"
  "StatusRetrying \<noteq> StatusPending" "StatusPending \<noteq> StatusRetrying"
  "StatusRetrying \<noteq> StatusQuarantined" "StatusQuarantined \<noteq> StatusRetrying"
  "StatusResolved \<noteq> StatusPending" "StatusPending \<noteq> StatusResolved"
  "StatusResolved \<noteq> StatusRetrying" "StatusResolved \<noteq> StatusQuarantined"
  "StatusRetrying \<noteq> StatusResolved" "StatusQuarantined \<noteq> StatusResolved"
  by (simp_all add: status_defs)

lemma length_summarise: "length (summarise err) \<le> 1015"
  by (simp add: summarise_def ellipsis_def Let_def split: option.split)

text \<open>
  what happens after a failed retry. The entry goes back to pending exactly when the error is
  not permanent and the attempts so far are below the budget (no budget being no limit), due
  again between now and now plus the maximal delay; otherwise it is quarantined. A record never
  leaves the open statuses by failing.
\<close>

theorem Dlq_Evaluate_status:
  fixes e :: entry and err :: "go_error option" and now :: gotime
  assumes "Policy_Validate p0 = (None, p)" and "int63n draw"
  defines "d \<equiv> Dlq_Evaluate draw e err p now"
  shows "(dc_Status d = StatusPending \<longleftrightarrow>
            Classify err \<noteq> Permanent \<and> (pc_MaxAttempts p = 0 \<or> en_Attempts e + 1 < pc_MaxAttempts p))
    \<and> (dc_Status d \<noteq> StatusPending \<longrightarrow> dc_Status d = StatusQuarantined)
    \<and> dc_Attempts d = en_Attempts e + 1
    \<and> (dc_Status d = StatusPending \<longrightarrow>
         now \<le> dc_NextRetryAt d \<and> dc_NextRetryAt d \<le> now + pc_Max p)"
proof -
  have "0 \<le> Delay draw p (en_Attempts e + 1) \<and> Delay draw p (en_Attempts e + 1) \<le> pc_Max p"
    using Delay_range [OF assms(1,2)] by simp
  moreover have "0 \<le> pc_MaxAttempts p"
    using Policy_Validate_valid [OF assms(1)] by (simp add: valid_policy_def)
  ultimately show ?thesis
    by (auto simp: d_def Dlq_Evaluate_def Let_def Exhausted_def NextAt_def)
qed

definition demo_entry :: entry where
  "demo_entry =
     \<lparr>en_ID = 1, en_MigrationID = ''m'', en_SourceTable = ts_Source demo_spec, en_Op = OpUpdate,
      en_KeyHash = ''h'', en_Key = NewRowKey [], en_Payload = ''x'', en_PayloadEncrypted = False,
      en_ErrorClass = ''unknown'', en_LastError = '''', en_Attempts = 11, en_Status = StatusRetrying,
      en_FirstSeenAt = 1, en_NextRetryAt = 1, en_ClaimedAt = 0, en_ClaimedBy = '''', en_ResolvedAt = 0,
      en_SourceLSN = 0, en_Topic = ''t'', en_Partition = 0, en_Offset = 0\<rparr>"

lemma DLQPolicy_valid: "Policy_Validate DLQPolicy = (None, DLQPolicy)"
  by (simp add: Policy_Validate_def policy_defaults_def DLQPolicy_def Millisecond_def)

theorem Dlq_Evaluate_status_witness:
  "dc_Status (Dlq_Evaluate (\<lambda>n. 0) demo_entry (Some demo_deadlock) DLQPolicy 5) = StatusQuarantined
   \<and> dc_Status (Dlq_Evaluate (\<lambda>n. 0) (demo_entry\<lparr>en_Attempts := 1\<rparr>) (Some demo_deadlock) DLQPolicy 5) = StatusPending"
proof -
  have "Classify (Some demo_deadlock) = Transient"
    by (simp add: Classify_def demo_deadlock_def classifySQLState_def)
  then show ?thesis
    using Dlq_Evaluate_status [OF DLQPolicy_valid, of "\<lambda>n. 0" demo_entry "Some demo_deadlock" 5]
      Dlq_Evaluate_status [OF DLQPolicy_valid, of "\<lambda>n. 0" "demo_entry\<lparr>en_Attempts := 1\<rparr>" "Some demo_deadlock" 5]
    by (simp add: int63n_def demo_entry_def DLQPolicy_def)
qed

end
