(* ===== verification/DlqStore.thy ===== *)
theory DlqStore
  imports Dlq Sink
begin

text \<open>
  The dead-letter table: the operations of \<open>internal/store/store.go\<close> on it, and the step of the
  repair worker (\<open>cmd/repair-worker/main.go\<close>) that retries one claimed entry. A statement of the
  store succeeds or fails as a whole; the failure the database reports, if any, is a parameter of
  the operation, and so is the clock. The payload cipher is the interface \<open>PayloadCipher\<close>.
\<close>

section \<open>The table\<close>

record dead_letter =
  dl_id :: int
  dl_migration_id :: string
  dl_source_table :: string
  dl_op :: string
  dl_row_key_hash :: string
  dl_row_key :: row
  dl_payload :: string
  dl_payload_encrypted :: bool
  dl_error_class :: string
  dl_last_error :: string
  dl_attempts :: int
  dl_status :: string
  dl_first_seen_at :: gotime
  dl_next_retry_at :: "gotime option"
  dl_claimed_at :: "gotime option"
  dl_claimed_by :: "string option"
  dl_resolved_at :: "gotime option"
  dl_requeued_by :: "string option"
  dl_source_lsn :: int
  dl_topic :: string
  dl_partition :: int
  dl_offset :: int

text \<open>The rows and the next value of the identity column.\<close>

record dl_db =
  db_rows :: "dead_letter list"
  db_next_id :: int

record payload_cipher =
  ci_Encrypt :: "string \<Rightarrow> string \<Rightarrow> go_error + string"
  ci_Decrypt :: "string \<Rightarrow> string \<Rightarrow> go_error + string"

record store =
  st_migrationID :: string
  st_cipher :: "payload_cipher option"

definition dlqDomain :: string where
  "dlqDomain = ''migration_ctl.dead_letter.payload''"

definition nullTime :: "gotime \<Rightarrow> gotime option" where
  "nullTime t = (if t = 0 then None else Some t)"

definition errText :: "go_error option \<Rightarrow> string" where
  "errText err = (case err of None \<Rightarrow> '''' | Some e \<Rightarrow> Error e)"

definition encodePayload :: "store \<Rightarrow> string \<Rightarrow> go_error + (string \<times> bool)" where
  "encodePayload s raw =
     (case st_cipher s of
        None \<Rightarrow> Inr (raw, False)
      | Some c \<Rightarrow>
          if length raw = 0 then Inr (raw, False)
          else (case ci_Encrypt c dlqDomain raw of
                  Inl e \<Rightarrow> Inl (Errorf ''store: encrypting dead-letter payload'' e)
                | Inr ct \<Rightarrow> Inr (ct, True)))"

definition decodePayload :: "store \<Rightarrow> string \<Rightarrow> bool \<Rightarrow> go_error + string" where
  "decodePayload s stored' encrypted =
     (if \<not> encrypted then Inr stored'
      else case st_cipher s of
        None \<Rightarrow> Inl (plain_error ''store: dead-letter payload is encrypted but no cipher is configured'')
      | Some c \<Rightarrow>
          (case ci_Decrypt c dlqDomain stored' of
             Inl e \<Rightarrow> Inl (Errorf ''store: decrypting dead-letter payload'' e)
           | Inr raw \<Rightarrow> Inr raw))"

text \<open>\<open>json.Marshal\<close> of a row key refuses the floats JSON has no number for.\<close>

fun json_unsupported :: "gval \<Rightarrow> bool" where
  "json_unsupported (GFloat (FInf neg txt)) = True"
| "json_unsupported (GFloat (FNaN txt)) = True"
| "json_unsupported v = False"

section \<open>Writing dead letters\<close>

definition row_of_entry :: "store \<Rightarrow> int \<Rightarrow> string \<Rightarrow> bool \<Rightarrow> entry \<Rightarrow> dead_letter" where
  "row_of_entry s i payload encrypted e =
     \<lparr>dl_id = i, dl_migration_id = st_migrationID s,
      dl_source_table = TableRef_String (en_SourceTable e), dl_op = en_Op e,
      dl_row_key_hash = en_KeyHash e, dl_row_key = key_Map (en_Key e), dl_payload = payload,
      dl_payload_encrypted = encrypted, dl_error_class = en_ErrorClass e,
      dl_last_error = en_LastError e, dl_attempts = en_Attempts e, dl_status = en_Status e,
      dl_first_seen_at = en_FirstSeenAt e, dl_next_retry_at = nullTime (en_NextRetryAt e),
      dl_claimed_at = None, dl_claimed_by = None, dl_resolved_at = None, dl_requeued_by = None,
      dl_source_lsn = int64_of (en_SourceLSN e), dl_topic = en_Topic e,
      dl_partition = en_Partition e, dl_offset = en_Offset e\<rparr>"

definition PutDeadLetter ::
  "store \<Rightarrow> go_error option \<Rightarrow> entry \<Rightarrow> dl_db \<Rightarrow> go_error option \<times> dl_db" where
  "PutDeadLetter s fault e db =
     (case encodePayload s (en_Payload e) of
        Inl err \<Rightarrow> (Some err, db)
      | Inr (payload, encrypted) \<Rightarrow>
          if list_ex (\<lambda>(n, v). json_unsupported v) (key_Map (en_Key e))
          then (Some (Errorf ''store: encoding row key'' (plain_error ''json: unsupported value'')), db)
          else case fault of
            Some err \<Rightarrow> (Some (Errorf (''store: writing dead letter for '' @ en_KeyHash e) err), db)
          | None \<Rightarrow>
              (None, db\<lparr>db_rows := db_rows db @ [row_of_entry s (db_next_id db) payload encrypted e],
                        db_next_id := db_next_id db + 1\<rparr>))"

text \<open>A batch stops at its first error; \<open>faults\<close> gives the database's answer for each entry.\<close>

fun PutDeadLetters ::
  "store \<Rightarrow> (nat \<Rightarrow> go_error option) \<Rightarrow> entry list \<Rightarrow> dl_db \<Rightarrow> go_error option \<times> dl_db" where
  "PutDeadLetters s faults [] db = (None, db)"
| "PutDeadLetters s faults (e # es) db =
     (case PutDeadLetter s (faults (length es)) e db of
        (Some err, db) \<Rightarrow> (Some err, db)
      | (None, db) \<Rightarrow> PutDeadLetters s faults es db)"

section \<open>Claiming\<close>

text \<open>
  The locking SELECT: pending and due, by due time, skipping the rows other transactions have
  locked.
\<close>

definition claimable :: "gotime \<Rightarrow> int set \<Rightarrow> nat \<Rightarrow> dl_db \<Rightarrow> dead_letter list" where
  "claimable now locked limit db =
     take limit (sort_key (\<lambda>r. the (dl_next_retry_at r))
       (filter (\<lambda>r. dl_status r = StatusPending
                  \<and> (case dl_next_retry_at r of None \<Rightarrow> False | Some t \<Rightarrow> t \<le> now)
                  \<and> dl_id r \<notin> locked) (db_rows db)))"

definition scanEntry :: "store \<Rightarrow> dead_letter \<Rightarrow> go_error + entry" where
  "scanEntry s r =
     (case decodePayload s (dl_payload r) (dl_payload_encrypted r) of
        Inl err \<Rightarrow> Inl err
      | Inr raw \<Rightarrow>
          Inr \<lparr>en_ID = dl_id r, en_MigrationID = dl_migration_id r,
               en_SourceTable = ParseTableRef (dl_source_table r), en_Op = dl_op r,
               en_KeyHash = dl_row_key_hash r, en_Key = \<lparr>cols = []\<rparr>, en_Payload = raw,
               en_PayloadEncrypted = dl_payload_encrypted r, en_ErrorClass = dl_error_class r,
               en_LastError = dl_last_error r, en_Attempts = dl_attempts r, en_Status = '''',
               en_FirstSeenAt = dl_first_seen_at r,
               en_NextRetryAt = (case dl_next_retry_at r of None \<Rightarrow> 0 | Some t \<Rightarrow> t),
               en_ClaimedAt = 0, en_ClaimedBy = '''', en_ResolvedAt = 0,
               en_SourceLSN = word_of_int (dl_source_lsn r), en_Topic = dl_topic r,
               en_Partition = dl_partition r, en_Offset = dl_offset r\<rparr>)"

fun scan_all :: "store \<Rightarrow> dead_letter list \<Rightarrow> go_error + entry list" where
  "scan_all s [] = Inr []"
| "scan_all s (r # rs) =
     (case scanEntry s r of
        Inl err \<Rightarrow> Inl err
      | Inr e \<Rightarrow> (case scan_all s rs of Inl err \<Rightarrow> Inl err | Inr es \<Rightarrow> Inr (e # es)))"

definition MarkClaimed :: "string \<Rightarrow> gotime \<Rightarrow> int list \<Rightarrow> dl_db \<Rightarrow> dl_db" where
  "MarkClaimed worker now ids db =
     db\<lparr>db_rows := map (\<lambda>r. if dl_id r \<in> set ids
          then r\<lparr>dl_status := StatusRetrying, dl_claimed_at := Some now, dl_claimed_by := Some worker\<rparr>
          else r) (db_rows db)\<rparr>"

record claim_faults =
  cf_begin :: "go_error option"
  cf_select :: "go_error option"
  cf_mark :: "go_error option"
  cf_commit :: "go_error option"

definition Claim ::
  "store \<Rightarrow> claim_faults \<Rightarrow> gotime \<Rightarrow> int set \<Rightarrow> string \<Rightarrow> nat \<Rightarrow> dl_db
   \<Rightarrow> (entry list \<times> go_error option) \<times> dl_db" where
  "Claim s f now locked worker limit db =
     (case cf_begin f of
        Some e \<Rightarrow> (([], Some (Errorf ''store: beginning claim'' e)), db)
      | None \<Rightarrow>
        (case cf_select f of
           Some e \<Rightarrow> (([], Some (Errorf ''store: selecting claimable dead letters'' e)), db)
         | None \<Rightarrow>
           let rows = claimable now locked limit db in
           (case scan_all s rows of
              Inl err \<Rightarrow> (([], Some err), db)
            | Inr entries \<Rightarrow>
                if entries = [] then (([], cf_commit f), db)
                else (case cf_mark f of
                        Some e \<Rightarrow> (([], Some (Errorf ''store: marking dead letters claimed'' e)), db)
                      | None \<Rightarrow>
                        (case cf_commit f of
                           Some e \<Rightarrow> (([], Some (Errorf ''store: committing claim'' e)), db)
                         | None \<Rightarrow> ((entries, None), MarkClaimed worker now (map en_ID entries) db))))))"

section \<open>Settling\<close>

definition update_row :: "int \<Rightarrow> (dead_letter \<Rightarrow> dead_letter) \<Rightarrow> dl_db \<Rightarrow> dl_db" where
  "update_row i f db = db\<lparr>db_rows := map (\<lambda>r. if dl_id r = i then f r else r) (db_rows db)\<rparr>"

definition Resolve ::
  "go_error option \<Rightarrow> gotime \<Rightarrow> entry \<Rightarrow> decision \<Rightarrow> dl_db \<Rightarrow> go_error option \<times> dl_db" where
  "Resolve fault now e d db =
     (case fault of
        Some err \<Rightarrow> (Some (Errorf (''store: resolving dead letter '' @ FormatInt (en_ID e)) err), db)
      | None \<Rightarrow>
          (None, update_row (en_ID e) (\<lambda>r. r\<lparr>dl_status := dc_Status d, dl_attempts := dc_Attempts d,
             dl_resolved_at := Some now, dl_last_error := dc_Reason d,
             dl_claimed_by := None, dl_claimed_at := None\<rparr>) db))"

definition Reschedule ::
  "go_error option \<Rightarrow> entry \<Rightarrow> decision \<Rightarrow> go_error option \<Rightarrow> dl_db \<Rightarrow> go_error option \<times> dl_db" where
  "Reschedule fault e d lastErr db =
     (case fault of
        Some err \<Rightarrow> (Some (Errorf (''store: rescheduling dead letter '' @ FormatInt (en_ID e)) err), db)
      | None \<Rightarrow>
          (None, update_row (en_ID e) (\<lambda>r. r\<lparr>dl_status := dc_Status d, dl_attempts := dc_Attempts d,
             dl_next_retry_at := nullTime (dc_NextRetryAt d),
             dl_last_error := truncate_at (errText lastErr) 1000,
             dl_error_class := class_string (Classify lastErr),
             dl_claimed_by := None, dl_claimed_at := None\<rparr>) db))"

definition Requeue ::
  "go_error option \<Rightarrow> gotime \<Rightarrow> int list \<Rightarrow> string \<Rightarrow> dl_db \<Rightarrow> (nat \<times> go_error option) \<times> dl_db" where
  "Requeue fault now ids by' db =
     (if length ids = 0 then ((0, None), db)
      else case fault of
        Some err \<Rightarrow> ((0, Some (Errorf ''store: requeueing dead letters'' err)), db)
      | None \<Rightarrow>
          let hit = (\<lambda>r. dl_id r \<in> set ids \<and> dl_status r = StatusQuarantined)
          in ((length (filter hit (db_rows db)), None),
              db\<lparr>db_rows := map (\<lambda>r. if hit r
                    then r\<lparr>dl_status := StatusPending, dl_next_retry_at := Some now, dl_attempts := 0,
                           dl_requeued_by := Some by'\<rparr>
                    else r) (db_rows db)\<rparr>))"

section \<open>Counting\<close>

text \<open>The grouped SELECT: each status of the migration with its count and earliest first sight.\<close>

definition status_groups :: "string \<Rightarrow> dl_db \<Rightarrow> (string \<times> int \<times> gotime) list" where
  "status_groups mig db =
     (let rows = filter (\<lambda>r. dl_migration_id r = mig) (db_rows db)
      in map (\<lambda>st. let g = filter (\<lambda>r. dl_status r = st) rows
                   in (st, int (length g), Min (set (map dl_first_seen_at g))))
           (remdups (map dl_status rows)))"

definition counts_step :: "gotime \<Rightarrow> dlq_counts \<Rightarrow> string \<times> int \<times> gotime \<Rightarrow> dlq_counts" where
  "counts_step now c g =
     (case g of (status, n, oldest) \<Rightarrow>
        let c = (if status = StatusPending then c\<lparr>cn_Pending := n\<rparr>
                 else if status = StatusRetrying then c\<lparr>cn_Retrying := n\<rparr>
                 else if status = StatusQuarantined then c\<lparr>cn_Quarantined := n\<rparr>
                 else if status = StatusResolved then c\<lparr>cn_Resolved := n\<rparr>
                 else if status = StatusDiscarded then c\<lparr>cn_Discarded := n\<rparr>
                 else c)
        in if Status_Open status \<and> time_Sub now oldest > cn_OldestOpenAge c
           then c\<lparr>cn_OldestOpenAge := time_Sub now oldest\<rparr> else c)"

definition empty_counts :: dlq_counts where
  "empty_counts = \<lparr>cn_Pending = 0, cn_Retrying = 0, cn_Quarantined = 0, cn_Resolved = 0,
     cn_Discarded = 0, cn_OldestOpenAge = 0\<rparr>"

definition Counts :: "store \<Rightarrow> gotime \<Rightarrow> dl_db \<Rightarrow> dlq_counts" where
  "Counts s now db = foldl (counts_step now) empty_counts (status_groups (st_migrationID s) db)"

section \<open>The repair worker\<close>

text \<open>\<open>dec\<close> is the Debezium decoder: topic, partition, offset and payload to an event, if any.\<close>

definition rebuild ::
  "(string \<Rightarrow> int \<Rightarrow> int \<Rightarrow> string \<Rightarrow> go_error + change_event option) \<Rightarrow> entry
   \<Rightarrow> go_error + change_event" where
  "rebuild dec e =
     (if length (en_Payload e) = 0
      then Inl (plain_error (''dead letter '' @ FormatInt (en_ID e)
             @ '' has no stored payload and cannot be replayed''))
      else case dec (en_Topic e) (en_Partition e) (en_Offset e) (en_Payload e) of
        Inl err \<Rightarrow> Inl err
      | Inr None \<Rightarrow> Inl (plain_error (''dead letter '' @ FormatInt (en_ID e) @ '' decoded to nothing''))
      | Inr (Some ev) \<Rightarrow> Inr (if key_Len (en_Key e) > 0 then ev\<lparr>ev_Key := en_Key e\<rparr> else ev))"

definition repair_one ::
  "(string \<Rightarrow> int \<Rightarrow> int \<Rightarrow> string \<Rightarrow> go_error + change_event option) \<Rightarrow> 'w driver \<Rightarrow> applier
   \<Rightarrow> (int \<Rightarrow> int) \<Rightarrow> policy \<Rightarrow> gotime \<Rightarrow> go_error option \<Rightarrow> entry \<Rightarrow> 'w \<times> dl_db
   \<Rightarrow> go_error option \<times> 'w \<times> dl_db" where
  "repair_one dec drv a draw p now fault e st =
     (case st of (w, db) \<Rightarrow>
       (case (case rebuild dec e of
                Inl err \<Rightarrow> (Some err, w)
              | Inr ev \<Rightarrow> (case Apply drv a [ev] [] w of ((res, err), w) \<Rightarrow> (err, w))) of
          (None, w) \<Rightarrow>
            (case Resolve fault now e (EvaluateSuccess e now) db of (r, db) \<Rightarrow> (r, w, db))
        | (Some err, w) \<Rightarrow>
            (case Reschedule fault e (Dlq_Evaluate draw e (Some err) p now) (Some err) db of
               (r, db) \<Rightarrow> (r, w, db))))"

section \<open>The life of a dead letter\<close>

text \<open>
  The steps the platform takes on the table, with the decisions of \<open>Dlq\<close> and any answer of the
  database. The label says which entry a step settles, if any.
\<close>

datatype dl_label = Wrote | Claimed | Resolved int | Rescheduled int | Requeued

inductive dl_step :: "store \<Rightarrow> dl_db \<Rightarrow> dl_label \<Rightarrow> dl_db \<Rightarrow> bool" for s where
  put: "Policy_Validate p0 = (None, p) \<Longrightarrow> int63n draw \<Longrightarrow> 0 < now \<Longrightarrow>
    PutDeadLetter s fault (NewEntry h draw mig ev err p now) db = (r, db') \<Longrightarrow> dl_step s db Wrote db'"
| claim: "Claim s f now locked worker limit db = (r, db') \<Longrightarrow> dl_step s db Claimed db'"
| resolve: "Resolve fault now' e (EvaluateSuccess e now) db = (r, db') \<Longrightarrow> dl_step s db (Resolved (en_ID e)) db'"
| reschedule: "Policy_Validate p0 = (None, p) \<Longrightarrow> int63n draw \<Longrightarrow> 0 < now \<Longrightarrow>
    Reschedule fault e (Dlq_Evaluate draw e (Some err) p now) (Some err) db = (r, db')
    \<Longrightarrow> dl_step s db (Rescheduled (en_ID e)) db'"
| requeue: "Requeue fault now ids by' db = (r, db') \<Longrightarrow> dl_step s db Requeued db'"

definition known_status :: "string \<Rightarrow> bool" where
  "known_status st \<longleftrightarrow> Status_Open st \<or> st = StatusResolved \<or> st = StatusDiscarded"

definition row_ok :: "dead_letter \<Rightarrow> bool" where
  "row_ok r \<longleftrightarrow> known_status (dl_status r) \<and> (dl_status r = StatusPending \<longrightarrow> dl_next_retry_at r \<noteq> None)"

definition dl_inv :: "dl_db \<Rightarrow> bool" where
  "dl_inv db \<longleftrightarrow> distinct (map dl_id (db_rows db))
     \<and> (\<forall>r \<in> set (db_rows db). dl_id r < db_next_id db \<and> row_ok r)"

text \<open>What identifies a dead letter and lets it be replayed.\<close>

definition same_record :: "dead_letter \<Rightarrow> dead_letter \<Rightarrow> bool" where
  "same_record r r' \<longleftrightarrow>
     dl_id r = dl_id r' \<and> dl_migration_id r = dl_migration_id r' \<and> dl_source_table r = dl_source_table r'
     \<and> dl_op r = dl_op r' \<and> dl_row_key_hash r = dl_row_key_hash r' \<and> dl_row_key r = dl_row_key r'
     \<and> dl_payload r = dl_payload r' \<and> dl_payload_encrypted r = dl_payload_encrypted r'
     \<and> dl_first_seen_at r = dl_first_seen_at r' \<and> dl_source_lsn r = dl_source_lsn r'
     \<and> dl_topic r = dl_topic r' \<and> dl_partition r = dl_partition r' \<and> dl_offset r = dl_offset r'"

lemma same_record_refl [simp]: "same_record r r"
  by (simp add: same_record_def)

text \<open>
  Every operation but the insert maps the rows with a function that keeps the record and is
  right for its label.
\<close>

definition row_move :: "dl_label \<Rightarrow> dead_letter \<Rightarrow> dead_letter \<Rightarrow> bool" where
  "row_move l r r' \<longleftrightarrow> same_record r r' \<and> (row_ok r \<longrightarrow> row_ok r')
     \<and> (Status_Open (dl_status r) \<and> \<not> Status_Open (dl_status r') \<longrightarrow> l = Resolved (dl_id r))"

lemma row_move_refl [simp]: "row_move l r r"
  by (simp add: row_move_def)

lemma status_open [simp]:
  "Status_Open StatusPending" "Status_Open StatusRetrying" "Status_Open StatusQuarantined"
  "\<not> Status_Open StatusResolved" "\<not> Status_Open StatusDiscarded"
  by (simp_all add: Status_Open_def status_defs)

lemma NewEntry_row_ok:
  assumes "Policy_Validate p0 = (None, p)" and "int63n draw" and "0 < now"
  shows "row_ok (row_of_entry s i pl enc (NewEntry h draw mig ev err p now))"
  using Delay_range [OF assms(1,2), of 1] assms(3)
  by (simp add: row_ok_def known_status_def row_of_entry_def NewEntry_def NextAt_def nullTime_def Let_def)

lemma Reschedule_row_ok:
  assumes "Policy_Validate p0 = (None, p)" and "int63n draw" and "0 < now"
    and "d = Dlq_Evaluate draw e err p now"
  shows "Status_Open (dc_Status d) \<and> (dc_Status d = StatusPending \<longrightarrow> nullTime (dc_NextRetryAt d) \<noteq> None)"
  using Delay_range [OF assms(1,2), of "en_Attempts e + 1"] assms(3)
  by (auto simp: assms(4) Dlq_Evaluate_def Let_def NextAt_def nullTime_def)

lemma dl_step_rows:
  assumes "dl_step s db l db'"
  shows "(\<exists>f. db_rows db' = map f (db_rows db) \<and> db_next_id db' = db_next_id db
            \<and> (\<forall>r \<in> set (db_rows db). row_move l r (f r)))
       \<or> (\<exists>r. db_rows db' = db_rows db @ [r] \<and> dl_id r = db_next_id db
            \<and> db_next_id db' = db_next_id db + 1 \<and> row_ok r)"
    (is "?mapped \<or> ?added")
proof -
  have same: ?mapped if "db' = db"
    using that by (intro exI [of _ id]) simp
  have mapped: ?mapped if "db' = db\<lparr>db_rows := map f (db_rows db)\<rparr>" "\<And>r. row_move l r (f r)" for f
    using that by (intro exI [of _ f]) simp
  note move = row_move_def same_record_def row_ok_def known_status_def
  show ?thesis
    using assms
  proof cases
    case (put p0 p draw now fault h mig ev err r)
    let ?e = "NewEntry h draw mig ev err p now"
    show ?thesis
    proof (cases "db' = db")
      case True
      then show ?thesis using same by blast
    next
      case False
      then obtain pl enc where "db' = db\<lparr>db_rows := db_rows db @ [row_of_entry s (db_next_id db) pl enc ?e],
          db_next_id := db_next_id db + 1\<rparr>"
        using put(5) by (auto simp: PutDeadLetter_def split: sum.splits prod.splits option.splits if_splits)
      then have ?added
        using NewEntry_row_ok [OF put(2,3,4)]
        by (intro exI [of _ "row_of_entry s (db_next_id db) pl enc ?e"]) (simp add: row_of_entry_def)
      then show ?thesis ..
    qed
  next
    case (claim f now locked worker limit r)
    then have "db' = db \<or> (\<exists>ids. db' = MarkClaimed worker now ids db)"
      by (auto simp: Claim_def Let_def split: sum.splits option.splits if_splits)
    then show ?thesis
    proof (elim disjE exE)
      fix ids assume "db' = MarkClaimed worker now ids db"
      then have ?mapped unfolding MarkClaimed_def by (rule mapped) (simp add: move)
      then show ?thesis ..
    qed (use same in blast)
  next
    case (resolve fault now' e now r)
    define g :: "dead_letter \<Rightarrow> dead_letter" where "g = (\<lambda>r. r\<lparr>dl_status := dc_Status (EvaluateSuccess e now),
             dl_attempts := dc_Attempts (EvaluateSuccess e now), dl_resolved_at := Some now',
             dl_last_error := dc_Reason (EvaluateSuccess e now), dl_claimed_by := None, dl_claimed_at := None\<rparr>)"
    have "row_move l r (if dl_id r = en_ID e then g r else r)" for r
      by (simp add: g_def move EvaluateSuccess_def resolve(1))
    moreover have "db' = db \<or> db' = update_row (en_ID e) g db"
      using resolve(2) by (auto simp: Resolve_def g_def split: option.splits)
    ultimately show ?thesis using same mapped unfolding update_row_def by blast
  next
    case (reschedule p0 p draw now fault e err r)
    note ok = Reschedule_row_ok [OF reschedule(2,3,4) refl, of e "Some err"]
    let ?d = "Dlq_Evaluate draw e (Some err) p now"
    define g :: "dead_letter \<Rightarrow> dead_letter" where "g = (\<lambda>r. r\<lparr>dl_status := dc_Status ?d, dl_attempts := dc_Attempts ?d,
             dl_next_retry_at := nullTime (dc_NextRetryAt ?d),
             dl_last_error := truncate_at (errText (Some err)) 1000,
             dl_error_class := class_string (Classify (Some err)),
             dl_claimed_by := None, dl_claimed_at := None\<rparr>)"
    have "row_move l r (if dl_id r = en_ID e then g r else r)" for r
      using ok by (simp add: g_def move)
    moreover have "db' = db \<or> db' = update_row (en_ID e) g db"
      using reschedule(5) by (auto simp: Reschedule_def g_def split: option.splits)
    ultimately show ?thesis using same mapped unfolding update_row_def by blast
  next
    case (requeue fault now ids by' r)
    define g :: "dead_letter \<Rightarrow> dead_letter" where "g = (\<lambda>r. if dl_id r \<in> set ids \<and> dl_status r = StatusQuarantined
        then r\<lparr>dl_status := StatusPending, dl_next_retry_at := Some now, dl_attempts := 0,
               dl_requeued_by := Some by'\<rparr> else r)"
    have "row_move l r (g r)" for r by (simp add: g_def move)
    moreover have "db' = db \<or> db' = db\<lparr>db_rows := map g (db_rows db)\<rparr>"
      using requeue(2) by (auto simp: Requeue_def Let_def g_def split: option.splits if_splits)
    ultimately show ?thesis using same mapped by blast
  qed
qed

inductive dl_reach :: "store \<Rightarrow> dl_db \<Rightarrow> bool" for s where
  reach_empty: "dl_reach s \<lparr>db_rows = [], db_next_id = 1\<rparr>"
| reach_dl_step: "dl_reach s db \<Longrightarrow> dl_step s db l db' \<Longrightarrow> dl_reach s db'"

lemma dl_step_inv:
  assumes "dl_inv db" and "dl_step s db l db'"
  shows "dl_inv db'"
  using dl_step_rows [OF assms(2)]
proof (elim disjE exE conjE)
  fix f assume f: "db_rows db' = map f (db_rows db)" "db_next_id db' = db_next_id db"
    and m: "\<forall>r \<in> set (db_rows db). row_move l r (f r)"
  then have "map dl_id (db_rows db') = map dl_id (db_rows db)"
    by (auto simp: row_move_def same_record_def)
  then have "distinct (map dl_id (db_rows db'))" using assms(1) by (simp only: dl_inv_def)
  then show ?thesis
    using assms(1) f m by (auto simp: dl_inv_def row_move_def same_record_def)
next
  fix r assume "db_rows db' = db_rows db @ [r]" "dl_id r = db_next_id db"
    "db_next_id db' = db_next_id db + 1" "row_ok r"
  then show ?thesis using assms(1) by (fastforce simp: dl_inv_def)
qed

lemma dl_reach_inv: "dl_reach s db \<Longrightarrow> dl_inv db"
proof (induction rule: dl_reach.induct)
  case reach_empty
  show ?case by (simp add: dl_inv_def)
next
  case reach_dl_step
  then show ?case using dl_step_inv by blast
qed

text \<open>
  C8: no dead letter is lost. In every state the platform can reach, the entries have distinct
  ids and known statuses and every pending one has a due time, so that it will be selected; and
  every further step keeps every entry with its payload, key and position in the stream, and
  takes an open entry out of the open statuses only by resolving that entry.
\<close>

theorem dead_letters_kept:
  assumes "dl_reach s db" and "dl_step s db l db'"
  shows "dl_inv db \<and> (\<forall>r \<in> set (db_rows db). \<exists>r' \<in> set (db_rows db'). same_record r r'
    \<and> (Status_Open (dl_status r) \<and> \<not> Status_Open (dl_status r') \<longrightarrow> l = Resolved (dl_id r)))"
proof -
  have "\<exists>r' \<in> set (db_rows db'). row_move l r r'" if r: "r \<in> set (db_rows db)" for r
    using dl_step_rows [OF assms(2)]
  proof (elim disjE exE conjE)
    fix f assume "db_rows db' = map f (db_rows db)" "\<forall>r \<in> set (db_rows db). row_move l r (f r)"
    then show ?thesis using r by auto
  next
    fix r' assume "db_rows db' = db_rows db @ [r']"
    then show ?thesis using r by (intro bexI [of _ r]) auto
  qed
  then show ?thesis using dl_reach_inv [OF assms(1)] unfolding row_move_def by blast
qed

definition demo_store :: store where
  "demo_store = \<lparr>st_migrationID = ''m'', st_cipher = None\<rparr>"

definition demo_dl :: dl_db where
  "demo_dl = snd (PutDeadLetter demo_store None
     (NewEntry (\<lambda>s. []) (\<lambda>n. 0) ''m'' (demo_event 1 5 1) (Some demo_deadlock) DLQPolicy 7)
     \<lparr>db_rows = [], db_next_id = 1\<rparr>)"

lemma demo_dl_reach: "dl_reach demo_store demo_dl"
proof (rule reach_dl_step [OF reach_empty])
  show "dl_step demo_store \<lparr>db_rows = [], db_next_id = 1\<rparr> Wrote demo_dl"
    unfolding demo_dl_def
    by (rule put [OF DLQPolicy_valid, of "\<lambda>n. 0" 7 demo_store None "\<lambda>s. []" "''m''" "demo_event 1 5 1" "Some demo_deadlock"])
       (simp_all add: int63n_def prod_eq_iff)
qed

theorem dead_letters_kept_witness:
  "dl_inv demo_dl \<and> (\<exists>r \<in> set (db_rows demo_dl).
     \<exists>r' \<in> set (db_rows (snd (Requeue None 9 [1] ''ops'' demo_dl))). same_record r r')"
proof -
  have "db_rows demo_dl \<noteq> []"
    by (simp add: demo_dl_def PutDeadLetter_def NewEntry_def demo_store_def encodePayload_def
        demo_event_def Let_def NewRowKey_def mk_col_def key_Map_def split: sum.splits)
  have "dl_step demo_store demo_dl Requeued (snd (Requeue None 9 [1] ''ops'' demo_dl))"
    by (rule requeue [of None 9 "[1]" "''ops''"]) (simp add: prod_eq_iff)
  from dead_letters_kept [OF demo_dl_reach this] show ?thesis
    using \<open>db_rows demo_dl \<noteq> []\<close> by (metis last_in_set)
qed

lemma scan_all_ids:
  "scan_all s rows = Inr es \<Longrightarrow> map en_ID es = map dl_id rows"
  by (induction rows arbitrary: es) (auto simp: scanEntry_def split: sum.splits)

lemma claimable_set:
  "r \<in> set (claimable now locked limit db) \<Longrightarrow> r \<in> set (db_rows db) \<and> dl_status r = StatusPending
     \<and> (\<exists>t. dl_next_retry_at r = Some t \<and> t \<le> now) \<and> dl_id r \<notin> locked"
  unfolding claimable_def by (drule in_set_takeD) (auto split: option.splits)

lemma Claim_Inr:
  assumes "Claim s f now locked worker limit db = ((es, None), db')"
  shows "\<exists>rows. scan_all s rows = Inr es \<and> set rows \<subseteq> set (claimable now locked limit db)
    \<and> length rows \<le> limit \<and> (es \<noteq> [] \<longrightarrow> db' = MarkClaimed worker now (map en_ID es) db)
    \<and> (es = [] \<longrightarrow> db' = db)"
proof (cases "scan_all s (claimable now locked limit db)")
  case (Inl e)
  then show ?thesis using assms by (auto simp: Claim_def Let_def split: option.splits)
next
  case (Inr es')
  have "length (claimable now locked limit db) \<le> limit" by (simp add: claimable_def)
  then show ?thesis
    using assms Inr
    by (intro exI [of _ "if es = [] then [] else claimable now locked limit db"])
       (auto simp: Claim_def Let_def split: option.splits if_splits)
qed

text \<open>
  a dead letter has one owner. What \<open>Claim\<close> returns was pending and due and not locked by
  another worker, at most \<open>limit\<close> entries of it; after the claim these rows are marked retrying by
  the worker, and no later claim returns any of them while they are in that state.
\<close>

theorem Claim_exclusive:
  assumes "Claim s f now locked worker limit db = ((es, None), db')"
    and "Claim s f' now' locked' worker' limit' db' = ((es', None), db'')"
  shows "length es \<le> limit
    \<and> (\<forall>e \<in> set es. \<exists>r \<in> set (db_rows db). dl_id r = en_ID e \<and> dl_status r = StatusPending
          \<and> (\<exists>t. dl_next_retry_at r = Some t \<and> t \<le> now) \<and> dl_id r \<notin> locked)
    \<and> (\<forall>r \<in> set (db_rows db'). dl_id r \<in> en_ID ` set es \<longrightarrow>
          dl_status r = StatusRetrying \<and> dl_claimed_by r = Some worker)
    \<and> en_ID ` set es \<inter> en_ID ` set es' = {}"
proof -
  obtain rows where rows: "scan_all s rows = Inr es" "set rows \<subseteq> set (claimable now locked limit db)"
      "length rows \<le> limit" "es \<noteq> [] \<longrightarrow> db' = MarkClaimed worker now (map en_ID es) db"
    using Claim_Inr [OF assms(1)] by blast
  obtain rows' where rows': "scan_all s rows' = Inr es'" "set rows' \<subseteq> set (claimable now' locked' limit' db')"
    using Claim_Inr [OF assms(2)] by blast
  note ids = scan_all_ids [OF rows(1)] and ids' = scan_all_ids [OF rows'(1)]
  have len: "length es = length rows" using arg_cong [OF ids, of length] by simp
  have set: "en_ID ` set es = dl_id ` set rows" "en_ID ` set es' = dl_id ` set rows'"
    using arg_cong [OF ids, of set] arg_cong [OF ids', of set] by simp_all
  have mark: "dl_status r = StatusRetrying \<and> dl_claimed_by r = Some worker"
    if "r \<in> set (db_rows db')" "dl_id r \<in> en_ID ` set es" for r
    using that rows(4) by (auto simp: MarkClaimed_def)
  have "\<exists>r \<in> set (db_rows db). dl_id r = en_ID e \<and> dl_status r = StatusPending
          \<and> (\<exists>t. dl_next_retry_at r = Some t \<and> t \<le> now) \<and> dl_id r \<notin> locked" if "e \<in> set es" for e
  proof -
    have "en_ID e \<in> dl_id ` set rows" using that set(1) by blast
    then obtain r where "r \<in> set rows" "en_ID e = dl_id r" by blast
    then show ?thesis
      using rows(2) claimable_set [of r now locked limit db] by (intro bexI [of _ r]) auto
  qed
  moreover have "en_ID ` set es \<inter> en_ID ` set es' = {}"
  proof (rule ccontr)
    assume "en_ID ` set es \<inter> en_ID ` set es' \<noteq> {}"
    then obtain i where i: "i \<in> en_ID ` set es" "i \<in> dl_id ` set rows'" unfolding set(2) by blast
    then obtain r where r: "r \<in> set rows'" "dl_id r = i" by auto
    then have "r \<in> set (claimable now' locked' limit' db')" using rows'(2) by blast
    from claimable_set [OF this] have "r \<in> set (db_rows db')" "dl_status r = StatusPending" by simp_all
    then show False using mark [of r] i(1) r(2) by simp
  qed
  ultimately show ?thesis using len rows(3) mark by simp
qed

definition no_faults :: claim_faults where
  "no_faults = \<lparr>cf_begin = None, cf_select = None, cf_mark = None, cf_commit = None\<rparr>"

definition plain_rows :: "dl_db \<Rightarrow> bool" where
  "plain_rows db \<longleftrightarrow> (\<forall>r \<in> set (db_rows db). \<not> dl_payload_encrypted r)"

lemma plain_scan: "\<forall>r \<in> set rows. \<not> dl_payload_encrypted r \<Longrightarrow> \<exists>es. scan_all s rows = Inr es"
  by (induction rows) (auto simp: scanEntry_def decodePayload_def)

lemma demo_dl_plain: "plain_rows demo_dl"
proof -
  have "list_ex (\<lambda>(n, v). json_unsupported v) (key_Map (NewRowKey [(''id'', GInt 1)])) = False"
    by (simp add: key_Map_def NewRowKey_def mk_col_def)
  then show ?thesis
    by (simp add: plain_rows_def demo_dl_def PutDeadLetter_def encodePayload_def demo_store_def
        row_of_entry_def NewEntry_def demo_event_def Let_def)
qed

lemma plain_claim_ok:
  assumes "plain_rows db"
  obtains es db' where "Claim s no_faults now {} worker n db = ((es, None), db')" "plain_rows db'"
proof -
  have "\<forall>r \<in> set (claimable now {} n db). \<not> dl_payload_encrypted r"
    using claimable_set [of _ now "{}" n db] assms by (auto simp: plain_rows_def)
  then obtain es where "scan_all s (claimable now {} n db) = Inr es"
    using plain_scan by blast
  then obtain db' where c: "Claim s no_faults now {} worker n db = ((es, None), db')"
    by (cases "es = []") (simp_all add: Claim_def no_faults_def Let_def)
  then have "db' = MarkClaimed worker now (map en_ID es) db \<or> db' = db" using Claim_Inr [OF c] by blast
  then have "plain_rows db'" using assms by (auto simp: plain_rows_def MarkClaimed_def)
  with c show ?thesis using that by blast
qed

theorem Claim_exclusive_witness:
  "\<exists>es es' db' db''. Claim demo_store no_faults (10 ^ 13) {} ''w1'' 100 demo_dl = ((es, None), db')
     \<and> Claim demo_store no_faults (10 ^ 13) {} ''w2'' 100 db' = ((es', None), db'')
     \<and> en_ID ` set es \<inter> en_ID ` set es' = {}"
proof -
  obtain es db' where c: "Claim demo_store no_faults (10 ^ 13) {} ''w1'' 100 demo_dl = ((es, None), db')"
      "plain_rows db'"
    using plain_claim_ok [OF demo_dl_plain] by blast
  obtain es' db'' where c': "Claim demo_store no_faults (10 ^ 13) {} ''w2'' 100 db' = ((es', None), db'')"
    using plain_claim_ok [OF c(2)] by blast
  from Claim_exclusive [OF c(1) c'] show ?thesis using c(1) c' by blast
qed

text \<open>
  one entry whose payload cannot be decrypted blocks the drain. When a claimable row within
  the limit does not decode, \<open>Claim\<close> fails with that error and leaves the table as it was, so that
  every later claim with the same rows due fails in the same way and no other entry is retried.
\<close>

theorem Claim_blocked:
  assumes "r \<in> set (claimable now locked limit db)" and "scanEntry s r = Inl err"
  shows "\<exists>err'. Claim s f now locked worker limit db = (([], Some err'), db)"
proof -
  have "\<exists>err'. scan_all s rows = Inl err'" if "r \<in> set rows" for rows
    using that assms(2) by (induction rows) (auto split: sum.split)
  then obtain err' where "scan_all s (claimable now locked limit db) = Inl err'" using assms(1) by blast
  then show ?thesis by (auto simp: Claim_def Let_def split: option.splits)
qed

definition demo_sealed :: dl_db where
  "demo_sealed = \<lparr>db_rows = map (\<lambda>r. r\<lparr>dl_payload_encrypted := True\<rparr>) (db_rows demo_dl), db_next_id = 2\<rparr>"

theorem Claim_blocked_witness:
  "\<exists>err'. Claim demo_store no_faults (10 ^ 15) {} ''w1'' 100 demo_sealed = (([], Some err'), demo_sealed)"
proof -
  have j: "list_ex (\<lambda>(n, v). json_unsupported v) (key_Map (NewRowKey [(''id'', GInt 1)])) = False"
    by (simp add: key_Map_def NewRowKey_def mk_col_def)
  have cl: "Classify (Some demo_deadlock) = Transient"
    by (simp add: Classify_def demo_deadlock_def classifySQLState_def)
  have d: "Delay (\<lambda>n. 0) DLQPolicy 1 = 0"
    using delay_window_range [of DLQPolicy 1] by (simp add: Delay_def Let_def DLQPolicy_def)
  let ?r = "row_of_entry demo_store 1 '''' False
      (NewEntry (\<lambda>s. []) (\<lambda>n. 0) ''m'' (demo_event 1 5 1) (Some demo_deadlock) DLQPolicy 7)"
  have "db_rows demo_dl = [?r]"
    using j by (simp add: demo_dl_def PutDeadLetter_def encodePayload_def demo_store_def NewEntry_def
        demo_event_def Let_def)
  then have rows: "db_rows demo_sealed = [?r\<lparr>dl_payload_encrypted := True\<rparr>]" by (simp add: demo_sealed_def)
  have "?r\<lparr>dl_payload_encrypted := True\<rparr> \<in> set (claimable (10 ^ 15) {} 100 demo_sealed)"
    by (simp add: claimable_def rows row_of_entry_def NewEntry_def Let_def cl NextAt_def d nullTime_def)
  moreover have "\<exists>err. scanEntry demo_store (?r\<lparr>dl_payload_encrypted := True\<rparr>) = Inl err"
    by (simp add: scanEntry_def decodePayload_def demo_store_def row_of_entry_def)
  ultimately show ?thesis using Claim_blocked [where f = no_faults] by blast
qed

section \<open>Storing and reading back\<close>

text \<open>What the store relies on in its cipher: decryption undoes encryption in the same domain.\<close>

definition cipher_ok :: "payload_cipher \<Rightarrow> bool" where
  "cipher_ok c \<longleftrightarrow> (\<forall>raw ct. ci_Encrypt c dlqDomain raw = Inr ct \<longrightarrow> ci_Decrypt c dlqDomain ct = Inr raw)"

lemma payload_roundtrip:
  assumes "\<forall>c. st_cipher s = Some c \<longrightarrow> cipher_ok c" and "encodePayload s raw = Inr (pl, enc)"
  shows "decodePayload s pl enc = Inr raw"
  using assms by (auto simp: encodePayload_def decodePayload_def cipher_ok_def split: option.splits if_splits sum.splits)

text \<open>
  a dead letter is replayed from what failed. An entry that is written, encrypted or not, is
  read back with its payload byte for byte, its table, operation, attempts, LSN and position in
  the stream; only its row key is not read back.
\<close>

theorem dead_letter_roundtrip:
  assumes "\<forall>c. st_cipher s = Some c \<longrightarrow> cipher_ok c" and "CHR ''.'' \<notin> set (tr_Name (en_SourceTable e))"
    and "PutDeadLetter s fault e db = (None, db')"
  shows "\<exists>r e'. db_rows db' = db_rows db @ [r] \<and> scanEntry s r = Inr e'
    \<and> en_Payload e' = en_Payload e \<and> en_SourceTable e' = en_SourceTable e \<and> en_Op e' = en_Op e
    \<and> en_Attempts e' = en_Attempts e \<and> en_SourceLSN e' = en_SourceLSN e \<and> en_Topic e' = en_Topic e
    \<and> en_Partition e' = en_Partition e \<and> en_Offset e' = en_Offset e
    \<and> en_FirstSeenAt e' = en_FirstSeenAt e \<and> key_Len (en_Key e') = 0"
proof -
  obtain pl enc where enc: "encodePayload s (en_Payload e) = Inr (pl, enc)"
      "db' = db\<lparr>db_rows := db_rows db @ [row_of_entry s (db_next_id db) pl enc e], db_next_id := db_next_id db + 1\<rparr>"
    using assms(3) by (auto simp: PutDeadLetter_def split: sum.splits prod.splits option.splits if_splits)
  then show ?thesis
    using payload_roundtrip [OF assms(1) enc(1)] ParseTableRef_String [OF assms(2)]
    by (simp add: scanEntry_def row_of_entry_def int64_of_def key_Len_def)
qed

definition demo_cipher :: payload_cipher where
  "demo_cipher = \<lparr>ci_Encrypt = (\<lambda>dom raw. Inr (rev raw)), ci_Decrypt = (\<lambda>dom ct. Inr (rev ct))\<rparr>"

theorem dead_letter_roundtrip_witness:
  "\<exists>r e'. db_rows (snd (PutDeadLetter \<lparr>st_migrationID = ''m'', st_cipher = Some demo_cipher\<rparr> None demo_entry demo_dl))
      = db_rows demo_dl @ [r]
    \<and> scanEntry \<lparr>st_migrationID = ''m'', st_cipher = Some demo_cipher\<rparr> r = Inr e' \<and> en_Payload e' = ''x''"
proof -
  let ?s = "\<lparr>st_migrationID = ''m'', st_cipher = Some demo_cipher\<rparr>"
  have "PutDeadLetter ?s None demo_entry demo_dl = (None, snd (PutDeadLetter ?s None demo_entry demo_dl))"
    by (simp add: PutDeadLetter_def encodePayload_def demo_entry_def demo_cipher_def key_Map_def NewRowKey_def)
  from dead_letter_roundtrip [OF _ _ this] show ?thesis
    by (fastforce simp: cipher_ok_def demo_cipher_def demo_entry_def demo_spec_def)
qed

section \<open>The counts of the cutover gate\<close>

lemma status_discarded_neq [simp]:
  "StatusDiscarded \<noteq> StatusPending" "StatusDiscarded \<noteq> StatusRetrying" "StatusDiscarded \<noteq> StatusQuarantined"
  "StatusPending \<noteq> StatusDiscarded" "StatusRetrying \<noteq> StatusDiscarded" "StatusQuarantined \<noteq> StatusDiscarded"
  by (simp_all add: status_defs)

definition group_count :: "(string \<times> int \<times> gotime) list \<Rightarrow> string \<Rightarrow> int \<Rightarrow> int" where
  "group_count gs st n = (case map_of gs st of None \<Rightarrow> n | Some (k, t) \<Rightarrow> k)"

lemma group_count_Cons: "group_count ((s, n, t) # gs) st k = (if s = st then n else group_count gs st k)"
  and group_count_none: "map_of gs st = None \<Longrightarrow> group_count gs st k = k"
  by (simp_all add: group_count_def)

lemma counts_step_fields:
  "cn_Pending (counts_step now c (st, n, t)) = (if st = StatusPending then n else cn_Pending c)"
  "cn_Retrying (counts_step now c (st, n, t)) = (if st = StatusRetrying then n else cn_Retrying c)"
  "cn_Quarantined (counts_step now c (st, n, t)) = (if st = StatusQuarantined then n else cn_Quarantined c)"
  by (simp_all add: counts_step_def Let_def)

lemma counts_fold_fields:
  assumes "distinct (map fst gs)"
  shows "cn_Pending (foldl (counts_step now) c gs) = group_count gs StatusPending (cn_Pending c)
    \<and> cn_Retrying (foldl (counts_step now) c gs) = group_count gs StatusRetrying (cn_Retrying c)
    \<and> cn_Quarantined (foldl (counts_step now) c gs) = group_count gs StatusQuarantined (cn_Quarantined c)"
  using assms
proof (induction gs arbitrary: c)
  case (Cons g gs)
  obtain st n t where g: "g = (st, n, t)" by (cases g)
  have "map_of gs st = None" using Cons.prems g by (force simp: map_of_eq_None_iff)
  then have "group_count gs st k = k" for k by (rule group_count_none)
  then show ?case using Cons g by (auto simp: group_count_Cons counts_step_fields)
qed (simp add: group_count_def)

definition status_rows :: "string \<Rightarrow> string \<Rightarrow> dl_db \<Rightarrow> dead_letter list" where
  "status_rows mig st db = filter (\<lambda>r. dl_migration_id r = mig \<and> dl_status r = st) (db_rows db)"

lemma status_groups_count: "group_count (status_groups mig db) st 0 = int (length (status_rows mig st db))"
proof -
  let ?rows = "filter (\<lambda>r. dl_migration_id r = mig) (db_rows db)"
  let ?val = "\<lambda>st. let g = filter (\<lambda>r. dl_status r = st) ?rows in (int (length g), Min (set (map dl_first_seen_at g)))"
  have gs: "status_groups mig db = map (\<lambda>st. (st, ?val st)) (remdups (map dl_status ?rows))"
    by (simp add: status_groups_def Let_def)
  have "map_of (map (\<lambda>st. (st, ?val st)) xs) st = (if st \<in> set xs then Some (?val st) else None)" for xs
    by (induction xs) auto
  then have m: "map_of (status_groups mig db) st = (if st \<in> dl_status ` set ?rows then Some (?val st) else None)"
    by (simp add: gs)
  have f: "status_rows mig st db = filter (\<lambda>r. dl_status r = st) ?rows"
    by (auto simp: status_rows_def intro: filter_cong)
  show ?thesis
  proof (cases "st \<in> dl_status ` set ?rows")
    case True
    then show ?thesis unfolding group_count_def m f by (simp add: Let_def)
  next
    case False
    then have "status_rows mig st db = []" unfolding f by (auto simp: filter_empty_conv)
    then show ?thesis using False unfolding group_count_def m by simp
  qed
qed

lemma Counts_fields:
  "cn_Pending (Counts s now db) = int (length (status_rows (st_migrationID s) StatusPending db))"
  "cn_Retrying (Counts s now db) = int (length (status_rows (st_migrationID s) StatusRetrying db))"
  "cn_Quarantined (Counts s now db) = int (length (status_rows (st_migrationID s) StatusQuarantined db))"
proof -
  have "distinct (map fst (status_groups (st_migrationID s) db))"
    by (simp add: status_groups_def Let_def comp_def)
  from counts_fold_fields [OF this, of now empty_counts]
  show "cn_Pending (Counts s now db) = int (length (status_rows (st_migrationID s) StatusPending db))"
    "cn_Retrying (Counts s now db) = int (length (status_rows (st_migrationID s) StatusRetrying db))"
    "cn_Quarantined (Counts s now db) = int (length (status_rows (st_migrationID s) StatusQuarantined db))"
    by (simp_all add: Counts_def empty_counts_def status_groups_count)
qed

lemma length_open_rows:
  "length (filter (\<lambda>r. dl_migration_id r = mig \<and> Status_Open (dl_status r)) rows)
   = length (filter (\<lambda>r. dl_migration_id r = mig \<and> dl_status r = StatusPending) rows)
     + length (filter (\<lambda>r. dl_migration_id r = mig \<and> dl_status r = StatusRetrying) rows)
     + length (filter (\<lambda>r. dl_migration_id r = mig \<and> dl_status r = StatusQuarantined) rows)"
  by (induction rows) (auto simp: Status_Open_def)

text \<open>
  the count the cutover gate reads is exact: \<open>Open\<close> is the number of unfinished entries of
  this migration in the table, and the store is clean precisely when it has none.
\<close>

theorem Counts_exact:
  "Counts_Open (Counts s now db) =
     int (length (filter (\<lambda>r. dl_migration_id r = st_migrationID s \<and> Status_Open (dl_status r)) (db_rows db)))
   \<and> (Counts_Clean (Counts s now db) \<longleftrightarrow>
        \<not> (\<exists>r \<in> set (db_rows db). dl_migration_id r = st_migrationID s \<and> Status_Open (dl_status r)))"
proof -
  let ?open = "filter (\<lambda>r. dl_migration_id r = st_migrationID s \<and> Status_Open (dl_status r)) (db_rows db)"
  have "Counts_Open (Counts s now db) = int (length ?open)"
    by (simp add: Counts_Open_def Counts_fields status_rows_def length_open_rows)
  moreover have "length ?open = 0 \<longleftrightarrow>
      \<not> (\<exists>r \<in> set (db_rows db). dl_migration_id r = st_migrationID s \<and> Status_Open (dl_status r))"
    by (auto simp: filter_empty_conv)
  ultimately show ?thesis by (simp add: Counts_Clean_def)
qed

end
