(* ===== verification/Bisect.thy ===== *)
theory Bisect
  imports RowKey
begin

text \<open>
  Splitting key ranges, \<open>internal/recon/bisect.go\<close>. \<open>big.Int\<close> is \<open>int\<close> (its right shift rounds
  towards minus infinity, as \<open>div\<close> does); \<open>GNil\<close> is an absent bound. The text a \<open>time.Time\<close>
  value carries comes from the standard library and is the parameter \<open>fmt\<close>. The contract the
  reconciler relies on is the locale \<open>bisector\<close>, interpreted for the three bisectors.
\<close>

section \<open>Integers\<close>

fun toBigInt :: "gval \<Rightarrow> int option" where
  "toBigInt (GInt i) = Some i"
| "toBigInt (GUint n) = Some (int n)"
| "toBigInt (GFloat f) = Some (int64_of_float f)"
| "toBigInt v = None"

definition bigToInt64 :: "int \<Rightarrow> int" where
  "bigToInt64 b = (if \<not> (min_int64 \<le> b \<and> b \<le> max_int64)
                   then (if b > 0 then max_int64 else min_int64) else b)"

definition IntBisect :: "gval \<Rightarrow> gval \<Rightarrow> gval \<times> bool" where
  "IntBisect low high =
     (case (toBigInt low, toBigInt high) of
        (None, None) \<Rightarrow> (GInt 0, True)
      | (None, Some h) \<Rightarrow> (GInt (bigToInt64 (h - 2 ^ 20)), True)
      | (Some l, None) \<Rightarrow> (GInt (bigToInt64 (l + 2 ^ 20)), True)
      | (Some l, Some h) \<Rightarrow>
          let mid = (l + h) div 2 in
          if mid \<le> l \<or> mid \<ge> h then (GNil, False)
          else (GInt (bigToInt64 mid), True))"

section \<open>Strings\<close>

fun toString :: "gval \<Rightarrow> string option" where
  "toString (GString s) = Some s"
| "toString (GBytes b) = Some b"
| "toString v = None"

text \<open>A string as the big-endian number of its first \<open>n\<close> bytes, zeros after its end.\<close>

definition byte_at :: "string \<Rightarrow> nat \<Rightarrow> nat" where
  "byte_at s i = (if i < length s then of_char (s ! i) else 0)"

fun string_number :: "string \<Rightarrow> nat \<Rightarrow> nat" where
  "string_number s 0 = 0"
| "string_number s (Suc i) = 256 * string_number s i + byte_at s i"

text \<open>\<open>FillBytes\<close> into a buffer of \<open>n\<close> bytes.\<close>

fun fill_bytes :: "nat \<Rightarrow> nat \<Rightarrow> string" where
  "fill_bytes 0 v = []"
| "fill_bytes (Suc n) v = fill_bytes n (v div 256) @ [char_of (v mod 256)]"

definition trim_right_nul :: "string \<Rightarrow> string" where
  "trim_right_nul s = rev (dropWhile (\<lambda>c. c = CHR 0x00) (rev s))"

definition midpointString :: "string \<Rightarrow> string \<Rightarrow> string" where
  "midpointString lo hi =
     (let n = max (length lo) (length hi) + 8;
          mid = (string_number lo n + string_number hi n) div 2
      in trim_right_nul (fill_bytes n mid))"

definition StringBisect :: "gval \<Rightarrow> gval \<Rightarrow> gval \<times> bool" where
  "StringBisect low high =
     (case (toString low, toString high) of
        (None, None) \<Rightarrow> (GString '''', False)
      | (Some l, None) \<Rightarrow> (GString (l @ [CHR 0xFF]), True)
      | (lo, Some h) \<Rightarrow>
          let l = (case lo of None \<Rightarrow> '''' | Some l \<Rightarrow> l) in
          if l \<ge> h then (GNil, False)
          else let mid = midpointString l h in
               if mid \<le> l \<or> mid \<ge> h then (GNil, False) else (GString mid, True))"

section \<open>Times\<close>

fun toTime :: "gval \<Rightarrow> gotime option" where
  "toTime (GTime t txt) = Some t"
| "toTime v = None"

definition hours24 :: duration where "hours24 = 24 * 3600 * 1000000000"

text \<open>\<open>h.Sub(l)\<close> saturates at the ends of \<open>int64\<close>.\<close>

definition TimeBisect :: "(gotime \<Rightarrow> string) \<Rightarrow> gval \<Rightarrow> gval \<Rightarrow> gval \<times> bool" where
  "TimeBisect fmt low high =
     (case (toTime low, toTime high) of
        (None, None) \<Rightarrow> (GNil, False)
      | (None, Some h) \<Rightarrow> (GTime (h - hours24) (fmt (h - hours24)), True)
      | (Some l, None) \<Rightarrow> (GTime (l + hours24) (fmt (l + hours24)), True)
      | (Some l, Some h) \<Rightarrow>
          if \<not> l < h then (GNil, False)
          else let mid = l + (max min_int64 (min max_int64 (h - l))) div 2 in
               if \<not> (mid > l) \<or> \<not> (mid < h) then (GNil, False)
               else (GTime mid (fmt mid), True))"

text \<open>\<open>BisectorFor\<close> chooses by the type of a sample value.\<close>

definition BisectorFor :: "(gotime \<Rightarrow> string) \<Rightarrow> gval \<Rightarrow> gval \<Rightarrow> gval \<Rightarrow> gval \<times> bool" where
  "BisectorFor fmt sample =
     (case sample of
        GInt i \<Rightarrow> IntBisect
      | GUint n \<Rightarrow> IntBisect
      | GFloat f \<Rightarrow> IntBisect
      | GTime t txt \<Rightarrow> TimeBisect fmt
      | _ \<Rightarrow> StringBisect)"

section \<open>The contract\<close>

text \<open>
  Between two bounds that hold keys (in the order \<open>key\<close> gives), a bisector returns a key strictly
  between them, so the two half-open ranges it makes are both smaller and tile the range.
\<close>

locale bisector =
  fixes bisect :: "gval \<Rightarrow> gval \<Rightarrow> gval \<times> bool"
    and key :: "gval \<Rightarrow> 'k::linorder option"
  assumes between: "key low = Some l \<Longrightarrow> key high = Some h \<Longrightarrow> bisect low high = (m, True) \<Longrightarrow>
      \<exists>k. key m = Some k \<and> l < k \<and> k < h"
begin

lemma tiles:
  assumes "key low = Some l" and "key high = Some h" and "bisect low high = (m, True)"
  shows "\<exists>k. key m = Some k \<and> {l<..k} \<union> {k<..h} = {l<..h} \<and> {l<..k} \<inter> {k<..h} = {}
    \<and> {l<..k} \<subset> {l<..h} \<and> {k<..h} \<subset> {l<..h}"
proof -
  obtain k where k: "key m = Some k" "l < k" "k < h" using between [OF assms] by blast
  then have "{l<..k} \<union> {k<..h} = {l<..h}" "{l<..k} \<inter> {k<..h} = {}" by auto
  moreover have "h \<in> {l<..h} - {l<..k}" "k \<in> {l<..h} - {k<..h}" using k by auto
  ultimately show ?thesis using k(1) by blast
qed

end

text \<open>Integer bounds count when they are \<open>int64\<close> values: beyond, the midpoint is clamped.\<close>

definition int_key :: "gval \<Rightarrow> int option" where
  "int_key v = (case toBigInt v of
      None \<Rightarrow> None
    | Some i \<Rightarrow> if min_int64 \<le> i \<and> i \<le> max_int64 then Some i else None)"

lemma bigToInt64_id: "min_int64 \<le> b \<Longrightarrow> b \<le> max_int64 \<Longrightarrow> bigToInt64 b = b"
  by (simp add: bigToInt64_def)

lemma int_key_Some: "int_key v = Some i \<longleftrightarrow> toBigInt v = Some i \<and> min_int64 \<le> i \<and> i \<le> max_int64"
  by (auto simp: int_key_def split: option.splits)

interpretation int_bis: bisector IntBisect int_key
proof unfold_locales
  fix low high m l h
  assume keys: "int_key low = Some l" "int_key high = Some h" and "IntBisect low high = (m, True)"
  then have "m = GInt (bigToInt64 ((l + h) div 2))" "l < (l + h) div 2" "(l + h) div 2 < h"
    by (auto simp: int_key_Some IntBisect_def Let_def split: if_splits)
  then show "\<exists>k. int_key m = Some k \<and> l < k \<and> k < h"
    using keys by (auto simp: int_key_Some bigToInt64_id)
qed

interpretation string_bis: bisector StringBisect toString
  by unfold_locales (auto simp: StringBisect_def Let_def split: if_splits)

interpretation time_bis: bisector "TimeBisect fmt" toTime for fmt
  by unfold_locales (auto simp: TimeBisect_def Let_def split: if_splits)

section \<open>When a range can be split\<close>

text \<open>The number of a list of bytes, and its order.\<close>

definition num :: "string \<Rightarrow> nat" where
  "num cs = foldl (\<lambda>a c. 256 * a + of_char c) 0 cs"

definition pad :: "nat \<Rightarrow> string \<Rightarrow> string" where
  "pad n s = s @ replicate (n - length s) CHR 0x00"

lemma num_snoc: "num (cs @ [c]) = 256 * num cs + of_char c"
  by (simp add: num_def)

lemma num_Nil [simp]: "num [] = 0"
  by (simp add: num_def)

lemma num_append: "num (xs @ ys) = num xs * 256 ^ length ys + num ys"
proof (induction ys rule: rev_induct)
  case (snoc y ys)
  have "num (xs @ ys @ [y]) = 256 * num (xs @ ys) + of_char y"
    using num_snoc [of "xs @ ys" y] by simp
  with snoc show ?case by (simp add: num_snoc algebra_simps)
qed simp

lemma num_Cons: "num (c # cs) = of_char c * 256 ^ length cs + num cs"
  using num_append [of "[c]" cs] num_snoc [of "[]" c] by simp

lemma num_less: "num cs < 256 ^ length cs"
proof (induction cs rule: rev_induct)
  case (snoc c cs)
  have "of_char c < (256 :: nat)" by (rule nat_of_char_less_256)
  moreover have "Suc (num cs) \<le> 256 ^ length cs" using snoc by simp
  then have "256 * Suc (num cs) \<le> 256 * 256 ^ length cs" by (rule mult_le_mono2)
  ultimately have "256 * num cs + of_char c < 256 * 256 ^ length cs"
    by (metis add_less_cancel_left less_le_trans mult_Suc_right add.commute)
  then show ?case by (simp only: num_snoc length_append length_Cons list.size power_add power_Suc) simp
qed simp

lemma num_mono:
  "length xs = length ys \<Longrightarrow> xs < ys \<Longrightarrow> num xs < num ys"
proof (induction xs arbitrary: ys)
  case (Cons x xs)
  then obtain y ys' where ys: "ys = y # ys'" "length xs = length ys'" by (cases ys) auto
  show ?case
  proof (cases "x = y")
    case True
    then show ?thesis using Cons ys by (simp add: num_Cons)
  next
    case False
    then have "x < y" using Cons.prems ys by simp
    then have "of_char x + 1 \<le> (of_char y :: nat)" by (simp add: less_char_def)
    then have "(of_char x + 1) * 256 ^ length xs \<le> (of_char y :: nat) * 256 ^ length xs"
      by (rule mult_le_mono1)
    then show ?thesis using num_less [of xs] ys by (simp add: num_Cons algebra_simps)
  qed
qed simp

lemma num_less_iff: "length xs = length ys \<Longrightarrow> num xs < num ys \<longleftrightarrow> xs < ys"
  using num_mono [of xs ys] num_mono [of ys xs] by (metis linorder_less_linear less_asym)

lemma num_inj: "length xs = length ys \<Longrightarrow> num xs = num ys \<longleftrightarrow> xs = ys"
  using num_mono [of xs ys] num_mono [of ys xs] by (metis linorder_less_linear less_irrefl)

lemma length_fill_bytes [simp]: "length (fill_bytes n v) = n"
  by (induction n arbitrary: v) auto

lemma num_fill_bytes: "v < 256 ^ n \<Longrightarrow> num (fill_bytes n v) = v"
proof (induction n arbitrary: v)
  case (Suc n)
  then have "v div 256 < 256 ^ n" by (simp add: less_mult_imp_div_less mult.commute)
  with Suc show ?case by (simp add: num_snoc)
qed simp

lemma length_pad [simp]: "length s \<le> n \<Longrightarrow> length (pad n s) = n"
  by (simp add: pad_def)

lemma string_number_pad: "string_number s n = num (take n (pad n s))"
proof (induction n)
  case (Suc n)
  have nth: "pad (Suc n) s ! n = (if n < length s then s ! n else CHR 0x00)"
    by (simp add: pad_def nth_append)
  have "take n (pad (Suc n) s) = take n (pad n s)"
    by (rule nth_equalityI) (auto simp: pad_def nth_append)
  moreover have "n < length (pad (Suc n) s)" by (simp add: pad_def)
  ultimately show ?case
    using Suc nth by (simp add: take_Suc_conv_app_nth num_snoc byte_at_def)
qed simp

lemma string_number_num: "length s \<le> n \<Longrightarrow> string_number s n = num (pad n s)"
  by (simp add: string_number_pad)

lemma zeros_least: "length x = n \<Longrightarrow> replicate n CHR 0x00 \<le> x"
proof (induction n arbitrary: x)
  case (Suc n)
  then obtain c x' where x: "x = c # x'" "length x' = n" by (cases x) auto
  have "CHR 0x00 \<le> c" by (simp add: less_eq_char_def)
  then show ?case using Suc.IH [OF x(2)] x by (auto simp: le_less)
qed simp

lemma pad_mono: "length a \<le> n \<Longrightarrow> length b \<le> n \<Longrightarrow> a \<le> b \<Longrightarrow> pad n a \<le> pad n b"
proof (induction a arbitrary: b n)
  case Nil
  then show ?case using zeros_least [of "pad n b" n] by (simp add: pad_def)
next
  case (Cons x a)
  then obtain y b' where b: "b = y # b'" by (cases b) auto
  obtain m where n: "n = Suc m" using Cons.prems by (cases n) auto
  have "x < y \<or> x = y \<and> a \<le> b'" using Cons.prems(3) b by (auto simp: le_less)
  then show ?case
    using Cons.IH [of m b'] Cons.prems b n by (auto simp: pad_def)
qed

lemma trim_right_split: "\<exists>k. s = trim_right_nul s @ replicate k CHR 0x00"
proof -
  have "rev s = takeWhile (\<lambda>c. c = CHR 0x00) (rev s) @ dropWhile (\<lambda>c. c = CHR 0x00) (rev s)" by simp
  moreover have "takeWhile (\<lambda>c. c = CHR 0x00) (rev s)
      = replicate (length (takeWhile (\<lambda>c. c = CHR 0x00) (rev s))) CHR 0x00"
    by (intro replicate_eqI) (auto dest: set_takeWhileD)
  ultimately have "s = rev (dropWhile (\<lambda>c. c = CHR 0x00) (rev s))
      @ replicate (length (takeWhile (\<lambda>c. c = CHR 0x00) (rev s))) CHR 0x00"
    by (metis rev_append rev_replicate rev_rev_ident)
  then show ?thesis unfolding trim_right_nul_def by blast
qed

lemma pad_trim: "length s \<le> n \<Longrightarrow> pad n (trim_right_nul s) = pad n s"
proof -
  assume "length s \<le> n"
  let ?t = "trim_right_nul s"
  obtain k where s: "s = ?t @ replicate k CHR 0x00" using trim_right_split by blast
  then have len: "length s = length ?t + k" by (metis length_append length_replicate)
  have "pad n ?t = ?t @ replicate (k + (n - length s)) CHR 0x00"
    using len \<open>length s \<le> n\<close> by (simp add: pad_def)
  also have "\<dots> = (?t @ replicate k CHR 0x00) @ replicate (n - length s) CHR 0x00"
    by (simp add: replicate_add)
  also have "\<dots> = pad n s" by (simp only: s [symmetric] pad_def)
  finally show ?thesis .
qed

lemma string_le_append: "(xs :: string) \<le> xs @ ys"
  by (induction xs) auto

lemma trim_right_le: "trim_right_nul s \<le> s"
  using trim_right_split [of s] string_le_append by metis

lemma length_trim_right: "length (trim_right_nul s) \<le> length s"
  using length_dropWhile_le [of _ "rev s"] by (simp add: trim_right_nul_def)

lemma trim_of_pad: "length s \<le> n \<Longrightarrow> trim_right_nul (pad n s) = trim_right_nul s"
proof -
  have "dropWhile (\<lambda>c. c = CHR 0x00) (replicate k CHR 0x00 @ xs) = dropWhile (\<lambda>c. c = CHR 0x00) xs"
    for k xs by (induction k) auto
  then show ?thesis by (simp add: trim_right_nul_def pad_def)
qed

lemma pad_eq_trim:
  "length s \<le> n \<Longrightarrow> length t \<le> n \<Longrightarrow> pad n s = pad n t \<longleftrightarrow> trim_right_nul s = trim_right_nul t"
  using pad_trim [of s n] pad_trim [of t n] trim_of_pad [of s n] trim_of_pad [of t n] by metis

text \<open>The midpoint lies strictly between two strings exactly when their numbers leave room.\<close>

lemma midpoint_between:
  assumes "l < h"
  defines "n \<equiv> max (length l) (length h) + 8"
  shows "l < midpointString l h \<and> midpointString l h < h \<longleftrightarrow> num (pad n l) + 2 \<le> num (pad n h)"
proof -
  let ?v = "(num (pad n l) + num (pad n h)) div 2"
  let ?m = "midpointString l h"
  have len: "length l \<le> n" "length h \<le> n" by (simp_all add: n_def)
  have bound: "num (pad n l) < 256 ^ n" "num (pad n h) < 256 ^ n"
    using num_less [of "pad n l"] num_less [of "pad n h"] len by simp_all
  then have v: "?v < 256 ^ n" by linarith
  have m: "?m = trim_right_nul (fill_bytes n ?v)"
    using len by (simp add: midpointString_def n_def [symmetric] string_number_num Let_def)
  have lenm: "length ?m \<le> n" using length_trim_right [of "fill_bytes n ?v"] by (simp add: m)
  have "pad n ?m = pad n (fill_bytes n ?v)" unfolding m by (rule pad_trim) simp
  then have numm: "num (pad n ?m) = ?v" using num_fill_bytes [OF v] by (simp add: pad_def)
  have "pad n l \<le> pad n h" using pad_mono [OF len] assms(1) by simp
  then have "\<not> pad n h < pad n l" by simp
  then have le: "num (pad n l) \<le> num (pad n h)"
    using num_less_iff [of "pad n h" "pad n l"] len by (metis length_pad not_le)
  show ?thesis
  proof
    assume between: "l < ?m \<and> ?m < h"
    have "pad n l \<noteq> pad n ?m"
    proof
      assume "pad n l = pad n ?m"
      then have "trim_right_nul l = trim_right_nul ?m" using pad_eq_trim [OF len(1) lenm] by simp
      also have "trim_right_nul ?m = ?m"
        using trim_of_pad [of "trim_right_nul (fill_bytes n ?v)" "length (trim_right_nul (fill_bytes n ?v))"]
        by (simp add: m trim_right_nul_def)
      finally have "?m \<le> l" using trim_right_le [of l] by simp
      with between show False by (meson leD)
    qed
    moreover have "pad n l \<le> pad n ?m" using pad_mono [OF len(1) lenm] between less_imp_le by blast
    ultimately have "num (pad n l) < num (pad n ?m)" using len lenm by (simp add: num_less_iff)
    then show "num (pad n l) + 2 \<le> num (pad n h)" unfolding numm by linarith
  next
    assume "num (pad n l) + 2 \<le> num (pad n h)"
    then have "num (pad n l) < num (pad n ?m)" "num (pad n ?m) < num (pad n h)" unfolding numm by linarith+
    then have "pad n l < pad n ?m" "pad n ?m < pad n h" using len lenm by (simp_all add: num_less_iff)
    then show "l < ?m \<and> ?m < h" using pad_mono len lenm by (meson not_le)
  qed
qed

lemma room_between:
  assumes "l < h"
  defines "n \<equiv> max (length l) (length h) + 8"
  shows "num (pad n l) + 2 \<le> num (pad n h) \<longleftrightarrow> trim_right_nul l \<noteq> trim_right_nul h"
proof -
  let ?N = "max (length l) (length h)"
  have split: "pad n s = pad ?N s @ replicate 8 CHR 0x00" if "length s \<le> ?N" for s
    using that by (simp add: n_def pad_def replicate_add [symmetric] del: replicate.simps)
  have "num (replicate k CHR 0x00) = 0" for k
    by (induction k) (simp_all add: num_Cons)
  then have num: "num (pad n s) = num (pad ?N s) * 256 ^ 8" if "length s \<le> ?N" for s
    using that by (simp add: split num_append)
  have "pad ?N l \<le> pad ?N h" using assms(1) by (intro pad_mono) auto
  then have "pad ?N l < pad ?N h \<longleftrightarrow> trim_right_nul l \<noteq> trim_right_nul h"
    using pad_eq_trim [of l ?N h] by (metis le_less less_irrefl max.cobounded1 max.cobounded2)
  moreover have "pad ?N l < pad ?N h \<longleftrightarrow> num (pad ?N l) + 1 \<le> num (pad ?N h)"
    by (subst num_less_iff [symmetric]) auto
  ultimately show ?thesis by (auto simp: num)
qed

text \<open>
  the bisectors split whenever they can. With both bounds present, the midpoint is strictly
  between them, and there is one exactly when: for integers, some integer lies strictly between
  the bounds; for strings, the bounds are in order and differ in more than trailing NUL bytes,
  however long their common prefix; for times, they are more than a nanosecond apart.
\<close>

theorem bisectors_exact:
  "(toBigInt a = Some l \<and> toBigInt b = Some h \<longrightarrow>
      (snd (IntBisect a b) \<longleftrightarrow> (\<exists>k. l < k \<and> k < h)))
   \<and> (toString a = Some s \<and> toString b = Some t \<longrightarrow>
      (snd (StringBisect a b) \<longleftrightarrow> s < t \<and> trim_right_nul s \<noteq> trim_right_nul t))
   \<and> (toTime a = Some u \<and> toTime b = Some v \<longrightarrow>
      (snd (TimeBisect fmt a b) \<longleftrightarrow> u + 1 < v))"
proof (intro conjI impI)
  show "snd (IntBisect a b) \<longleftrightarrow> (\<exists>k. l < k \<and> k < h)" if "toBigInt a = Some l \<and> toBigInt b = Some h"
  proof -
    have "(\<exists>k. l < k \<and> k < h) \<longleftrightarrow> l + 1 < h" by (metis int_one_le_iff_zero_less zless_add1_eq zle_add1_eq_le less_trans not_le)
    then show ?thesis using that by (auto simp: IntBisect_def Let_def)
  qed
  show "snd (StringBisect a b) \<longleftrightarrow> s < t \<and> trim_right_nul s \<noteq> trim_right_nul t"
    if "toString a = Some s \<and> toString b = Some t"
    using that midpoint_between [of s t] room_between [of s t]
    by (auto simp: StringBisect_def Let_def not_le)
  show "snd (TimeBisect fmt a b) \<longleftrightarrow> u + 1 < v" if "toTime a = Some u \<and> toTime b = Some v"
    using that by (auto simp: TimeBisect_def Let_def min_int64_def max_int64_def)
qed

theorem bisectors_exact_witness:
  "snd (StringBisect (GString ''ACCT-0001'') (GString ''ACCT-0002''))
   \<and> \<not> snd (IntBisect (GInt 4) (GInt 5))"
  using bisectors_exact [of "GString ''ACCT-0001''" 0 "GString ''ACCT-0002''" 0 "''ACCT-0001''" "''ACCT-0002''" 0 0]
    bisectors_exact [of "GInt 4" 4 "GInt 5" 5 "''''" "''''" 0 0]
  by (simp add: trim_right_nul_def less_char_def)

end
