(* ===== verification/Recon.thy ===== *)
theory Recon
  imports Bisect TableSpec ErrClass
begin

text \<open>
  Comparing a table across two databases: \<open>internal/recon/reconcile.go\<close>, \<open>internal/recon/sqlsource.go\<close>
  and the \<open>Range\<close> and \<open>Digest\<close> of \<open>internal/dialect/dialect.go\<close>. \<open>reconciler\<close> carries the two
  interfaces it reads through, the clock (\<open>ro_Now n\<close> is its reading after \<open>n\<close> ranges) and the two
  standard library functions the findings need (SHA-256 and the text of a time). \<open>ctx n\<close> is what
  \<open>ctx.Err()\<close> answers when \<open>n\<close> ranges have been visited. The tables do not change during a run.
\<close>

section \<open>Ranges and digests\<close>

record key_range =
  rg_Column :: string
  rg_Low :: gval
  rg_High :: gval

definition Bounded :: "key_range \<Rightarrow> bool" where
  "Bounded r = (rg_Low r \<noteq> GNil \<or> rg_High r \<noteq> GNil)"

record digest =
  dg_Rows :: int
  dg_SumLow :: string
  dg_SumHi :: string

definition trim_zeros :: "string \<Rightarrow> string" where
  "trim_zeros s = rev (dropWhile (\<lambda>c. c = CHR ''0'') (rev s))"

definition normaliseNumeric :: "string \<Rightarrow> string" where
  "normaliseNumeric s0 =
     (let s = TrimSpace s0 in
      if s = [] \<or> ToLower s = ''null'' then ''0''
      else
        let s = (if CHR ''.'' \<in> set s
                 then let whole = takeWhile (\<lambda>c. c \<noteq> CHR ''.'') s;
                          frac = trim_zeros (tl (dropWhile (\<lambda>c. c \<noteq> CHR ''.'') s))
                      in if frac = [] then whole else whole @ CHR ''.'' # frac
                 else s);
            s = dropWhile (\<lambda>c. c = CHR ''+'') s
        in if s = [] \<or> s = ''-'' then ''0'' else s)"

definition Digest_Equal :: "digest \<Rightarrow> digest \<Rightarrow> bool" where
  "Digest_Equal d other =
     (dg_Rows d = dg_Rows other
      \<and> normaliseNumeric (dg_SumLow d) = normaliseNumeric (dg_SumLow other)
      \<and> normaliseNumeric (dg_SumHi d) = normaliseNumeric (dg_SumHi other))"

definition Empty :: "digest \<Rightarrow> bool" where
  "Empty d = (dg_Rows d = 0)"

section \<open>Findings\<close>

datatype side = SourceSide | TargetSide

datatype finding_kind = MissingInTarget | MissingInSource | ValueMismatch | RangeUnresolved

definition Repairable :: "finding_kind \<Rightarrow> bool" where
  "Repairable k = (k = MissingInTarget \<or> k = ValueMismatch \<or> k = MissingInSource)"

record finding =
  fd_Table :: table_ref
  fd_Kind :: finding_kind
  fd_KeyHash :: string
  fd_Key :: row_key
  fd_Range :: "key_range option"
  fd_SourceRows :: int
  fd_TargetRows :: int
  fd_Detail :: string
  fd_FoundAt :: gotime

record row_digest =
  rd_Key :: row_key
  rd_Digest :: string

text \<open>Indexing a Go map: the zero value where the key is absent.\<close>

definition rows_get :: "row_digest gomap \<Rightarrow> string \<Rightarrow> row_digest" where
  "rows_get m k = (case map_of m k of None \<Rightarrow> \<lparr>rd_Key = \<lparr>cols = []\<rparr>, rd_Digest = ''''\<rparr> | Some d \<Rightarrow> d)"

section \<open>The reconciler\<close>

record recon_options =
  ro_LeafRows :: int
  ro_MaxDepth :: int
  ro_MaxFindings :: int
  ro_Now :: "nat \<Rightarrow> gotime"

definition DefaultOptions :: "(nat \<Rightarrow> gotime) \<Rightarrow> recon_options" where
  "DefaultOptions clock = \<lparr>ro_LeafRows = 5000, ro_MaxDepth = 48, ro_MaxFindings = 1000, ro_Now = clock\<rparr>"

definition recon_applyDefaults :: "recon_options \<Rightarrow> recon_options" where
  "recon_applyDefaults opts =
     opts\<lparr>ro_LeafRows := (if ro_LeafRows opts \<le> 0 then 5000 else ro_LeafRows opts),
         ro_MaxDepth := (if ro_MaxDepth opts \<le> 0 then 48 else ro_MaxDepth opts),
         ro_MaxFindings := (if ro_MaxFindings opts \<le> 0 then 1000 else ro_MaxFindings opts)\<rparr>"

record recon_stats =
  st_DigestQueries :: nat
  st_RowReads :: nat
  st_MaxDepth :: nat
  st_RangesVisited :: nat

definition zero_stats :: recon_stats where
  "zero_stats = \<lparr>st_DigestQueries = 0, st_RowReads = 0, st_MaxDepth = 0, st_RangesVisited = 0\<rparr>"

type_synonym row_reader = "side \<Rightarrow> key_range \<Rightarrow> go_error + row_digest gomap"

record reconciler =
  rc_table :: table_ref
  rc_keyCol :: string
  rc_digester :: "side \<Rightarrow> key_range \<Rightarrow> go_error + digest"
  rc_rows :: "row_reader option"
  rc_opts :: recon_options
  rc_sum256 :: "string \<Rightarrow> 8 word list"
  rc_fmt :: "gotime \<Rightarrow> string"

definition New_reconciler ::
  "table_ref \<Rightarrow> string \<Rightarrow> (side \<Rightarrow> key_range \<Rightarrow> go_error + digest) \<Rightarrow> row_reader option
   \<Rightarrow> recon_options \<Rightarrow> (string \<Rightarrow> 8 word list) \<Rightarrow> (gotime \<Rightarrow> string) \<Rightarrow> reconciler" where
  "New_reconciler table keyColumn d rows opts sum256 fmt =
     \<lparr>rc_table = table, rc_keyCol = keyColumn, rc_digester = d, rc_rows = rows,
      rc_opts = recon_applyDefaults opts, rc_sum256 = sum256, rc_fmt = fmt\<rparr>"

text \<open>What a run carries along: its cost so far and the findings so far.\<close>

record recon_run =
  rn_stats :: recon_stats
  rn_out :: "finding list"

definition row_finding :: "reconciler \<Rightarrow> gotime \<Rightarrow> finding_kind \<Rightarrow> string \<Rightarrow> row_digest \<Rightarrow> finding" where
  "row_finding rc now kind detail d =
     \<lparr>fd_Table = rc_table rc, fd_Kind = kind, fd_KeyHash = Hash (rc_sum256 rc) (rd_Key d),
      fd_Key = rd_Key d, fd_Range = None, fd_SourceRows = 0, fd_TargetRows = 0, fd_Detail = detail,
      fd_FoundAt = now\<rparr>"

definition range_finding ::
  "reconciler \<Rightarrow> gotime \<Rightarrow> key_range \<Rightarrow> digest \<Rightarrow> digest \<Rightarrow> string \<Rightarrow> finding" where
  "range_finding rc now rng src tgt detail =
     \<lparr>fd_Table = rc_table rc, fd_Kind = RangeUnresolved, fd_KeyHash = '''', fd_Key = \<lparr>cols = []\<rparr>,
      fd_Range = Some rng, fd_SourceRows = dg_Rows src, fd_TargetRows = dg_Rows tgt, fd_Detail = detail,
      fd_FoundAt = now\<rparr>"

definition is_full :: "reconciler \<Rightarrow> finding list \<Rightarrow> bool" where
  "is_full rc out = (int (length out) \<ge> ro_MaxFindings (rc_opts rc))"

text \<open>
  The two loops over the sorted keys. Where the source returns from the whole function at the
  limit, the first loop stops and the second, which tests the same limit first, adds nothing.
\<close>

fun compare_source ::
  "reconciler \<Rightarrow> gotime \<Rightarrow> row_digest gomap \<Rightarrow> row_digest gomap \<Rightarrow> string list \<Rightarrow> finding list
   \<Rightarrow> finding list" where
  "compare_source rc now srcRows tgtRows [] out = out"
| "compare_source rc now srcRows tgtRows (k # ks) out =
     (if is_full rc out then out
      else let s = rows_get srcRows k in
        compare_source rc now srcRows tgtRows ks
          (case map_of tgtRows k of
             None \<Rightarrow> out @ [row_finding rc now MissingInTarget
                             ''row exists on the source and not on the target'' s]
           | Some t \<Rightarrow>
               if rd_Digest s \<noteq> rd_Digest t
               then out @ [row_finding rc now ValueMismatch
                             ''row exists on both sides with differing contents'' s]
               else out))"

fun compare_target ::
  "reconciler \<Rightarrow> gotime \<Rightarrow> row_digest gomap \<Rightarrow> row_digest gomap \<Rightarrow> string list \<Rightarrow> finding list
   \<Rightarrow> finding list" where
  "compare_target rc now srcRows tgtRows [] out = out"
| "compare_target rc now srcRows tgtRows (k # ks) out =
     (if is_full rc out then out
      else
        compare_target rc now srcRows tgtRows ks
          (if map_of srcRows k = None
           then out @ [row_finding rc now MissingInSource
                         ''row exists on the target and not on the source'' (rows_get tgtRows k)]
           else out))"

definition compareRows ::
  "reconciler \<Rightarrow> key_range \<Rightarrow> digest \<Rightarrow> digest \<Rightarrow> nat \<Rightarrow> recon_run \<Rightarrow> recon_run \<times> go_error option" where
  "compareRows rc rng src tgt depth run =
     (let now = ro_Now (rc_opts rc) (st_RangesVisited (rn_stats run)) in
      case rc_rows rc of
        None \<Rightarrow>
          (run\<lparr>rn_out := rn_out run @ [range_finding rc now rng src tgt
                ''digests disagree and no row reader is configured'']\<rparr>, None)
      | Some Rows \<Rightarrow>
          if int depth \<ge> ro_MaxDepth (rc_opts rc)
          then (run\<lparr>rn_out := rn_out run @ [range_finding rc now rng src tgt
                  (''descent reached the depth limit of '' @ FormatInt (ro_MaxDepth (rc_opts rc))
                   @ '' with digests still disagreeing'')]\<rparr>, None)
          else (case Rows SourceSide rng of
              Inl e \<Rightarrow> (run, Some (Errorf ''reading source rows'' e))
            | Inr srcRows \<Rightarrow>
              (case Rows TargetSide rng of
                 Inl e \<Rightarrow> (run, Some (Errorf ''reading target rows'' e))
               | Inr tgtRows \<Rightarrow>
                   let stats = (rn_stats run)\<lparr>st_RowReads := st_RowReads (rn_stats run) + 2\<rparr>;
                       out = compare_source rc now srcRows tgtRows (sort (map fst srcRows)) (rn_out run);
                       out = compare_target rc now srcRows tgtRows (sort (map fst tgtRows)) out
                   in (\<lparr>rn_stats = stats, rn_out = out\<rparr>, None))))"

definition recon_bisect :: "reconciler \<Rightarrow> key_range \<Rightarrow> gval \<times> bool" where
  "recon_bisect rc rng =
     (let sample = (if rg_Low rng = GNil then rg_High rng else rg_Low rng) in
      if sample = GNil then IntBisect GNil GNil
      else BisectorFor (rc_fmt rc) sample (rg_Low rng) (rg_High rng))"

definition visit :: "nat \<Rightarrow> recon_run \<Rightarrow> recon_run" where
  "visit depth run =
     run\<lparr>rn_stats := (rn_stats run)
           \<lparr>st_RangesVisited := st_RangesVisited (rn_stats run) + 1,
            st_MaxDepth := max (st_MaxDepth (rn_stats run)) depth\<rparr>\<rparr>"

definition charge_digests :: "recon_run \<Rightarrow> recon_run" where
  "charge_digests run =
     run\<lparr>rn_stats := (rn_stats run)\<lparr>st_DigestQueries := st_DigestQueries (rn_stats run) + 2\<rparr>\<rparr>"

function descend ::
  "reconciler \<Rightarrow> (nat \<Rightarrow> go_error option) \<Rightarrow> key_range \<Rightarrow> nat \<Rightarrow> recon_run
   \<Rightarrow> recon_run \<times> go_error option" where
  "descend rc ctx rng depth run =
     (if is_full rc (rn_out run) then (run, None)
      else case ctx (st_RangesVisited (rn_stats run)) of
        Some e \<Rightarrow> (run, Some e)
      | None \<Rightarrow>
        let run = visit depth run in
        (case rc_digester rc SourceSide rng of
           Inl e \<Rightarrow> (run, Some (Errorf ''digesting source range'' e))
         | Inr src \<Rightarrow>
           (case rc_digester rc TargetSide rng of
              Inl e \<Rightarrow> (run, Some (Errorf ''digesting target range'' e))
            | Inr tgt \<Rightarrow>
              let run = charge_digests run in
              if Digest_Equal src tgt then (run, None)
              else if Empty src \<and> Empty tgt then (run, None)
              else if max (dg_Rows src) (dg_Rows tgt) \<le> ro_LeafRows (rc_opts rc)
                    \<or> int depth \<ge> ro_MaxDepth (rc_opts rc)
                then compareRows rc rng src tgt depth run
              else case recon_bisect rc rng of
                (mid, False) \<Rightarrow> compareRows rc rng src tgt depth run
              | (mid, True) \<Rightarrow>
                  (case descend rc ctx (rng\<lparr>rg_High := mid\<rparr>) (depth + 1) run of
                     (run, Some e) \<Rightarrow> (run, Some e)
                   | (run, None) \<Rightarrow> descend rc ctx (rng\<lparr>rg_Low := mid\<rparr>) (depth + 1) run))))"
  by pat_completeness auto
termination
  by (relation "measure (\<lambda>(rc, ctx, rng, depth, run). nat (ro_MaxDepth (rc_opts rc) - int depth))") auto

declare descend.simps [simp del]

definition Reconcile ::
  "reconciler \<Rightarrow> (nat \<Rightarrow> go_error option) \<Rightarrow> key_range \<Rightarrow> (recon_stats \<times> finding list) \<times> go_error option" where
  "Reconcile rc ctx rng0 =
     (let rng = (if rg_Column rng0 = '''' then rng0\<lparr>rg_Column := rc_keyCol rc\<rparr> else rng0) in
      case descend rc ctx rng 0 \<lparr>rn_stats = zero_stats, rn_out = []\<rparr> of
        (run, Some e) \<Rightarrow> ((rn_stats run, rn_out run), Some e)
      | (run, None) \<Rightarrow> ((rn_stats run, sort_key fd_KeyHash (rn_out run)), None))"

section \<open>Summaries\<close>

record summary =
  sm_Table :: table_ref
  sm_Total :: nat
  sm_ByKind :: "(finding_kind \<times> nat) list"
  sm_Repairable :: nat
  sm_FirstSeen :: gotime
  sm_DigestQueries :: nat
  sm_RowReads :: nat
  sm_RangesVisited :: nat
  sm_DeepestDescent :: nat
  sm_ReconciledClean :: bool

definition kind_count :: "(finding_kind \<times> nat) list \<Rightarrow> finding_kind \<Rightarrow> nat" where
  "kind_count m k = (case map_of m k of None \<Rightarrow> 0 | Some n \<Rightarrow> n)"

definition summarise_step :: "finding \<Rightarrow> summary \<Rightarrow> summary" where
  "summarise_step f acc =
     (let acc = acc\<lparr>sm_ByKind := AList.update (fd_Kind f) (kind_count (sm_ByKind acc) (fd_Kind f) + 1) (sm_ByKind acc)\<rparr>;
          acc = (if Repairable (fd_Kind f) then acc\<lparr>sm_Repairable := sm_Repairable acc + 1\<rparr> else acc)
      in if sm_FirstSeen acc = 0 \<or> fd_FoundAt f < sm_FirstSeen acc
         then acc\<lparr>sm_FirstSeen := fd_FoundAt f\<rparr> else acc)"

definition Summarise :: "table_ref \<Rightarrow> finding list \<Rightarrow> recon_stats \<Rightarrow> summary" where
  "Summarise table findings s =
     fold summarise_step findings
       \<lparr>sm_Table = table, sm_Total = length findings, sm_ByKind = [], sm_Repairable = 0,
        sm_FirstSeen = 0, sm_DigestQueries = st_DigestQueries s, sm_RowReads = st_RowReads s,
        sm_RangesVisited = st_RangesVisited s, sm_DeepestDescent = st_MaxDepth s,
        sm_ReconciledClean = (findings = [])\<rparr>"

section \<open>Reading the databases\<close>

text \<open>
  \<open>SQLPair\<close> (\<open>sqlsource.go\<close>) on two tables given as lists of rows. What the engines compute is a
  parameter: \<open>sp_gt\<close> and \<open>sp_le\<close> compare a column with a bound (both false on NULL), \<open>sp_hash\<close> is the
  value of the rendered row digest expression, and the two fault functions say which queries
  fail. Both tables have the platform's \<open>_mig_deleted\<close> column.
\<close>

record table_row =
  tw_values :: row
  tw_deleted :: bool

record sql_pair =
  sp_Source :: "table_row list"
  sp_Target :: "table_row list"
  sp_Spec :: table_spec
  sp_gt :: "gval \<Rightarrow> gval \<Rightarrow> bool"
  sp_le :: "gval \<Rightarrow> gval \<Rightarrow> bool"
  sp_hash :: "side \<Rightarrow> column_spec list \<Rightarrow> row \<Rightarrow> string"
  sp_digest_fault :: "side \<Rightarrow> key_range \<Rightarrow> go_error option"
  sp_rows_fault :: "side \<Rightarrow> key_range \<Rightarrow> go_error option"

fun pick :: "sql_pair \<Rightarrow> side \<Rightarrow> table_row list" where
  "pick p SourceSide = sp_Source p"
| "pick p TargetSide = sp_Target p"

fun side_name :: "side \<Rightarrow> string" where
  "side_name SourceSide = ''source''"
| "side_name TargetSide = ''target''"

fun side_table :: "sql_pair \<Rightarrow> side \<Rightarrow> table_ref" where
  "side_table p SourceSide = ts_Source (sp_Spec p)"
| "side_table p TargetSide = ts_Target (sp_Spec p)"

definition default_column :: "sql_pair \<Rightarrow> key_range \<Rightarrow> key_range" where
  "default_column p r = (if rg_Column r = '''' then r\<lparr>rg_Column := ts_Key (sp_Spec p)\<rparr> else r)"

text \<open>The predicate \<open>rangePredicate\<close> renders, and what \<open>whereClause\<close> adds to it.\<close>

definition range_holds :: "sql_pair \<Rightarrow> key_range \<Rightarrow> row \<Rightarrow> bool" where
  "range_holds p r values =
     (rg_Column r = '''' \<or>
      (let v = gomap_get values (rg_Column r) in
       (rg_Low r = GNil \<or> sp_gt p v (rg_Low r)) \<and> (rg_High r = GNil \<or> sp_le p v (rg_High r))))"

definition where_holds :: "sql_pair \<Rightarrow> key_range \<Rightarrow> bool \<Rightarrow> table_row \<Rightarrow> bool" where
  "where_holds p r includeDeleted w =
     (range_holds p r (tw_values w) \<and> (includeDeleted \<or> \<not> tw_deleted w))"

definition columnsForDigest :: "column_spec list \<Rightarrow> column_spec list" where
  "columnsForDigest columns =
     filter (\<lambda>c. \<not> (cs_Protect c = ProtectRedact \<or> cs_Protect c = ProtectEncrypt)) columns"

text \<open>The number of fifteen hexadecimal digits, from a one-based position of a row digest.\<close>

definition hex_digit :: "char \<Rightarrow> nat" where
  "hex_digit c = (let n = of_char c in
     if 48 \<le> n \<and> n \<le> 57 then n - 48 else if 97 \<le> n \<and> n \<le> 102 then n - 87 else 0)"

definition hash60 :: "nat \<Rightarrow> string \<Rightarrow> nat" where
  "hash60 pos h = foldl (\<lambda>a c. 16 * a + hex_digit c) 0 (take 15 (drop (pos - 1) h))"

definition row_hash :: "sql_pair \<Rightarrow> side \<Rightarrow> row \<Rightarrow> string" where
  "row_hash p s values = sp_hash p s (columnsForDigest (ComparableColumns (sp_Spec p))) values"

text \<open>The aggregate of \<open>RangeDigestQuery\<close>.\<close>

definition range_digest :: "sql_pair \<Rightarrow> side \<Rightarrow> key_range \<Rightarrow> bool \<Rightarrow> digest" where
  "range_digest p s r includeDeleted =
     (let hs = map (\<lambda>w. row_hash p s (tw_values w)) (filter (where_holds p r includeDeleted) (pick p s)) in
      \<lparr>dg_Rows = int (length hs), dg_SumLow = digits (sum_list (map (hash60 1) hs)),
       dg_SumHi = digits (sum_list (map (hash60 17) hs))\<rparr>)"

definition pair_Digest :: "sql_pair \<Rightarrow> side \<Rightarrow> key_range \<Rightarrow> go_error + digest" where
  "pair_Digest p s r0 =
     (let r = default_column p r0 in
      case sp_digest_fault p s r of
        Some e \<Rightarrow> Inl (Errorf (''recon: digesting '' @ TableRef_String (side_table p s)
                         @ '' on the '' @ side_name s) e)
      | None \<Rightarrow> Inr (range_digest p s r False))"

text \<open>A text key arrives as bytes from one driver and as a string from the other.\<close>

definition scanned :: "gval \<Rightarrow> gval" where
  "scanned v = (case v of GBytes b \<Rightarrow> GString b | _ \<Rightarrow> v)"

definition scanned_key :: "sql_pair \<Rightarrow> row \<Rightarrow> row_key" where
  "scanned_key p values =
     (let keyCols = ts_PrimaryKey (sp_Spec p) in
      NewRowKeyOrdered keyCols (map (\<lambda>n. (n, scanned (gomap_get values n))) keyCols))"

definition collect_row :: "sql_pair \<Rightarrow> side \<Rightarrow> table_row \<Rightarrow> row_digest gomap \<Rightarrow> row_digest gomap" where
  "collect_row p s w out =
     (let key = scanned_key p (tw_values w) in
      AList.update (Canonical key) \<lparr>rd_Key = key, rd_Digest = row_hash p s (tw_values w)\<rparr> out)"

definition pair_Rows :: "sql_pair \<Rightarrow> row_reader" where
  "pair_Rows p s r0 =
     (let r = default_column p r0 in
      case sp_rows_fault p s r of
        Some e \<Rightarrow> Inl (Errorf (''recon: reading rows from '' @ TableRef_String (side_table p s)
                         @ '' on the '' @ side_name s) e)
      | None \<Rightarrow> Inr (fold (collect_row p s) (filter (\<lambda>w. range_holds p r (tw_values w)) (pick p s)) []))"

definition FullRange :: "table_spec \<Rightarrow> key_range" where
  "FullRange spec = \<lparr>rg_Column = ts_Key spec, rg_Low = GNil, rg_High = GNil\<rparr>"

text \<open>The reconciler of a pair, as \<open>cmd/reconciler\<close> builds it.\<close>

definition pair_reconciler ::
  "sql_pair \<Rightarrow> recon_options \<Rightarrow> (string \<Rightarrow> 8 word list) \<Rightarrow> (gotime \<Rightarrow> string) \<Rightarrow> reconciler" where
  "pair_reconciler p opts sum256 fmt =
     New_reconciler (ts_Source (sp_Spec p)) (ts_Key (sp_Spec p)) (pair_Digest p) (Some (pair_Rows p))
       opts sum256 fmt"

section \<open>What one leaf reports\<close>

definition max_findings :: "reconciler \<Rightarrow> nat" where
  "max_findings rc = nat (ro_MaxFindings (rc_opts rc))"

definition source_report ::
  "reconciler \<Rightarrow> gotime \<Rightarrow> row_digest gomap \<Rightarrow> row_digest gomap \<Rightarrow> string \<Rightarrow> finding option" where
  "source_report rc now S T k =
     (case map_of T k of
        None \<Rightarrow> Some (row_finding rc now MissingInTarget
                   ''row exists on the source and not on the target'' (rows_get S k))
      | Some t \<Rightarrow>
          if rd_Digest (rows_get S k) \<noteq> rd_Digest t
          then Some (row_finding rc now ValueMismatch
                 ''row exists on both sides with differing contents'' (rows_get S k))
          else None)"

definition target_report ::
  "reconciler \<Rightarrow> gotime \<Rightarrow> row_digest gomap \<Rightarrow> row_digest gomap \<Rightarrow> string \<Rightarrow> finding option" where
  "target_report rc now S T k =
     (if map_of S k = None
      then Some (row_finding rc now MissingInSource
             ''row exists on the target and not on the source'' (rows_get T k))
      else None)"

definition row_reports ::
  "reconciler \<Rightarrow> gotime \<Rightarrow> row_digest gomap \<Rightarrow> row_digest gomap \<Rightarrow> finding list" where
  "row_reports rc now S T =
     List.map_filter (source_report rc now S T) (sort (map fst S))
     @ List.map_filter (target_report rc now S T) (sort (map fst T))"

lemma row_finding_simps [simp]:
  "fd_Table (row_finding rc now kind detail d) = rc_table rc"
  "fd_Kind (row_finding rc now kind detail d) = kind"
  "fd_Key (row_finding rc now kind detail d) = rd_Key d"
  "fd_KeyHash (row_finding rc now kind detail d) = Hash (rc_sum256 rc) (rd_Key d)"
  by (simp_all add: row_finding_def)

lemma rows_get_Some [simp]: "map_of m k = Some d \<Longrightarrow> rows_get m k = d"
  by (simp add: rows_get_def)

lemma set_map_filter_iff: "f \<in> set (List.map_filter g ks) \<longleftrightarrow> (\<exists>k \<in> set ks. g k = Some f)"
  by (induction ks) (auto split: option.splits)

lemma map_filter_none: "(\<And>k. k \<in> set ks \<Longrightarrow> g k = None) \<Longrightarrow> List.map_filter g ks = []"
  by (induction ks) auto

lemma is_full_iff: "is_full rc out \<longleftrightarrow> max_findings rc \<le> length out"
  by (auto simp: is_full_def max_findings_def)

lemma take_full: "is_full rc out \<Longrightarrow> take (max_findings rc - length out) xs = []"
  by (simp add: is_full_iff)

lemma take_room: "\<not> is_full rc out \<Longrightarrow>
  take (max_findings rc - length out) (x # xs) = x # take (max_findings rc - length (out @ [y])) xs"
  by (simp add: is_full_iff take_Cons' not_le)

lemma compare_source_eq:
  "compare_source rc now S T ks out
   = out @ take (max_findings rc - length out) (List.map_filter (source_report rc now S T) ks)"
proof (induction ks arbitrary: out)
  case (Cons k ks)
  show ?case
  proof (cases "is_full rc out")
    case True
    then show ?thesis by (simp add: take_full)
  next
    case False
    show ?thesis
    proof (cases "source_report rc now S T k")
      case None
      then show ?thesis
        using Cons [of out] False by (auto simp: source_report_def Let_def split: option.splits if_splits)
    next
      case (Some f)
      then show ?thesis
        using Cons [of "out @ [f]"] False take_room [OF False, of f _ f]
        by (auto simp: source_report_def Let_def split: option.splits if_splits)
    qed
  qed
qed simp

lemma compare_target_eq:
  "compare_target rc now S T ks out
   = out @ take (max_findings rc - length out) (List.map_filter (target_report rc now S T) ks)"
proof (induction ks arbitrary: out)
  case (Cons k ks)
  show ?case
  proof (cases "is_full rc out")
    case True
    then show ?thesis by (simp add: take_full)
  next
    case False
    show ?thesis
    proof (cases "target_report rc now S T k")
      case None
      then show ?thesis
        using Cons [of out] False by (auto simp: target_report_def split: if_splits)
    next
      case (Some f)
      then show ?thesis
        using Cons [of "out @ [f]"] False take_room [OF False, of f _ f]
        by (auto simp: target_report_def split: if_splits)
    qed
  qed
qed simp

lemma compare_both:
  "compare_target rc now S T (sort (map fst T)) (compare_source rc now S T (sort (map fst S)) out)
   = out @ take (max_findings rc - length out) (row_reports rc now S T)"
  by (simp add: compare_source_eq compare_target_eq row_reports_def diff_diff_add
      min_def not_le)

text \<open>The three ways a comparison of rows ends.\<close>

lemma compareRows_cases:
  assumes "compareRows rc rng src tgt depth run = res"
  obtains (range) now detail where
      "res = (run\<lparr>rn_out := rn_out run @ [range_finding rc now rng src tgt detail]\<rparr>, None)"
  | (fault) e where "res = (run, Some e)"
  | (rows) Rows S T now where "rc_rows rc = Some Rows" "Rows SourceSide rng = Inr S" "Rows TargetSide rng = Inr T"
      "int depth < ro_MaxDepth (rc_opts rc)"
      "res = (\<lparr>rn_stats = (rn_stats run)\<lparr>st_RowReads := st_RowReads (rn_stats run) + 2\<rparr>,
               rn_out = rn_out run @ take (max_findings rc - length (rn_out run)) (row_reports rc now S T)\<rparr>, None)"
  using assms
  by (auto simp: compareRows_def Let_def compare_both split: option.splits sum.splits if_splits)

section \<open>The descent as a relation\<close>

text \<open>The ways a call of \<open>descend\<close> can go, one rule for each.\<close>

inductive descends ::
  "reconciler \<Rightarrow> (nat \<Rightarrow> go_error option) \<Rightarrow> key_range \<Rightarrow> nat \<Rightarrow> recon_run \<Rightarrow> recon_run \<times> go_error option \<Rightarrow> bool"
  for rc :: reconciler and ctx :: "nat \<Rightarrow> go_error option" where
  full: "is_full rc (rn_out run) \<Longrightarrow> descends rc ctx rng depth run (run, None)"
| cancelled: "ctx (st_RangesVisited (rn_stats run)) = Some e \<Longrightarrow> descends rc ctx rng depth run (run, Some e)"
| unreadable: "descends rc ctx rng depth run (visit depth run, Some e)"
| matched: "\<lbrakk>\<not> is_full rc (rn_out run); rc_digester rc SourceSide rng = Inr src;
     rc_digester rc TargetSide rng = Inr tgt; Digest_Equal src tgt \<or> Empty src \<and> Empty tgt\<rbrakk>
   \<Longrightarrow> descends rc ctx rng depth run (charge_digests (visit depth run), None)"
| leaf: "\<lbrakk>\<not> is_full rc (rn_out run); rc_digester rc SourceSide rng = Inr src;
     rc_digester rc TargetSide rng = Inr tgt; \<not> Digest_Equal src tgt;
     compareRows rc rng src tgt depth (charge_digests (visit depth run)) = res\<rbrakk>
   \<Longrightarrow> descends rc ctx rng depth run res"
| split_fault: "\<lbrakk>\<not> is_full rc (rn_out run); int depth < ro_MaxDepth (rc_opts rc);
     recon_bisect rc rng = (mid, True);
     descends rc ctx (rng\<lparr>rg_High := mid\<rparr>) (depth + 1) (charge_digests (visit depth run)) (run1, Some e)\<rbrakk>
   \<Longrightarrow> descends rc ctx rng depth run (run1, Some e)"
| split: "\<lbrakk>\<not> is_full rc (rn_out run); int depth < ro_MaxDepth (rc_opts rc);
     recon_bisect rc rng = (mid, True);
     descends rc ctx (rng\<lparr>rg_High := mid\<rparr>) (depth + 1) (charge_digests (visit depth run)) (run1, None);
     descends rc ctx (rng\<lparr>rg_Low := mid\<rparr>) (depth + 1) run1 res\<rbrakk>
   \<Longrightarrow> descends rc ctx rng depth run res"

lemma visit_out [simp]: "rn_out (visit depth run) = rn_out run"
  by (simp add: visit_def max_def)

lemma charge_digests_out [simp]: "rn_out (charge_digests run) = rn_out run"
  by (simp add: charge_digests_def)

lemma descend_descends: "descends rc ctx rng depth run (descend rc ctx rng depth run)"
proof (induction rc ctx rng depth run rule: descend.induct)
  case (1 rc ctx rng depth run)
  show ?case
  proof (cases "is_full rc (rn_out run) \<or> ctx (st_RangesVisited (rn_stats run)) \<noteq> None")
    case True
    then show ?thesis by (subst descend.simps) (auto intro: descends.full descends.cancelled)
  next
    case open_: False
    then have nf: "\<not> is_full rc (rn_out run)" and ctx: "ctx (st_RangesVisited (rn_stats run)) = None" by auto
    show ?thesis
    proof (cases "rc_digester rc SourceSide rng")
      case (Inl e)
      then show ?thesis using nf ctx by (subst descend.simps) (simp add: Let_def descends.unreadable)
    next
      case src: (Inr src)
      show ?thesis
      proof (cases "rc_digester rc TargetSide rng")
        case (Inl e)
        then show ?thesis using nf ctx src by (subst descend.simps) (simp add: Let_def descends.unreadable)
      next
        case tgt: (Inr tgt)
        let ?run = "charge_digests (visit depth run)"
        consider (quiet) "Digest_Equal src tgt \<or> Empty src \<and> Empty tgt"
          | (leaf) "\<not> Digest_Equal src tgt" "\<not> (Empty src \<and> Empty tgt)"
              "max (dg_Rows src) (dg_Rows tgt) \<le> ro_LeafRows (rc_opts rc)
               \<or> int depth \<ge> ro_MaxDepth (rc_opts rc) \<or> \<not> snd (recon_bisect rc rng)"
          | (split) mid where "\<not> Digest_Equal src tgt" "\<not> (Empty src \<and> Empty tgt)"
              "\<not> (max (dg_Rows src) (dg_Rows tgt) \<le> ro_LeafRows (rc_opts rc)
                 \<or> int depth \<ge> ro_MaxDepth (rc_opts rc))" "recon_bisect rc rng = (mid, True)"
          by (cases "recon_bisect rc rng") auto
        then show ?thesis
        proof cases
          case quiet
          then have "descend rc ctx rng depth run = (?run, None)"
            using nf ctx src tgt by (subst descend.simps) (auto simp: Let_def)
          then show ?thesis using descends.matched [OF nf src tgt quiet] by simp
        next
          case leaf
          then have "descend rc ctx rng depth run = compareRows rc rng src tgt depth ?run"
            using nf ctx src tgt
            by (subst descend.simps) (cases "recon_bisect rc rng", cases "snd (recon_bisect rc rng)", auto simp: Let_def)
          then show ?thesis using descends.leaf [OF nf src tgt leaf(1)] by simp
        next
          case split
          note low = "1.IH"(1) [OF nf ctx refl src tgt refl split(1-3) split(4) [symmetric] refl]
          have depth: "int depth < ro_MaxDepth (rc_opts rc)" using split(3) by simp
          obtain run1 err where run1: "descend rc ctx (rng\<lparr>rg_High := mid\<rparr>) (depth + 1) ?run = (run1, err)"
            by (cases "descend rc ctx (rng\<lparr>rg_High := mid\<rparr>) (depth + 1) ?run")
          have eq: "descend rc ctx rng depth run
              = (case descend rc ctx (rng\<lparr>rg_High := mid\<rparr>) (depth + 1) ?run of
                   (run, Some e) \<Rightarrow> (run, Some e)
                 | (run, None) \<Rightarrow> descend rc ctx (rng\<lparr>rg_Low := mid\<rparr>) (depth + 1) run)"
            using nf ctx src tgt split by (subst descend.simps) (auto simp: Let_def)
          show ?thesis
          proof (cases err)
            case None
            have "descends rc ctx (rng\<lparr>rg_Low := mid\<rparr>) (depth + 1) run1
                (descend rc ctx (rng\<lparr>rg_Low := mid\<rparr>) (depth + 1) run1)"
              using "1.IH"(2) [OF nf ctx refl src tgt refl split(1-3) split(4) [symmetric] refl] run1 None
              by metis
            then show ?thesis using descends.split [OF nf depth split(4) low [unfolded run1 None]] eq run1 None
              by simp
          next
            case (Some e)
            then show ?thesis
              using descends.split_fault [OF nf depth split(4) low [unfolded run1 Some]] eq run1 by simp
          qed
        qed
      qed
    qed
  qed
qed

section \<open>What a descent adds\<close>

lemma descends_extends:
  "descends rc ctx rng depth run res \<Longrightarrow> \<exists>xs. rn_out (fst res) = rn_out run @ xs"
proof (induction rule: descends.induct)
  case (leaf run rng src tgt depth res)
  from leaf(5) show ?case by (cases rule: compareRows_cases) auto
next
  case (split run depth rng mid run1 res)
  then show ?case by auto
qed auto

lemma descends_bounded:
  "descends rc ctx rng depth run res \<Longrightarrow>
   length (rn_out run) \<le> max_findings rc \<Longrightarrow> length (rn_out (fst res)) \<le> max_findings rc"
proof (induction rule: descends.induct)
  case (leaf run rng src tgt depth res)
  from leaf(5) show ?case using leaf(1) leaf.prems by (cases rule: compareRows_cases) (auto simp: is_full_iff)
next
  case (split run depth rng mid run1 res)
  then show ?case by simp
qed (auto simp: is_full_iff)

text \<open>The cost: at most two subranges per range, down to the depth limit.\<close>

definition levels :: "reconciler \<Rightarrow> nat \<Rightarrow> nat" where
  "levels rc depth = nat (ro_MaxDepth (rc_opts rc)) + 1 - depth"

lemma compareRows_stats:
  assumes "compareRows rc rng src tgt depth run = res"
  shows "st_RangesVisited (rn_stats (fst res)) = st_RangesVisited (rn_stats run)
    \<and> st_DigestQueries (rn_stats (fst res)) = st_DigestQueries (rn_stats run)
    \<and> st_MaxDepth (rn_stats (fst res)) = st_MaxDepth (rn_stats run)
    \<and> st_RowReads (rn_stats (fst res)) \<le> st_RowReads (rn_stats run) + 2"
  using assms by (cases rule: compareRows_cases) auto

lemma descends_cost:
  "descends rc ctx rng depth run res \<Longrightarrow> int depth \<le> ro_MaxDepth (rc_opts rc) \<Longrightarrow>
     st_RangesVisited (rn_stats (fst res)) < st_RangesVisited (rn_stats run) + 2 ^ levels rc depth
   \<and> st_DigestQueries (rn_stats (fst res)) + 2 * st_RangesVisited (rn_stats run)
       \<le> st_DigestQueries (rn_stats run) + 2 * st_RangesVisited (rn_stats (fst res))
   \<and> st_RowReads (rn_stats (fst res)) + 2 * st_RangesVisited (rn_stats run)
       \<le> st_RowReads (rn_stats run) + 2 * st_RangesVisited (rn_stats (fst res))
   \<and> (int (st_MaxDepth (rn_stats run)) \<le> ro_MaxDepth (rc_opts rc) \<longrightarrow>
       int (st_MaxDepth (rn_stats (fst res))) \<le> ro_MaxDepth (rc_opts rc))"
proof (induction rule: descends.induct)
  case (unreadable rng depth run e)
  have "2 ^ 1 \<le> (2::nat) ^ levels rc depth"
    using unreadable by (intro power_increasing) (auto simp: levels_def)
  then show ?case using unreadable by (simp add: visit_def max_def)
next
  case (matched run rng src tgt depth)
  have "2 ^ 1 \<le> (2::nat) ^ levels rc depth"
    using matched by (intro power_increasing) (auto simp: levels_def)
  then show ?case using matched by (simp add: visit_def charge_digests_def max_def)
next
  case (leaf run rng src tgt depth res)
  have "2 ^ 1 \<le> (2::nat) ^ levels rc depth"
    using leaf by (intro power_increasing) (auto simp: levels_def)
  then show ?case using leaf compareRows_stats [OF leaf(5)] by (simp add: visit_def charge_digests_def max_def)
next
  case (split_fault run depth rng mid run1 e)
  have "levels rc depth = Suc (levels rc (depth + 1))" using split_fault(2) by (simp add: levels_def)
  moreover obtain x where "2 ^ levels rc (Suc depth) = Suc x" by (metis not0_implies_Suc power_not_zero zero_neq_numeral)
  ultimately show ?case using split_fault by (simp add: visit_def charge_digests_def max_def)
next
  case (split run depth rng mid run1 res)
  have "levels rc depth = Suc (levels rc (depth + 1))" using split(2) by (simp add: levels_def)
  then show ?case using split by (auto simp: visit_def charge_digests_def max_def)
qed auto

section \<open>Every reported row differs\<close>

fun row_judged :: "finding \<Rightarrow> row_digest option \<Rightarrow> row_digest option \<Rightarrow> bool" where
  "row_judged f (Some d) None = (fd_Kind f = MissingInTarget \<and> fd_Key f = rd_Key d)"
| "row_judged f None (Some d) = (fd_Kind f = MissingInSource \<and> fd_Key f = rd_Key d)"
| "row_judged f (Some d) (Some t) =
     (fd_Kind f = ValueMismatch \<and> fd_Key f = rd_Key d \<and> rd_Digest d \<noteq> rd_Digest t)"
| "row_judged f None None = False"

definition judged_in :: "reconciler \<Rightarrow> string \<Rightarrow> finding \<Rightarrow> bool" where
  "judged_in rc col f =
     (\<exists>Rows r S T k. rc_rows rc = Some Rows \<and> rg_Column r = col \<and> Rows SourceSide r = Inr S
        \<and> Rows TargetSide r = Inr T \<and> row_judged f (map_of S k) (map_of T k))"

definition range_judged :: "reconciler \<Rightarrow> string \<Rightarrow> finding \<Rightarrow> bool" where
  "range_judged rc col f =
     (\<exists>r src tgt. fd_Kind f = RangeUnresolved \<and> fd_Range f = Some r \<and> rg_Column r = col
        \<and> rc_digester rc SourceSide r = Inr src \<and> rc_digester rc TargetSide r = Inr tgt
        \<and> \<not> Digest_Equal src tgt)"

definition justified :: "reconciler \<Rightarrow> string \<Rightarrow> finding \<Rightarrow> bool" where
  "justified rc col f = (fd_Table f = rc_table rc \<and> (range_judged rc col f \<or> judged_in rc col f))"

lemma map_of_key: "k \<in> fst ` set al \<Longrightarrow> \<exists>d. map_of al k = Some d"
  by (simp add: map_of_eq_None_iff flip: not_None_eq)

lemma row_reports_justified:
  assumes "f \<in> set (row_reports rc now S T)" and "rc_rows rc = Some Rows"
    and "Rows SourceSide r = Inr S" and "Rows TargetSide r = Inr T"
  shows "justified rc (rg_Column r) f"
proof -
  from assms(1) consider (src) k where "k \<in> fst ` set S" "source_report rc now S T k = Some f"
    | (tgt) k where "k \<in> fst ` set T" "target_report rc now S T k = Some f"
    by (auto simp: row_reports_def set_map_filter_iff)
  then have "fd_Table f = rc_table rc \<and> (\<exists>k. row_judged f (map_of S k) (map_of T k))"
  proof cases
    case src
    obtain d where "map_of S k = Some d" using map_of_key [OF src(1)] ..
    with src(2) have "fd_Table f = rc_table rc \<and> row_judged f (map_of S k) (map_of T k)"
      by (cases "map_of T k") (auto simp: source_report_def split: if_splits)
    then show ?thesis by blast
  next
    case tgt
    obtain d where "map_of T k = Some d" using map_of_key [OF tgt(1)] ..
    with tgt(2) have "fd_Table f = rc_table rc \<and> row_judged f (map_of S k) (map_of T k)"
      by (cases "map_of S k") (auto simp: target_report_def)
    then show ?thesis by blast
  qed
  then show ?thesis using assms(2-4) unfolding justified_def judged_in_def by blast
qed

lemma descends_justified:
  "descends rc ctx rng depth run res \<Longrightarrow> \<forall>f \<in> set (rn_out run). justified rc (rg_Column rng) f \<Longrightarrow>
   \<forall>f \<in> set (rn_out (fst res)). justified rc (rg_Column rng) f"
proof (induction rule: descends.induct)
  case (leaf run rng src tgt depth res)
  from leaf(5) show ?case
  proof (cases rule: compareRows_cases)
    case (range now detail)
    then show ?thesis using leaf by (auto simp: justified_def range_judged_def range_finding_def)
  next
    case (rows Rows S T now)
    then show ?thesis using leaf.prems row_reports_justified [OF _ rows(1-3)] by (auto dest: in_set_takeD)
  qed (use leaf.prems in auto)
qed auto

section \<open>Every difference is reported\<close>

lemma BisectorFor_mid: "BisectorFor fmt sample low high = (mid, True) \<Longrightarrow> mid \<noteq> GNil"
  by (auto simp: BisectorFor_def IntBisect_def StringBisect_def TimeBisect_def Let_def
      split: gval.splits option.splits if_splits)

lemma recon_bisect_mid: "recon_bisect rc rng = (mid, True) \<Longrightarrow> mid \<noteq> GNil"
  by (auto simp: recon_bisect_def Let_def IntBisect_def dest: BisectorFor_mid split: if_splits)

definition hidden :: "reconciler \<Rightarrow> key_range \<Rightarrow> bool" where
  "hidden rc r = (\<exists>src tgt. rc_digester rc SourceSide r = Inr src \<and> rc_digester rc TargetSide r = Inr tgt
     \<and> (Digest_Equal src tgt \<or> Empty src \<and> Empty tgt))"

fun kinds_of :: "side \<Rightarrow> finding_kind set" where
  "kinds_of SourceSide = {MissingInTarget, ValueMismatch}"
| "kinds_of TargetSide = {MissingInSource}"

text \<open>
  What the reconciler needs of a row reader. For the keys in \<open>good\<close>, a range read returns exactly
  the stored row when the range covers it, and a covered row stays covered by one half of the
  range when the range is split, wherever that happens.
\<close>

locale row_source =
  fixes Rows :: row_reader
    and stored :: "side \<Rightarrow> string \<Rightarrow> row_digest option"
    and covers :: "side \<Rightarrow> key_range \<Rightarrow> string \<Rightarrow> bool"
    and good :: "string \<Rightarrow> bool"
    and col :: string
  assumes read: "good k \<Longrightarrow> rg_Column r = col \<Longrightarrow> Rows s r = Inr m \<Longrightarrow>
      map_of m k = (if covers s r k then stored s k else None)"
    and splits: "good k \<Longrightarrow> rg_Column r = col \<Longrightarrow> mid \<noteq> GNil \<Longrightarrow> covers s r k \<Longrightarrow>
      covers s (r\<lparr>rg_High := mid\<rparr>) k \<or> covers s (r\<lparr>rg_Low := mid\<rparr>) k"
begin

definition differs :: "side \<Rightarrow> string \<Rightarrow> row_digest \<Rightarrow> bool" where
  "differs s k d = (case s of
      SourceSide \<Rightarrow> \<forall>t. stored TargetSide k = Some t \<longrightarrow> rd_Digest t \<noteq> rd_Digest d
    | TargetSide \<Rightarrow> stored SourceSide k = None)"

definition located :: "side \<Rightarrow> string \<Rightarrow> row_digest \<Rightarrow> finding \<Rightarrow> bool" where
  "located s k d f =
     (fd_Kind f \<in> kinds_of s \<and> fd_Key f = rd_Key d
      \<or> fd_Kind f = RangeUnresolved \<and> (\<exists>r. fd_Range f = Some r \<and> covers s r k))"

lemma leaf_locates:
  assumes "good k" and "rg_Column r = col" and "covers s r k" and "stored s k = Some d" and "differs s k d"
    and S: "Rows SourceSide r = Inr S" and T: "Rows TargetSide r = Inr T"
  shows "\<exists>f \<in> set (row_reports rc now S T). located s k d f"
proof (cases s)
  case SourceSide
  have d: "map_of S k = Some d" using read [OF assms(1,2) S] assms(3,4) SourceSide by simp
  then have "k \<in> fst ` set S" by (metis map_of_eq_None_iff option.distinct(1))
  moreover have "\<exists>f. source_report rc now S T k = Some f \<and> located s k d f"
  proof (cases "map_of T k")
    case None
    then show ?thesis using d SourceSide
      by (simp add: source_report_def located_def)
  next
    case (Some t)
    then have "rd_Digest t \<noteq> rd_Digest d"
      using read [OF assms(1,2) T] assms(5) SourceSide by (auto simp: differs_def split: if_splits)
    with Some d SourceSide show ?thesis
      by (auto simp: source_report_def located_def)
  qed
  ultimately show ?thesis by (force simp: row_reports_def set_map_filter_iff)
next
  case TargetSide
  have d: "map_of T k = Some d" using read [OF assms(1,2) T] assms(3,4) TargetSide by simp
  then have "k \<in> fst ` set T" by (metis map_of_eq_None_iff option.distinct(1))
  moreover have "map_of S k = None"
    using read [OF assms(1,2) S] assms(5) TargetSide by (auto simp: differs_def split: if_splits)
  then have "\<exists>f. target_report rc now S T k = Some f \<and> located s k d f"
    using d TargetSide by (simp add: target_report_def located_def)
  ultimately show ?thesis by (force simp: row_reports_def set_map_filter_iff)
qed

lemma descends_locates:
  assumes "descends rc ctx r depth run res" and "rc_rows rc = Some Rows" and "snd res = None"
    and "length (rn_out (fst res)) < max_findings rc"
    and "good k" and "rg_Column r = col" and "covers s r k" and "stored s k = Some d" and "differs s k d"
  shows "(\<exists>f \<in> set (rn_out (fst res)). located s k d f)
    \<or> (\<exists>r'. rg_Column r' = col \<and> covers s r' k \<and> hidden rc r')"
  using assms
proof (induction rule: descends.induct)
  case (full run rng depth)
  then show ?case by (simp add: is_full_iff)
next
  case (matched run rng src tgt depth)
  then show ?case by (auto simp: hidden_def)
next
  case (leaf run rng src tgt depth res)
  from leaf(5) show ?case
  proof (cases rule: compareRows_cases)
    case (range now detail)
    then show ?thesis using leaf by (auto simp: located_def range_finding_def)
  next
    case (fault e)
    then show ?thesis using leaf by simp
  next
    case (rows Rows' S T now)
    then have "length (row_reports rc now S T) \<le> max_findings rc - length (rn_out run)"
      using leaf.prems(3) by (auto simp: min_def split: if_splits)
    moreover have "\<exists>f \<in> set (row_reports rc now S T). located s k d f"
      using leaf_locates [OF leaf.prems(4-8)] rows leaf.prems(1) by simp
    ultimately show ?thesis using rows by auto
  qed
next
  case (split run depth rng mid run1 res)
  have cov: "covers s (rng\<lparr>rg_High := mid\<rparr>) k \<or> covers s (rng\<lparr>rg_Low := mid\<rparr>) k"
    using splits [OF split.prems(4,5) recon_bisect_mid [OF split(3)] split.prems(6)] .
  obtain xs where xs: "rn_out (fst res) = rn_out run1 @ xs" using descends_extends [OF split(5)] by auto
  show ?case
  proof (cases "covers s (rng\<lparr>rg_High := mid\<rparr>) k")
    case True
    then have "(\<exists>f \<in> set (rn_out run1). located s k d f)
        \<or> (\<exists>r'. rg_Column r' = col \<and> covers s r' k \<and> hidden rc r')"
      using split.IH(1) split.prems xs by simp
    then show ?thesis using xs by auto
  next
    case False
    then show ?thesis using cov split.IH(2) split.prems by simp
  qed
qed simp_all

end

section \<open>The databases as a row source\<close>

definition key_text :: "sql_pair \<Rightarrow> table_row \<Rightarrow> string" where
  "key_text p w = Canonical (scanned_key p (tw_values w))"

definition row_digest_of :: "sql_pair \<Rightarrow> side \<Rightarrow> table_row \<Rightarrow> row_digest" where
  "row_digest_of p s w = \<lparr>rd_Key = scanned_key p (tw_values w), rd_Digest = row_hash p s (tw_values w)\<rparr>"

definition rows_of_key :: "sql_pair \<Rightarrow> side \<Rightarrow> string \<Rightarrow> table_row list" where
  "rows_of_key p s k = filter (\<lambda>w. key_text p w = k) (pick p s)"

definition stored_row :: "sql_pair \<Rightarrow> side \<Rightarrow> string \<Rightarrow> row_digest option" where
  "stored_row p s k = (case rows_of_key p s k of [] \<Rightarrow> None | w # _ \<Rightarrow> Some (row_digest_of p s w))"

definition covers_key :: "sql_pair \<Rightarrow> side \<Rightarrow> key_range \<Rightarrow> string \<Rightarrow> bool" where
  "covers_key p s r k = list_ex (\<lambda>w. range_holds p r (tw_values w)) (rows_of_key p s k)"

text \<open>
  A key in good order: at most one row carries it on each side, and the value it is chunked by
  lies on one side or the other of every bound (so it is not NULL).
\<close>

definition good_key :: "sql_pair \<Rightarrow> string \<Rightarrow> bool" where
  "good_key p k =
     (\<forall>s. length (rows_of_key p s k) \<le> 1
        \<and> (\<forall>w \<in> set (rows_of_key p s k). \<forall>b. b \<noteq> GNil \<longrightarrow>
             (let v = gomap_get (tw_values w) (ts_Key (sp_Spec p)) in sp_gt p v b \<or> sp_le p v b)))"

lemma collect_rows_map_of:
  "map_of (fold (collect_row p s) ws m) k
   = (let ms = filter (\<lambda>w. key_text p w = k) ws in
      if ms = [] then map_of m k else Some (row_digest_of p s (List.last ms)))"
  by (induction ws arbitrary: m)
     (auto simp: Let_def collect_row_def key_text_def row_digest_of_def update_conv')

lemma default_column_id: "rg_Column r = ts_Key (sp_Spec p) \<Longrightarrow> default_column p r = r"
  by (simp add: default_column_def)

interpretation pair: row_source "pair_Rows p" "stored_row p" "covers_key p" "good_key p" "ts_Key (sp_Spec p)"
  for p
proof unfold_locales
  fix k r s m
  assume good: "good_key p k" and col: "rg_Column r = ts_Key (sp_Spec p)" and "pair_Rows p s r = Inr m"
  then have m: "m = fold (collect_row p s) (filter (\<lambda>w. range_holds p r (tw_values w)) (pick p s)) []"
    by (auto simp: pair_Rows_def Let_def default_column_id split: option.splits)
  have "filter (\<lambda>w. key_text p w = k) (filter (\<lambda>w. range_holds p r (tw_values w)) (pick p s))
      = filter (\<lambda>w. range_holds p r (tw_values w)) (rows_of_key p s k)"
    by (simp add: rows_of_key_def conj_commute)
  moreover have "rows_of_key p s k = [] \<or> (\<exists>w. rows_of_key p s k = [w])"
    using good by (cases "rows_of_key p s k") (auto simp: good_key_def dest: spec [of _ s])
  ultimately show "map_of m k = (if covers_key p s r k then stored_row p s k else None)"
    unfolding m collect_rows_map_of
    by (elim disjE exE; simp only:; simp add: Let_def covers_key_def stored_row_def)
next
  fix k r mid s
  assume good: "good_key p k" and col: "rg_Column r = ts_Key (sp_Spec p)" and "mid \<noteq> GNil"
    and cov: "covers_key p s r k"
  from cov obtain w where w: "w \<in> set (rows_of_key p s k)" "range_holds p r (tw_values w)"
    by (auto simp: covers_key_def list_ex_iff)
  then have "sp_gt p (gomap_get (tw_values w) (ts_Key (sp_Spec p))) mid
      \<or> sp_le p (gomap_get (tw_values w) (ts_Key (sp_Spec p))) mid"
    using good \<open>mid \<noteq> GNil\<close> by (auto simp: good_key_def Let_def)
  then have "range_holds p (r\<lparr>rg_High := mid\<rparr>) (tw_values w) \<or> range_holds p (r\<lparr>rg_Low := mid\<rparr>) (tw_values w)"
    using w(2) col by (auto simp: range_holds_def Let_def)
  then show "covers_key p s (r\<lparr>rg_High := mid\<rparr>) k \<or> covers_key p s (r\<lparr>rg_Low := mid\<rparr>) k"
    using w(1) by (auto simp: covers_key_def list_ex_iff)
qed

section \<open>Digests as numbers\<close>


lemma digit_plain:
  "c \<in> set (digits n) \<Longrightarrow> \<not> is_space c \<and> c \<noteq> CHR ''.'' \<and> c \<noteq> CHR ''+'' \<and> c \<noteq> CHR ''n'' \<and> c \<noteq> CHR ''N''"
  using digits_chars [of c n] by (auto simp: is_space_def)

lemma normaliseNumeric_digits: "normaliseNumeric (digits n) = digits n"
proof -
  have "TrimSpace (digits n) = digits n"
    using digit_plain [of _ n] by (intro TrimSpace_id) auto
  moreover have "ToLower (digits n) \<noteq> ''null''"
  proof
    assume "ToLower (digits n) = ''null''"
    then have "lower_char (hd (digits n)) = CHR ''n''" by (cases "digits n") (auto simp: ToLower_def)
    moreover have "hd (digits n) \<in> set (digits n)" by simp
    then have "lower_char (hd (digits n)) = hd (digits n)"
      using digits_chars [of "hd (digits n)" n] by (simp add: lower_char_def)
    ultimately show False using digit_plain [of "CHR ''n''" n] \<open>hd (digits n) \<in> set (digits n)\<close> by simp
  qed
  moreover have "dropWhile (\<lambda>c. c = CHR ''+'') (digits n) = digits n"
    using digit_plain [of _ n] by (intro dropWhile_plain) auto
  moreover have "CHR ''.'' \<notin> set (digits n)" using digit_plain [of "CHR ''.''" n] by auto
  moreover have "digits n \<noteq> ''-''" using digits_no_minus [of n] by (metis list.set_intros(1))
  ultimately show ?thesis by (simp add: normaliseNumeric_def Let_def del: dropWhile_eq_Nil_conv)
qed

text \<open>The live rows a digest sums over, and what it sums.\<close>

definition live_hashes :: "sql_pair \<Rightarrow> side \<Rightarrow> key_range \<Rightarrow> string list" where
  "live_hashes p s r = map (\<lambda>w. row_hash p s (tw_values w)) (filter (where_holds p r False) (pick p s))"

definition same_sums :: "sql_pair \<Rightarrow> key_range \<Rightarrow> bool" where
  "same_sums p r =
     (let hs = live_hashes p SourceSide r; ht = live_hashes p TargetSide r in
      length hs = length ht \<and> sum_list (map (hash60 1) hs) = sum_list (map (hash60 1) ht)
      \<and> sum_list (map (hash60 17) hs) = sum_list (map (hash60 17) ht))"

lemma Digest_Equal_sums:
  "Digest_Equal (range_digest p SourceSide r False) (range_digest p TargetSide r False) \<longleftrightarrow> same_sums p r"
  by (simp add: Digest_Equal_def range_digest_def same_sums_def live_hashes_def Let_def normaliseNumeric_digits)

lemma Empty_sums:
  "Empty (range_digest p SourceSide r False) \<and> Empty (range_digest p TargetSide r False) \<Longrightarrow> same_sums p r"
  by (simp add: Empty_def range_digest_def same_sums_def live_hashes_def Let_def)

lemma hidden_sums:
  assumes "rc_digester rc = pair_Digest p" and "rg_Column r = ts_Key (sp_Spec p)" and "hidden rc r"
  shows "same_sums p r"
  using assms Empty_sums Digest_Equal_sums
  by (auto simp: hidden_def pair_Digest_def Let_def default_column_id split: option.splits)

section \<open>What a run over two tables tells\<close>

definition run_of ::
  "sql_pair \<Rightarrow> recon_options \<Rightarrow> (string \<Rightarrow> 8 word list) \<Rightarrow> (gotime \<Rightarrow> string) \<Rightarrow> (nat \<Rightarrow> go_error option)
   \<Rightarrow> (recon_stats \<times> finding list) \<times> go_error option" where
  "run_of p opts sum256 fmt ctx =
     Reconcile (pair_reconciler p opts sum256 fmt) ctx (FullRange (sp_Spec p))"

lemma pair_reconciler_simps [simp]:
  "rc_digester (pair_reconciler p opts sum256 fmt) = pair_Digest p"
  "rc_rows (pair_reconciler p opts sum256 fmt) = Some (pair_Rows p)"
  "rc_table (pair_reconciler p opts sum256 fmt) = ts_Source (sp_Spec p)"
  "rc_keyCol (pair_reconciler p opts sum256 fmt) = ts_Key (sp_Spec p)"
  "rc_opts (pair_reconciler p opts sum256 fmt) = recon_applyDefaults opts"
  by (simp_all add: pair_reconciler_def New_reconciler_def)

text \<open>A run is a descent from the full range, its findings a sorted copy of what that collects.\<close>

lemma run_of_descends:
  assumes "run_of p opts sum256 fmt ctx = ((stats, fs), err)"
  obtains run where
    "descends (pair_reconciler p opts sum256 fmt) ctx (FullRange (sp_Spec p)) 0
       \<lparr>rn_stats = zero_stats, rn_out = []\<rparr> (run, err)"
    "stats = rn_stats run" "mset fs = mset (rn_out run)"
proof -
  let ?rc = "pair_reconciler p opts sum256 fmt"
  let ?run0 = "\<lparr>rn_stats = zero_stats, rn_out = []\<rparr>"
  obtain run e where run: "descend ?rc ctx (FullRange (sp_Spec p)) 0 ?run0 = (run, e)"
    by (cases "descend ?rc ctx (FullRange (sp_Spec p)) 0 ?run0")
  have rng: "(if rg_Column (FullRange (sp_Spec p)) = [] then FullRange (sp_Spec p)\<lparr>rg_Column := rc_keyCol ?rc\<rparr>
      else FullRange (sp_Spec p)) = FullRange (sp_Spec p)"
    by (simp add: FullRange_def)
  have "stats = rn_stats run \<and> mset fs = mset (rn_out run) \<and> err = e"
    using assms run unfolding run_of_def Reconcile_def Let_def rng by (auto split: option.splits)
  then show thesis using that descend_descends [of ?rc ctx "FullRange (sp_Spec p)" 0 ?run0] run by metis
qed

lemma max_findings_pos: "0 < max_findings (pair_reconciler p opts sum256 fmt)"
  by (simp add: max_findings_def recon_applyDefaults_def)

lemma set_run: "mset fs = mset xs \<Longrightarrow> set fs = set xs \<and> length fs = length xs"
  by (metis mset_eq_setD mset_eq_length)

lemma Reconcile_misses_nothing:
  assumes "run_of p opts sum256 fmt ctx = ((stats, fs), None)"
    and "int (length fs) < ro_MaxFindings (recon_applyDefaults opts)"
    and "w \<in> set (pick p s)" and "good_key p (key_text p w)"
    and "case s of
        SourceSide \<Rightarrow> \<forall>v \<in> set (sp_Target p). key_text p v = key_text p w \<longrightarrow>
          row_hash p TargetSide (tw_values v) \<noteq> row_hash p SourceSide (tw_values w)
      | TargetSide \<Rightarrow> \<forall>v \<in> set (sp_Source p). key_text p v \<noteq> key_text p w"
  shows "(\<exists>f \<in> set fs. fd_Kind f \<in> kinds_of s \<and> fd_Key f = scanned_key p (tw_values w))
    \<or> (\<exists>f \<in> set fs. \<exists>r. fd_Kind f = RangeUnresolved \<and> fd_Range f = Some r \<and> range_holds p r (tw_values w))
    \<or> (\<exists>r. range_holds p r (tw_values w) \<and> same_sums p r)"
proof -
  let ?rc = "pair_reconciler p opts sum256 fmt"
  obtain run where run: "descends ?rc ctx (FullRange (sp_Spec p)) 0
      \<lparr>rn_stats = zero_stats, rn_out = []\<rparr> (run, None)" and fs: "mset fs = mset (rn_out run)"
    using run_of_descends [OF assms(1)] by metis
  have below: "length (rn_out run) < max_findings ?rc"
    using assms(2) set_run [OF fs] by (simp add: max_findings_def)
  have only: "rows_of_key p s (key_text p w) = [w]"
  proof -
    have "w \<in> set (rows_of_key p s (key_text p w))" using assms(3) by (simp add: rows_of_key_def)
    moreover have "length (rows_of_key p s (key_text p w)) \<le> 1" using assms(4) by (simp add: good_key_def)
    ultimately show ?thesis by (cases "rows_of_key p s (key_text p w)") auto
  qed
  have full: "covers_key p s (FullRange (sp_Spec p)) (key_text p w)"
    using only by (simp add: covers_key_def range_holds_def FullRange_def)
  have st: "stored_row p s (key_text p w) = Some (row_digest_of p s w)"
    using only by (simp add: stored_row_def)
  have other: "\<exists>v \<in> set (pick p s'). key_text p v = k \<and> t = row_digest_of p s' v"
    if stored: "stored_row p s' k = Some t" for s' k t
  proof -
    obtain v vs where v: "rows_of_key p s' k = v # vs" "t = row_digest_of p s' v"
      using stored by (cases "rows_of_key p s' k") (auto simp: stored_row_def)
    then have "v \<in> set (rows_of_key p s' k)" by simp
    with v(2) show ?thesis by (auto simp: rows_of_key_def)
  qed
  have "pair.differs p s (key_text p w) (row_digest_of p s w)"
  proof (cases s)
    case SourceSide
    then show ?thesis using assms(5) other [of TargetSide "key_text p w"]
      by (auto simp: pair.differs_def row_digest_of_def)
  next
    case TargetSide
    then have "stored_row p SourceSide (key_text p w) = None"
      using assms(5) other [of SourceSide "key_text p w"] by (cases "stored_row p SourceSide (key_text p w)") auto
    with TargetSide show ?thesis by (simp add: pair.differs_def)
  qed
  from pair.descends_locates [OF run _ _ _ assms(4) _ full st this]
  have "(\<exists>f \<in> set (rn_out run). pair.located p s (key_text p w) (row_digest_of p s w) f)
    \<or> (\<exists>r'. rg_Column r' = ts_Key (sp_Spec p) \<and> covers_key p s r' (key_text p w) \<and> hidden ?rc r')"
    using below by (simp add: FullRange_def)
  then show ?thesis
  proof
    assume "\<exists>f \<in> set (rn_out run). pair.located p s (key_text p w) (row_digest_of p s w) f"
    then show ?thesis using set_run [OF fs] only
      by (auto simp: pair.located_def covers_key_def row_digest_of_def)
  next
    assume "\<exists>r'. rg_Column r' = ts_Key (sp_Spec p) \<and> covers_key p s r' (key_text p w) \<and> hidden ?rc r'"
    then obtain r' where "rg_Column r' = ts_Key (sp_Spec p)" "range_holds p r' (tw_values w)" "hidden ?rc r'"
      using only by (auto simp: covers_key_def)
    then show ?thesis using hidden_sums [of ?rc p r'] by auto
  qed
qed

text \<open>
  C6: no difference is missed. When a run over two whole tables ends without an error and below
  its limit of findings, then every source row that the target lacks or holds with another
  digest, and every target row whose key the source lacks, is reported under its key with the
  right kind, or lies in a range reported as unresolved, or lies in a range in which both sides
  have the same number of live rows and the same two sums of row digests. That holds for any
  table sizes, any midpoints and any depth limit; the key must be carried by one row a side and
  be comparable with every bound.
\<close>

theorem Reconcile_complete:
  assumes "run_of p opts sum256 fmt ctx = ((stats, fs), None)"
    and "int (length fs) < ro_MaxFindings (recon_applyDefaults opts)"
    and "w \<in> set (pick p s)" and "good_key p (key_text p w)"
    and "case s of
        SourceSide \<Rightarrow> \<forall>v \<in> set (sp_Target p). key_text p v = key_text p w \<longrightarrow>
          row_hash p TargetSide (tw_values v) \<noteq> row_hash p SourceSide (tw_values w)
      | TargetSide \<Rightarrow> \<forall>v \<in> set (sp_Source p). key_text p v \<noteq> key_text p w"
  shows "(\<exists>f \<in> set fs. fd_Kind f \<in> kinds_of s \<and> fd_Key f = scanned_key p (tw_values w))
    \<or> (\<exists>f \<in> set fs. \<exists>r. fd_Kind f = RangeUnresolved \<and> fd_Range f = Some r \<and> range_holds p r (tw_values w))
    \<or> (\<exists>r. range_holds p r (tw_values w) \<and> same_sums p r)"
  using assms by (rule Reconcile_misses_nothing)

lemma pair_Rows_map_of:
  assumes "pair_Rows p s r = Inr m" and "rg_Column r = ts_Key (sp_Spec p)"
  shows "(map_of m k = None \<longrightarrow> (\<forall>w \<in> set (pick p s). key_text p w = k \<longrightarrow> \<not> range_holds p r (tw_values w)))
    \<and> (\<forall>d. map_of m k = Some d \<longrightarrow> (\<exists>w \<in> set (pick p s). key_text p w = k
         \<and> range_holds p r (tw_values w) \<and> d = row_digest_of p s w))"
proof -
  let ?ms = "filter (\<lambda>w. key_text p w = k) (filter (\<lambda>w. range_holds p r (tw_values w)) (pick p s))"
  have "m = fold (collect_row p s) (filter (\<lambda>w. range_holds p r (tw_values w)) (pick p s)) []"
    using assms by (auto simp: pair_Rows_def Let_def default_column_id split: option.splits)
  then have eq: "map_of m k = (if ?ms = [] then None else Some (row_digest_of p s (List.last ?ms)))"
    by (simp add: collect_rows_map_of Let_def del: filter_filter)
  show ?thesis
  proof (cases "?ms = []")
    case True
    have "\<not> range_holds p r (tw_values w)" if "w \<in> set (pick p s)" "key_text p w = k" for w
      using True that unfolding filter_empty_conv by auto
    with True eq show ?thesis by (simp del: filter_filter)
  next
    case False
    then have "List.last ?ms \<in> set ?ms" by (rule last_in_set)
    then have "List.last ?ms \<in> set (pick p s)" "key_text p (List.last ?ms) = k"
      "range_holds p r (tw_values (List.last ?ms))" by (auto simp del: filter_filter)
    with False eq show ?thesis by (auto simp del: filter_filter)
  qed
qed

lemma range_holds_value:
  "range_holds p r v \<noteq> range_holds p r w \<Longrightarrow> gomap_get v (rg_Column r) \<noteq> gomap_get w (rg_Column r)"
  by (auto simp: range_holds_def Let_def)

text \<open>
  C7: no false alarm about rows. Whatever faults cut the run short: a row reported missing in one
  database is in the other, and no row of the first has its key and its chunking value; a row
  reported as mismatched is in both databases under one key with different digests; a range
  reported as unresolved has different counts or sums on the two sides.
\<close>

theorem Reconcile_sound:
  assumes "run_of p opts sum256 fmt ctx = ((stats, fs), err)" and "f \<in> set fs"
  shows "fd_Table f = ts_Source (sp_Spec p) \<and>
    (case fd_Kind f of
       MissingInTarget \<Rightarrow> \<exists>w \<in> set (sp_Source p). fd_Key f = scanned_key p (tw_values w)
         \<and> (\<forall>v \<in> set (sp_Target p). key_text p v = key_text p w \<longrightarrow>
              gomap_get (tw_values v) (ts_Key (sp_Spec p)) \<noteq> gomap_get (tw_values w) (ts_Key (sp_Spec p)))
     | MissingInSource \<Rightarrow> \<exists>w \<in> set (sp_Target p). fd_Key f = scanned_key p (tw_values w)
         \<and> (\<forall>v \<in> set (sp_Source p). key_text p v = key_text p w \<longrightarrow>
              gomap_get (tw_values v) (ts_Key (sp_Spec p)) \<noteq> gomap_get (tw_values w) (ts_Key (sp_Spec p)))
     | ValueMismatch \<Rightarrow> \<exists>w \<in> set (sp_Source p). \<exists>v \<in> set (sp_Target p).
         fd_Key f = scanned_key p (tw_values w) \<and> key_text p v = key_text p w
         \<and> row_hash p SourceSide (tw_values w) \<noteq> row_hash p TargetSide (tw_values v)
     | RangeUnresolved \<Rightarrow> \<exists>r. fd_Range f = Some r \<and> \<not> same_sums p r)"
proof -
  let ?rc = "pair_reconciler p opts sum256 fmt"
  let ?col = "ts_Key (sp_Spec p)"
  obtain run where run: "descends ?rc ctx (FullRange (sp_Spec p)) 0
      \<lparr>rn_stats = zero_stats, rn_out = []\<rparr> (run, err)" and fs: "mset fs = mset (rn_out run)"
    using run_of_descends [OF assms(1)] by metis
  have "justified ?rc ?col f"
    using descends_justified [OF run] assms(2) set_run [OF fs] by (simp add: FullRange_def)
  then have table: "fd_Table f = ts_Source (sp_Spec p)"
    and "range_judged ?rc ?col f \<or> judged_in ?rc ?col f" by (simp_all add: justified_def)
  then show ?thesis
  proof (elim disjE)
    assume "range_judged ?rc ?col f"
    then obtain r src tgt where r: "fd_Kind f = RangeUnresolved" "fd_Range f = Some r" "rg_Column r = ?col"
      "pair_Digest p SourceSide r = Inr src" "pair_Digest p TargetSide r = Inr tgt" "\<not> Digest_Equal src tgt"
      by (auto simp: range_judged_def)
    then have "\<not> same_sums p r"
      by (auto simp: pair_Digest_def Let_def default_column_id Digest_Equal_sums split: option.splits)
    with r table show ?thesis by simp
  next
    assume "judged_in ?rc ?col f"
    then obtain r S T k where r: "rg_Column r = ?col" "pair_Rows p SourceSide r = Inr S"
      "pair_Rows p TargetSide r = Inr T" "row_judged f (map_of S k) (map_of T k)"
      by (auto simp: judged_in_def)
    note S = pair_Rows_map_of [OF r(2,1), of k] and T = pair_Rows_map_of [OF r(3,1), of k]
    show ?thesis
    proof (cases "map_of S k")
      case None
      then obtain t where t: "map_of T k = Some t" using r(4) by (cases "map_of T k") auto
      then obtain w where w: "w \<in> set (sp_Target p)" "key_text p w = k" "range_holds p r (tw_values w)"
        "t = row_digest_of p TargetSide w" using T by auto
      have "gomap_get (tw_values v) ?col \<noteq> gomap_get (tw_values w) ?col"
        if "v \<in> set (sp_Source p)" "key_text p v = k" for v
        using S None that w(3) range_holds_value [of p r "tw_values v" "tw_values w"] r(1) by auto
      then show ?thesis using r(4) None t w table by (auto simp: row_digest_of_def)
    next
      case (Some d)
      then obtain w where w: "w \<in> set (sp_Source p)" "key_text p w = k" "range_holds p r (tw_values w)"
        "d = row_digest_of p SourceSide w" using S by auto
      show ?thesis
      proof (cases "map_of T k")
        case None
        have "gomap_get (tw_values v) ?col \<noteq> gomap_get (tw_values w) ?col"
          if "v \<in> set (sp_Target p)" "key_text p v = k" for v
          using T None that w(3) range_holds_value [of p r "tw_values v" "tw_values w"] r(1) by auto
        then show ?thesis using r(4) None Some w table by (auto simp: row_digest_of_def)
      next
        case t: (Some t)
        then obtain v where v: "v \<in> set (sp_Target p)" "key_text p v = k" "t = row_digest_of p TargetSide v"
          using T by auto
        then have "fd_Key f = scanned_key p (tw_values w) \<and> key_text p v = key_text p w
            \<and> row_hash p SourceSide (tw_values w) \<noteq> row_hash p TargetSide (tw_values v)"
          and kind: "fd_Kind f = ValueMismatch"
          using r(4) Some t w by (simp_all add: row_digest_of_def)
        then show ?thesis using v(1) w(1) table by (simp only: kind finding_kind.case) blast
      qed
    qed
  qed
qed

section \<open>What a run costs\<close>

definition calm_pair :: "sql_pair \<Rightarrow> (nat \<Rightarrow> go_error option) \<Rightarrow> bool" where
  "calm_pair p ctx = ((\<forall>s r. sp_digest_fault p s r = None \<and> sp_rows_fault p s r = None) \<and> (\<forall>n. ctx n = None))"

lemma run_of_matched:
  assumes "calm_pair p ctx" and "same_sums p (FullRange (sp_Spec p))"
  shows "run_of p opts sum256 fmt ctx
    = ((\<lparr>st_DigestQueries = 2, st_RowReads = 0, st_MaxDepth = 0, st_RangesVisited = 1\<rparr>, []), None)"
proof -
  let ?rc = "pair_reconciler p opts sum256 fmt"
  have rng: "(if rg_Column (FullRange (sp_Spec p)) = [] then FullRange (sp_Spec p)\<lparr>rg_Column := rc_keyCol ?rc\<rparr>
      else FullRange (sp_Spec p)) = FullRange (sp_Spec p)" by (simp add: FullRange_def)
  have "pair_Digest p s (FullRange (sp_Spec p)) = Inr (range_digest p s (FullRange (sp_Spec p)) False)" for s
    using assms(1) by (simp add: pair_Digest_def Let_def default_column_id FullRange_def calm_pair_def)
  moreover have "\<not> is_full ?rc []" using max_findings_pos by (simp add: is_full_iff not_le)
  ultimately have "descend ?rc ctx (FullRange (sp_Spec p)) 0 \<lparr>rn_stats = zero_stats, rn_out = []\<rparr>
      = (charge_digests (visit 0 \<lparr>rn_stats = zero_stats, rn_out = []\<rparr>), None)"
    using assms by (subst descend.simps) (simp add: Digest_Equal_sums calm_pair_def Let_def)
  then show ?thesis unfolding run_of_def Reconcile_def Let_def rng
    by (simp add: charge_digests_def visit_def zero_stats_def)
qed

text \<open>
  the cost of a run. Two tables with the same count and sums are confirmed equal by two digest
  queries and no row read, whatever their size. Any run, also one that ends in an error, visits
  fewer than two to the power of one more than the depth limit of ranges, makes at most two digest queries and two row reads for
  each, stays within the depth limit and within the limit of findings.
\<close>

theorem Reconcile_cost:
  "(case run_of p opts sum256 fmt ctx of ((stats, fs), err) \<Rightarrow>
      st_RangesVisited stats < 2 ^ (nat (ro_MaxDepth (recon_applyDefaults opts)) + 1)
      \<and> st_DigestQueries stats \<le> 2 * st_RangesVisited stats
      \<and> st_RowReads stats \<le> 2 * st_RangesVisited stats
      \<and> int (st_MaxDepth stats) \<le> ro_MaxDepth (recon_applyDefaults opts)
      \<and> int (length fs) \<le> ro_MaxFindings (recon_applyDefaults opts))
   \<and> (calm_pair p ctx \<and> same_sums p (FullRange (sp_Spec p)) \<longrightarrow>
      run_of p opts sum256 fmt ctx
      = ((\<lparr>st_DigestQueries = 2, st_RowReads = 0, st_MaxDepth = 0, st_RangesVisited = 1\<rparr>, []), None))"
proof (intro conjI impI)
  let ?rc = "pair_reconciler p opts sum256 fmt"
  obtain stats fs err where res: "run_of p opts sum256 fmt ctx = ((stats, fs), err)"
    by (cases "run_of p opts sum256 fmt ctx") auto
  obtain run where run: "descends ?rc ctx (FullRange (sp_Spec p)) 0
      \<lparr>rn_stats = zero_stats, rn_out = []\<rparr> (run, err)" and fs: "mset fs = mset (rn_out run)"
    and stats: "stats = rn_stats run"
    using run_of_descends [OF res] by metis
  have pos: "0 < ro_MaxDepth (rc_opts ?rc)" "0 < ro_MaxFindings (rc_opts ?rc)"
    by (simp_all add: recon_applyDefaults_def)
  have "int (length fs) \<le> ro_MaxFindings (rc_opts ?rc)"
    using descends_bounded [OF run] set_run [OF fs] pos(2) by (simp add: max_findings_def)
  with descends_cost [OF run] pos stats
  show "case run_of p opts sum256 fmt ctx of ((stats, fs), err) \<Rightarrow>
      st_RangesVisited stats < 2 ^ (nat (ro_MaxDepth (recon_applyDefaults opts)) + 1)
      \<and> st_DigestQueries stats \<le> 2 * st_RangesVisited stats
      \<and> st_RowReads stats \<le> 2 * st_RangesVisited stats
      \<and> int (st_MaxDepth stats) \<le> ro_MaxDepth (recon_applyDefaults opts)
      \<and> int (length fs) \<le> ro_MaxFindings (recon_applyDefaults opts)"
    by (simp add: res levels_def zero_stats_def)
next
  assume "calm_pair p ctx \<and> same_sums p (FullRange (sp_Spec p))"
  then show "run_of p opts sum256 fmt ctx
      = ((\<lparr>st_DigestQueries = 2, st_RowReads = 0, st_MaxDepth = 0, st_RangesVisited = 1\<rparr>, []), None)"
    using run_of_matched by blast
qed

section \<open>Tombstones\<close>

lemma collect_row_side:
  assumes "sp_hash p TargetSide = sp_hash p SourceSide"
  shows "collect_row p TargetSide (w\<lparr>tw_deleted := b\<rparr>) = collect_row p SourceSide w"
  using assms by (simp add: fun_eq_iff collect_row_def row_hash_def Let_def)

lemma fold_collect_marked:
  assumes "sp_hash p TargetSide = sp_hash p SourceSide"
  shows "fold (collect_row p TargetSide)
      (filter (\<lambda>w. range_holds p r (tw_values w)) (map (\<lambda>w. w\<lparr>tw_deleted := mark w\<rparr>) ws)) m
    = fold (collect_row p SourceSide) (filter (\<lambda>w. range_holds p r (tw_values w)) ws) m"
  by (induction ws arbitrary: m) (simp_all add: collect_row_side [OF assms])

lemma row_reports_same: "row_reports rc now S S = []"
proof -
  have "source_report rc now S S k = None \<and> target_report rc now S S k = None" if "k \<in> fst ` set S" for k
    using map_of_key [OF that] by (auto simp: source_report_def target_report_def)
  then show ?thesis unfolding row_reports_def by (simp, intro conjI map_filter_none) simp_all
qed

text \<open>
  C32: the comparison cannot see a wrong deletion. If the target holds the same rows as the source
  but any of them are marked deleted there, and the table fits into one leaf, the run reports
  nothing at all: the digests leave tombstones out, the row reads do not, so the ranges that the
  digests tell apart compare as equal row by row. A row that the source still has and the target
  has tombstoned therefore passes as reconciled.
\<close>

theorem Reconcile_blind_to_tombstones:
  assumes "calm_pair p ctx" and "sp_hash p TargetSide = sp_hash p SourceSide"
    and "sp_Target p = map (\<lambda>w. w\<lparr>tw_deleted := mark w\<rparr>) (sp_Source p)"
    and "int (length (sp_Source p)) \<le> ro_LeafRows (recon_applyDefaults opts)"
  shows "snd (fst (run_of p opts sum256 fmt ctx)) = [] \<and> snd (run_of p opts sum256 fmt ctx) = None"
proof -
  let ?rc = "pair_reconciler p opts sum256 fmt"
  let ?r = "FullRange (sp_Spec p)"
  let ?run0 = "\<lparr>rn_stats = zero_stats, rn_out = []\<rparr>"
  let ?src = "range_digest p SourceSide ?r False" and ?tgt = "range_digest p TargetSide ?r False"
  have rng: "(if rg_Column ?r = [] then ?r\<lparr>rg_Column := rc_keyCol ?rc\<rparr> else ?r) = ?r"
    by (simp add: FullRange_def)
  have dig: "pair_Digest p s ?r = Inr (range_digest p s ?r False)" for s
    using assms(1) by (simp add: pair_Digest_def Let_def default_column_id FullRange_def calm_pair_def)
  have len: "length (sp_Target p) = length (sp_Source p)" using assms(3) by simp
  have bound: "int (length (filter P xs)) \<le> ro_LeafRows (recon_applyDefaults opts)"
    if "length xs = length (sp_Source p)" for P and xs :: "table_row list"
    using assms(4) length_filter_le [of P xs] that by linarith
  then have small: "max (dg_Rows ?src) (dg_Rows ?tgt) \<le> ro_LeafRows (rc_opts ?rc)"
    using len by (simp add: range_digest_def Let_def)
  have depth: "\<not> ro_MaxDepth (rc_opts ?rc) \<le> 0" by (simp add: recon_applyDefaults_def)
  have "\<not> is_full ?rc []" using max_findings_pos by (simp add: is_full_iff not_le)
  then have step: "descend ?rc ctx ?r 0 ?run0
      = (if Digest_Equal ?src ?tgt \<or> Empty ?src \<and> Empty ?tgt
         then (charge_digests (visit 0 ?run0), None)
         else compareRows ?rc ?r ?src ?tgt 0 (charge_digests (visit 0 ?run0)))"
    using assms(1) small dig by (subst descend.simps) (auto simp: calm_pair_def Let_def)
  define m where "m = fold (collect_row p SourceSide) (filter (\<lambda>w. range_holds p ?r (tw_values w)) (sp_Source p)) []"
  have rows: "pair_Rows p s ?r = Inr m" for s
    using assms(1) fold_collect_marked [OF assms(2), of ?r mark "sp_Source p" "[]"] assms(3)
    by (cases s) (simp_all add: pair_Rows_def Let_def default_column_id FullRange_def calm_pair_def m_def)
  have "\<exists>run. descend ?rc ctx ?r 0 ?run0 = (run, None) \<and> rn_out run = []"
    unfolding step using depth
    by (simp add: compareRows_def rows Let_def compare_both row_reports_same)
  then show ?thesis unfolding run_of_def Reconcile_def Let_def rng by (auto split: prod.splits)
qed

section \<open>Summaries of a run\<close>

lemma kind_count_update: "kind_count (AList.update k n m) k' = (if k' = k then n else kind_count m k')"
  by (simp add: kind_count_def update_conv')

lemma summarise_step_simps [simp]:
  "sm_Table (summarise_step f acc) = sm_Table acc"
  "sm_Total (summarise_step f acc) = sm_Total acc"
  "sm_DigestQueries (summarise_step f acc) = sm_DigestQueries acc"
  "sm_RowReads (summarise_step f acc) = sm_RowReads acc"
  "sm_RangesVisited (summarise_step f acc) = sm_RangesVisited acc"
  "sm_DeepestDescent (summarise_step f acc) = sm_DeepestDescent acc"
  "sm_ReconciledClean (summarise_step f acc) = sm_ReconciledClean acc"
  "sm_Repairable (summarise_step f acc) = sm_Repairable acc + (if Repairable (fd_Kind f) then 1 else 0)"
  "sm_FirstSeen (summarise_step f acc)
   = (if sm_FirstSeen acc = 0 \<or> fd_FoundAt f < sm_FirstSeen acc then fd_FoundAt f else sm_FirstSeen acc)"
  "kind_count (sm_ByKind (summarise_step f acc)) k
   = kind_count (sm_ByKind acc) k + (if fd_Kind f = k then 1 else 0)"
  by (auto simp: summarise_step_def Let_def kind_count_update)

lemma fold_summarise:
  "sm_Table (fold summarise_step fs acc) = sm_Table acc
   \<and> sm_Total (fold summarise_step fs acc) = sm_Total acc
   \<and> sm_ReconciledClean (fold summarise_step fs acc) = sm_ReconciledClean acc
   \<and> sm_Repairable (fold summarise_step fs acc)
      = sm_Repairable acc + length (filter (\<lambda>f. Repairable (fd_Kind f)) fs)
   \<and> kind_count (sm_ByKind (fold summarise_step fs acc)) k
      = kind_count (sm_ByKind acc) k + length (filter (\<lambda>f. fd_Kind f = k) fs)"
  by (induction fs arbitrary: acc) auto

lemma fold_first_seen:
  "sm_FirstSeen acc > 0 \<Longrightarrow> \<forall>f \<in> set fs. fd_FoundAt f > 0 \<Longrightarrow>
   sm_FirstSeen (fold summarise_step fs acc) = fold min (map fd_FoundAt fs) (sm_FirstSeen acc)"
  by (induction fs arbitrary: acc) (auto simp: min_def)

text \<open>
  the summary of a run. The table is reported clean exactly when there is no finding;
  every kind is counted once per finding, the repairable findings are all but the unresolved
  ranges, and with a running clock the first sighting is the earliest time among the findings.
\<close>

theorem Summarise_exact:
  "(let sm = Summarise table fs st in
     sm_Table sm = table \<and> sm_Total sm = length fs \<and> (sm_ReconciledClean sm \<longleftrightarrow> fs = [])
     \<and> (\<forall>k. kind_count (sm_ByKind sm) k = length (filter (\<lambda>f. fd_Kind f = k) fs))
     \<and> sm_Repairable sm + kind_count (sm_ByKind sm) RangeUnresolved = sm_Total sm
     \<and> (fs \<noteq> [] \<and> (\<forall>f \<in> set fs. fd_FoundAt f > 0) \<longrightarrow> sm_FirstSeen sm = Min (fd_FoundAt ` set fs)))"
proof -
  have kinds: "length (filter (\<lambda>f. Repairable (fd_Kind f)) fs)
      + length (filter (\<lambda>f. fd_Kind f = RangeUnresolved) fs) = length fs"
  proof -
    have "Repairable k \<longleftrightarrow> k \<noteq> RangeUnresolved" for k by (cases k) (simp_all add: Repairable_def)
    then show ?thesis using sum_length_filter_compl [of "\<lambda>f. fd_Kind f = RangeUnresolved" fs]
      by (simp add: add.commute)
  qed
  have first: "sm_FirstSeen (Summarise table fs st) = Min (fd_FoundAt ` set fs)"
    if ne: "fs \<noteq> []" and pos: "\<forall>f \<in> set fs. fd_FoundAt f > 0"
  proof -
    obtain f fs' where fs: "fs = f # fs'" using ne by (cases fs) auto
    have "sm_FirstSeen (Summarise table fs st) = fold min (map fd_FoundAt fs') (fd_FoundAt f)"
      unfolding Summarise_def fs using pos fs by (simp add: fold_first_seen)
    also have "\<dots> = Min (set (fd_FoundAt f # map fd_FoundAt fs'))" by (rule Min.set_eq_fold [symmetric])
    finally show ?thesis by (simp add: fs)
  qed
  show ?thesis
    using first kinds fold_summarise [of fs] unfolding Summarise_def Let_def
    by (simp add: kind_count_def)
qed

section \<open>Two small tables\<close>

definition num_gt :: "gval \<Rightarrow> gval \<Rightarrow> bool" where
  "num_gt v b = (case (toBigInt v, toBigInt b) of (Some x, Some y) \<Rightarrow> x > y | _ \<Rightarrow> False)"

definition num_le :: "gval \<Rightarrow> gval \<Rightarrow> bool" where
  "num_le v b = (v \<noteq> GNil \<and> \<not> num_gt v b)"

definition two_column_spec :: table_spec where
  "two_column_spec =
     \<lparr>ts_Source = \<lparr>tr_Schema = ''s'', tr_Name = ''t''\<rparr>, ts_Target = \<lparr>tr_Schema = ''app'', tr_Name = ''t''\<rparr>,
      ts_PrimaryKey = [''id''],
      ts_Columns = [\<lparr>cs_Name = ''id'', cs_TargetName = '''', cs_Type = ''int'', cs_Protect = ''none'',
                     cs_Nullable = False, cs_TrimTrailingSpace = False, cs_Scale = 0\<rparr>,
                    \<lparr>cs_Name = ''v'', cs_TargetName = '''', cs_Type = ''string'', cs_Protect = ''none'',
                     cs_Nullable = False, cs_TrimTrailingSpace = False, cs_Scale = 0\<rparr>],
      ts_ChunkColumn = '''', ts_ChunkSize = 0, ts_ReconcileIntervalSeconds = 0, ts_Exclude = ''''\<rparr>"

definition small_row :: "int \<Rightarrow> string \<Rightarrow> table_row" where
  "small_row i v = \<lparr>tw_values = [(''id'', GInt i), (''v'', GString v)], tw_deleted = False\<rparr>"

definition small_pair :: "table_row list \<Rightarrow> table_row list \<Rightarrow> sql_pair" where
  "small_pair src tgt =
     \<lparr>sp_Source = src, sp_Target = tgt, sp_Spec = two_column_spec, sp_gt = num_gt, sp_le = num_le,
      sp_hash = (\<lambda>s cs r. (case gomap_get r ''v'' of GString h \<Rightarrow> h | _ \<Rightarrow> '''')),
      sp_digest_fault = (\<lambda>s r. None), sp_rows_fault = (\<lambda>s r. None)\<rparr>"

definition small_run :: "sql_pair \<Rightarrow> (recon_stats \<times> finding list) \<times> go_error option" where
  "small_run p = run_of p (DefaultOptions (\<lambda>n. 1)) (\<lambda>s. replicate 32 0) (\<lambda>t. '''') (\<lambda>n. None)"

definition lost_row :: sql_pair where
  "lost_row = small_pair [small_row 1 ''0a'', small_row 2 ''0b''] [small_row 1 ''0a'']"

lemmas small_defs = lost_row_def small_pair_def small_row_def two_column_spec_def FullRange_def

lemma lost_row_simps [simp]:
  "sp_Source lost_row = [small_row 1 ''0a'', small_row 2 ''0b'']" "sp_Target lost_row = [small_row 1 ''0a'']"
  "sp_Spec lost_row = two_column_spec" "ts_Key two_column_spec = ''id''"
  "sp_digest_fault lost_row = (\<lambda>s r. None)" "sp_rows_fault lost_row = (\<lambda>s r. None)"
  by (simp_all add: small_defs ts_Key_def)

lemma lost_row_digests:
  "pair_Digest lost_row SourceSide (FullRange two_column_spec)
   = Inr \<lparr>dg_Rows = 2, dg_SumLow = digits 21, dg_SumHi = digits 0\<rparr>"
  "pair_Digest lost_row TargetSide (FullRange two_column_spec)
   = Inr \<lparr>dg_Rows = 1, dg_SumLow = digits 10, dg_SumHi = digits 0\<rparr>"
  by (simp_all add: pair_Digest_def range_digest_def where_holds_def range_holds_def default_column_def
      small_row_def row_hash_def hash60_def hex_digit_def Let_def FullRange_def)
     (simp_all add: lost_row_def small_pair_def)

definition id_key :: "int \<Rightarrow> row_key" where
  "id_key i = \<lparr>cols = [\<lparr>kc_Name = ''id'', kc_Value = GInt i\<rparr>]\<rparr>"

lemma small_key: "scanned_key lost_row (tw_values (small_row i v)) = id_key i"
  by (simp add: scanned_key_def id_key_def small_row_def two_column_spec_def scanned_def
      NewRowKeyOrdered_def NewRowKey_def mk_col_def)

lemma id_key_Canonical: "Canonical (id_key i) = ''2:id='' @ len_prefixed (FormatInt i) @ '';''"
proof -
  have "digits 2 = ''2''" by code_simp
  then show ?thesis
    by (simp add: Canonical_def id_key_def canonical_cols.simps len_prefixed_def Let_def numeral_2_eq_2)
qed

lemma id_key_inj: "Canonical (id_key i) = Canonical (id_key j) \<longleftrightarrow> i = j"
  using len_prefixed_append [of "FormatInt i" "[]" "FormatInt j" "[]"] by (simp add: id_key_Canonical)

lemma lost_row_rows:
  "pair_Rows lost_row SourceSide (FullRange two_column_spec)
   = Inr [(Canonical (id_key 1), \<lparr>rd_Key = id_key 1, rd_Digest = ''0a''\<rparr>),
          (Canonical (id_key 2), \<lparr>rd_Key = id_key 2, rd_Digest = ''0b''\<rparr>)]"
  "pair_Rows lost_row TargetSide (FullRange two_column_spec)
   = Inr [(Canonical (id_key 1), \<lparr>rd_Key = id_key 1, rd_Digest = ''0a''\<rparr>)]"
  by (simp_all add: pair_Rows_def range_holds_def default_column_def collect_row_def small_key id_key_inj
      row_hash_def Let_def FullRange_def)
     (simp_all add: lost_row_def small_pair_def small_row_def)

lemma small_run_lost: "snd (small_run lost_row) = None \<and> length (snd (fst (small_run lost_row))) = 1"
proof -
  let ?rc = "pair_reconciler lost_row (DefaultOptions (\<lambda>n. 1)) (\<lambda>s. replicate 32 0) (\<lambda>t. '''')"
  have "descend ?rc (\<lambda>n. None) (FullRange two_column_spec) 0 \<lparr>rn_stats = zero_stats, rn_out = []\<rparr>
    = (\<lparr>rn_stats = \<lparr>st_DigestQueries = 2, st_RowReads = 2, st_MaxDepth = 0, st_RangesVisited = 1\<rparr>,
        rn_out = [row_finding ?rc 1 MissingInTarget ''row exists on the source and not on the target''
                    \<lparr>rd_Key = id_key 2, rd_Digest = ''0b''\<rparr>]\<rparr>, None)"
    by (subst descend.simps)
      (simp add: lost_row_digests lost_row_rows Digest_Equal_def Empty_def is_full_def DefaultOptions_def
        recon_applyDefaults_def compareRows_def visit_def charge_digests_def zero_stats_def Let_def id_key_inj
        compare_both)
  then show ?thesis
    by (simp add: small_run_def run_of_def Reconcile_def FullRange_def)
qed

lemma lost_row_good: "good_key lost_row (Canonical (id_key 2))"
proof -
  have keys: "key_text lost_row (small_row i v) = Canonical (id_key i)" for i v
    by (simp add: key_text_def small_key)
  have rows: "rows_of_key lost_row SourceSide (Canonical (id_key 2)) = [small_row 2 ''0b'']"
    "rows_of_key lost_row TargetSide (Canonical (id_key 2)) = []"
    by (simp_all add: rows_of_key_def keys id_key_inj)
  have num: "num_gt (GInt 2) b \<or> num_le (GInt 2) b" for b by (simp add: num_le_def)
  have "sp_gt lost_row = num_gt" "sp_le lost_row = num_le" by (simp_all add: lost_row_def small_pair_def)
  then have "length (rows_of_key lost_row s (Canonical (id_key 2))) \<le> 1
      \<and> (\<forall>w \<in> set (rows_of_key lost_row s (Canonical (id_key 2))). \<forall>b. b \<noteq> GNil \<longrightarrow>
           (let v = gomap_get (tw_values w) (ts_Key (sp_Spec lost_row)) in
            sp_gt lost_row v b \<or> sp_le lost_row v b))" for s
    using rows num by (cases s) (simp_all add: small_row_def)
  then show ?thesis unfolding good_key_def by blast
qed

theorem Reconcile_complete_witness:
  "let fs = snd (fst (small_run lost_row)); w = small_row 2 ''0b'' in
   (\<exists>f \<in> set fs. fd_Kind f \<in> kinds_of SourceSide \<and> fd_Key f = scanned_key lost_row (tw_values w))
   \<or> (\<exists>f \<in> set fs. \<exists>r. fd_Kind f = RangeUnresolved \<and> fd_Range f = Some r \<and> range_holds lost_row r (tw_values w))
   \<or> (\<exists>r. range_holds lost_row r (tw_values w) \<and> same_sums lost_row r)"
proof -
  let ?opts = "DefaultOptions (\<lambda>n. 1)"
  let ?run = "run_of lost_row ?opts (\<lambda>s. replicate 32 0) (\<lambda>t. '''') (\<lambda>n. None)"
  have run: "?run = ((fst (fst ?run), snd (fst ?run)), None)" and len: "length (snd (fst ?run)) = 1"
    using small_run_lost by (simp_all add: small_run_def prod_eq_iff)
  have few: "int (length (snd (fst ?run))) < ro_MaxFindings (recon_applyDefaults ?opts)"
    unfolding len by (simp add: DefaultOptions_def recon_applyDefaults_def)
  have key: "key_text lost_row (small_row i v) = Canonical (id_key i)" for i v
    by (simp add: key_text_def small_key)
  show ?thesis
    using Reconcile_complete [OF run few, of "small_row 2 ''0b''" SourceSide] lost_row_good
    by (simp add: key id_key_inj small_run_def)
qed

theorem Reconcile_sound_witness:
  "\<exists>f \<in> set (snd (fst (small_run lost_row))). fd_Table f = \<lparr>tr_Schema = ''s'', tr_Name = ''t''\<rparr>"
proof -
  let ?run = "run_of lost_row (DefaultOptions (\<lambda>n. 1)) (\<lambda>s. replicate 32 0) (\<lambda>t. '''') (\<lambda>n. None)"
  have "length (snd (fst ?run)) = 1" using small_run_lost by (simp add: small_run_def)
  then obtain f where f: "f \<in> set (snd (fst ?run))" by (cases "snd (fst ?run)") auto
  have "?run = ((fst (fst ?run), snd (fst ?run)), snd ?run)" by simp
  from Reconcile_sound [OF this f] have "fd_Table f = \<lparr>tr_Schema = ''s'', tr_Name = ''t''\<rparr>"
    by (simp add: two_column_spec_def)
  with f show ?thesis unfolding small_run_def by blast
qed

text \<open>The source row 1 is tombstoned on the target, and nothing is reported.\<close>

definition wrongly_deleted :: sql_pair where
  "wrongly_deleted = small_pair [small_row 1 ''0a''] [(small_row 1 ''0a'')\<lparr>tw_deleted := True\<rparr>]"

theorem Reconcile_blind_to_tombstones_witness:
  "snd (fst (small_run wrongly_deleted)) = [] \<and> \<not> same_sums wrongly_deleted (FullRange two_column_spec)"
proof -
  have "snd (fst (small_run wrongly_deleted)) = []"
    using Reconcile_blind_to_tombstones [of wrongly_deleted "\<lambda>n. None" "\<lambda>w. True" "DefaultOptions (\<lambda>n. 1)"
        "\<lambda>s. replicate 32 0" "\<lambda>t. ''''"]
    by (simp add: wrongly_deleted_def small_pair_def calm_pair_def DefaultOptions_def recon_applyDefaults_def
        small_run_def)
  moreover have "\<not> same_sums wrongly_deleted (FullRange two_column_spec)"
    by (simp add: same_sums_def live_hashes_def where_holds_def range_holds_def FullRange_def Let_def
        wrongly_deleted_def small_pair_def small_row_def)
  ultimately show ?thesis by blast
qed

theorem Reconcile_cost_witness:
  "run_of (small_pair [] []) (DefaultOptions (\<lambda>n. 1)) (\<lambda>s. []) (\<lambda>t. '''') (\<lambda>n. None)
   = ((\<lparr>st_DigestQueries = 2, st_RowReads = 0, st_MaxDepth = 0, st_RangesVisited = 1\<rparr>, []), None)"
  by (rule Reconcile_cost [THEN conjunct2, THEN mp])
     (simp add: small_pair_def calm_pair_def same_sums_def live_hashes_def Let_def)

theorem Summarise_exact_witness:
  "sm_Total (Summarise \<lparr>tr_Schema = '''', tr_Name = ''t''\<rparr> [] zero_stats) = 0"
  using Summarise_exact [of "\<lparr>tr_Schema = '''', tr_Name = ''t''\<rparr>" "[]" zero_stats] by (simp add: Let_def)

end
