(* ===== verification/Decode.thy ===== *)
theory Decode
  imports Event ErrClass
begin

text \<open>
  Decoding the change stream: \<open>internal/cdc/decode.go\<close>. The lexical part of \<open>encoding/json\<close> (bytes
  to a tree) is the argument \<open>parse\<close>; what the code relies on beyond it, the assignment of a tree to
  Go structs and maps, is modelled: member names match without regard to case, \<open>null\<close> leaves the
  zero value, a member of the wrong type is an error. A document has one member per field.
  \<open>go_fmt\<close> holds the four renderings of \<open>fmt\<close> and \<open>strconv\<close> that the messages use, and what the
  platform gives for \<open>uint64(f)\<close> where Go leaves it open (\<open>f\<close> beyond the range).
\<close>

unbundle bit_operations_syntax

section \<open>JSON trees\<close>

text \<open>A number is its literal together with the \<open>float64\<close> it denotes.\<close>

datatype json =
    JNull
  | JBool bool
  | JNum string gofloat
  | JStr string
  | JArr "json list"
  | JObj "(string \<times> json) list"

record go_fmt =
  gf_float :: "gofloat \<Rightarrow> string"
  gf_value :: "json \<Rightarrow> string"
  gf_quote :: "string \<Rightarrow> string"
  gf_uint64 :: "gofloat \<Rightarrow> uint64"

fun members :: "json \<Rightarrow> (string \<times> json) list option" where
  "members (JObj ms) = Some ms"
| "members JNull = Some []"
| "members j = None"

definition json_field :: "(string \<times> json) list \<Rightarrow> string \<Rightarrow> json" where
  "json_field ms name = (case find (\<lambda>m. ToLower (fst m) = ToLower name) (rev ms) of
     None \<Rightarrow> JNull | Some m \<Rightarrow> snd m)"

fun as_string :: "json \<Rightarrow> string option" where
  "as_string (JStr s) = Some s"
| "as_string JNull = Some ''''"
| "as_string j = None"

definition is_digit :: "char \<Rightarrow> bool" where
  "is_digit c = (of_char c \<in> {48..57::nat})"

definition parse_int64 :: "string \<Rightarrow> int option" where
  "parse_int64 lit =
     (let neg = (lit \<noteq> [] \<and> hd lit = CHR ''-''); ds = (if neg then tl lit else lit) in
      if ds = [] \<or> \<not> list_all is_digit ds then None
      else let i = (if neg then - int (undigits ds) else int (undigits ds)) in
           if min_int64 \<le> i \<and> i \<le> max_int64 then Some i else None)"

fun as_int64 :: "json \<Rightarrow> int option" where
  "as_int64 (JNum lit f) = parse_int64 lit"
| "as_int64 JNull = Some 0"
| "as_int64 j = None"

fun as_any :: "go_fmt \<Rightarrow> json \<Rightarrow> gval" where
  "as_any fm JNull = GNil"
| "as_any fm (JBool b) = GBool b"
| "as_any fm (JNum lit f) = GFloat f"
| "as_any fm (JStr s) = GString s"
| "as_any fm (JArr js) = GOther (gf_value fm (JArr js))"
| "as_any fm (JObj ms) = GOther (gf_value fm (JObj ms))"

definition as_row :: "go_fmt \<Rightarrow> (string \<times> json) list \<Rightarrow> row" where
  "as_row fm ms = fold (\<lambda>(n, j) m. AList.update n (as_any fm j) m) ms []"

definition as_map :: "go_fmt \<Rightarrow> json \<Rightarrow> row option" where
  "as_map fm j = map_option (as_row fm) (members j)"

section \<open>The envelope\<close>

record debezium_source =
  dz_Connector :: string
  dz_Db :: string
  dz_Schema :: string
  dz_Table :: string
  dz_TsMs :: int
  dz_Snapshot :: gval
  dz_TxID :: gval
  dz_LSN :: gval
  dz_SCN :: gval
  dz_ChangeLSN :: gval
  dz_CommitLSN :: gval
  dz_Pos :: gval
  dz_File :: gval
  dz_SeqNum :: gval

record debezium_body =
  db_Before :: row
  db_After :: row
  db_Op :: string
  db_TsMs :: int
  db_Source :: debezium_source

definition decode_source :: "go_fmt \<Rightarrow> json \<Rightarrow> debezium_source option" where
  "decode_source fm j =
     (case members j of
        None \<Rightarrow> None
      | Some ms \<Rightarrow>
        (case (as_string (json_field ms ''connector''), as_string (json_field ms ''db''),
               as_string (json_field ms ''schema''), as_string (json_field ms ''table''),
               as_int64 (json_field ms ''ts_ms'')) of
           (Some con, Some db, Some sch, Some tab, Some ts) \<Rightarrow>
             Some \<lparr>dz_Connector = con, dz_Db = db, dz_Schema = sch, dz_Table = tab, dz_TsMs = ts,
                   dz_Snapshot = as_any fm (json_field ms ''snapshot''),
                   dz_TxID = as_any fm (json_field ms ''txId''),
                   dz_LSN = as_any fm (json_field ms ''lsn''),
                   dz_SCN = as_any fm (json_field ms ''scn''),
                   dz_ChangeLSN = as_any fm (json_field ms ''change_lsn''),
                   dz_CommitLSN = as_any fm (json_field ms ''commit_lsn''),
                   dz_Pos = as_any fm (json_field ms ''pos''),
                   dz_File = as_any fm (json_field ms ''file''),
                   dz_SeqNum = as_any fm (json_field ms ''sequence'')\<rparr>
         | _ \<Rightarrow> None))"

definition decode_body :: "go_fmt \<Rightarrow> (string \<times> json) list \<Rightarrow> debezium_body option" where
  "decode_body fm ms =
     (case (as_map fm (json_field ms ''before''), as_map fm (json_field ms ''after''),
            as_string (json_field ms ''op''), as_int64 (json_field ms ''ts_ms''),
            decode_source fm (json_field ms ''source'')) of
        (Some b, Some a, Some op, Some ts, Some src) \<Rightarrow>
          Some \<lparr>db_Before = b, db_After = a, db_Op = op, db_TsMs = ts, db_Source = src\<rparr>
      | _ \<Rightarrow> None)"

text \<open>The pointer member \<open>payload\<close>: absent and \<open>null\<close> are nil.\<close>

definition decode_envelope :: "go_fmt \<Rightarrow> json \<Rightarrow> (debezium_body \<times> debezium_body option) option" where
  "decode_envelope fm j =
     (case members j of
        None \<Rightarrow> None
      | Some ms \<Rightarrow>
        (case decode_body fm ms of
           None \<Rightarrow> None
         | Some body \<Rightarrow>
           (case json_field ms ''payload'' of
              JNull \<Rightarrow> Some (body, None)
            | p \<Rightarrow> (case members p of
                     None \<Rightarrow> None
                   | Some pms \<Rightarrow> map_option (\<lambda>b. (body, Some b)) (decode_body fm pms)))))"

section \<open>Sequence numbers\<close>

text \<open>\<open>strconv.ParseUint\<close> in base 10 and 16.\<close>

definition hex_value :: "char \<Rightarrow> nat option" where
  "hex_value c = (let n = of_char c in
     if 48 \<le> n \<and> n \<le> 57 then Some (n - 48)
     else if 97 \<le> n \<and> n \<le> 102 then Some (n - 87)
     else if 65 \<le> n \<and> n \<le> 70 then Some (n - 55)
     else None)"

fun digits_value :: "nat \<Rightarrow> nat \<Rightarrow> string \<Rightarrow> nat option" where
  "digits_value base acc [] = Some acc"
| "digits_value base acc (c # cs) =
     (case hex_value c of
        None \<Rightarrow> None
      | Some d \<Rightarrow> if d < base then digits_value base (base * acc + d) cs else None)"

definition ParseUint :: "string \<Rightarrow> nat \<Rightarrow> nat \<Rightarrow> nat option" where
  "ParseUint s base bits =
     (if s = [] then None
      else case digits_value base 0 s of
        None \<Rightarrow> None
      | Some n \<Rightarrow> if n < 2 ^ bits then Some n else None)"

definition binlogOrdinal :: "string \<Rightarrow> uint64" where
  "binlogOrdinal name =
     (case split_last CHR ''.'' name of
        None \<Rightarrow> 0
      | Some (a, b) \<Rightarrow>
          if b = [] then 0
          else (case ParseUint b 10 32 of None \<Rightarrow> 0 | Some n \<Rightarrow> of_nat n))"

fun strip_0x :: "string \<Rightarrow> string" where
  "strip_0x (a # b # s) = (if a = CHR ''0'' \<and> b = CHR ''x'' then s else a # b # s)"
| "strip_0x s = s"

definition text_to_uint64 :: "string \<Rightarrow> uint64 option" where
  "text_to_uint64 t =
     (let s = TrimSpace t in
      if s = [] then None
      else
        let slash = (if CHR ''/'' \<in> set s
              then (case (ParseUint (takeWhile (\<lambda>c. c \<noteq> CHR ''/'') s) 16 32,
                          ParseUint (tl (dropWhile (\<lambda>c. c \<noteq> CHR ''/'') s)) 16 32) of
                      (Some hi, Some lo) \<Rightarrow> Some (push_bit 32 (of_nat hi) OR of_nat lo)
                    | _ \<Rightarrow> None)
              else None)
        in case slash of
             Some v \<Rightarrow> Some v
           | None \<Rightarrow>
             (case ParseUint s 10 64 of
                Some n \<Rightarrow> Some (of_nat n)
              | None \<Rightarrow>
                (case ParseUint (strip_0x s) 16 64 of
                   Some n \<Rightarrow> Some (of_nat n)
                 | None \<Rightarrow> None)))"

definition float_negative :: "gofloat \<Rightarrow> bool" where
  "float_negative f = (case f of FFin q t \<Rightarrow> q < 0 | FInf neg t \<Rightarrow> neg | FNaN t \<Rightarrow> False)"

definition uint64_of_float :: "go_fmt \<Rightarrow> gofloat \<Rightarrow> uint64" where
  "uint64_of_float fm f =
     (case f of
        FFin q t \<Rightarrow> if \<lfloor>q\<rfloor> < 2 ^ 64 then word_of_int \<lfloor>q\<rfloor> else gf_uint64 fm f
      | _ \<Rightarrow> gf_uint64 fm f)"

text \<open>The cases \<open>int64\<close> and \<open>json.Number\<close> cannot come from \<open>encoding/json\<close> into an \<open>any\<close>.\<close>

definition toUint64 :: "go_fmt \<Rightarrow> gval \<Rightarrow> uint64 option" where
  "toUint64 fm v =
     (case v of
        GFloat f \<Rightarrow> if float_negative f then None else Some (uint64_of_float fm f)
      | GInt i \<Rightarrow> if i < 0 then None else Some (word_of_int i)
      | GString s \<Rightarrow> text_to_uint64 s
      | _ \<Rightarrow> None)"

definition stringOf :: "go_fmt \<Rightarrow> gval \<Rightarrow> string" where
  "stringOf fm v =
     (case v of
        GNil \<Rightarrow> ''''
      | GString s \<Rightarrow> s
      | GFloat f \<Rightarrow> gf_float fm f
      | _ \<Rightarrow> CanonicalValue v)"

definition isSnapshot :: "gval \<Rightarrow> bool" where
  "isSnapshot v =
     (case v of
        GBool b \<Rightarrow> b
      | GString s \<Rightarrow> s = ''true'' \<or> s = ''first'' \<or> s = ''last'' \<or> s = ''incremental''
      | _ \<Rightarrow> False)"

text \<open>The Unix epoch, in nanoseconds after Go's zero time.\<close>

definition unix_epoch :: gotime where "unix_epoch = 62135596800 * 10 ^ 9"

definition msToTime :: "int \<Rightarrow> gotime" where
  "msToTime ms = (if ms \<le> 0 then 0 else unix_epoch + ms * 10 ^ 6)"

fun firstNonZero :: "int list \<Rightarrow> int" where
  "firstNonZero [] = 0"
| "firstNonZero (v # vs) = (if v \<noteq> 0 then v else firstNonZero vs)"

fun first_some :: "'a option list \<Rightarrow> 'a option" where
  "first_some [] = None"
| "first_some (Some v # vs) = Some v"
| "first_some (None # vs) = first_some vs"

definition extractLSN :: "go_fmt \<Rightarrow> debezium_source \<Rightarrow> uint64" where
  "extractLSN fm s =
     (case first_some (map (toUint64 fm) [dz_LSN s, dz_SCN s, dz_CommitLSN s, dz_ChangeLSN s, dz_SeqNum s]) of
        Some v \<Rightarrow> v
      | None \<Rightarrow>
        (case toUint64 fm (dz_Pos s) of
           Some pos \<Rightarrow> push_bit 32 (binlogOrdinal (stringOf fm (dz_File s))) OR (pos AND 0xFFFFFFFF)
         | None \<Rightarrow> if dz_TsMs s > 0 then word_of_int (dz_TsMs s) else 0))"

section \<open>The decoder\<close>

record decoder =
  de_KeyColumns :: "string list gomap"
  de_SignalTable :: string

definition at_position :: "string \<Rightarrow> int \<Rightarrow> int \<Rightarrow> string" where
  "at_position topic part off = topic @ ''/'' @ FormatInt part @ ''/'' @ FormatInt off"

definition Permanent_error :: "go_error \<Rightarrow> go_error" where
  "Permanent_error e = the (Permanently (Some e))"

text \<open>The key message: the object itself, or the object under its member \<open>payload\<close>.\<close>

definition key_payload :: "(string \<times> json) list \<Rightarrow> (string \<times> json) list" where
  "key_payload ms = (case map_of (rev ms) ''payload'' of Some (JObj pms) \<Rightarrow> pms | _ \<Rightarrow> ms)"

definition decode_rowKey ::
  "go_fmt \<Rightarrow> (string \<Rightarrow> go_error + json) \<Rightarrow> decoder \<Rightarrow> table_ref \<Rightarrow> string \<Rightarrow> change_event
   \<Rightarrow> go_error + row_key" where
  "decode_rowKey fm parse d table key ev =
     (let cols = (case map_of (de_KeyColumns d) (TableRef_String table) of None \<Rightarrow> [] | Some cs \<Rightarrow> cs);
          values = ev_Values ev;
          missing = filter (\<lambda>c. map_of values c = None) cols;
          none = Inl (Permanent_error (plain_error
             (''cdc: no primary key could be derived for '' @ TableRef_String table)))
      in if cols \<noteq> [] \<and> missing = [] then Inr (NewRowKeyOrdered cols values)
         else if key \<noteq> [] then
           (case (case parse key of
                    Inl e \<Rightarrow> Inl e
                  | Inr j \<Rightarrow> (case members j of
                      None \<Rightarrow> Inl (plain_error ''json: cannot unmarshal value into Go value of type map[string]interface {}'')
                    | Some ms \<Rightarrow> Inr ms)) of
              Inl e \<Rightarrow> Inl (Permanent_error (Errorf ''cdc: key message is not valid JSON'' e))
            | Inr ms \<Rightarrow>
                let raw = as_row fm (key_payload ms) in
                if raw \<noteq> [] then Inr (NewRowKey raw) else none)
         else none)"

definition event_error_text :: "event_error \<Rightarrow> string" where
  "event_error_text e =
     (case e of
        InvalidOp op \<Rightarrow> ''invalid operation '' @ op
      | NoTableName \<Rightarrow> ''event has no table name''
      | NoPrimaryKey t \<Rightarrow> ''event for '' @ TableRef_String t @ '' has no primary key''
      | NoRowImage op t \<Rightarrow> op @ '' event for '' @ TableRef_String t @ '' has no row image'')"

definition event_of_body ::
  "go_fmt \<Rightarrow> gotime \<Rightarrow> string \<Rightarrow> int \<Rightarrow> int \<Rightarrow> string \<Rightarrow> debezium_body \<Rightarrow> change_event" where
  "event_of_body fm now topic part off value b =
     (let s = db_Source b;
          table = \<lparr>tr_Schema = dz_Schema s, tr_Name = dz_Table s\<rparr>;
          table = (if tr_Schema table = '''' then table\<lparr>tr_Schema := dz_Db s\<rparr> else table)
      in \<lparr>ev_Table = table, ev_Op = db_Op b, ev_Key = \<lparr>cols = []\<rparr>, ev_Before = db_Before b,
          ev_After = db_After b,
          ev_Source = \<lparr>sm_LSN = extractLSN fm s, sm_TxID = stringOf fm (dz_TxID s),
             sm_CommitTS = msToTime (firstNonZero [dz_TsMs s, db_TsMs b]),
             sm_Snapshot = isSnapshot (dz_Snapshot s), sm_Connector = dz_Connector s\<rparr>,
          ev_Ingested = now, ev_Topic = topic, ev_Partition = part, ev_Offset = off, ev_Raw = value\<rparr>)"

definition Unmarshal_envelope ::
  "go_fmt \<Rightarrow> (string \<Rightarrow> go_error + json) \<Rightarrow> string \<Rightarrow> go_error + (debezium_body \<times> debezium_body option)" where
  "Unmarshal_envelope fm parse value =
     (case parse value of
        Inl e \<Rightarrow> Inl e
      | Inr j \<Rightarrow> (case decode_envelope fm j of
          None \<Rightarrow> Inl (plain_error ''json: cannot unmarshal value into Go struct'')
        | Some env \<Rightarrow> Inr env))"

definition Decode ::
  "go_fmt \<Rightarrow> (string \<Rightarrow> go_error + json) \<Rightarrow> gotime \<Rightarrow> decoder \<Rightarrow> string \<Rightarrow> int \<Rightarrow> int \<Rightarrow> string \<Rightarrow> string
   \<Rightarrow> go_error + change_event option" where
  "Decode fm parse now d topic part off key value =
     (if value = [] then Inr None
      else case Unmarshal_envelope fm parse value of
        Inl e \<Rightarrow> Inl (Permanent_error (Errorf (''cdc: message at '' @ at_position topic part off
                    @ '' is not valid JSON'') e))
      | Inr (body, payload) \<Rightarrow>
          let body = (case payload of Some p \<Rightarrow> p | None \<Rightarrow> body) in
          if \<not> Op_Valid (db_Op body)
          then Inl (Permanent_error (plain_error (''cdc: unknown operation '' @ gf_quote fm (db_Op body)
                    @ '' at '' @ at_position topic part off)))
          else
            let ev = event_of_body fm now topic part off value body in
            (case decode_rowKey fm parse d (ev_Table ev) key ev of
               Inl e \<Rightarrow> Inl e
             | Inr rk \<Rightarrow>
                 let ev = ev\<lparr>ev_Key := rk\<rparr> in
                 (case Event_Validate ev of
                    Some e \<Rightarrow> Inl (Permanent_error (Errorf (''cdc: message at '' @ at_position topic part off
                                @ '' is malformed'') (plain_error (event_error_text e))))
                  | None \<Rightarrow> Inr (Some ev))))"

definition IsWatermark :: "go_fmt \<Rightarrow> decoder \<Rightarrow> change_event option \<Rightarrow> string \<times> string \<times> bool" where
  "IsWatermark fm d ev =
     (case ev of
        None \<Rightarrow> ('''', '''', False)
      | Some e \<Rightarrow>
          if de_SignalTable d = '''' \<or> TableRef_String (ev_Table e) \<noteq> de_SignalTable d
          then ('''', '''', False)
          else
            let chunkID = stringOf fm (gomap_get (ev_Values e) ''chunk_id'');
                kind = stringOf fm (gomap_get (ev_Values e) ''kind'')
            in (chunkID, kind, chunkID \<noteq> '''' \<and> kind \<noteq> ''''))"

section \<open>What decoding guarantees\<close>

lemma Permanent_error_class [simp]: "Classify (Some (Permanent_error e)) = Permanent"
  by (simp add: Permanent_error_def Permanently_def Classify_def)

lemma decode_rowKey_error:
  "decode_rowKey fm parse d table key ev = Inl e \<Longrightarrow> Classify (Some e) = Permanent"
  by (auto simp: decode_rowKey_def Let_def split: if_splits sum.splits option.splits)

text \<open>
  a message that cannot be decoded never stalls its partition by being retried: whatever the
  bytes of the message and of its key, an error of \<open>Decode\<close> is classified permanent.
\<close>

theorem Decode_errors_permanent:
  assumes "Decode fm parse now d topic part off key value = Inl e"
  shows "Classify (Some e) = Permanent"
  using assms
  by (auto simp: Decode_def Let_def dest: decode_rowKey_error split: if_splits sum.splits option.splits)

lemma Decode_Some:
  assumes "Decode fm parse now d topic part off key value = Inr (Some ev)"
  obtains body payload b rk where
    "Unmarshal_envelope fm parse value = Inr (body, payload)"
    "b = (case payload of Some p \<Rightarrow> p | None \<Rightarrow> body)" "Op_Valid (db_Op b)"
    "decode_rowKey fm parse d (ev_Table (event_of_body fm now topic part off value b)) key
       (event_of_body fm now topic part off value b) = Inr rk"
    "ev = (event_of_body fm now topic part off value b)\<lparr>ev_Key := rk\<rparr>" "Event_Validate ev = None"
  using assms
  by (auto simp: Decode_def Let_def split: if_splits sum.splits option.splits)

text \<open>
  what comes out of the decoder is fit for the applier. A decoded event passes validation,
  keeps the bytes it came from and its position in the stream, carries the sequence number of the
  envelope in force, and, when the plan declares key columns and the row image has them all, is
  keyed by exactly these columns, whatever the connector's key message says.
\<close>

theorem Decode_sound:
  assumes "Decode fm parse now d topic part off key value = Inr (Some ev)"
  shows "Event_Validate ev = None \<and> ev_Raw ev = value
    \<and> (ev_Topic ev, ev_Partition ev, ev_Offset ev) = (topic, part, off)
    \<and> (\<exists>body payload. Unmarshal_envelope fm parse value = Inr (body, payload)
         \<and> ev_LSN ev = extractLSN fm (db_Source (case payload of Some p \<Rightarrow> p | None \<Rightarrow> body)))
    \<and> (\<forall>cs. map_of (de_KeyColumns d) (TableRef_String (ev_Table ev)) = Some cs \<and> cs \<noteq> []
          \<and> (\<forall>c \<in> set cs. map_of (ev_Values ev) c \<noteq> None)
          \<longrightarrow> ev_Key ev = NewRowKeyOrdered cs (ev_Values ev))"
  using assms
proof (rule Decode_Some)
  fix body payload b rk
  assume env: "Unmarshal_envelope fm parse value = Inr (body, payload)"
    and b: "b = (case payload of Some p \<Rightarrow> p | None \<Rightarrow> body)"
    and rk: "decode_rowKey fm parse d (ev_Table (event_of_body fm now topic part off value b)) key
       (event_of_body fm now topic part off value b) = Inr rk"
    and ev: "ev = (event_of_body fm now topic part off value b)\<lparr>ev_Key := rk\<rparr>"
    and valid: "Event_Validate ev = None"
  have vals: "ev_Values ev = ev_Values (event_of_body fm now topic part off value b)"
    by (simp add: ev ev_Values_def)
  have "ev_Key ev = NewRowKeyOrdered cs (ev_Values ev)"
    if "map_of (de_KeyColumns d) (TableRef_String (ev_Table ev)) = Some cs" "cs \<noteq> []"
      "\<forall>c \<in> set cs. map_of (ev_Values ev) c \<noteq> None" for cs
    using rk that by (simp add: decode_rowKey_def Let_def ev vals [unfolded ev] filter_empty_conv)
  then show ?thesis
    using env b valid by (auto simp: ev event_of_body_def Let_def)
qed

section \<open>Order of the sequence numbers\<close>

lemma is_digit_value: "is_digit c \<Longrightarrow> hex_value c = Some (of_char c - 48) \<and> of_char c - 48 < (10::nat)"
  by (auto simp: is_digit_def hex_value_def Let_def)

lemma digits_value_decimal:
  "list_all is_digit s \<Longrightarrow> digits_value 10 acc s = Some (foldl (\<lambda>a c. 10 * a + (of_char c - 48)) acc s)"
  by (induction s arbitrary: acc) (simp_all add: is_digit_value)

lemma digits_are_digits: "list_all is_digit (digits n)"
  using digits_chars [of _ n] by (auto simp: list_all_iff is_digit_def)

lemma undigits_zeros: "undigits (replicate z CHR ''0'' @ s) = undigits s"
  by (induction z) (simp_all add: undigits_def)

lemma ParseUint_decimal:
  "list_all is_digit s \<Longrightarrow> s \<noteq> [] \<Longrightarrow>
   ParseUint s 10 bits = (if undigits s < 2 ^ bits then Some (undigits s) else None)"
  by (simp add: ParseUint_def digits_value_decimal undigits_def)

lemma ParseUint_padded:
  assumes "n < 2 ^ bits"
  shows "ParseUint (replicate z CHR ''0'' @ digits n) 10 bits = Some n"
proof -
  have "list_all is_digit (replicate z CHR ''0'' @ digits n)"
    using digits_are_digits [of n] by (auto simp: list_all_iff is_digit_def)
  then show ?thesis
    using assms ParseUint_decimal [of "replicate z CHR ''0'' @ digits n" bits] by (simp add: undigits_zeros)
qed

definition hex_char :: "nat \<Rightarrow> char" where
  "hex_char n = (if n < 10 then char_of (48 + n) else char_of (55 + n))"

text \<open>The hexadecimal text of a number, as PostgreSQL prints each half of an LSN.\<close>

fun hex_text :: "nat \<Rightarrow> string" where
  "hex_text n = (if n < 16 then [hex_char n] else hex_text (n div 16) @ [hex_char (n mod 16)])"

declare hex_text.simps [simp del]

lemma hex_value_char: "n < 16 \<Longrightarrow> hex_value (hex_char n) = Some n"
  by (auto simp: hex_value_def hex_char_def Let_def)

lemma digits_value_snoc:
  "digits_value base acc (s @ [c]) =
     (case digits_value base acc s of
        None \<Rightarrow> None
      | Some v \<Rightarrow> (case hex_value c of None \<Rightarrow> None | Some d \<Rightarrow> if d < base then Some (base * v + d) else None))"
  by (induction s arbitrary: acc) (auto split: option.splits)

lemma digits_value_hex: "digits_value 16 0 (hex_text n) = Some n"
proof (induction n rule: hex_text.induct)
  case (1 n)
  then show ?case
    by (cases "n < 16") (simp_all add: hex_text.simps [of n] digits_value_snoc hex_value_char)
qed

lemma hex_text_chars: "c \<in> set (hex_text n) \<Longrightarrow> \<exists>m < 16. c = hex_char m"
proof (induction n rule: hex_text.induct)
  case (1 n)
  have "n mod 16 < 16" by simp
  then have "\<exists>m < 16. hex_char (n mod 16) = hex_char m" by blast
  then show ?case using 1 by (cases "n < 16") (auto simp: hex_text.simps [of n])
qed

lemma hex_char_plain: "m < 16 \<Longrightarrow> hex_char m \<noteq> CHR ''/'' \<and> \<not> is_space (hex_char m)"
proof -
  assume "m < 16"
  then have "of_char (hex_char m) \<noteq> (47 :: nat)" "\<not> is_space (hex_char m)"
    by (auto simp: hex_char_def is_space_def)
  then show ?thesis by auto
qed

lemma hex_text_nonempty [simp]: "hex_text n \<noteq> []"
  by (simp add: hex_text.simps [of n])

lemma ParseUint_hex: "n < 2 ^ bits \<Longrightarrow> ParseUint (hex_text n) 16 bits = Some n"
  by (simp add: ParseUint_def digits_value_hex)

text \<open>Two halves of 32 bits make one number.\<close>

lemma halves_word:
  assumes "hi < 2 ^ 32" and "lo < 2 ^ 32"
  shows "push_bit 32 (of_nat hi) OR (of_nat lo :: uint64) = of_nat (hi * 2 ^ 32 + lo)"
    and "unat (of_nat (hi * 2 ^ 32 + lo) :: uint64) = hi * 2 ^ 32 + lo"
proof -
  have lt: "hi * 2 ^ 32 + lo < 2 ^ 64"
  proof -
    have "hi * 2 ^ 32 + 2 ^ 32 \<le> (2 ^ 32 :: nat) * 2 ^ 32"
      using mult_le_mono1 [of "Suc hi" "2 ^ 32" "2 ^ 32"] assms(1) by simp
    then show ?thesis using assms(2) by simp
  qed
  then show "unat (of_nat (hi * 2 ^ 32 + lo) :: uint64) = hi * 2 ^ 32 + lo"
    by (simp only: unat_of_nat) simp
  have "push_bit 32 (of_nat hi) OR (of_nat lo :: uint64) = push_bit 32 (of_nat hi) + of_nat lo"
  proof (rule disjunctive_add_eq_or [symmetric])
    show "push_bit 32 (of_nat hi) AND (of_nat lo :: uint64) = 0"
    proof (rule bit_eqI)
      fix n
      have "of_nat lo = take_bit 32 (of_nat lo :: uint64)"
        using assms(2) by (metis of_nat_take_bit take_bit_nat_eq_self)
      then have "bit (of_nat lo :: uint64) n \<Longrightarrow> n < 32" by (metis bit_take_bit_iff)
      then show "bit (push_bit 32 (of_nat hi) AND (of_nat lo :: uint64)) n = bit 0 n"
        by (auto simp: bit_and_iff bit_push_bit_iff)
    qed
  qed
  then show "push_bit 32 (of_nat hi) OR (of_nat lo :: uint64) = of_nat (hi * 2 ^ 32 + lo)"
    by (simp add: push_bit_eq_mult)
qed

lemma text_to_uint64_halves:
  assumes "hi < 2 ^ 32" and "lo < 2 ^ 32"
  shows "text_to_uint64 (hex_text hi @ ''/'' @ hex_text lo) = Some (of_nat (hi * 2 ^ 32 + lo))"
proof -
  let ?s = "hex_text hi @ ''/'' @ hex_text lo"
  have plain: "c \<noteq> CHR ''/'' \<and> \<not> is_space c" if c: "c \<in> set (hex_text n)" for c n
  proof -
    obtain m where "m < 16" "c = hex_char m" using hex_text_chars [OF c] by (elim exE conjE)
    then show ?thesis using hex_char_plain [of m] by simp
  qed
  have "\<not> is_space c" if "c \<in> set ?s" for c
  proof -
    have "c \<in> set (hex_text hi) \<or> c = CHR ''/'' \<or> c \<in> set (hex_text lo)" using that by auto
    moreover have "\<not> is_space CHR ''/''" by (simp add: is_space_def)
    ultimately show ?thesis using plain by blast
  qed
  then have trim: "TrimSpace ?s = ?s" by (rule TrimSpace_id)
  have parts: "takeWhile (\<lambda>c. c \<noteq> CHR ''/'') ?s = hex_text hi"
    "dropWhile (\<lambda>c. c \<noteq> CHR ''/'') ?s = CHR ''/'' # hex_text lo"
    using plain by (simp_all add: takeWhile_append dropWhile_append)
  show ?thesis
    unfolding text_to_uint64_def trim Let_def parts
    by (simp add: ParseUint_hex [OF assms(1)] ParseUint_hex [OF assms(2)] halves_word(1) [OF assms])
qed

text \<open>What the connectors report: a binlog file and position, and an LSN in two halves.\<close>

definition lsn_source :: "gval \<Rightarrow> gval \<Rightarrow> gval \<Rightarrow> debezium_source" where
  "lsn_source lsn file pos =
     \<lparr>dz_Connector = '''', dz_Db = '''', dz_Schema = '''', dz_Table = '''', dz_TsMs = 0,
      dz_Snapshot = GNil, dz_TxID = GNil, dz_LSN = lsn, dz_SCN = GNil, dz_ChangeLSN = GNil,
      dz_CommitLSN = GNil, dz_Pos = pos, dz_File = file, dz_SeqNum = GNil\<rparr>"

definition binlog_file :: "string \<Rightarrow> nat \<Rightarrow> nat \<Rightarrow> gval" where
  "binlog_file base z n = GString (base @ ''.'' @ replicate z CHR ''0'' @ digits n)"

definition pg_lsn :: "nat \<Rightarrow> nat \<Rightarrow> gval" where
  "pg_lsn hi lo = GString (hex_text hi @ ''/'' @ hex_text lo)"

lemma extractLSN_pg:
  "hi < 2 ^ 32 \<Longrightarrow> lo < 2 ^ 32 \<Longrightarrow>
   extractLSN fm (lsn_source (pg_lsn hi lo) GNil GNil) = of_nat (hi * 2 ^ 32 + lo)"
  using text_to_uint64_halves [of hi lo]
  by (simp add: extractLSN_def lsn_source_def toUint64_def pg_lsn_def)

lemma binlogOrdinal_file:
  assumes "n < 2 ^ 32"
  shows "binlogOrdinal (base @ ''.'' @ replicate z CHR ''0'' @ digits n) = of_nat n"
proof -
  let ?b = "replicate z CHR ''0'' @ digits n"
  have "CHR ''.'' \<notin> set ?b"
    using digits_chars [of "CHR ''.''" n] by auto
  then have "split_last CHR ''.'' (base @ CHR ''.'' # ?b) = Some (base, ?b)"
    unfolding split_last_Some by blast
  then show ?thesis using ParseUint_padded [OF assms] by (simp add: binlogOrdinal_def)
qed

lemma extractLSN_binlog:
  assumes "n < 2 ^ 32" and "pos < 2 ^ 32"
  shows "extractLSN fm (lsn_source GNil (binlog_file base z n) (GFloat (FFin (of_nat pos) t)))
    = of_nat (n * 2 ^ 32 + pos)"
proof -
  have "\<not> (of_nat pos < (0 :: rat))" by simp
  moreover have "\<lfloor>of_nat pos :: rat\<rfloor> = int pos" by simp
  moreover have "int pos < 2 ^ 64" using assms(2) by simp
  ultimately have to: "toUint64 fm (GFloat (FFin (of_nat pos) t)) = Some (of_nat pos)"
    by (simp add: toUint64_def float_negative_def uint64_of_float_def)
  have "of_nat pos AND (0xFFFFFFFF :: uint64) = take_bit 32 (of_nat pos)"
    by (simp add: take_bit_eq_mask mask_eq_exp_minus_1)
  also have "\<dots> = of_nat pos" using assms(2) by (metis of_nat_take_bit take_bit_nat_eq_self)
  finally have mask: "of_nat pos AND (0xFFFFFFFF :: uint64) = of_nat pos" .
  have ord: "binlogOrdinal (stringOf fm (binlog_file base z n)) = of_nat n"
    using binlogOrdinal_file [OF assms(1)] by (simp add: binlog_file_def stringOf_def)
  have nil: "toUint64 fm GNil = None" by (simp add: toUint64_def)
  show ?thesis
    by (simp only: extractLSN_def lsn_source_def debezium_source.simps list.map first_some.simps nil to ord
        option.case mask halves_word(1) [OF assms])
qed

text \<open>
  C18: the fence number orders the stream. For PostgreSQL's two-part hexadecimal LSN and for
  MySQL's binlog file and position, the extracted numbers are ordered exactly as the pairs are:
  first by the first component (the file, however its number is padded), then by the second. A
  log rotation, where the position starts again from a small value, does not go back in time.
\<close>

theorem extractLSN_order:
  assumes "a < 2 ^ 32" and "b < 2 ^ 32" and "c < 2 ^ 32" and "d < 2 ^ 32"
  shows "(extractLSN fm (lsn_source (pg_lsn a b) GNil GNil) < extractLSN fm (lsn_source (pg_lsn c d) GNil GNil)
      \<longleftrightarrow> a < c \<or> a = c \<and> b < d)
    \<and> (extractLSN fm (lsn_source GNil (binlog_file f y a) (GFloat (FFin (of_nat b) t)))
       < extractLSN fm (lsn_source GNil (binlog_file f z c) (GFloat (FFin (of_nat d) u)))
      \<longleftrightarrow> a < c \<or> a = c \<and> b < d)"
proof -
  have lex: "(a * 2 ^ 32 + b < c * 2 ^ 32 + d) \<longleftrightarrow> a < c \<or> a = c \<and> b < d"
    using assms(2,4) by (cases a c rule: linorder_cases) simp_all
  show ?thesis
    unfolding extractLSN_pg [OF assms(1,2)] extractLSN_pg [OF assms(3,4)]
      extractLSN_binlog [OF assms(1,2)] extractLSN_binlog [OF assms(3,4)] word_less_nat_alt
      halves_word(2) [OF assms(1,2)] halves_word(2) [OF assms(3,4)]
    using lex by blast
qed

definition demo_fmt :: go_fmt where
  "demo_fmt = \<lparr>gf_float = float_text, gf_value = (\<lambda>j. ''{}''), gf_quote = (\<lambda>s. ''q'' @ s), gf_uint64 = (\<lambda>f. 0)\<rparr>"

theorem extractLSN_order_witness:
  "extractLSN demo_fmt (lsn_source GNil (binlog_file ''mysql-bin'' 4 41) (GFloat (FFin (of_nat 999999) ''999999'')))
   < extractLSN demo_fmt (lsn_source GNil (binlog_file ''mysql-bin'' 4 42) (GFloat (FFin (of_nat 4) ''4'')))"
  using extractLSN_order [of 41 999999 42 4 demo_fmt "''mysql-bin''" 4 "''999999''" 4 "''4''"] by simp

lemma text_to_uint64_decimal:
  assumes "list_all is_digit s" and "s \<noteq> []" and "undigits s < 2 ^ 64"
  shows "text_to_uint64 s = Some (of_nat (undigits s))"
proof -
  have "TrimSpace s = s"
    using assms(1) by (intro TrimSpace_id) (auto simp: list_all_iff is_digit_def is_space_def)
  moreover have "CHR ''/'' \<notin> set s" using assms(1) by (auto simp: list_all_iff is_digit_def)
  ultimately show ?thesis
    using assms(2,3) ParseUint_decimal [OF assms(1,2), of 64] by (simp add: text_to_uint64_def Let_def)
qed

text \<open>
  a hexadecimal number without a slash is not read in order. The text is tried as a decimal
  number first, so that an LSN that happens to be spelled with decimal digits only is read in
  another base than its neighbours: 1A is 26, but its successors 20 to 25 (32 to 37) are read as
  20 to 25, so the later writes lose against the earlier one.
\<close>

theorem hex_lsn_not_monotone:
  "n < 6 \<Longrightarrow>
   extractLSN fm (lsn_source (GString ''1A'') GNil GNil) = 26
   \<and> ParseUint (''2'' @ digits n) 16 64 = Some (32 + n)
   \<and> extractLSN fm (lsn_source (GString (''2'' @ digits n)) GNil GNil) < 26"
proof -
  assume "n < 6"
  then have dig: "digits n = [char_of (48 + n)]" by (simp add: digits.simps)
  have "hex_value (char_of (48 + n)) = Some n" using \<open>n < 6\<close> by (simp add: hex_value_def Let_def)
  moreover have two: "hex_value CHR ''2'' = Some 2" by (simp add: hex_value_def)
  ultimately have hex: "ParseUint (''2'' @ digits n) 16 64 = Some (32 + n)"
    using \<open>n < 6\<close> by (simp add: ParseUint_def dig)
  have plain: "list_all is_digit (''2'' @ digits n)"
    using digits_are_digits [of n] by (simp add: is_digit_def)
  have "undigits (''2'' @ digits n) = 20 + n" using \<open>n < 6\<close> by (simp add: undigits_def dig)
  then have low: "text_to_uint64 (''2'' @ digits n) = Some (of_nat (20 + n))"
    using \<open>n < 6\<close> text_to_uint64_decimal [OF plain] by simp
  have "TrimSpace ''1A'' = ''1A''" by (rule TrimSpace_id) (auto simp: is_space_def)
  then have high: "text_to_uint64 ''1A'' = Some 26"
    by (simp add: text_to_uint64_def Let_def ParseUint_def hex_value_def)
  have "unat (of_nat (20 + n) :: uint64) = 20 + n" using \<open>n < 6\<close> by (simp only: unat_of_nat) simp
  then have "(of_nat (20 + n) :: uint64) < 26" using \<open>n < 6\<close> unfolding word_less_nat_alt by simp
  then show ?thesis
    using hex low high by (simp add: extractLSN_def lsn_source_def toUint64_def)
qed

theorem hex_lsn_not_monotone_witness:
  "ParseUint (''2'' @ digits 0) 16 64 = Some 32"
  using hex_lsn_not_monotone [of 0] by simp

section \<open>Envelopes with and without a schema\<close>

text \<open>
  a connector with schemas enabled, which wraps every message in \<open>payload\<close>, changes nothing: the
  wrapped message decodes exactly as the bare one (the same event or the same error), except that
  the event keeps the bytes of the message it came from. The bare message must be one object
  without a member \<open>payload\<close> of its own.
\<close>

theorem Decode_wrapped:
  assumes "parse bare = Inr (JObj ms)" and "parse wrapped = Inr (JObj [(''payload'', JObj ms)])"
    and "json_field ms ''payload'' = JNull" and "bare \<noteq> []" and "wrapped \<noteq> []"
  shows "Decode fm parse now d topic part off key wrapped
    = map_sum id (map_option (\<lambda>ev. ev\<lparr>ev_Raw := wrapped\<rparr>)) (Decode fm parse now d topic part off key bare)"
proof -
  let ?wms = "[(''payload'', JObj ms)]"
  have wf: "json_field ?wms f = (if ToLower f = ''payload'' then JObj ms else JNull)" for f
  proof -
    have "ToLower ''payload'' = ''payload''" by code_simp
    then show ?thesis by (auto simp: json_field_def)
  qed
  have "ToLower ''before'' \<noteq> ''payload''" "ToLower ''after'' \<noteq> ''payload''" "ToLower ''op'' \<noteq> ''payload''"
    "ToLower ''ts_ms'' \<noteq> ''payload''" "ToLower ''source'' \<noteq> ''payload''"
    by code_simp+
  then have fields: "json_field ?wms ''before'' = JNull" "json_field ?wms ''after'' = JNull"
    "json_field ?wms ''op'' = JNull" "json_field ?wms ''ts_ms'' = JNull" "json_field ?wms ''source'' = JNull"
    by (simp_all only: wf if_False)
  have "json_field [] f = JNull" for f by (simp add: json_field_def)
  then have zero: "\<exists>b. decode_body fm ?wms = Some b"
    by (simp add: decode_body_def fields as_map_def decode_source_def)
  have payload: "json_field ?wms ''payload'' = JObj ms"
  proof -
    have "ToLower ''payload'' = ''payload''" by code_simp
    then show ?thesis by (simp add: wf)
  qed
  have bare: "Unmarshal_envelope fm parse bare
      = (case decode_body fm ms of None \<Rightarrow> Inl (plain_error ''json: cannot unmarshal value into Go struct'')
           | Some b \<Rightarrow> Inr (b, None))"
    using assms(1,3) by (auto simp: Unmarshal_envelope_def decode_envelope_def split: option.splits)
  have wrapped: "\<exists>b0. Unmarshal_envelope fm parse wrapped
      = (case decode_body fm ms of None \<Rightarrow> Inl (plain_error ''json: cannot unmarshal value into Go struct'')
           | Some b \<Rightarrow> Inr (b0, Some b))"
    using assms(2) zero by (auto simp: Unmarshal_envelope_def decode_envelope_def payload split: option.splits)
  have event: "event_of_body fm now topic part off wrapped b
      = (event_of_body fm now topic part off bare b)\<lparr>ev_Raw := wrapped\<rparr>" for b
    by (simp add: event_of_body_def Let_def)
  have raw: "ev_Values (ev\<lparr>ev_Raw := r\<rparr>) = ev_Values ev" "ev_Table (ev\<lparr>ev_Raw := r\<rparr>) = ev_Table ev"
    "Event_Validate (ev\<lparr>ev_Raw := r, ev_Key := k\<rparr>) = Event_Validate (ev\<lparr>ev_Key := k\<rparr>)"
    "decode_rowKey fm parse d t key (ev\<lparr>ev_Raw := r\<rparr>) = decode_rowKey fm parse d t key ev"
    for ev :: change_event and r k t
    by (simp_all add: ev_Values_def Event_Validate_def decode_rowKey_def)
  obtain b0 where b0: "Unmarshal_envelope fm parse wrapped
      = (case decode_body fm ms of None \<Rightarrow> Inl (plain_error ''json: cannot unmarshal value into Go struct'')
           | Some b \<Rightarrow> Inr (b0, Some b))" using wrapped by blast
  show ?thesis
  proof (cases "decode_body fm ms")
    case None
    then show ?thesis using assms(4,5) by (simp add: Decode_def bare b0)
  next
    case (Some b)
    then show ?thesis
      using assms(4,5) unfolding Decode_def bare b0 Let_def event
      by (auto simp: raw split: sum.splits option.splits)
  qed
qed

section \<open>Messages\<close>

definition demo_message :: "(string \<times> json) list" where
  "demo_message =
     [(''op'', JStr ''c''), (''after'', JObj [(''id'', JStr ''A'')]),
      (''source'', JObj [(''schema'', JStr ''app''), (''table'', JStr ''t''), (''lsn'', JStr ''7'')])]"

definition demo_parse :: "string \<Rightarrow> go_error + json" where
  "demo_parse s =
     (if s = ''m'' then Inr (JObj demo_message)
      else if s = ''w'' then Inr (JObj [(''payload'', JObj demo_message)])
      else Inl (plain_error ''unexpected end of JSON input''))"

definition demo_decoder :: decoder where
  "demo_decoder = \<lparr>de_KeyColumns = [(''app.t'', [''id''])], de_SignalTable = ''''\<rparr>"

definition demo_decode :: "string \<Rightarrow> go_error + change_event option" where
  "demo_decode s = Decode demo_fmt demo_parse 1 demo_decoder ''topic'' 0 9 '''' s"

lemma demo_decode_error: "\<exists>e. demo_decode ''?'' = Inl e"
  by (simp add: demo_decode_def Decode_def Unmarshal_envelope_def demo_parse_def)

lemma lower_names:
  "ToLower ''before'' = ''before''" "ToLower ''after'' = ''after''" "ToLower ''op'' = ''op''"
  "ToLower ''ts_ms'' = ''ts_ms''" "ToLower ''source'' = ''source''" "ToLower ''payload'' = ''payload''"
  "ToLower ''connector'' = ''connector''" "ToLower ''db'' = ''db''" "ToLower ''schema'' = ''schema''"
  "ToLower ''table'' = ''table''" "ToLower ''lsn'' = ''lsn''" "ToLower ''txId'' = ''txid''"
  by code_simp+

lemma demo_body:
  "\<exists>s. decode_body demo_fmt demo_message
     = Some \<lparr>db_Before = [], db_After = [(''id'', GString ''A'')], db_Op = ''c'', db_TsMs = 0, db_Source = s\<rparr>
   \<and> dz_Schema s = ''app'' \<and> dz_Table s = ''t''"
  by (simp add: decode_body_def decode_source_def json_field_def demo_message_def lower_names as_map_def as_row_def)

lemma demo_decode_event: "case demo_decode ''m'' of Inr (Some ev) \<Rightarrow> True | _ \<Rightarrow> False"
proof -
  obtain s where "decode_body demo_fmt demo_message
     = Some \<lparr>db_Before = [], db_After = [(''id'', GString ''A'')], db_Op = ''c'', db_TsMs = 0, db_Source = s\<rparr>"
    "dz_Schema s = ''app''" "dz_Table s = ''t''"
    using demo_body by blast
  moreover have "json_field demo_message ''payload'' = JNull"
    by (simp add: json_field_def demo_message_def lower_names)
  ultimately show ?thesis
    by (simp add: demo_decode_def Decode_def Unmarshal_envelope_def demo_parse_def decode_envelope_def
        decode_rowKey_def event_of_body_def demo_decoder_def TableRef_String_def ev_Values_def
        Event_Validate_def Op_Valid_def op_defs IsUpsert_def NewRowKeyOrdered_def NewRowKey_def mk_col_def
        key_Len_def Let_def)
qed

theorem Decode_errors_permanent_witness:
  "case demo_decode ''?'' of Inl e \<Rightarrow> Classify (Some e) = Permanent | Inr ev \<Rightarrow> False"
proof -
  obtain e where e: "demo_decode ''?'' = Inl e" using demo_decode_error by blast
  then have "Classify (Some e) = Permanent" unfolding demo_decode_def by (rule Decode_errors_permanent)
  with e show ?thesis by simp
qed

theorem Decode_sound_witness:
  "case demo_decode ''m'' of Inr (Some ev) \<Rightarrow> Event_Validate ev = None \<and> ev_Raw ev = ''m'' | _ \<Rightarrow> False"
proof -
  obtain ev where ev: "demo_decode ''m'' = Inr (Some ev)"
    using demo_decode_event by (auto split: sum.splits option.splits)
  then show ?thesis using Decode_sound [OF ev [unfolded demo_decode_def]] by simp
qed

theorem Decode_wrapped_witness:
  "demo_decode ''w'' = map_sum id (map_option (\<lambda>ev. ev\<lparr>ev_Raw := ''w''\<rparr>)) (demo_decode ''m'')"
proof -
  have "json_field demo_message ''payload'' = JNull" by (simp add: json_field_def demo_message_def lower_names)
  moreover have "demo_parse ''m'' = Inr (JObj demo_message)"
    "demo_parse ''w'' = Inr (JObj [(''payload'', JObj demo_message)])" by (simp_all add: demo_parse_def)
  ultimately show ?thesis
    unfolding demo_decode_def using Decode_wrapped [of demo_parse "''m''" demo_message "''w''"] by blast
qed

end
