(* ===== verification/Consume.thy ===== *)
theory Consume
  imports Decode DlqStore TargetDb
begin

text \<open>
  Reading the stream and applying it: \<open>internal/stream/consumer.go\<close> and the loop of
  \<open>cmd/cdc-applier/main.go\<close>. The brokers are the argument \<open>lg\<close>, the messages of each partition in
  offset order; where the source depends on time (how many reads of a partition succeed before
  the linger deadline), the number is an argument. TLS, timeouts, metrics, health and logging are
  left out.
\<close>

section \<open>The consumer\<close>

record message =
  mg_Topic :: string
  mg_Partition :: int
  mg_Offset :: int
  mg_Key :: string
  mg_Value :: string

type_synonym broker_log = "string \<Rightarrow> int \<Rightarrow> message list"

datatype start_offset = FromOffset int | LastOffset | FirstOffset

record reader =
  rd_Topic :: string
  rd_Partition :: int
  rd_next :: int

record consumer =
  cn_readers :: "reader list"
  cn_batch :: int

record kafka_config =
  kc_Brokers :: "string list"
  kc_StartOffset :: string

definition partition_name :: "string \<Rightarrow> int \<Rightarrow> string" where
  "partition_name topic p = topic @ ''/'' @ FormatInt p"

definition resume_map :: "position list \<Rightarrow> int gomap" where
  "resume_map start =
     fold (\<lambda>p m. AList.update (partition_name (po_Topic p) (po_Partition p)) (po_Offset p) m) start []"

definition start_of :: "kafka_config \<Rightarrow> int gomap \<Rightarrow> string \<Rightarrow> int \<Rightarrow> start_offset" where
  "start_of cfg resume topic p =
     (case map_of resume (partition_name topic p) of
        Some off \<Rightarrow> FromOffset (off + 1)
      | None \<Rightarrow> if kc_StartOffset cfg = ''latest'' then LastOffset else FirstOffset)"

text \<open>What seeking to a start position means: the offset of the next message to read.\<close>

definition next_offset :: "broker_log \<Rightarrow> string \<Rightarrow> int \<Rightarrow> start_offset \<Rightarrow> int" where
  "next_offset lg topic p s =
     (case s of
        FromOffset n \<Rightarrow> n
      | LastOffset \<Rightarrow> (case rev (lg topic p) of [] \<Rightarrow> 0 | m # _ \<Rightarrow> mg_Offset m + 1)
      | FirstOffset \<Rightarrow> (case lg topic p of [] \<Rightarrow> 0 | m # _ \<Rightarrow> mg_Offset m))"

definition seek_error :: "string \<Rightarrow> int \<Rightarrow> start_offset \<Rightarrow> go_error \<Rightarrow> go_error" where
  "seek_error topic p s e =
     Errorf (''stream: seeking '' @ partition_name topic p @ '' to ''
       @ (case s of FromOffset n \<Rightarrow> FormatInt n | LastOffset \<Rightarrow> ''latest'' | FirstOffset \<Rightarrow> ''earliest'')) e"

fun add_readers ::
  "broker_log \<Rightarrow> (string \<Rightarrow> int \<Rightarrow> start_offset \<Rightarrow> go_error option) \<Rightarrow> kafka_config \<Rightarrow> int gomap
   \<Rightarrow> (string \<times> int) list \<Rightarrow> reader list \<Rightarrow> go_error + reader list" where
  "add_readers lg seek cfg resume [] rs = Inr rs"
| "add_readers lg seek cfg resume ((topic, p) # tps) rs =
     (let s = start_of cfg resume topic p in
      case seek topic p s of
        Some e \<Rightarrow> Inl (seek_error topic p s e)
      | None \<Rightarrow>
          add_readers lg seek cfg resume tps
            (rs @ [\<lparr>rd_Topic = topic, rd_Partition = p, rd_next = next_offset lg topic p s\<rparr>]))"

definition NewConsumer ::
  "broker_log \<Rightarrow> (string \<Rightarrow> int \<Rightarrow> start_offset \<Rightarrow> go_error option) \<Rightarrow> kafka_config
   \<Rightarrow> (string \<times> int list) list \<Rightarrow> position list \<Rightarrow> go_error + consumer" where
  "NewConsumer lg seek cfg assignments start =
     (if kc_Brokers cfg = [] then Inl (plain_error ''stream: no Kafka brokers configured'')
      else
        let resume = resume_map start;
            tps = concat (map (\<lambda>(topic, ps). map (\<lambda>p. (topic, p)) ps) assignments)
        in case add_readers lg seek cfg resume tps [] of
             Inl e \<Rightarrow> Inl e
           | Inr rs \<Rightarrow>
               if rs = [] then Inl (plain_error ''stream: no partitions assigned'')
               else Inr \<lparr>cn_readers = rs, cn_batch = 1000\<rparr>)"

definition DiscoverPartitions ::
  "string list \<Rightarrow> go_error option \<Rightarrow> go_error + (string \<times> int) list \<Rightarrow> go_error + (string \<times> int list) list" where
  "DiscoverPartitions brokers dial partitions =
     (if brokers = [] then Inl (plain_error ''stream: no brokers configured'')
      else case dial of
        Some e \<Rightarrow> Inl (Errorf (''stream: dialling '' @ hd brokers) e)
      | None \<Rightarrow>
          (case partitions of
             Inl e \<Rightarrow> Inl (Errorf ''stream: reading partition metadata'' e)
           | Inr parts \<Rightarrow>
               Inr (fold (\<lambda>(topic, i) out.
                      AList.update topic ((case map_of out topic of None \<Rightarrow> [] | Some ids \<Rightarrow> ids) @ [i]) out) parts [])))"

definition SetBatchSize :: "int \<Rightarrow> consumer \<Rightarrow> consumer" where
  "SetBatchSize n c = (if n > 0 then c\<lparr>cn_batch := n\<rparr> else c)"

text \<open>
  \<open>k\<close> successful reads of one partition, as far as it has messages, and one poll over all readers:
  \<open>ks\<close> says for each reader how many reads succeed before the first that fails or the deadline.
\<close>

definition read_messages :: "broker_log \<Rightarrow> nat \<Rightarrow> reader \<Rightarrow> message list \<times> reader" where
  "read_messages lg k r =
     (let ms = take k (filter (\<lambda>m. mg_Offset m \<ge> rd_next r) (lg (rd_Topic r) (rd_Partition r)))
      in (ms, if ms = [] then r else r\<lparr>rd_next := mg_Offset (List.last ms) + 1\<rparr>))"

fun poll_readers ::
  "broker_log \<Rightarrow> int \<Rightarrow> nat list \<Rightarrow> reader list \<Rightarrow> message list \<Rightarrow> message list \<times> reader list" where
  "poll_readers lg batch ks [] out = (out, [])"
| "poll_readers lg batch ks (r # rs) out =
     (let k = min (case ks of [] \<Rightarrow> 0 | k # _ \<Rightarrow> k) (nat (batch - int (length out)));
          mr = read_messages lg k r;
          rest = poll_readers lg batch (tl ks) rs (out @ fst mr)
      in (fst rest, snd mr # snd rest))"

definition Poll :: "broker_log \<Rightarrow> nat list \<Rightarrow> consumer \<Rightarrow> message list \<times> consumer" where
  "Poll lg ks c =
     (let res = poll_readers lg (cn_batch c) ks (cn_readers c) []
      in (fst res, c\<lparr>cn_readers := snd res\<rparr>))"

section \<open>The applier's loop\<close>

text \<open>What the loop holds besides the consumer and the databases.\<close>

record apply_env =
  en_fmt :: go_fmt
  en_parse :: "string \<Rightarrow> go_error + json"
  en_decoder :: decoder
  en_applier :: applier
  en_policy :: policy
  en_dlqPolicy :: policy
  en_store :: store
  en_migration :: string

definition keyColumns :: "plan \<Rightarrow> string list gomap" where
  "keyColumns plan =
     fold (\<lambda>t out. AList.update (TableRef_String (ts_Source t)) (ts_PrimaryKey t) out) (pl_Tables plan) []"

text \<open>The clock, the random draws and the answers of the control database during one batch.\<close>

record batch_env =
  be_now :: gotime
  be_draw :: "int \<Rightarrow> int"
  be_put_fault :: "nat \<Rightarrow> go_error option"
  be_ctx :: "nat \<Rightarrow> go_error option"
  be_slept :: "nat \<Rightarrow> bool"

definition undecodable_event :: "message \<Rightarrow> change_event" where
  "undecodable_event m =
     \<lparr>ev_Table = \<lparr>tr_Schema = '''', tr_Name = ''unknown''\<rparr>, ev_Op = OpCreate, ev_Key = \<lparr>cols = []\<rparr>,
      ev_Before = [], ev_After = [],
      ev_Source = \<lparr>sm_LSN = 0, sm_TxID = '''', sm_CommitTS = 0, sm_Snapshot = False, sm_Connector = ''''\<rparr>,
      ev_Ingested = 0, ev_Topic = mg_Topic m, ev_Partition = mg_Partition m, ev_Offset = mg_Offset m,
      ev_Raw = mg_Value m\<rparr>"

definition new_entry :: "apply_env \<Rightarrow> batch_env \<Rightarrow> change_event \<Rightarrow> go_error \<Rightarrow> entry" where
  "new_entry env b ev err =
     NewEntry (ap_sum256 (en_applier env)) (be_draw b) (en_migration env) ev (Some err) (en_dlqPolicy env) (be_now b)"

text \<open>
  The messages of a poll, decoded one by one: an undecodable one is dead-lettered at once, a
  compaction tombstone and a watermark are dropped.
\<close>

fun decode_batch ::
  "apply_env \<Rightarrow> batch_env \<Rightarrow> message list \<Rightarrow> change_event list \<Rightarrow> dl_db
   \<Rightarrow> (go_error + change_event list) \<times> dl_db" where
  "decode_batch env b [] events db = (Inr events, db)"
| "decode_batch env b (m # ms) events db =
     (case Decode (en_fmt env) (en_parse env) (be_now b) (en_decoder env) (mg_Topic m) (mg_Partition m)
             (mg_Offset m) (mg_Key m) (mg_Value m) of
        Inl err \<Rightarrow>
          (case PutDeadLetter (en_store env) (be_put_fault b (length ms))
                  (new_entry env b (undecodable_event m) err) db of
             (Some perr, db) \<Rightarrow> (Inl perr, db)
           | (None, db) \<Rightarrow> decode_batch env b ms events db)
      | Inr None \<Rightarrow> decode_batch env b ms events db
      | Inr (Some ev) \<Rightarrow>
          if snd (snd (IsWatermark (en_fmt env) (en_decoder env) (Some ev)))
          then decode_batch env b ms events db
          else decode_batch env b ms (events @ [ev]) db)"

text \<open>
  \<open>applyWithRetry\<close>: the retry loop around \<open>ApplyWithIsolation\<close>. \<open>attempts\<close> is the database after each
  attempt; \<open>None\<close> means that the loop never returns.
\<close>

fun attempt :: "'w driver \<Rightarrow> applier \<Rightarrow> change_event list \<Rightarrow> 'w \<Rightarrow> nat \<Rightarrow> (apply_result \<times> go_error option) \<times> 'w" where
  "attempt drv a events w 0 = ((empty_result, None), w)"
| "attempt drv a events w (Suc i) =
     ApplyWithIsolation drv a events (HighWaterMarks (map Some events)) (snd (attempt drv a events w i))"

definition is_canceled :: "go_error \<Rightarrow> bool" where
  "is_canceled e = (be_is (base_of e) = Some CtxCanceled)"

definition policy_error_as_error :: "policy_error \<Rightarrow> go_error" where
  "policy_error_as_error e =
     plain_error (case e of
         BaseExceedsMax \<Rightarrow> ''retry policy: base delay exceeds max delay''
       | NegativeMaxAttempts \<Rightarrow> ''retry policy: negative max attempts'')"

definition applyWithRetry ::
  "'w driver \<Rightarrow> apply_env \<Rightarrow> batch_env \<Rightarrow> change_event list \<Rightarrow> 'w
   \<Rightarrow> ((apply_result \<times> go_error option) \<times> 'w) option" where
  "applyWithRetry drv env b events w =
     (let step = attempt drv (en_applier env) events w in
      case Do (en_policy env) (be_ctx b) (\<lambda>i. snd (fst (step i))) (be_slept b) of
        None \<Rightarrow> None
      | Some (PolicyError e) \<Rightarrow> Some ((empty_result, Some (policy_error_as_error e)), w)
      | Some (Returned err n) \<Rightarrow>
          let res = fst (fst (step n)); w = snd (step n) in
          (case err of
             Some e \<Rightarrow> if is_canceled e then Some ((res, None), w) else Some ((res, Some e), w)
           | None \<Rightarrow> Some ((res, None), w)))"

datatype loop_outcome = Continue | Stop go_error

definition process_batch ::
  "'w driver \<Rightarrow> apply_env \<Rightarrow> batch_env \<Rightarrow> message list \<Rightarrow> 'w \<times> dl_db
   \<Rightarrow> (loop_outcome \<times> 'w \<times> dl_db) option" where
  "process_batch drv env b messages st =
     (if messages = [] then Some (Continue, st)
      else
        let w = fst st; dec = decode_batch env b messages [] (snd st); db = snd dec in
        case fst dec of
          Inl e \<Rightarrow> Some (Stop e, w, db)
        | Inr events \<Rightarrow>
            if events = [] then Some (Continue, w, db)
            else (case applyWithRetry drv env b events w of
                    None \<Rightarrow> None
                  | Some ((res, Some e), w) \<Rightarrow> Some (Continue, w, db)
                  | Some ((res, None), w) \<Rightarrow>
                      (case PutDeadLetters (en_store env) (be_put_fault b)
                              (map (\<lambda>(ev, err). new_entry env b ev err) (rs_DeadLettered res)) db of
                         (Some perr, db) \<Rightarrow> Some (Stop perr, w, db)
                       | (None, db) \<Rightarrow> Some (Continue, w, db))))"

section \<open>What the consumer delivers\<close>

definition wf_log :: "broker_log \<Rightarrow> bool" where
  "wf_log lg \<longleftrightarrow> (\<forall>t p. sorted_wrt (<) (map mg_Offset (lg t p))
     \<and> (\<forall>m \<in> set (lg t p). mg_Topic m = t \<and> mg_Partition m = p))"

definition mg_part :: "message \<Rightarrow> string \<times> int" where
  "mg_part m = (mg_Topic m, mg_Partition m)"

definition rd_part :: "reader \<Rightarrow> string \<times> int" where
  "rd_part r = (rd_Topic r, rd_Partition r)"

definition from_offset :: "broker_log \<Rightarrow> string \<times> int \<Rightarrow> int \<Rightarrow> message list" where
  "from_offset lg tp n = filter (\<lambda>m. mg_Offset m \<ge> n) (lg (fst tp) (snd tp))"

text \<open>What a list of readers has still to deliver of a partition.\<close>

definition pending :: "broker_log \<Rightarrow> reader list \<Rightarrow> string \<times> int \<Rightarrow> message list" where
  "pending lg rs tp =
     (case find (\<lambda>r. rd_part r = tp) rs of None \<Rightarrow> [] | Some r \<Rightarrow> from_offset lg tp (rd_next r))"

lemma from_offset_sorted: "wf_log lg \<Longrightarrow> sorted_wrt (<) (map mg_Offset (from_offset lg tp n))"
  by (auto simp: wf_log_def from_offset_def sorted_wrt_map intro: sorted_wrt_filter)

lemma from_offset_part: "wf_log lg \<Longrightarrow> m \<in> set (from_offset lg tp n) \<Longrightarrow> mg_part m = tp"
  by (auto simp: wf_log_def from_offset_def mg_part_def)

text \<open>In a sorted list, what is at or above the successor of an element's offset is what follows it.\<close>

lemma filter_above_take:
  "sorted_wrt (<) (map mg_Offset xs) \<Longrightarrow> take k xs \<noteq> [] \<Longrightarrow>
   filter (\<lambda>m. mg_Offset m \<ge> mg_Offset (List.last (take k xs)) + 1) xs = drop k xs"
proof (induction xs arbitrary: k)
  case (Cons x xs)
  then obtain k' where k: "k = Suc k'" by (cases k) auto
  have sorted: "sorted_wrt (<) (map mg_Offset xs)" and above: "\<forall>y \<in> set xs. mg_Offset x < mg_Offset y"
    using Cons.prems by auto
  show ?case
  proof (cases "take k' xs = []")
    case True
    then show ?thesis using k above by (cases xs; cases k') (auto simp: filter_id_conv)
  next
    case False
    then have "List.last (take k' xs) \<in> set xs" by (meson in_set_takeD last_in_set)
    then have "mg_Offset x < mg_Offset (List.last (take k' xs))" using above by blast
    then show ?thesis using Cons.IH [OF sorted False] False k by simp
  qed
qed simp

lemma read_messages_from:
  assumes "wf_log lg" and "read_messages lg k r = (ms, r')"
  shows "ms = take k (from_offset lg (rd_part r) (rd_next r)) \<and> rd_part r' = rd_part r
    \<and> from_offset lg (rd_part r) (rd_next r') = drop k (from_offset lg (rd_part r) (rd_next r))"
proof -
  let ?xs = "from_offset lg (rd_part r) (rd_next r)"
  have ms: "ms = take k ?xs" and r': "r' = (if ms = [] then r else r\<lparr>rd_next := mg_Offset (List.last ms) + 1\<rparr>)"
    using assms(2) unfolding read_messages_def Let_def from_offset_def rd_part_def
    by (simp_all del: take_eq_Nil) (metis prod.inject)?
  show ?thesis
  proof (cases "ms = []")
    case True
    then show ?thesis using ms r' by (cases "k = 0") auto
  next
    case False
    have "List.last ms \<in> set ?xs" using False ms by (metis in_set_takeD last_in_set)
    then have "rd_next r \<le> mg_Offset (List.last ms) + 1" by (simp add: from_offset_def)
    then have "from_offset lg (rd_part r) (mg_Offset (List.last ms) + 1)
        = filter (\<lambda>m. mg_Offset m \<ge> mg_Offset (List.last ms) + 1) ?xs"
      by (auto simp: from_offset_def intro!: filter_cong)
    also have "\<dots> = drop k ?xs"
      using filter_above_take [OF from_offset_sorted [OF assms(1)]] False ms by blast
    finally show ?thesis using ms r' False by (simp add: rd_part_def)
  qed
qed

lemma poll_readers_delivers:
  assumes "wf_log lg"
  shows "distinct (map rd_part rs) \<Longrightarrow> poll_readers lg b ks rs out = (out', rs') \<Longrightarrow>
    \<exists>new. out' = out @ new \<and> map rd_part rs' = map rd_part rs
      \<and> mg_part ` set new \<subseteq> rd_part ` set rs
      \<and> (\<forall>tp. \<exists>k. filter (\<lambda>m. mg_part m = tp) new = take k (pending lg rs tp)
           \<and> pending lg rs' tp = drop k (pending lg rs tp))"
proof (induction rs arbitrary: ks out out' rs')
  case Nil
  then show ?case by (auto simp: pending_def)
next
  case (Cons r rs)
  let ?k = "min (case ks of [] \<Rightarrow> 0 | k # _ \<Rightarrow> k) (nat (b - int (length out)))"
  obtain ms r1 where read: "read_messages lg ?k r = (ms, r1)" by (cases "read_messages lg ?k r")
  obtain rs1 where rest: "poll_readers lg b (tl ks) rs (out @ ms) = (out', rs1)" and rs': "rs' = r1 # rs1"
    using Cons.prems(2) read by (cases "poll_readers lg b (tl ks) rs (out @ ms)") (auto simp: Let_def)
  note r = read_messages_from [OF assms read]
  obtain new where new: "out' = (out @ ms) @ new" "map rd_part rs1 = map rd_part rs"
    "mg_part ` set new \<subseteq> rd_part ` set rs"
    "\<forall>tp. \<exists>k. filter (\<lambda>m. mg_part m = tp) new = take k (pending lg rs tp)
       \<and> pending lg rs1 tp = drop k (pending lg rs tp)"
    using Cons.IH [OF _ rest] Cons.prems(1) by auto
  have ms: "\<forall>m \<in> set ms. mg_part m = rd_part r"
    using r from_offset_part [OF assms] by (blast dest: in_set_takeD)
  have "\<exists>k. filter (\<lambda>m. mg_part m = tp) (ms @ new) = take k (pending lg (r # rs) tp)
       \<and> pending lg rs' tp = drop k (pending lg (r # rs) tp)" for tp
  proof (cases "tp = rd_part r")
    case True
    have "rd_part r \<notin> mg_part ` set new" using new(3) Cons.prems(1) by auto
    with True have "\<forall>m \<in> set new. mg_part m \<noteq> tp" by (metis image_eqI)
    then have "filter (\<lambda>m. mg_part m = tp) (ms @ new) = ms"
      using ms True by (simp add: filter_empty_conv filter_id_conv)
    then show ?thesis using r True rs' by (intro exI [of _ ?k]) (simp add: pending_def)
  next
    case False
    then have "filter (\<lambda>m. mg_part m = tp) ms = []" using ms by (auto simp: filter_empty_conv)
    moreover have "pending lg (r # rs) tp = pending lg rs tp" "pending lg rs' tp = pending lg rs1 tp"
      using False r rs' by (auto simp: pending_def)
    ultimately show ?thesis using spec [OF new(4), of tp] by simp
  qed
  then show ?case using new(1-3) r rs' ms by (intro exI [of _ "ms @ new"]) auto
qed

text \<open>The messages of a sequence of polls.\<close>

fun poll_all :: "broker_log \<Rightarrow> nat list list \<Rightarrow> consumer \<Rightarrow> message list \<times> consumer" where
  "poll_all lg [] c = ([], c)"
| "poll_all lg (ks # kss) c =
     (let first = Poll lg ks c; rest = poll_all lg kss (snd first) in (fst first @ fst rest, snd rest))"

lemma Poll_delivers:
  assumes "wf_log lg" and "distinct (map rd_part (cn_readers c))"
  shows "map rd_part (cn_readers (snd (Poll lg ks c))) = map rd_part (cn_readers c)
    \<and> mg_part ` set (fst (Poll lg ks c)) \<subseteq> rd_part ` set (cn_readers c)
    \<and> (\<exists>k. filter (\<lambda>m. mg_part m = tp) (fst (Poll lg ks c)) = take k (pending lg (cn_readers c) tp)
         \<and> pending lg (cn_readers (snd (Poll lg ks c))) tp = drop k (pending lg (cn_readers c) tp))"
proof -
  obtain out rs where poll: "poll_readers lg (cn_batch c) ks (cn_readers c) [] = (out, rs)" by fastforce
  obtain new where new: "out = [] @ new" "map rd_part rs = map rd_part (cn_readers c)"
    "mg_part ` set new \<subseteq> rd_part ` set (cn_readers c)"
    "\<forall>tp. \<exists>k. filter (\<lambda>m. mg_part m = tp) new = take k (pending lg (cn_readers c) tp)
       \<and> pending lg rs tp = drop k (pending lg (cn_readers c) tp)"
    using poll_readers_delivers [OF assms poll] by (elim exE conjE)
  have "fst (Poll lg ks c) = new" "cn_readers (snd (Poll lg ks c)) = rs"
    using new(1) by (simp_all add: Poll_def Let_def poll)
  then show ?thesis using new(2,3) spec [OF new(4), of tp] by simp
qed

lemma poll_all_delivers:
  assumes "wf_log lg"
  shows "distinct (map rd_part (cn_readers c)) \<Longrightarrow>
    map rd_part (cn_readers (snd (poll_all lg kss c))) = map rd_part (cn_readers c)
    \<and> (\<exists>k. filter (\<lambda>m. mg_part m = tp) (fst (poll_all lg kss c)) = take k (pending lg (cn_readers c) tp)
         \<and> pending lg (cn_readers (snd (poll_all lg kss c))) tp = drop k (pending lg (cn_readers c) tp))"
proof (induction kss arbitrary: c)
  case Nil
  show ?case by (auto intro: exI [of _ 0])
next
  case (Cons ks kss)
  let ?c1 = "snd (Poll lg ks c)"
  obtain k where k: "map rd_part (cn_readers ?c1) = map rd_part (cn_readers c)"
    "filter (\<lambda>m. mg_part m = tp) (fst (Poll lg ks c)) = take k (pending lg (cn_readers c) tp)"
    "pending lg (cn_readers ?c1) tp = drop k (pending lg (cn_readers c) tp)"
    using Poll_delivers [OF assms Cons.prems] by blast
  obtain k' where k': "map rd_part (cn_readers (snd (poll_all lg kss ?c1))) = map rd_part (cn_readers ?c1)"
    "filter (\<lambda>m. mg_part m = tp) (fst (poll_all lg kss ?c1)) = take k' (pending lg (cn_readers ?c1) tp)"
    "pending lg (cn_readers (snd (poll_all lg kss ?c1))) tp = drop k' (pending lg (cn_readers ?c1) tp)"
    using Cons.IH [of ?c1] Cons.prems k(1) by metis
  show ?case
    using k k' by (intro conjI exI [of _ "k + k'"]) (simp_all add: Let_def take_add add.commute [of k' k])
qed

lemma digits_no_slash: "CHR ''/'' \<notin> set (digits n)"
  using digits_chars [of "CHR ''/''" n] by auto

lemma partition_name_inj: "partition_name t p = partition_name u q \<longleftrightarrow> t = u \<and> p = q"
proof
  have split: "split_last CHR ''/'' (partition_name t p) = Some (t, FormatInt p)" for t p
  proof -
    have "CHR ''/'' \<notin> set (FormatInt p)"
      by (simp add: FormatInt_def digits_no_slash)
    then show ?thesis by (simp add: split_last_Some partition_name_def)
  qed
  assume "partition_name t p = partition_name u q"
  then have "Some (t, FormatInt p) = Some (u, FormatInt q)" by (simp only: split [symmetric])
  then show "t = u \<and> p = q" by simp
qed simp

definition po_at :: "position \<Rightarrow> string \<times> int" where
  "po_at p = (po_Topic p, po_Partition p)"

definition resume_step :: "position \<Rightarrow> int gomap \<Rightarrow> int gomap" where
  "resume_step p m = AList.update (partition_name (po_Topic p) (po_Partition p)) (po_Offset p) m"

lemma resume_map_step: "resume_map start = fold resume_step start []"
proof -
  have "resume_step = (\<lambda>p m. AList.update (partition_name (po_Topic p) (po_Partition p)) (po_Offset p) m)"
    by (simp add: fun_eq_iff resume_step_def)
  then show ?thesis by (simp add: resume_map_def)
qed

lemma resume_step_get:
  "map_of (resume_step p m) (partition_name t q) = (if po_at p = (t, q) then Some (po_Offset p) else map_of m (partition_name t q))"
  by (simp add: resume_step_def update_conv' partition_name_inj po_at_def)

lemma resume_fold_other:
  "(t, q) \<notin> po_at ` set ps \<Longrightarrow> map_of (fold resume_step ps m) (partition_name t q) = map_of m (partition_name t q)"
proof (induction ps arbitrary: m)
  case (Cons p ps)
  then have "po_at p \<noteq> (t, q)" by auto
  with Cons show ?case by (simp add: resume_step_get)
qed simp

lemma resume_fold_get:
  "distinct (map po_at ps) \<Longrightarrow> pos \<in> set ps \<Longrightarrow>
   map_of (fold resume_step ps m) (partition_name (po_Topic pos) (po_Partition pos)) = Some (po_Offset pos)"
proof (induction ps arbitrary: m)
  case (Cons p ps)
  show ?case
  proof (cases "pos \<in> set ps")
    case True
    then show ?thesis using Cons by simp
  next
    case False
    then have "p = pos" "(po_Topic pos, po_Partition pos) \<notin> po_at ` set ps"
      using Cons.prems by (auto simp: po_at_def)
    then show ?thesis by (simp add: resume_fold_other resume_step_get) (simp add: po_at_def)
  qed
qed simp

lemma resume_map_get:
  "distinct (map po_at start) \<Longrightarrow> pos \<in> set start \<Longrightarrow>
   map_of (resume_map start) (partition_name (po_Topic pos) (po_Partition pos)) = Some (po_Offset pos)"
  by (simp add: resume_map_step resume_fold_get)

lemma add_readers_eq:
  "add_readers lg seek cfg resume tps rs = Inr rs' \<Longrightarrow>
   rs' = rs @ map (\<lambda>(t, p). \<lparr>rd_Topic = t, rd_Partition = p,
                    rd_next = next_offset lg t p (start_of cfg resume t p)\<rparr>) tps"
proof (induction tps arbitrary: rs)
  case (Cons tp tps)
  obtain t p where tp: "tp = (t, p)" by (cases tp)
  then show ?case
    using Cons.prems Cons.IH [of "rs @ [\<lparr>rd_Topic = t, rd_Partition = p,
        rd_next = next_offset lg t p (start_of cfg resume t p)\<rparr>]"]
    by (simp add: Let_def split: option.splits)
qed simp

lemma find_map_reader:
  "tp \<in> set tps \<Longrightarrow>
   find (\<lambda>r. rd_part r = tp) (map (\<lambda>(t, p). \<lparr>rd_Topic = t, rd_Partition = p, rd_next = f t p\<rparr>) tps)
   = Some \<lparr>rd_Topic = fst tp, rd_Partition = snd tp, rd_next = f (fst tp) (snd tp)\<rparr>"
  by (induction tps) (auto simp: rd_part_def)

text \<open>
  C16: the stream is resumed without a gap. A consumer started from the stored positions delivers of
  every assigned partition exactly the messages after the stored offset, in order, each once and
  without a hole, however the reads are spread over polls and partitions and whichever of them
  fail.
\<close>

theorem consumer_resumes:
  assumes "NewConsumer lg seek cfg assignments start = Inr c"
    and "wf_log lg" and "distinct (concat (map (\<lambda>(topic, ps). map (\<lambda>p. (topic, p)) ps) assignments))"
    and "distinct (map po_at start)" and "pos \<in> set start"
    and "po_at pos \<in> set (concat (map (\<lambda>(topic, ps). map (\<lambda>p. (topic, p)) ps) assignments))"
  shows "\<exists>k. filter (\<lambda>m. mg_part m = po_at pos) (fst (poll_all lg kss (SetBatchSize n c)))
    = take k (filter (\<lambda>m. mg_Offset m > po_Offset pos) (lg (po_Topic pos) (po_Partition pos)))"
proof -
  let ?tps = "concat (map (\<lambda>(topic, ps). map (\<lambda>p. (topic, p)) ps) assignments)"
  let ?mk = "\<lambda>(t, p). \<lparr>rd_Topic = t, rd_Partition = p,
               rd_next = next_offset lg t p (start_of cfg (resume_map start) t p)\<rparr>"
  have readers: "cn_readers (SetBatchSize n c) = map ?mk ?tps"
    using assms(1) by (auto simp: NewConsumer_def Let_def SetBatchSize_def dest: add_readers_eq
        split: if_splits sum.splits)
  have "map rd_part (map ?mk ?tps) = ?tps" by (simp add: map_idI rd_part_def case_prod_beta)
  then have distinct: "distinct (map rd_part (cn_readers (SetBatchSize n c)))"
    using assms(3) readers by simp
  have "next_offset lg (po_Topic pos) (po_Partition pos)
      (start_of cfg (resume_map start) (po_Topic pos) (po_Partition pos)) = po_Offset pos + 1"
    using resume_map_get [OF assms(4,5)] by (simp add: start_of_def next_offset_def)
  then have "pending lg (cn_readers (SetBatchSize n c)) (po_at pos) = from_offset lg (po_at pos) (po_Offset pos + 1)"
    unfolding readers pending_def find_map_reader [OF assms(6)] by (simp add: po_at_def)
  moreover have "from_offset lg (po_at pos) (po_Offset pos + 1)
      = filter (\<lambda>m. mg_Offset m > po_Offset pos) (lg (po_Topic pos) (po_Partition pos))"
    by (simp add: from_offset_def po_at_def add1_zle_eq)
  ultimately show ?thesis
    using poll_all_delivers [OF assms(2) distinct, of kss "po_at pos"] by metis
qed

section \<open>A failed batch\<close>

lemma Decode_position:
  assumes "Decode fm parse now d topic part off key value = Inr (Some ev)"
  shows "ev_Topic ev = topic \<and> ev_Partition ev = part \<and> ev_Offset ev = off"
  using assms by (rule Decode_Some) (simp add: event_of_body_def Let_def)

lemma decode_batch_events:
  "decode_batch env b ms evs db = (Inr evs', db') \<Longrightarrow>
   \<forall>ev \<in> set evs'. ev \<in> set evs \<or> (\<exists>m \<in> set ms. (ev_Topic ev, ev_Partition ev) = mg_part m \<and> ev_Offset ev = mg_Offset m)"
proof (induction ms arbitrary: evs db)
  case (Cons m ms)
  show ?case
  proof (cases "Decode (en_fmt env) (en_parse env) (be_now b) (en_decoder env) (mg_Topic m) (mg_Partition m)
             (mg_Offset m) (mg_Key m) (mg_Value m)")
    case (Inl e)
    then show ?thesis using Cons by (fastforce split: prod.splits option.splits)
  next
    case (Inr o')
    show ?thesis
    proof (cases o')
      case None
      then show ?thesis using Cons Inr by fastforce
    next
      case (Some ev)
      have at: "(ev_Topic ev, ev_Partition ev) = mg_part m \<and> ev_Offset ev = mg_Offset m"
        using Decode_position [OF Inr [unfolded Some]] by (simp add: mg_part_def)
      show ?thesis
      proof (cases "snd (snd (IsWatermark (en_fmt env) (en_decoder env) (Some ev)))")
        case True
        then show ?thesis using Cons Inr Some by fastforce
      next
        case False
        then have "decode_batch env b ms (evs @ [ev]) db = (Inr evs', db')" using Cons.prems Inr Some by simp
        from Cons.IH [OF this] show ?thesis using at by auto
      qed
    qed
  qed
qed simp

lemma HighWaterMarks_event:
  assumes "p \<in> set (HighWaterMarks (map Some evs))"
  shows "\<exists>ev \<in> set evs. p = position_of ev"
proof -
  have "hwm_at (part_events (map Some evs) (po_part p)) (Some p)"
    using hwm_fold_at [of "map Some evs" "po_part p"] assms by (simp add: HighWaterMarks_set)
  then show ?thesis by (auto simp: part_events_def)
qed

lemma sorted_take_drop:
  "sorted_wrt (<) (map mg_Offset xs) \<Longrightarrow> x \<in> set (take k xs) \<Longrightarrow> y \<in> set (drop k xs) \<Longrightarrow> mg_Offset x < mg_Offset y"
proof -
  assume sorted: "sorted_wrt (<) (map mg_Offset xs)" and x: "x \<in> set (take k xs)" and y: "y \<in> set (drop k xs)"
  have "sorted_wrt (<) (map mg_Offset (take k xs) @ map mg_Offset (drop k xs))"
    using sorted by (simp add: map_append [symmetric] del: map_append)
  then show "mg_Offset x < mg_Offset y" using x y by (auto simp: sorted_wrt_append)
qed

lemma polled_later:
  assumes "wf_log lg" and "distinct (map rd_part (cn_readers c))" and "m \<in> set (fst (Poll lg ks c))"
    and "m' \<in> set (fst (poll_all lg kss (snd (Poll lg ks c))))" and "mg_part m' = mg_part m"
  shows "mg_Offset m < mg_Offset m'"
proof -
  let ?c1 = "snd (Poll lg ks c)" and ?tp = "mg_part m"
  obtain k where k: "map rd_part (cn_readers ?c1) = map rd_part (cn_readers c)"
    "filter (\<lambda>m. mg_part m = ?tp) (fst (Poll lg ks c)) = take k (pending lg (cn_readers c) ?tp)"
    "pending lg (cn_readers ?c1) ?tp = drop k (pending lg (cn_readers c) ?tp)"
    using Poll_delivers [OF assms(1,2)] by blast
  obtain k' where k': "filter (\<lambda>m. mg_part m = ?tp) (fst (poll_all lg kss ?c1)) = take k' (pending lg (cn_readers ?c1) ?tp)"
    using poll_all_delivers [OF assms(1), of ?c1 kss ?tp] k(1) assms(2) by metis
  have "m \<in> set (take k (pending lg (cn_readers c) ?tp))"
    unfolding k(2) [symmetric] using assms(3) by simp
  moreover have "m' \<in> set (take k' (pending lg (cn_readers ?c1) ?tp))"
    unfolding k' [symmetric] using assms(4,5) by simp
  then have "m' \<in> set (drop k (pending lg (cn_readers c) ?tp))" unfolding k(3) by (rule in_set_takeD)
  moreover have "sorted_wrt (<) (map mg_Offset (pending lg (cn_readers c) ?tp))"
    using from_offset_sorted [OF assms(1)] by (simp add: pending_def split: option.splits)
  ultimately show ?thesis using sorted_take_drop by blast
qed

lemma poll_all_append:
  "fst (poll_all lg (kss @ [ks]) c) = fst (poll_all lg kss c) @ fst (Poll lg ks (snd (poll_all lg kss c)))"
  by (induction kss arbitrary: c) (simp_all add: Let_def)

text \<open>
  C17: a batch that fails is given up, not retried. When the retries of a batch end in an error, the
  loop continues as after a success and without moving the consumer back: none of the batch's
  messages is delivered again by any later poll, and any offset that a later batch commits for a
  partition is beyond every message the failed batch had of it, so that a restart does not come
  back to them either.
\<close>

theorem failed_batch_is_skipped:
  assumes "wf_log lg" and "distinct (map rd_part (cn_readers c))"
    and "Poll lg ks c = (ms, c1)" and "m \<in> set ms"
    and "decode_batch env b ms [] db = (Inr events, db1)" and "events \<noteq> []"
    and "applyWithRetry drv env b events w = Some ((res, Some e), w1)"
  shows "process_batch drv env b ms (w, db) = Some (Continue, w1, db1)
    \<and> (\<forall>kss. \<forall>m' \<in> set (fst (poll_all lg kss c1)). mg_part m' = mg_part m \<longrightarrow> mg_Offset m < mg_Offset m')
    \<and> (\<forall>kss ks' b' db' events' db''.
         decode_batch env b' (fst (Poll lg ks' (snd (poll_all lg kss c1)))) [] db' = (Inr events', db'') \<longrightarrow>
         (\<forall>p \<in> set (HighWaterMarks (map Some events')). po_at p = mg_part m \<longrightarrow> mg_Offset m < po_Offset p))"
proof (intro conjI allI ballI impI)
  show "process_batch drv env b ms (w, db) = Some (Continue, w1, db1)"
    using assms(4-7) by (auto simp: process_batch_def Let_def)
  have m: "m \<in> set (fst (Poll lg ks c))" and c1: "c1 = snd (Poll lg ks c)" using assms(3,4) by simp_all
  show later: "mg_Offset m < mg_Offset m'"
    if "m' \<in> set (fst (poll_all lg kss c1))" "mg_part m' = mg_part m" for kss m'
    using polled_later [OF assms(1,2) m] that c1 by blast
  fix kss ks' b' db' events' db'' p
  assume dec: "decode_batch env b' (fst (Poll lg ks' (snd (poll_all lg kss c1)))) [] db' = (Inr events', db'')"
    and p: "p \<in> set (HighWaterMarks (map Some events'))" "po_at p = mg_part m"
  obtain ev where ev: "ev \<in> set events'" "p = position_of ev" using HighWaterMarks_event [OF p(1)] by blast
  then obtain m' where m': "m' \<in> set (fst (Poll lg ks' (snd (poll_all lg kss c1))))"
    "(ev_Topic ev, ev_Partition ev) = mg_part m'" "ev_Offset ev = mg_Offset m'"
    using decode_batch_events [OF dec] by auto
  then have "m' \<in> set (fst (poll_all lg (kss @ [ks']) c1))" by (simp add: poll_all_append)
  moreover have "mg_part m' = mg_part m" using p(2) ev(2) m'(2) by (simp add: po_at_def position_of_def)
  ultimately show "mg_Offset m < po_Offset p"
    using later [of m' "kss @ [ks']"] ev(2) m'(3) by (simp add: position_of_def)
qed

section \<open>A busy partition\<close>

lemma poll_readers_full:
  "batch \<le> int (length out) \<Longrightarrow> poll_readers lg batch ks rs out = (out, rs)"
  by (induction rs arbitrary: ks) (simp_all add: read_messages_def Let_def)

lemma Poll_first_reader:
  assumes "wf_log lg" and "cn_readers c = r # rs" and "ks \<noteq> []" and "cn_batch c \<le> int (hd ks)"
    and "nat (cn_batch c) \<le> length (from_offset lg (rd_part r) (rd_next r))"
  shows "\<exists>r'. Poll lg ks c = (take (nat (cn_batch c)) (from_offset lg (rd_part r) (rd_next r)),
       c\<lparr>cn_readers := r' # rs\<rparr>) \<and> rd_part r' = rd_part r
     \<and> from_offset lg (rd_part r) (rd_next r') = drop (nat (cn_batch c)) (from_offset lg (rd_part r) (rd_next r))"
proof -
  obtain ms r' where read: "read_messages lg (nat (cn_batch c)) r = (ms, r')" by fastforce
  note read_eq = read_messages_from [OF assms(1) read]
  obtain k ks' where ks: "ks = k # ks'" using assms(3) by (cases ks) auto
  then have "min k (nat (cn_batch c)) = nat (cn_batch c)" using assms(4) by simp
  moreover have "poll_readers lg (cn_batch c) ks' rs ms = (ms, rs)"
    using read_eq assms(5) by (intro poll_readers_full) (simp add: min_def)
  ultimately have "Poll lg ks c = (ms, c\<lparr>cn_readers := r' # rs\<rparr>)"
    using assms(2) read by (simp add: Poll_def ks Let_def)
  then show ?thesis using read_eq by blast
qed

text \<open>
  C34: a busy partition starves the others. The readers are asked in a fixed order and share one
  batch: as long as the first one can fill it, no poll delivers a message of any other
  partition, and none of their readers moves.
\<close>

theorem Poll_starves:
  assumes "wf_log lg" and "cn_readers c = r # rs" and "\<forall>ks \<in> set kss. ks \<noteq> [] \<and> cn_batch c \<le> int (hd ks)"
    and "length kss * nat (cn_batch c) \<le> length (filter (\<lambda>m. rd_next r \<le> mg_Offset m) (lg (rd_Topic r) (rd_Partition r)))"
  shows "fst (poll_all lg kss c) = take (length kss * nat (cn_batch c))
      (filter (\<lambda>m. rd_next r \<le> mg_Offset m) (lg (rd_Topic r) (rd_Partition r)))
    \<and> tl (cn_readers (snd (poll_all lg kss c))) = rs"
  using assms(2-4)
proof (induction kss arbitrary: c r)
  case (Cons ks kss)
  let ?n = "nat (cn_batch c)" and ?xs = "from_offset lg (rd_part r) (rd_next r)"
  have len: "?n + length kss * ?n \<le> length ?xs" using Cons.prems(3) by (simp add: from_offset_def rd_part_def)
  obtain r' where r': "Poll lg ks c = (take ?n ?xs, c\<lparr>cn_readers := r' # rs\<rparr>)" "rd_part r' = rd_part r"
    "from_offset lg (rd_part r) (rd_next r') = drop ?n ?xs"
    using Poll_first_reader [OF assms(1) Cons.prems(1), of ks] Cons.prems(2) len by auto
  have "filter (\<lambda>m. rd_next r' \<le> mg_Offset m) (lg (rd_Topic r') (rd_Partition r')) = drop ?n ?xs"
    using r'(2,3) by (simp add: from_offset_def rd_part_def)
  then have "fst (poll_all lg kss (c\<lparr>cn_readers := r' # rs\<rparr>)) = take (length kss * ?n) (drop ?n ?xs)
    \<and> tl (cn_readers (snd (poll_all lg kss (c\<lparr>cn_readers := r' # rs\<rparr>)))) = rs"
    using Cons.IH [of "c\<lparr>cn_readers := r' # rs\<rparr>" r'] Cons.prems(2) len by simp
  then show ?case using r'(1) by (simp add: take_add from_offset_def rd_part_def)
qed simp

section \<open>A concrete stream\<close>

definition demo_kafka :: "int \<Rightarrow> message" where
  "demo_kafka off =
     \<lparr>mg_Topic = ''topic'', mg_Partition = 0, mg_Offset = off, mg_Key = '''', mg_Value = ''m''\<rparr>"

definition demo_log :: broker_log where
  "demo_log t p = (if t = ''topic'' \<and> p = 0 then [demo_kafka 8, demo_kafka 9, demo_kafka 12] else [])"

definition demo_start :: "position list" where
  "demo_start = [\<lparr>po_Topic = ''topic'', po_Partition = 0, po_Offset = 8, po_LastLSN = 0\<rparr>]"

definition demo_kafka_config :: kafka_config where
  "demo_kafka_config = \<lparr>kc_Brokers = [''broker:9092''], kc_StartOffset = ''''\<rparr>"

definition demo_consumer :: consumer where
  "demo_consumer =
     \<lparr>cn_readers = [\<lparr>rd_Topic = ''topic'', rd_Partition = 0, rd_next = 9\<rparr>], cn_batch = 1000\<rparr>"

lemma demo_log_wf: "wf_log demo_log"
  by (auto simp: wf_log_def demo_log_def demo_kafka_def)

lemma demo_consumer_new:
  "NewConsumer demo_log (\<lambda>t p s. None) demo_kafka_config [(''topic'', [0])] demo_start = Inr demo_consumer"
  by (simp add: NewConsumer_def demo_kafka_config_def demo_start_def resume_map_def start_of_def next_offset_def
      demo_consumer_def)

theorem consumer_resumes_witness:
  "\<exists>k. filter (\<lambda>m. mg_part m = (''topic'', 0)) (fst (poll_all demo_log [[1], [5]] demo_consumer))
     = take k [demo_kafka 9, demo_kafka 12]"
  using consumer_resumes [OF demo_consumer_new demo_log_wf, of "hd demo_start" "[[1], [5]]" 0]
  by (simp add: demo_start_def SetBatchSize_def po_at_def demo_log_def demo_kafka_def)

theorem Poll_starves_witness:
  "fst (poll_all demo_log [[1], [1]] \<lparr>cn_readers = [\<lparr>rd_Topic = ''topic'', rd_Partition = 0, rd_next = 8\<rparr>,
      \<lparr>rd_Topic = ''quiet'', rd_Partition = 0, rd_next = 0\<rparr>], cn_batch = 1\<rparr>) = [demo_kafka 8, demo_kafka 9]"
  using Poll_starves [OF demo_log_wf, of "\<lparr>cn_readers = [\<lparr>rd_Topic = ''topic'', rd_Partition = 0, rd_next = 8\<rparr>,
      \<lparr>rd_Topic = ''quiet'', rd_Partition = 0, rd_next = 0\<rparr>], cn_batch = 1\<rparr>" _ _ "[[1], [1]]"]
  by (simp add: demo_log_def demo_kafka_def)

text \<open>A database that refuses every transaction with a deadlock, and a policy of one attempt.\<close>

definition demo_down :: "unit driver" where
  "demo_down =
     \<lparr>dr_BeginTx = (\<lambda>level w. (Some demo_deadlock, w)), dr_Exec = (\<lambda>k args w. (None, w)),
      dr_Commit = (\<lambda>w. (None, w)), dr_Rollback = (\<lambda>w. w)\<rparr>"

definition demo_env :: apply_env where
  "demo_env =
     \<lparr>en_fmt = demo_fmt, en_parse = demo_parse, en_decoder = demo_decoder, en_applier = demo_applier,
      en_policy = DefaultPolicy\<lparr>pc_MaxAttempts := 1\<rparr>, en_dlqPolicy = DLQPolicy, en_store = demo_store,
      en_migration = ''m''\<rparr>"

definition demo_batch_env :: batch_env where
  "demo_batch_env =
     \<lparr>be_now = 1, be_draw = (\<lambda>n. 0), be_put_fault = (\<lambda>i. None), be_ctx = (\<lambda>i. None), be_slept = (\<lambda>i. True)\<rparr>"

lemma demo_down_fails:
  assumes "ev \<noteq> []"
  shows "\<exists>res. applyWithRetry demo_down demo_env demo_batch_env ev () = Some ((res, Some
     (Errorf ''sink: beginning transaction'' demo_deadlock)), ())"
proof -
  let ?e = "Errorf ''sink: beginning transaction'' demo_deadlock"
  let ?step = "attempt demo_down (en_applier demo_env) ev ()"
  have "Classify (Some demo_deadlock) = Transient"
    by (simp add: Classify_def demo_deadlock_def classifySQLState_def)
  then have tr: "Classify (Some ?e) = Transient"
    using Classify_structured_wrap [of demo_deadlock "[''sink: beginning transaction'']"]
    by (simp add: structured_def demo_deadlock_def classifySQLState_def)
  have one: "snd (fst (?step 1)) = Some ?e"
    using assms tr by (simp add: ApplyWithIsolation_def Apply_def demo_down_def)
  have "Policy_Validate (DefaultPolicy\<lparr>pc_MaxAttempts := 1\<rparr>) = (None, DefaultPolicy\<lparr>pc_MaxAttempts := 1\<rparr>)"
    by (simp add: Policy_Validate_def policy_defaults_def DefaultPolicy_def Millisecond_def)
  then have "Do (en_policy demo_env) (be_ctx demo_batch_env) (\<lambda>i. snd (fst (?step i))) (be_slept demo_batch_env)
      = Some (Returned (Some ?e) 1)"
    using one tr by (simp add: Do_def demo_env_def demo_batch_env_def do_loop.simps [of _ _ _ _ None] DefaultPolicy_def)
  moreover have "\<not> is_canceled ?e" by (simp add: is_canceled_def demo_deadlock_def)
  ultimately show ?thesis by (simp add: applyWithRetry_def)
qed

lemma demo_kafka_decodes:
  "\<exists>ev db. decode_batch demo_env demo_batch_env [demo_kafka 9] [] demo_dl = (Inr [ev], db)"
proof -
  obtain ev where "demo_decode ''m'' = Inr (Some ev)"
    using demo_decode_event by (auto split: sum.splits option.splits)
  then show ?thesis
    by (simp add: demo_decode_def demo_env_def demo_batch_env_def demo_kafka_def IsWatermark_def demo_decoder_def)
qed

lemma demo_poll:
  "Poll demo_log [1] demo_consumer
   = ([demo_kafka 9], demo_consumer\<lparr>cn_readers := [\<lparr>rd_Topic = ''topic'', rd_Partition = 0, rd_next = 10\<rparr>]\<rparr>)"
  by (simp add: Poll_def demo_consumer_def read_messages_def demo_log_def demo_kafka_def Let_def)

theorem failed_batch_is_skipped_witness:
  "(\<exists>db. process_batch demo_down demo_env demo_batch_env [demo_kafka 9] ((), demo_dl) = Some (Continue, (), db))
   \<and> mg_Offset (demo_kafka 9) < mg_Offset (hd (fst (poll_all demo_log [[1]]
        (demo_consumer\<lparr>cn_readers := [\<lparr>rd_Topic = ''topic'', rd_Partition = 0, rd_next = 10\<rparr>]\<rparr>))))"
proof -
  let ?c1 = "demo_consumer\<lparr>cn_readers := [\<lparr>rd_Topic = ''topic'', rd_Partition = 0, rd_next = 10\<rparr>]\<rparr>"
  have distinct: "distinct (map rd_part (cn_readers demo_consumer))" by (simp add: demo_consumer_def)
  obtain ev db where dec: "decode_batch demo_env demo_batch_env [demo_kafka 9] [] demo_dl = (Inr [ev], db)"
    using demo_kafka_decodes by blast
  obtain res where fail: "applyWithRetry demo_down demo_env demo_batch_env [ev] () = Some ((res, Some
     (Errorf ''sink: beginning transaction'' demo_deadlock)), ())"
    using demo_down_fails [of "[ev]"] by blast
  note skipped = failed_batch_is_skipped [OF demo_log_wf distinct demo_poll, of "demo_kafka 9", OF _ dec _ fail]
  have "fst (poll_all demo_log [[1]] ?c1) = [demo_kafka 12]"
    by (simp add: Poll_def demo_consumer_def read_messages_def demo_log_def demo_kafka_def Let_def)
  then have "mg_Offset (demo_kafka 9) < mg_Offset (demo_kafka 12)"
    using skipped by (auto simp: mg_part_def demo_kafka_def)
  then show ?thesis using skipped \<open>fst (poll_all demo_log [[1]] ?c1) = [demo_kafka 12]\<close> by auto
qed

end
