(* ===== verification/Plane.thy ===== *)
theory Plane
  imports Control DlqStore
begin

text \<open>
  The control database seen by the control plane: the migration state and part rows of
  \<open>internal/store/store.go\<close>, and the gate and request handlers of \<open>cmd/controlplane/main.go\<close>. A
  statement of the store succeeds or fails as a whole with the error the database reports; the
  clock and the parsing of a request body are arguments. Routing, logging, metrics and the writing
  of a response as JSON are left out.
\<close>

section \<open>Migration state and parts\<close>

record migration_row =
  mr_phase :: string
  mr_parts_total :: int
  mr_parts_loaded :: int
  mr_reconcile_ran_at :: "gotime option"
  mr_reconcile_findings :: int
  mr_reconcile_complete :: bool
  mr_reverse_replication_armed :: bool
  mr_updated_at :: gotime

record part_row =
  pt_migration_id :: string
  pt_source_table :: string
  pt_part_index :: int
  pt_rows_loaded :: int
  pt_sha256 :: string
  pt_state :: string
  pt_loaded_at :: gotime

record control_db =
  cd_migrations :: "string \<rightharpoonup> migration_row"
  cd_parts :: "part_row list"
  cd_letters :: dl_db

record state =
  st_MigrationID :: string
  st_Phase :: string
  st_PartsTotal :: int
  st_PartsLoaded :: int
  st_ReconcileRanAt :: gotime
  st_ReconcileFindings :: int
  st_ReconcileComplete :: bool
  st_ReverseArmed :: bool
  st_UpdatedAt :: gotime

definition LoadState :: "store \<Rightarrow> go_error option \<Rightarrow> control_db \<Rightarrow> go_error + state" where
  "LoadState s fault db =
     (case fault of
        Some e \<Rightarrow> Inl (Errorf ''store: loading migration state'' e)
      | None \<Rightarrow>
          (case cd_migrations db (st_migrationID s) of
             None \<Rightarrow>
               Inr \<lparr>st_MigrationID = st_migrationID s, st_Phase = PhasePlanning, st_PartsTotal = 0,
                    st_PartsLoaded = 0, st_ReconcileRanAt = 0, st_ReconcileFindings = 0,
                    st_ReconcileComplete = False, st_ReverseArmed = False, st_UpdatedAt = 0\<rparr>
           | Some r \<Rightarrow>
               Inr \<lparr>st_MigrationID = st_migrationID s, st_Phase = mr_phase r,
                    st_PartsTotal = mr_parts_total r, st_PartsLoaded = mr_parts_loaded r,
                    st_ReconcileRanAt = (case mr_reconcile_ran_at r of None \<Rightarrow> 0 | Some t \<Rightarrow> t),
                    st_ReconcileFindings = mr_reconcile_findings r,
                    st_ReconcileComplete = mr_reconcile_complete r,
                    st_ReverseArmed = mr_reverse_replication_armed r, st_UpdatedAt = mr_updated_at r\<rparr>))"

text \<open>An UPDATE by primary key: it changes the row of that migration, if there is one.\<close>

definition update_migration :: "string \<Rightarrow> (migration_row \<Rightarrow> migration_row) \<Rightarrow> control_db \<Rightarrow> control_db" where
  "update_migration m f db = db\<lparr>cd_migrations := (cd_migrations db)(m := map_option f (cd_migrations db m))\<rparr>"

datatype set_phase_error = Refused phase_error | StoreFailed go_error

definition SetPhase ::
  "store \<Rightarrow> go_error option \<Rightarrow> go_error option \<Rightarrow> gotime \<Rightarrow> string \<Rightarrow> control_db
   \<Rightarrow> set_phase_error option \<times> control_db" where
  "SetPhase s f_load f_update now next db =
     (case LoadState s f_load db of
        Inl e \<Rightarrow> (Some (StoreFailed e), db)
      | Inr current \<Rightarrow>
          (case Transition (st_Phase current) next of
             Some e \<Rightarrow> (Some (Refused e), db)
           | None \<Rightarrow>
               (case f_update of
                  Some e \<Rightarrow> (Some (StoreFailed (Errorf ''store: setting phase'' e)), db)
                | None \<Rightarrow>
                    (None, update_migration (st_migrationID s)
                       (\<lambda>r. r\<lparr>mr_phase := next, mr_updated_at := now\<rparr>) db))))"

definition RecordReconcileRun ::
  "store \<Rightarrow> go_error option \<Rightarrow> gotime \<Rightarrow> int \<Rightarrow> bool \<Rightarrow> control_db \<Rightarrow> go_error option \<times> control_db" where
  "RecordReconcileRun s fault now findings ok db =
     (case fault of
        Some e \<Rightarrow> (Some (Errorf ''store: recording reconciliation run'' e), db)
      | None \<Rightarrow>
          (None, update_migration (st_migrationID s)
             (\<lambda>r. r\<lparr>mr_reconcile_ran_at := Some now, mr_reconcile_findings := findings,
                    mr_reconcile_complete := ok, mr_updated_at := now\<rparr>) db))"

text \<open>
  The primary key of \<open>part_state\<close> is migration, table and part index: a second insert of the same
  part is refused by the database with a unique violation (SQLSTATE 23505).
\<close>

definition part_key :: "part_row \<Rightarrow> string \<times> string \<times> int" where
  "part_key r = (pt_migration_id r, pt_source_table r, pt_part_index r)"

definition unique_violation :: go_error where
  "unique_violation =
     Base \<lparr>be_msg = ''duplicate key value violates unique constraint'', be_is = None, be_net = False,
       be_dns = False, be_sqlstate = Some ''23505'', be_mysql = None\<rparr>"

definition MarkPartLoaded ::
  "store \<Rightarrow> go_error option \<Rightarrow> gotime \<Rightarrow> table_ref \<Rightarrow> int \<Rightarrow> int \<Rightarrow> string \<Rightarrow> control_db
   \<Rightarrow> go_error option \<times> control_db" where
  "MarkPartLoaded s fault now table index rows digest db =
     (let r = \<lparr>pt_migration_id = st_migrationID s, pt_source_table = TableRef_String table,
               pt_part_index = index, pt_rows_loaded = rows, pt_sha256 = digest,
               pt_state = ''loaded'', pt_loaded_at = now\<rparr>;
          failed = (\<lambda>e. Errorf (''store: marking part '' @ FormatInt index @ '' of ''
            @ TableRef_String table @ '' loaded'') e)
      in case fault of
           Some e \<Rightarrow> (Some (failed e), db)
         | None \<Rightarrow>
             if part_key r \<in> part_key ` set (cd_parts db) then (Some (failed unique_violation), db)
             else (None, db\<lparr>cd_parts := cd_parts db @ [r]\<rparr>))"

definition PartLoaded ::
  "store \<Rightarrow> go_error option \<Rightarrow> table_ref \<Rightarrow> int \<Rightarrow> control_db \<Rightarrow> go_error + bool" where
  "PartLoaded s fault table index db =
     (case fault of
        Some e \<Rightarrow> Inl (Errorf ''store: checking part state'' e)
      | None \<Rightarrow>
          Inr (length (filter (\<lambda>r. pt_migration_id r = st_migrationID s
             \<and> pt_source_table r = TableRef_String table \<and> pt_part_index r = index
             \<and> pt_state r = ''loaded'') (cd_parts db)) > 0))"

definition PartCounts :: "store \<Rightarrow> go_error option \<Rightarrow> control_db \<Rightarrow> go_error + int \<times> int" where
  "PartCounts s fault db =
     (case fault of
        Some e \<Rightarrow> Inl (Errorf ''store: counting parts'' e)
      | None \<Rightarrow>
          let mine = filter (\<lambda>r. pt_migration_id r = st_migrationID s) (cd_parts db) in
          Inr (int (length mine), int (length (filter (\<lambda>r. pt_state r = ''loaded'') mine))))"

section \<open>The gate of the control plane\<close>

definition currentLag :: "duration \<times> duration" where
  "currentLag = (0, 0)"

record gate_faults =
  gf_state :: "go_error option"
  gf_letters :: "go_error option"
  gf_parts :: "go_error option"

definition no_gate_faults :: gate_faults where
  "no_gate_faults = \<lparr>gf_state = None, gf_letters = None, gf_parts = None\<rparr>"

definition load_counts :: "store \<Rightarrow> go_error option \<Rightarrow> gotime \<Rightarrow> control_db \<Rightarrow> go_error + dlq_counts" where
  "load_counts s fault now db =
     (case fault of
        Some e \<Rightarrow> Inl (Errorf ''store: counting dead letters'' e)
      | None \<Rightarrow> Inr (Counts s now (cd_letters db)))"

definition observe :: "state \<Rightarrow> dlq_counts \<Rightarrow> int \<times> int \<Rightarrow> gotime \<Rightarrow> observed" where
  "observe st counts parts now =
     \<lparr>ob_Phase = st_Phase st, ob_CurrentLag = fst currentLag, ob_LagUnderThreshold = snd currentLag,
      ob_OpenDeadLetters = Counts_Open counts, ob_QuarantinedLetters = cn_Quarantined counts,
      ob_ReconcileFindings = st_ReconcileFindings st, ob_ReconcileRanAt = st_ReconcileRanAt st,
      ob_ReconcileComplete = st_ReconcileComplete st, ob_PartsTotal = fst parts,
      ob_PartsLoaded = snd parts, ob_ReverseReplicationArmed = st_ReverseArmed st, ob_Now = now\<rparr>"

definition evaluate ::
  "store \<Rightarrow> thresholds \<Rightarrow> gate_faults \<Rightarrow> gotime \<Rightarrow> control_db \<Rightarrow> go_error + (readiness \<times> state)" where
  "evaluate s th f now db =
     (case LoadState s (gf_state f) db of
        Inl e \<Rightarrow> Inl e
      | Inr st \<Rightarrow>
        (case load_counts s (gf_letters f) now db of
           Inl e \<Rightarrow> Inl e
         | Inr counts \<Rightarrow>
           (case PartCounts s (gf_parts f) db of
              Inl e \<Rightarrow> Inl e
            | Inr parts \<Rightarrow> Inr (Evaluate now (observe st counts parts now) th, st))))"

section \<open>The request handlers\<close>

record status_report =
  sr_migration_id :: string
  sr_environment :: string
  sr_state :: state
  sr_dead_letters :: dlq_counts
  sr_cutover :: readiness
  sr_tables :: "string list"

datatype body =
    ErrorBody string
  | SetPhaseErrorBody set_phase_error
  | StatusBody status_report
  | ReadinessBody readiness
  | CountsBody dlq_counts
  | RequeuedBody nat
  | PhaseBody string

type_synonym response = "nat \<times> body"

record server =
  sv_store :: store
  sv_thresholds :: thresholds
  sv_environment :: string
  sv_plan :: plan

definition handleStatus :: "server \<Rightarrow> gate_faults \<Rightarrow> go_error option \<Rightarrow> gotime \<Rightarrow> control_db \<Rightarrow> response" where
  "handleStatus sv f fault now db =
     (case evaluate (sv_store sv) (sv_thresholds sv) f now db of
        Inl e \<Rightarrow> (500, ErrorBody (Error e))
      | Inr (r, st) \<Rightarrow>
          (200, StatusBody
             \<lparr>sr_migration_id = st_migrationID (sv_store sv), sr_environment = sv_environment sv,
              sr_state = st,
              sr_dead_letters = (case load_counts (sv_store sv) fault now db of
                  Inl e \<Rightarrow> empty_counts | Inr c \<Rightarrow> c),
              sr_cutover = r, sr_tables = SortedTableNames (sv_plan sv)\<rparr>))"

definition handleReadiness :: "server \<Rightarrow> gate_faults \<Rightarrow> gotime \<Rightarrow> control_db \<Rightarrow> response" where
  "handleReadiness sv f now db =
     (case evaluate (sv_store sv) (sv_thresholds sv) f now db of
        Inl e \<Rightarrow> (500, ErrorBody (Error e))
      | Inr (r, st) \<Rightarrow> (if rd_Ready r then 200 else 409, ReadinessBody r))"

definition handleDLQCounts :: "server \<Rightarrow> go_error option \<Rightarrow> gotime \<Rightarrow> control_db \<Rightarrow> response" where
  "handleDLQCounts sv fault now db =
     (case load_counts (sv_store sv) fault now db of
        Inl e \<Rightarrow> (500, ErrorBody (Error e))
      | Inr c \<Rightarrow> (200, CountsBody c))"

definition handleRequeue ::
  "server \<Rightarrow> go_error option \<Rightarrow> gotime \<Rightarrow> go_error + (int list \<times> string) \<Rightarrow> control_db
   \<Rightarrow> response \<times> control_db" where
  "handleRequeue sv fault now request db =
     (case request of
        Inl e \<Rightarrow> ((400, ErrorBody (Error e)), db)
      | Inr (ids, author) \<Rightarrow>
          if author = ''''
          then ((400, ErrorBody ''requeue must record who authorised it''), db)
          else (case Requeue fault now ids author (cd_letters db) of
                  ((n, Some e), letters) \<Rightarrow> ((500, ErrorBody (Error e)), db\<lparr>cd_letters := letters\<rparr>)
                | ((n, None), letters) \<Rightarrow> ((200, RequeuedBody n), db\<lparr>cd_letters := letters\<rparr>)))"

definition handlePhase ::
  "server \<Rightarrow> go_error option \<Rightarrow> go_error option \<Rightarrow> gotime \<Rightarrow> go_error + (string \<times> string) \<Rightarrow> control_db
   \<Rightarrow> response \<times> control_db" where
  "handlePhase sv f_load f_update now request db =
     (case request of
        Inl e \<Rightarrow> ((400, ErrorBody (Error e)), db)
      | Inr (phase, author) \<Rightarrow>
          (case SetPhase (sv_store sv) f_load f_update now phase db of
             (Some e, db) \<Rightarrow> ((409, SetPhaseErrorBody e), db)
           | (None, db) \<Rightarrow> ((200, PhaseBody phase), db)))"

section \<open>What can happen to the control database\<close>

inductive plane_step :: "server \<Rightarrow> control_db \<Rightarrow> control_db \<Rightarrow> bool" for sv where
  ps_phase: "handlePhase sv f_load f_update now request db = (r, db') \<Longrightarrow> plane_step sv db db'"
| ps_requeue: "handleRequeue sv fault now request db = (r, db') \<Longrightarrow> plane_step sv db db'"
| ps_recon: "RecordReconcileRun (sv_store sv) fault now findings ok db = (r, db') \<Longrightarrow> plane_step sv db db'"
| ps_part: "MarkPartLoaded (sv_store sv) fault now table index rows digest db = (r, db') \<Longrightarrow> plane_step sv db db'"
| ps_letters: "dl_step (sv_store sv) (cd_letters db) l letters \<Longrightarrow> plane_step sv db (db\<lparr>cd_letters := letters\<rparr>)"

inductive plane_run :: "server \<Rightarrow> control_db \<Rightarrow> control_db list \<Rightarrow> bool" for sv db0 where
  plane_start: "plane_run sv db0 [db0]"
| plane_next: "plane_run sv db0 (dbs @ [db]) \<Longrightarrow> plane_step sv db db' \<Longrightarrow> plane_run sv db0 (dbs @ [db, db'])"

inductive_cases plane_stepE: "plane_step sv db db'"

definition phase_in :: "store \<Rightarrow> control_db \<Rightarrow> string" where
  "phase_in s db = (case cd_migrations db (st_migrationID s) of None \<Rightarrow> PhasePlanning | Some r \<Rightarrow> mr_phase r)"

lemma update_migration_simps [simp]:
  "cd_migrations (update_migration m f db) = (cd_migrations db)(m := map_option f (cd_migrations db m))"
  "cd_parts (update_migration m f db) = cd_parts db"
  "cd_letters (update_migration m f db) = cd_letters db"
  by (simp_all add: update_migration_def)

lemma LoadState_phase: "LoadState s fault db = Inr st \<Longrightarrow> st_Phase st = phase_in s db"
  by (auto simp: LoadState_def phase_in_def split: option.splits)

lemma SetPhase_cases:
  "SetPhase s f1 f2 now next db = (err, db') \<Longrightarrow>
   (db' = db \<and> err \<noteq> None)
   \<or> (err = None \<and> Transition (phase_in s db) next = None
      \<and> db' = update_migration (st_migrationID s) (\<lambda>r. r\<lparr>mr_phase := next, mr_updated_at := now\<rparr>) db)"
  by (auto simp: SetPhase_def LoadState_phase split: sum.splits option.splits)

lemma handlePhase_cases:
  assumes "handlePhase sv f1 f2 now request db = (r, db')"
  shows "db' = db \<or> (\<exists>phase author. request = Inr (phase, author) \<and> r = (200, PhaseBody phase)
     \<and> Transition (phase_in (sv_store sv) db) phase = None
     \<and> db' = update_migration (st_migrationID (sv_store sv)) (\<lambda>r. r\<lparr>mr_phase := phase, mr_updated_at := now\<rparr>) db)"
proof (cases request)
  case (Inl e)
  then show ?thesis using assms by (simp add: handlePhase_def)
next
  case (Inr req)
  obtain phase author where req: "req = (phase, author)" by (cases req)
  obtain err db1 where set_phase: "SetPhase (sv_store sv) f1 f2 now phase db = (err, db1)" by fastforce
  show ?thesis
    using assms SetPhase_cases [OF set_phase] by (auto simp: handlePhase_def Inr req set_phase split: option.splits)
qed

lemma handleRequeue_db:
  "handleRequeue sv fault now request db = (r, db') \<Longrightarrow>
   cd_migrations db' = cd_migrations db \<and> cd_parts db' = cd_parts db"
  by (auto simp: handleRequeue_def split: sum.splits prod.splits option.splits if_splits)

lemma MarkPartLoaded_db:
  "MarkPartLoaded s fault now table index rows digest db = (r, db') \<Longrightarrow>
   cd_migrations db' = cd_migrations db
   \<and> (cd_parts db' = cd_parts db \<or> (\<exists>p. cd_parts db' = cd_parts db @ [p] \<and> pt_state p = ''loaded''
        \<and> part_key p \<notin> part_key ` set (cd_parts db)))"
  by (auto simp: MarkPartLoaded_def Let_def split: option.splits if_splits)

lemma RecordReconcileRun_db:
  "RecordReconcileRun s fault now findings ok db = (r, db') \<Longrightarrow>
   cd_parts db' = cd_parts db \<and> phase_in s db' = phase_in s db
   \<and> (cd_migrations db' m = None \<longleftrightarrow> cd_migrations db m = None)"
  by (auto simp: RecordReconcileRun_def phase_in_def split: option.splits if_splits)

lemma plane_step_phase:
  assumes "plane_step sv db db'"
  shows "Transition (phase_in (sv_store sv) db) (phase_in (sv_store sv) db') = None"
proof -
  have stay: "phase_in (sv_store sv) db' = phase_in (sv_store sv) db \<Longrightarrow> ?thesis" by (simp add: Transition_def)
  show ?thesis
    using assms
  proof (cases rule: plane_step.cases)
    case (ps_phase f1 f2 now request r)
    then show ?thesis
      using handlePhase_cases [OF ps_phase] stay
      by (cases "cd_migrations db (st_migrationID (sv_store sv))") (auto simp: phase_in_def)
  next
    case (ps_requeue fault now request r)
    then show ?thesis using handleRequeue_db [OF ps_requeue] stay by (simp add: phase_in_def)
  next
    case (ps_recon fault now findings ok r)
    then show ?thesis using RecordReconcileRun_db [OF ps_recon] stay by simp
  next
    case (ps_part fault now table index rows digest r)
    then show ?thesis using MarkPartLoaded_db [OF ps_part] stay by (simp add: phase_in_def)
  next
    case (ps_letters l letters)
    then show ?thesis using stay by (simp add: phase_in_def)
  qed
qed


lemma plane_run_all:
  assumes "plane_run sv db0 dbs" and "P db0" and "\<And>db db'. P db \<Longrightarrow> plane_step sv db db' \<Longrightarrow> P db'"
  shows "\<forall>db \<in> set dbs. P db"
  using assms(1) by induction (use assms(2,3) in auto)

section \<open>A migration that is never recorded\<close>

lemma plane_step_unrecorded:
  assumes "plane_step sv db db'" and "cd_migrations db m = None"
  shows "cd_migrations db' m = None"
  using assms(1)
proof (cases rule: plane_step.cases)
  case (ps_phase f1 f2 now request r)
  then show ?thesis using handlePhase_cases [OF ps_phase] assms(2) by auto
next
  case (ps_requeue fault now request r)
  then show ?thesis using handleRequeue_db [OF ps_requeue] assms(2) by simp
next
  case (ps_recon fault now findings ok r)
  then show ?thesis using RecordReconcileRun_db [OF ps_recon] assms(2) by simp
next
  case (ps_part fault now table index rows digest r)
  then show ?thesis using MarkPartLoaded_db [OF ps_part] assms(2) by simp
next
  case (ps_letters l letters)
  then show ?thesis using assms(2) by simp
qed

lemma evaluate_observes:
  assumes "evaluate s th f now db = Inr (r, st)"
  shows "\<exists>counts parts. PartCounts s None db = Inr parts
    \<and> r = Evaluate now (observe st counts parts now) th \<and> st_Phase st = phase_in s db"
proof -
  obtain counts parts where "LoadState s (gf_state f) db = Inr st" "PartCounts s (gf_parts f) db = Inr parts"
      "r = Evaluate now (observe st counts parts now) th"
    using assms by (auto simp: evaluate_def split: sum.splits)
  moreover from this(2) have "PartCounts s None db = Inr parts"
    by (simp add: PartCounts_def split: option.splits)
  ultimately show ?thesis using LoadState_phase by blast
qed

text \<open>The gate's answer on what the control plane observed, by condition.\<close>

lemma evaluate_codes:
  assumes "evaluate s th f now db = Inr (r, st)"
  shows "\<exists>obs. set (map bk_Code (rd_Blockers r)) = {c. (c, True) \<in> set (gate_conditions obs th)}
     \<and> ob_Phase obs = phase_in s db \<and> ob_CurrentLag obs = 0 \<and> ob_LagUnderThreshold obs = 0
     \<and> PartCounts s None db = Inr (ob_PartsTotal obs, ob_PartsLoaded obs)
     \<and> (rd_Ready r \<longleftrightarrow> rd_Blockers r = [])"
proof -
  obtain counts parts where ev: "PartCounts s None db = Inr parts"
      "r = Evaluate now (observe st counts parts now) th" "st_Phase st = phase_in s db"
    using evaluate_observes [OF assms] by blast
  have "ob_Phase (with_now now (observe st counts parts now)) = phase_in s db
    \<and> ob_CurrentLag (with_now now (observe st counts parts now)) = 0
    \<and> ob_LagUnderThreshold (with_now now (observe st counts parts now)) = 0
    \<and> (ob_PartsTotal (with_now now (observe st counts parts now)),
       ob_PartsLoaded (with_now now (observe st counts parts now))) = parts"
    using ev(3) by (simp add: with_now_def observe_def currentLag_def)
  then show ?thesis
    using ev(1,2) Evaluate_blocker_codes [of now "observe st counts parts now" th]
    by (intro exI [of _ "with_now now (observe st counts parts now)"]) simp
qed

text \<open>
  the control database never learns of a migration. Nothing the program does inserts the row of
  a migration, so from the schema as it is installed the phase stays planning for ever: a request
  for extracting is answered with 200 and changes nothing, and the gate, whenever its queries
  succeed, is closed with the blocker for the wrong phase.
\<close>

theorem migration_never_recorded:
  assumes "plane_run sv db0 dbs" and "cd_migrations db0 = Map.empty" and "db \<in> set dbs"
  shows "handlePhase sv None None now (Inr (PhaseExtracting, author)) db = ((200, PhaseBody PhaseExtracting), db)
    \<and> phase_in (sv_store sv) db = PhasePlanning
    \<and> (\<forall>th f r st. evaluate (sv_store sv) th f now db = Inr (r, st) \<longrightarrow>
         \<not> rd_Ready r \<and> BlockWrongPhase \<in> set (map bk_Code (rd_Blockers r)))"
proof -
  let ?m = "st_migrationID (sv_store sv)"
  have "\<forall>db \<in> set dbs. cd_migrations db ?m = None"
    by (rule plane_run_all [OF assms(1)]) (use assms(2) plane_step_unrecorded in auto)
  then have none: "cd_migrations db ?m = None" using assms(3) by blast
  then have planning: "phase_in (sv_store sv) db = PhasePlanning" by (simp add: phase_in_def)
  have "CanTransitionTo PhasePlanning PhaseExtracting"
    by (simp add: CanTransitionTo_def successors_def validTransitions_def)
  then have "Transition PhasePlanning PhaseExtracting = None" by (simp add: Transition_None)
  moreover have "update_migration ?m g db = db" for g
    by (simp add: update_migration_def none fun_upd_idem)
  ultimately have "handlePhase sv None None now (Inr (PhaseExtracting, author)) db
      = ((200, PhaseBody PhaseExtracting), db)"
    using none by (simp add: handlePhase_def SetPhase_def LoadState_def)
  moreover have "\<not> rd_Ready r \<and> BlockWrongPhase \<in> set (map bk_Code (rd_Blockers r))"
    if ev: "evaluate (sv_store sv) th f now db = Inr (r, st)" for th f r st
  proof -
    obtain obs where obs: "set (map bk_Code (rd_Blockers r)) = {c. (c, True) \<in> set (gate_conditions obs th)}"
      "ob_Phase obs = PhasePlanning" "rd_Ready r \<longleftrightarrow> rd_Blockers r = []"
      using evaluate_codes [OF ev] planning by auto
    have "(BlockWrongPhase, True) \<in> set (gate_conditions obs th)"
      using obs(2) by (simp add: gate_conditions_def phase_defs)
    then show ?thesis using obs(1,3) by auto
  qed
  ultimately show ?thesis using planning by blast
qed

text \<open>
  C12: the gate advises, it does not gate. With the lag feed that the control plane has, the readiness
  of any database is 409 as soon as a stable lag is asked for, whatever else holds; but the request
  that moves a migration from ready for cutover to cutting over does not ask the gate and succeeds
  on the same database.
\<close>

theorem cutover_ignores_gate:
  assumes "cd_migrations db (st_migrationID (sv_store sv)) = Some row" and "mr_phase row = PhaseReady"
    and "0 < th_LagStableFor (sv_thresholds sv)"
  shows "fst (handleReadiness sv no_gate_faults now db) = 409
    \<and> (\<exists>db'. handlePhase sv None None now (Inr (PhaseCuttingOver, author)) db
         = ((200, PhaseBody PhaseCuttingOver), db')
       \<and> phase_in (sv_store sv) db' = PhaseCuttingOver)"
proof
  obtain st0 where "LoadState (sv_store sv) None db = Inr st0" using assms(1) by (simp add: LoadState_def)
  then obtain r st where ev: "evaluate (sv_store sv) (sv_thresholds sv) no_gate_faults now db = Inr (r, st)"
    by (simp add: evaluate_def load_counts_def PartCounts_def no_gate_faults_def Let_def)
  obtain obs where obs: "set (map bk_Code (rd_Blockers r)) = {c. (c, True) \<in> set (gate_conditions obs (sv_thresholds sv))}"
    "ob_CurrentLag obs = 0" "ob_LagUnderThreshold obs = 0" "rd_Ready r \<longleftrightarrow> rd_Blockers r = []"
    using evaluate_codes [OF ev] by auto
  have "(BlockLagNotStable, True) \<in> set (gate_conditions obs (sv_thresholds sv))"
    using obs(2,3) assms(3) by (simp add: gate_conditions_def)
  then have "\<not> rd_Ready r" using obs(1,4) by auto
  then show "fst (handleReadiness sv no_gate_faults now db) = 409" by (simp add: handleReadiness_def ev)
  have "CanTransitionTo PhaseReady PhaseCuttingOver"
    by (simp add: CanTransitionTo_def successors_def validTransitions_def phase_defs)
  then have "Transition PhaseReady PhaseCuttingOver = None" by (simp add: Transition_None)
  then show "\<exists>db'. handlePhase sv None None now (Inr (PhaseCuttingOver, author)) db
         = ((200, PhaseBody PhaseCuttingOver), db')
       \<and> phase_in (sv_store sv) db' = PhaseCuttingOver"
    using assms(1,2) by (simp add: handlePhase_def SetPhase_def LoadState_def phase_in_def)
qed

section \<open>Parts\<close>

definition parts_loaded :: "control_db \<Rightarrow> bool" where
  "parts_loaded db \<longleftrightarrow> (\<forall>p \<in> set (cd_parts db). pt_state p = ''loaded'') \<and> distinct (map part_key (cd_parts db))"

lemma plane_step_parts:
  assumes "parts_loaded db" and "plane_step sv db db'"
  shows "parts_loaded db'"
  using assms(2)
proof (cases rule: plane_step.cases)
  case (ps_phase f1 f2 now request r)
  then show ?thesis using handlePhase_cases [OF ps_phase] assms(1) by (auto simp: parts_loaded_def)
next
  case (ps_requeue fault now request r)
  then show ?thesis using handleRequeue_db [OF ps_requeue] assms(1) by (simp add: parts_loaded_def)
next
  case (ps_recon fault now findings ok r)
  then show ?thesis using RecordReconcileRun_db [OF ps_recon] assms(1) by (simp add: parts_loaded_def)
next
  case (ps_part fault now table index rows digest r)
  then show ?thesis using MarkPartLoaded_db [OF ps_part] assms(1) by (auto simp: parts_loaded_def)
next
  case (ps_letters l letters)
  then show ?thesis using assms(1) by (simp add: parts_loaded_def)
qed

text \<open>
  C33: the condition on unloaded parts never holds. Parts enter the control database only as loaded,
  each once; so the total of a migration is always its number of loaded parts, and the gate never
  blocks on parts, however many sealed parts of the extract are still to be loaded.
\<close>

theorem parts_gate_vacuous:
  assumes "plane_run sv db0 dbs" and "cd_parts db0 = []" and "db \<in> set dbs"
  shows "distinct (map part_key (cd_parts db))
    \<and> (\<exists>n. PartCounts (sv_store sv) None db = Inr (n, n))
    \<and> (\<forall>th f r st. evaluate (sv_store sv) th f now db = Inr (r, st) \<longrightarrow>
         BlockPartsUnloaded \<notin> set (map bk_Code (rd_Blockers r)))"
proof -
  have "parts_loaded db0" using assms(2) by (simp add: parts_loaded_def)
  then have "\<forall>db \<in> set dbs. parts_loaded db"
    using plane_run_all [OF assms(1), of parts_loaded] plane_step_parts by blast
  then have loaded: "parts_loaded db" using assms(3) by blast
  let ?mine = "filter (\<lambda>r. pt_migration_id r = st_migrationID (sv_store sv)) (cd_parts db)"
  have "filter (\<lambda>r. pt_state r = ''loaded'') ?mine = ?mine"
    using loaded by (intro filter_True) (simp add: parts_loaded_def)
  then have counts: "PartCounts (sv_store sv) None db = Inr (int (length ?mine), int (length ?mine))"
    by (simp add: PartCounts_def Let_def)
  have "BlockPartsUnloaded \<notin> set (map bk_Code (rd_Blockers r))"
    if ev: "evaluate (sv_store sv) th f now db = Inr (r, st)" for th f r st
  proof -
    obtain obs where obs: "set (map bk_Code (rd_Blockers r)) = {c. (c, True) \<in> set (gate_conditions obs th)}"
      "ob_PartsTotal obs = ob_PartsLoaded obs"
      using evaluate_codes [OF ev] counts by auto
    have "(BlockPartsUnloaded, True) \<notin> set (gate_conditions obs th)"
      using obs(2) by (simp add: gate_conditions_def block_defs)
    then show ?thesis using obs(1) by blast
  qed
  then show ?thesis using counts loaded by (auto simp: parts_loaded_def)
qed

section \<open>A concrete migration\<close>

definition demo_server :: server where
  "demo_server =
     \<lparr>sv_store = demo_store, sv_thresholds = DefaultThresholds, sv_environment = ''test'',
      sv_plan = \<lparr>pl_Name = ''p'', pl_Tables = []\<rparr>\<rparr>"

definition empty_control :: control_db where
  "empty_control = \<lparr>cd_migrations = Map.empty, cd_parts = [], cd_letters = \<lparr>db_rows = [], db_next_id = 1\<rparr>\<rparr>"

definition demo_row :: "string \<Rightarrow> migration_row" where
  "demo_row phase =
     \<lparr>mr_phase = phase, mr_parts_total = 0, mr_parts_loaded = 0, mr_reconcile_ran_at = None,
      mr_reconcile_findings = 0, mr_reconcile_complete = False, mr_reverse_replication_armed = False,
      mr_updated_at = 0\<rparr>"

definition demo_control :: "string \<Rightarrow> control_db" where
  "demo_control phase = empty_control\<lparr>cd_migrations := [''m'' \<mapsto> demo_row phase]\<rparr>"

lemma demo_plane_step:
  "plane_step demo_server db (snd (handlePhase demo_server None None 1 (Inr (PhaseExtracting, ''ops'')) db))"
  by (rule ps_phase) (rule prod.collapse [symmetric])

lemma demo_plane_part:
  "plane_step demo_server db (snd (MarkPartLoaded (sv_store demo_server) None 1 \<lparr>tr_Schema = ''app'', tr_Name = ''t''\<rparr> 0 10 ''d'' db))"
  by (rule ps_part) (rule prod.collapse [symmetric])

lemma demo_extracting:
  "phase_in demo_store (snd (handlePhase demo_server None None 1 (Inr (PhaseExtracting, ''ops''))
     (demo_control PhasePlanning))) = PhaseExtracting"
proof -
  have "Transition PhasePlanning PhaseExtracting = None"
    by (simp add: Transition_None CanTransitionTo_def successors_def validTransitions_def)
  then show ?thesis
    by (simp add: handlePhase_def SetPhase_def LoadState_def demo_server_def demo_store_def demo_control_def
        demo_row_def phase_in_def)
qed


theorem migration_never_recorded_witness:
  "fst (handlePhase demo_server None None 1 (Inr (PhaseExtracting, ''ops'')) empty_control) = (200, PhaseBody PhaseExtracting)
   \<and> phase_in demo_store (snd (handlePhase demo_server None None 1 (Inr (PhaseExtracting, ''ops'')) empty_control))
     = PhasePlanning"
proof -
  have "plane_run demo_server empty_control [empty_control]" by (rule plane_start)
  from migration_never_recorded [OF this, of empty_control 1 "''ops''"] show ?thesis
    by (simp add: empty_control_def demo_server_def)
qed

theorem cutover_ignores_gate_witness:
  "fst (handleReadiness demo_server no_gate_faults 1 (demo_control PhaseReady)) = 409
   \<and> fst (handlePhase demo_server None None 1 (Inr (PhaseCuttingOver, ''ops'')) (demo_control PhaseReady))
     = (200, PhaseBody PhaseCuttingOver)"
  using cutover_ignores_gate [of "demo_control PhaseReady" demo_server "demo_row PhaseReady" 1 "''ops''"]
  by (auto simp: demo_control_def demo_server_def demo_store_def demo_row_def DefaultThresholds_def Minute_def Second_def)

theorem parts_gate_vacuous_witness:
  "\<exists>n. PartCounts demo_store None (snd (MarkPartLoaded demo_store None 1
     \<lparr>tr_Schema = ''app'', tr_Name = ''t''\<rparr> 0 10 ''d'' empty_control)) = Inr (n, n)"
proof -
  let ?db = "snd (MarkPartLoaded demo_store None 1 \<lparr>tr_Schema = ''app'', tr_Name = ''t''\<rparr> 0 10 ''d'' empty_control)"
  have "plane_run demo_server empty_control [empty_control, ?db]"
    using plane_next [of demo_server empty_control "[]", OF _ demo_plane_part]
      plane_start [of demo_server empty_control] by (simp add: demo_server_def)
  moreover have "sv_store demo_server = demo_store" by (simp add: demo_server_def)
  moreover have "cd_parts empty_control = []" by (simp add: empty_control_def)
  ultimately show ?thesis using parts_gate_vacuous [of demo_server empty_control _ ?db] by fastforce
qed

end
