(* ===== verification/Token.thy ===== *)
theory Token
  imports Decode
begin

text \<open>
  The confidentiality boundary, \<open>internal/crypto\<close>: key derivation (\<open>kdf.go\<close>) and tokens
  (\<open>token.go\<close>). HMAC-SHA-256 is the argument \<open>hmac\<close> (key and message to a digest); what Go knows
  about Unicode (the runes of a text, their classes and their encoding) is the record \<open>unicode\<close>.
\<close>

section \<open>Bytes\<close>

type_synonym byte = "8 word"

definition bytes_of :: "string \<Rightarrow> byte list" where
  "bytes_of s = map of_char s"

definition string_of :: "byte list \<Rightarrow> string" where
  "string_of bs = map (\<lambda>b. char_of (unat b)) bs"

definition put_be :: "nat \<Rightarrow> nat \<Rightarrow> byte list" where
  "put_be width n = map (\<lambda>i. of_nat (n div 256 ^ (width - 1 - i))) [0..<width]"

section \<open>Key derivation\<close>

definition PurposeToken :: string where "PurposeToken = ''column-tokenization/v1''"
definition PurposeEncrypt :: string where "PurposeEncrypt = ''column-encryption/v1''"
definition PurposeDLQ :: string where "PurposeDLQ = ''dead-letter-payload/v1''"
definition PurposeChecksum :: string where "PurposeChecksum = ''reconciliation-digest/v1''"

type_synonym hmac = "byte list \<Rightarrow> byte list \<Rightarrow> byte list"

text \<open>The loop of \<open>hkdfExpand\<close>; every round adds a digest, so that as many rounds as bytes are enough.\<close>

fun hkdf_loop :: "hmac \<Rightarrow> byte list \<Rightarrow> byte list \<Rightarrow> nat \<Rightarrow> nat \<Rightarrow> byte \<Rightarrow> byte list \<Rightarrow> byte list \<Rightarrow> byte list" where
  "hkdf_loop hmac prk info len 0 counter block out = take len out"
| "hkdf_loop hmac prk info len (Suc rounds) counter block out =
     (if length out < len
      then let block = hmac prk (block @ info @ [counter])
           in hkdf_loop hmac prk info len rounds (counter + 1) block (out @ block)
      else take len out)"

definition hkdfExpand :: "hmac \<Rightarrow> byte list \<Rightarrow> byte list \<Rightarrow> nat \<Rightarrow> byte list" where
  "hkdfExpand hmac prk info len = hkdf_loop hmac prk info len len 1 [] []"

definition deriveKey :: "hmac \<Rightarrow> byte list \<Rightarrow> string \<Rightarrow> byte list" where
  "deriveKey hmac master purpose = hkdfExpand hmac master (bytes_of purpose) 32"

definition prf_input :: "string \<Rightarrow> byte list \<Rightarrow> byte list" where
  "prf_input domain value = put_be 8 (length domain) @ bytes_of domain @ value"

definition keyed_prf :: "hmac \<Rightarrow> byte list \<Rightarrow> string \<Rightarrow> byte list \<Rightarrow> byte list" where
  "keyed_prf hmac key domain value = hmac key (prf_input domain value)"

section \<open>The keystream\<close>

record keystream =
  ks_seed :: "byte list"
  ks_block :: "byte list"
  ks_pos :: nat
  ks_round :: "16 word"

definition ks_refill :: "hmac \<Rightarrow> keystream \<Rightarrow> keystream" where
  "ks_refill hmac k =
     (let r = ks_round k + 1 in
      k\<lparr>ks_round := r, ks_block := hkdfExpand hmac (ks_seed k) (put_be 2 (unat r)) 32, ks_pos := 0\<rparr>)"

definition newKeystream :: "hmac \<Rightarrow> byte list \<Rightarrow> keystream" where
  "newKeystream hmac seed = ks_refill hmac \<lparr>ks_seed = seed, ks_block = [], ks_pos = 0, ks_round = 0\<rparr>"

definition ks_next :: "hmac \<Rightarrow> keystream \<Rightarrow> byte \<times> keystream" where
  "ks_next hmac k =
     (let k = (if ks_pos k \<ge> length (ks_block k) then ks_refill hmac k else k)
      in (ks_block k ! ks_pos k, k\<lparr>ks_pos := ks_pos k + 1\<rparr>))"

definition below_limit :: "byte \<Rightarrow> nat" where
  "below_limit n = 256 - 256 mod unat n"

text \<open>Rejection sampling: \<open>None\<close> if no byte of the stream is ever accepted.\<close>

partial_function (option) below :: "hmac \<Rightarrow> byte \<Rightarrow> keystream \<Rightarrow> (byte \<times> keystream) option" where
  "below hmac n k =
     (if n = 0 then Some (0, k)
      else case ks_next hmac k of
        (v, k') \<Rightarrow> if unat v < below_limit n then Some (v mod n, k') else below hmac n k')"

section \<open>Tokens\<close>

datatype token_format = FormatOpaque | FormatPreserveShape | FormatDigits

type_synonym rune = nat

record unicode =
  un_runes :: "string \<Rightarrow> rune list"
  un_encode :: "rune \<Rightarrow> string"
  un_IsDigit :: "rune \<Rightarrow> bool"
  un_IsLetter :: "rune \<Rightarrow> bool"
  un_IsUpper :: "rune \<Rightarrow> bool"

definition add_below :: "char \<Rightarrow> byte \<Rightarrow> char" where
  "add_below base b = char_of (of_char base + unat b)"

fun shape_runes :: "hmac \<Rightarrow> unicode \<Rightarrow> bool \<Rightarrow> rune list \<Rightarrow> keystream \<Rightarrow> string option" where
  "shape_runes hmac un keepClasses [] k = Some []"
| "shape_runes hmac un keepClasses (r # rs) k =
     (let draw = (\<lambda>n base. case below hmac n k of
            None \<Rightarrow> None
          | Some (b, k) \<Rightarrow> map_option ((#) (add_below base b)) (shape_runes hmac un keepClasses rs k))
      in if un_IsDigit un r then draw 10 CHR ''0''
         else if un_IsLetter un r \<and> keepClasses
         then (if un_IsUpper un r then draw 26 CHR ''A'' else draw 26 CHR ''a'')
         else if un_IsLetter un r then draw 10 CHR ''0''
         else map_option ((@) (un_encode un r)) (shape_runes hmac un keepClasses rs k))"

definition shapeToken :: "hmac \<Rightarrow> unicode \<Rightarrow> byte list \<Rightarrow> string \<Rightarrow> bool \<Rightarrow> string option" where
  "shapeToken hmac un seed input keepClasses =
     shape_runes hmac un keepClasses (un_runes un input) (newKeystream hmac seed)"

text \<open>
  Base 32 without padding: the bits of the bytes, most significant first, in groups of five (the
  last one filled up with zeros).
\<close>

fun to_bits :: "nat \<Rightarrow> nat \<Rightarrow> bool list" where
  "to_bits 0 v = []"
| "to_bits (Suc w) v = to_bits w (v div 2) @ [odd v]"

definition byte_bits :: "byte \<Rightarrow> bool list" where
  "byte_bits b = to_bits 8 (unat b)"

definition bits_value :: "bool list \<Rightarrow> nat" where
  "bits_value bs = foldl (\<lambda>a b. 2 * a + (if b then 1 else 0)) 0 bs"

fun bit_groups :: "nat \<Rightarrow> nat \<Rightarrow> bool list \<Rightarrow> bool list list" where
  "bit_groups w 0 bs = []"
| "bit_groups w (Suc n) bs =
     (if bs = [] then [] else (take w bs @ replicate (w - length bs) False) # bit_groups w n (drop w bs))"

definition base_encode :: "nat \<Rightarrow> string \<Rightarrow> byte list \<Rightarrow> string" where
  "base_encode w alphabet bs =
     (let bits = concat (map byte_bits bs)
      in map (\<lambda>g. alphabet ! bits_value g) (bit_groups w (length bits) bits))"

definition base32_alphabet :: string where
  "base32_alphabet = ''ABCDEFGHIJKLMNOPQRSTUVWXYZ234567''"

type_synonym tokenizer = "byte list"

definition Token :: "hmac \<Rightarrow> unicode \<Rightarrow> tokenizer \<Rightarrow> string \<Rightarrow> string \<Rightarrow> token_format \<Rightarrow> string option" where
  "Token hmac un key domain value format =
     (if value = '''' then Some ''''
      else let seed = keyed_prf hmac key domain (bytes_of value) in
        case format of
          FormatPreserveShape \<Rightarrow> shapeToken hmac un seed value True
        | FormatDigits \<Rightarrow> shapeToken hmac un seed value False
        | FormatOpaque \<Rightarrow> Some (base_encode 5 base32_alphabet (take 20 seed)))"

definition constantTimeEqualString :: "string \<Rightarrow> string \<Rightarrow> bool" where
  "constantTimeEqualString a b =
     (if length a \<noteq> length b then False
      else foldl (\<lambda>diff (x, y). or diff (xor x y)) 0 (zip (bytes_of a) (bytes_of b)) = (0 :: byte))"

definition Verify_token ::
  "hmac \<Rightarrow> unicode \<Rightarrow> tokenizer \<Rightarrow> string \<Rightarrow> string \<Rightarrow> string \<Rightarrow> token_format \<Rightarrow> bool option" where
  "Verify_token hmac un key domain value token format =
     (if value = '''' \<and> token = '''' then Some True
      else map_option (\<lambda>expect. constantTimeEqualString expect token) (Token hmac un key domain value format))"

section \<open>Encodings\<close>

lemma length_to_bits [simp]: "length (to_bits w v) = w"
  by (induction w arbitrary: v) simp_all

lemma bits_value_snoc [simp]: "bits_value (bs @ [b]) = 2 * bits_value bs + (if b then 1 else 0)"
  by (simp add: bits_value_def)

lemma bits_value_Nil [simp]: "bits_value [] = 0"
  by (simp add: bits_value_def)

lemma to_bits_value: "to_bits (length bs) (bits_value bs) = bs"
  by (induction bs rule: rev_induct) simp_all

lemma bits_value_to_bits: "bits_value (to_bits w v) = v mod 2 ^ w"
proof (induction w arbitrary: v)
  case (Suc w)
  have "v mod 2 ^ Suc w = 2 * (v div 2 mod 2 ^ w) + v mod 2"
    using mod_mult2_eq [of v 2 "2 ^ w"] by simp
  then show ?case using Suc by (simp add: odd_iff_mod_2_eq_one)
qed simp

lemma bits_value_bound: "bits_value bs < 2 ^ length bs"
  by (metis bits_value_to_bits mod_less_divisor to_bits_value zero_less_numeral zero_less_power)

lemma byte_bits_byte: "of_nat (bits_value (byte_bits b)) = b" "length (byte_bits b) = 8"
proof -
  have "unat b < 2 ^ 8" using unsigned_less [of b] by simp
  then show "of_nat (bits_value (byte_bits b)) = b" by (simp add: byte_bits_def bits_value_to_bits)
qed (simp add: byte_bits_def)

lemma bit_groups_all:
  assumes "0 < w"
  shows "length bs \<le> n \<Longrightarrow> (\<forall>g \<in> set (bit_groups w n bs). length g = w)
    \<and> (\<exists>p < w. concat (bit_groups w n bs) = bs @ replicate p False)"
proof (induction n arbitrary: bs)
  case 0
  then show ?case using assms by simp
next
  case (Suc n)
  show ?case
  proof (cases "length bs \<le> w")
    case True
    then show ?thesis using assms by (cases n) (auto intro!: exI [of _ "w - length bs"])
  next
    case False
    then have "length (drop w bs) \<le> n" using Suc.prems assms by simp
    from Suc.IH [OF this] False show ?thesis by (auto simp: append_assoc [symmetric])
  qed
qed

fun byte_groups :: "nat \<Rightarrow> bool list \<Rightarrow> byte list" where
  "byte_groups 0 bs = []"
| "byte_groups (Suc n) bs =
     (if length bs < 8 then [] else of_nat (bits_value (take 8 bs)) # byte_groups n (drop 8 bs))"

fun alphabet_index :: "string \<Rightarrow> char \<Rightarrow> nat option" where
  "alphabet_index [] c = None"
| "alphabet_index (a # as) c = (if a = c then Some 0 else map_option Suc (alphabet_index as c))"

fun symbol_bits :: "nat \<Rightarrow> string \<Rightarrow> string \<Rightarrow> bool list option" where
  "symbol_bits w alphabet [] = Some []"
| "symbol_bits w alphabet (c # cs) =
     (case alphabet_index alphabet c of
        None \<Rightarrow> None
      | Some v \<Rightarrow> map_option ((@) (to_bits w v)) (symbol_bits w alphabet cs))"

definition base_decode :: "nat \<Rightarrow> string \<Rightarrow> string \<Rightarrow> byte list option" where
  "base_decode w alphabet s = map_option (\<lambda>bs. byte_groups (length bs) bs) (symbol_bits w alphabet s)"

lemma alphabet_index_nth: "distinct as \<Longrightarrow> i < length as \<Longrightarrow> alphabet_index as (as ! i) = Some i"
proof (induction as arbitrary: i)
  case (Cons a as)
  then show ?case by (cases i) auto
qed simp

lemma byte_groups_bytes:
  "length pad < 8 \<Longrightarrow> length bs \<le> n \<Longrightarrow> byte_groups n (concat (map byte_bits bs) @ pad) = bs"
proof (induction bs arbitrary: n)
  case Nil
  then show ?case by (cases n) simp_all
next
  case (Cons b bs)
  then obtain n' where "n = Suc n'" by (cases n) simp_all
  then show ?case using Cons byte_bits_byte [of b] by simp
qed

lemma symbol_bits_groups:
  assumes "distinct alphabet" and "length alphabet = 2 ^ w"
  shows "\<forall>g \<in> set gs. length g = w \<Longrightarrow>
    symbol_bits w alphabet (map (\<lambda>g. alphabet ! bits_value g) gs) = Some (concat gs)"
proof (induction gs)
  case (Cons g gs)
  have "bits_value g < length alphabet" using bits_value_bound [of g] Cons.prems assms(2) by simp
  then show ?case using Cons alphabet_index_nth [OF assms(1)] to_bits_value [of g] by simp
qed simp

text \<open>What is encoded decodes to itself: the filling of the last group is dropped.\<close>

lemma base_decode_encode:
  assumes "distinct alphabet" and "length alphabet = 2 ^ w" and "0 < w" and "w \<le> 8"
  shows "base_decode w alphabet (base_encode w alphabet bs) = Some bs"
proof -
  let ?bits = "concat (map byte_bits bs)"
  let ?gs = "bit_groups w (length ?bits) ?bits"
  obtain p where gs: "\<forall>g \<in> set ?gs. length g = w" "p < w" "concat ?gs = ?bits @ replicate p False"
    using bit_groups_all [OF assms(3), of ?bits] by blast
  have "length bs \<le> length ?bits" by (induction bs) (simp_all add: byte_bits_byte)
  then have "byte_groups (length (?bits @ replicate p False)) (?bits @ replicate p False) = bs"
    using byte_groups_bytes [of "replicate p False" bs] gs(2) assms(4) by simp
  moreover have "symbol_bits w alphabet (base_encode w alphabet bs) = Some (?bits @ replicate p False)"
    unfolding base_encode_def Let_def using symbol_bits_groups [OF assms(1,2) gs(1)] gs(3) by simp
  ultimately show ?thesis by (simp add: base_decode_def)
qed

lemma base_encode_inj:
  assumes "distinct alphabet" and "length alphabet = 2 ^ w"
    and "base_encode w alphabet as = base_encode w alphabet bs" and "0 < w" and "w \<le> 8"
  shows "as = bs"
proof -
  have "Some as = base_decode w alphabet (base_encode w alphabet as)"
    by (rule base_decode_encode [OF assms(1,2,4,5), symmetric])
  also have "\<dots> = base_decode w alphabet (base_encode w alphabet bs)" by (simp only: assms(3))
  also have "\<dots> = Some bs" by (rule base_decode_encode [OF assms(1,2,4,5)])
  finally show ?thesis by (rule option.inject [THEN iffD1])
qed

lemma base32_facts: "distinct base32_alphabet" "length base32_alphabet = 2 ^ 5"
  by (simp_all add: base32_alphabet_def)

section \<open>Key derivation\<close>

definition digest32 :: "hmac \<Rightarrow> bool" where
  "digest32 hmac \<longleftrightarrow> (\<forall>k m. length (hmac k m) = 32)"

lemma hkdf_loop_length:
  assumes "digest32 hmac"
  shows "len \<le> length out + 32 * rounds \<Longrightarrow> length (hkdf_loop hmac prk info len rounds counter block out) = len"
  using assms by (induction rounds arbitrary: counter block out) (simp_all add: digest32_def Let_def)

lemma hkdfExpand_length: "digest32 hmac \<Longrightarrow> length (hkdfExpand hmac prk info len) = len"
  unfolding hkdfExpand_def by (rule hkdf_loop_length) simp_all

text \<open>One digest is enough for the 32 bytes that the program asks for.\<close>

lemma hkdfExpand_32:
  assumes "digest32 hmac"
  shows "hkdfExpand hmac prk info 32 = hmac prk (info @ [1])"
proof -
  have stop: "hkdf_loop hmac prk info 32 n c block out = out" if "length out = 32" for n c block out
    using that by (cases n) simp_all
  have "hkdf_loop hmac prk info 32 (Suc n) 1 [] [] = hmac prk (info @ [1])" for n
    using assms by (simp add: stop digest32_def Let_def)
  from this [of 31] show ?thesis by (simp add: hkdfExpand_def)
qed

lemma bytes_of_inj [simp]: "bytes_of s = bytes_of t \<longleftrightarrow> s = t"
proof
  have inj: "c = d" if "(of_char c :: byte) = of_char d" for c d :: char
  proof -
    have "(of_nat (of_char c) :: byte) = of_nat (of_char d)" using that by (simp only: of_nat_of_char)
    then have "unat (of_nat (of_char c) :: byte) = unat (of_nat (of_char d) :: byte)" by (rule arg_cong)
    then have "(of_char c :: nat) = of_char d" unfolding unat_of_nat by simp
    then show ?thesis by simp
  qed
  assume "bytes_of s = bytes_of t"
  then show "s = t" using map_injective [of "of_char :: char \<Rightarrow> byte" s t] inj by (auto simp: bytes_of_def inj_def)
qed simp

lemma put_be_Suc: "put_be (Suc w) n = of_nat (n div 256 ^ w) # put_be w n"
  by (simp add: put_be_def upt_conv_Cons map_Suc_upt [symmetric] del: upt_Suc)

lemma put_be_inj: "put_be w n = put_be w m \<Longrightarrow> n mod 256 ^ w = m mod 256 ^ w"
proof (induction w)
  case (Suc w)
  have "(of_nat (n div 256 ^ w) :: byte) = of_nat (m div 256 ^ w)" and low: "n mod 256 ^ w = m mod 256 ^ w"
    using Suc by (simp_all add: put_be_Suc)
  then have "n div 256 ^ w mod 256 = m div 256 ^ w mod 256"
  proof -
    assume "(of_nat (n div 256 ^ w) :: byte) = of_nat (m div 256 ^ w)"
    then have "unat (of_nat (n div 256 ^ w) :: byte) = unat (of_nat (m div 256 ^ w) :: byte)" by (rule arg_cong)
    then show ?thesis unfolding unat_of_nat by simp
  qed
  then show ?case using low mod_mult2_eq [of n "256 ^ w" 256] mod_mult2_eq [of m "256 ^ w" 256]
    by (simp add: mult.commute)
qed simp

lemma length_put_be [simp]: "length (put_be w n) = w"
  by (simp add: put_be_def)

lemma prf_input_inj:
  assumes "length d < 2 ^ 64" and "length d' < 2 ^ 64"
  shows "prf_input d v = prf_input d' v' \<longleftrightarrow> d = d' \<and> v = v'"
proof
  assume eq: "prf_input d v = prf_input d' v'"
  then have "put_be 8 (length d) = put_be 8 (length d')" and rest: "bytes_of d @ v = bytes_of d' @ v'"
    by (simp_all add: prf_input_def)
  then have "length d mod 256 ^ 8 = length d' mod 256 ^ 8" by (intro put_be_inj)
  then have "length (bytes_of d) = length (bytes_of d')" using assms by (simp add: bytes_of_def)
  then show "d = d' \<and> v = v'" using rest by simp
qed simp

section \<open>The keystream\<close>

text \<open>The bytes below the limit split evenly into the residues: no draw is biased.\<close>

lemma below_limit_multiple: "n \<noteq> 0 \<Longrightarrow> below_limit n = unat n * (256 div unat n)"
proof -
  have "256 = unat n * (256 div unat n) + 256 mod unat n" by simp
  then show ?thesis unfolding below_limit_def by linarith
qed

lemma residue_class_card:
  assumes "r < n"
  shows "card {m. m < n * q \<and> m mod n = r} = (q :: nat)"
proof -
  have "{m. m < n * q \<and> m mod n = r} = (\<lambda>i. n * i + r) ` {..<q}"
  proof (intro equalityI subsetI)
    fix m assume "m \<in> {m. m < n * q \<and> m mod n = r}"
    then have "m < n * q" and "m = n * (m div n) + r" by (auto simp: mult.commute [of n])
    then have "m div n < q" by (simp add: less_mult_imp_div_less mult.commute)
    with \<open>m = n * (m div n) + r\<close> show "m \<in> (\<lambda>i. n * i + r) ` {..<q}" by blast
  next
    fix m assume "m \<in> (\<lambda>i. n * i + r) ` {..<q}"
    then obtain i where i: "m = n * i + r" "i < q" by auto
    then have "n * i + r < n * Suc i" and "n * Suc i \<le> n * q"
      using assms by (simp, intro mult_le_mono2, simp add: Suc_leI)
    then have "m < n * q" using i(1) by linarith
    then show "m \<in> {m. m < n * q \<and> m mod n = r}" using assms i(1) by simp
  qed
  moreover have "inj_on (\<lambda>i. n * i + r) {..<q}" using assms by (auto simp: inj_on_def)
  ultimately show ?thesis by (simp add: card_image)
qed

lemma unat_byte: "unat (b :: byte) < 256"
  using unsigned_less [of b] by simp

lemma below_uniform:
  assumes "n \<noteq> 0" and "r < unat n"
  shows "card {v. unat v < below_limit n \<and> unat (v mod n) = r} = 256 div unat n"
proof -
  let ?A = "{v :: byte. unat v < below_limit n \<and> unat (v mod n) = r}"
  have "unat ` ?A = {m. m < unat n * (256 div unat n) \<and> m mod unat n = r}"
  proof (intro equalityI subsetI)
    fix m assume "m \<in> unat ` ?A"
    then show "m \<in> {m. m < unat n * (256 div unat n) \<and> m mod unat n = r}"
      by (auto simp: below_limit_multiple [OF assms(1)] unat_mod)
  next
    fix m assume m: "m \<in> {m. m < unat n * (256 div unat n) \<and> m mod unat n = r}"
    have "unat n * (256 div unat n) \<le> 256" by simp
    moreover have "m < unat n * (256 div unat n)" using m by simp
    ultimately have "m < 256" by linarith
    then have eq: "unat (of_nat m :: byte) = m" unfolding unat_of_nat by simp
    have "(of_nat m :: byte) \<in> ?A"
      using m unfolding mem_Collect_eq unat_mod eq below_limit_multiple [OF assms(1)] by blast
    then have "unat (of_nat m :: byte) \<in> unat ` ?A" by (rule imageI)
    then show "m \<in> unat ` ?A" unfolding eq .
  qed
  moreover have "inj_on unat ?A" by (auto simp: inj_on_def intro: unsigned_word_eqI)
  then have "card (unat ` ?A) = card ?A" by (rule card_image)
  ultimately show ?thesis using residue_class_card [OF assms(2), of "256 div unat n"] by (simp only:)
qed

lemma below_range:
  assumes "below hmac n k = Some y" and "n \<noteq> 0"
  shows "unat (fst y) < unat n"
proof -
  have "n \<noteq> 0 \<longrightarrow> unat (fst y) < unat n"
  proof (rule below.raw_induct [of "\<lambda>hmac n k y. n \<noteq> 0 \<longrightarrow> unat (fst y) < unat n", OF _ assms(1)])
    fix rec hmac n k y
    assume IH: "\<And>hmac n k y. rec hmac n k = Some y \<Longrightarrow> n \<noteq> 0 \<longrightarrow> unat (fst y) < unat (n :: byte)"
      and step: "(if n = 0 then Some (0, k)
        else case ks_next hmac k of
          (v, k') \<Rightarrow> if unat v < below_limit n then Some (v mod n, k') else rec hmac n k') = Some (y :: byte \<times> keystream)"
    show "n \<noteq> 0 \<longrightarrow> unat (fst y) < unat n"
    proof
      assume n: "n \<noteq> 0"
      obtain v k' where next_byte: "ks_next hmac k = (v, k')" by fastforce
      show "unat (fst y) < unat n"
      proof (cases "unat v < below_limit n")
        case True
        then show ?thesis using step n next_byte by (auto simp: unat_mod unat_gt_0)
      next
        case False
        then show ?thesis using step n next_byte IH [of hmac n k' y] by simp
      qed
    qed
  qed
  then show ?thesis using assms(2) by blast
qed

text \<open>Every digest has a byte that any bound accepts.\<close>

definition fair_digest :: "hmac \<Rightarrow> bool" where
  "fair_digest hmac \<longleftrightarrow> digest32 hmac \<and> (\<forall>k m. \<exists>b \<in> set (hmac k m). unat b < 128)"

lemma below_limit_half: "n \<noteq> 0 \<Longrightarrow> 128 \<le> below_limit n"
proof -
  assume n: "n \<noteq> 0"
  have "256 mod unat n \<le> 128"
  proof (cases "unat n \<le> 128")
    case True
    have "0 < unat n" using n by (simp add: unat_gt_0)
    then have "256 mod unat n < unat n" by simp
    then show ?thesis using True by linarith
  next
    case False
    then have "256 mod unat n = 256 - unat n" using unat_byte [of n] by (simp add: mod_if)
    then show ?thesis using False by linarith
  qed
  then show "128 \<le> below_limit n" by (simp add: below_limit_def)
qed

lemma below_within_block:
  assumes "n \<noteq> 0" and "ks_pos k \<le> i" and "i < length (ks_block k)" and "unat (ks_block k ! i) < below_limit n"
  shows "\<exists>y. below hmac n k = Some y"
  using assms(2-4)
proof (induction "i - ks_pos k" arbitrary: k)
  case 0
  then have "i = ks_pos k" by simp
  then show ?case using 0 assms(1) by (subst below.simps) (simp add: ks_next_def Let_def)
next
  case (Suc d)
  let ?k = "k\<lparr>ks_pos := ks_pos k + 1\<rparr>"
  have "\<exists>y. below hmac n ?k = Some y" using Suc.hyps(1) [of ?k] Suc.hyps(2) Suc.prems by simp
  then show ?case using Suc.prems Suc.hyps(2) assms(1) by (subst below.simps) (auto simp: ks_next_def Let_def)
qed

lemma below_returns:
  assumes "fair_digest hmac" and "n \<noteq> 0"
  shows "\<exists>y. below hmac n k = Some y"
proof -
  have fresh: "\<exists>y. below hmac n (ks_refill hmac k') = Some y" for k'
  proof -
    let ?b = "ks_block (ks_refill hmac k')"
    have "?b = hmac (ks_seed k') (put_be 2 (unat (ks_round k' + 1)) @ [1])"
      using assms(1) by (simp add: ks_refill_def Let_def fair_digest_def hkdfExpand_32)
    then obtain b where "b \<in> set ?b" "unat b < 128" using assms(1) unfolding fair_digest_def by metis
    then obtain i where "i < length ?b" "unat (?b ! i) < 128" unfolding in_set_conv_nth by blast
    moreover have "ks_pos (ks_refill hmac k') = 0" by (simp add: ks_refill_def Let_def)
    ultimately show ?thesis
      using below_within_block [OF assms(2), of "ks_refill hmac k'" i] below_limit_half [OF assms(2)] by force
  qed
  show ?thesis
  proof (induction "length (ks_block k) - ks_pos k" arbitrary: k)
    case 0
    have "ks_next hmac k = ks_next hmac (ks_refill hmac k)"
      using 0 assms(1) by (auto simp: ks_next_def ks_refill_def Let_def fair_digest_def hkdfExpand_length)
    then have "below hmac n k = below hmac n (ks_refill hmac k)"
      using assms(2) by (subst (1 2) below.simps) simp
    then show ?case using fresh by simp
  next
    case (Suc d)
    let ?k = "k\<lparr>ks_pos := ks_pos k + 1\<rparr>"
    have "\<exists>y. below hmac n ?k = Some y" using Suc.hyps(1) [of ?k] Suc.hyps(2) by simp
    then show ?case using Suc.hyps(2) assms(2) by (subst below.simps) (auto simp: ks_next_def Let_def)
  qed
qed

section \<open>What a token looks like\<close>

definition char_in :: "char \<Rightarrow> nat \<Rightarrow> string \<Rightarrow> bool" where
  "char_in base n s \<longleftrightarrow> (\<exists>c. s = [c] \<and> of_char base \<le> (of_char c :: nat) \<and> of_char c < (of_char base + n :: nat))"

definition shape_piece :: "unicode \<Rightarrow> bool \<Rightarrow> rune \<Rightarrow> string \<Rightarrow> bool" where
  "shape_piece un keepClasses r s \<longleftrightarrow>
     (if un_IsDigit un r then char_in CHR ''0'' 10 s
      else if un_IsLetter un r \<and> keepClasses
      then (if un_IsUpper un r then char_in CHR ''A'' 26 s else char_in CHR ''a'' 26 s)
      else if un_IsLetter un r then char_in CHR ''0'' 10 s
      else s = un_encode un r)"

lemma char_in_below:
  assumes "unat b < n" and "of_char base + n \<le> (256 :: nat)"
  shows "char_in base n [add_below base b]"
proof -
  have "of_char base + unat b < (256 :: nat)" using assms by linarith
  then have "of_char (add_below base b) = (of_char base + unat b :: nat)"
    unfolding add_below_def by (simp only: of_char_of mod_less)
  then show ?thesis using assms(1) by (simp add: char_in_def)
qed

lemma shape_runes_pieces:
  assumes "fair_digest hmac"
  shows "\<exists>ps. shape_runes hmac un keepClasses rs k = Some (concat ps) \<and> list_all2 (shape_piece un keepClasses) rs ps"
proof (induction rs arbitrary: k)
  case Nil
  show ?case by (intro exI [of _ "[]"]) simp
next
  case (Cons r rs)
  have draw: "\<exists>ps. (case below hmac n k of
            None \<Rightarrow> None
          | Some (b, k) \<Rightarrow> map_option ((#) (add_below base b)) (shape_runes hmac un keepClasses rs k))
        = Some (concat ps) \<and> list_all2 (shape_piece un keepClasses) (r # rs) ps"
    if n: "n \<noteq> 0" "of_char base + unat n \<le> (256 :: nat)"
      and piece: "\<And>p. shape_piece un keepClasses r p \<longleftrightarrow> char_in base (unat n) p" for n base
  proof -
    obtain b k' where b: "below hmac n k = Some (b, k')" using below_returns [OF assms n(1)] by fastforce
    then have "char_in base (unat n) [add_below base b]" using below_range [OF b n(1)] char_in_below n(2) by simp
    moreover obtain ps where "shape_runes hmac un keepClasses rs k' = Some (concat ps)"
      "list_all2 (shape_piece un keepClasses) rs ps" using Cons.IH by blast
    ultimately show ?thesis using b piece by (intro exI [of _ "[add_below base b] # ps"]) simp
  qed
  obtain ps where ps: "shape_runes hmac un keepClasses rs k = Some (concat ps)"
    "list_all2 (shape_piece un keepClasses) rs ps" using Cons.IH by blast
  consider (digit) "un_IsDigit un r" | (upper) "\<not> un_IsDigit un r" "un_IsLetter un r" "keepClasses" "un_IsUpper un r"
    | (lower) "\<not> un_IsDigit un r" "un_IsLetter un r" "keepClasses" "\<not> un_IsUpper un r"
    | (letter) "\<not> un_IsDigit un r" "un_IsLetter un r" "\<not> keepClasses"
    | (other) "\<not> un_IsDigit un r" "\<not> un_IsLetter un r" by blast
  then show ?case
  proof cases
    case digit
    then have "shape_piece un keepClasses r p \<longleftrightarrow> char_in CHR ''0'' (unat (10 :: byte)) p" for p
      by (simp add: shape_piece_def)
    from draw [OF _ _ this] digit show ?thesis by (simp add: Let_def)
  next
    case upper
    then have "shape_piece un keepClasses r p \<longleftrightarrow> char_in CHR ''A'' (unat (26 :: byte)) p" for p
      by (simp add: shape_piece_def)
    from draw [OF _ _ this] upper show ?thesis by (simp add: Let_def cong: option.case_cong prod.case_cong)
  next
    case lower
    then have "shape_piece un keepClasses r p \<longleftrightarrow> char_in CHR ''a'' (unat (26 :: byte)) p" for p
      by (simp add: shape_piece_def)
    from draw [OF _ _ this] lower show ?thesis by (simp add: Let_def cong: option.case_cong prod.case_cong)
  next
    case letter
    then have "shape_piece un keepClasses r p \<longleftrightarrow> char_in CHR ''0'' (unat (10 :: byte)) p" for p
      by (simp add: shape_piece_def)
    from draw [OF _ _ this] letter show ?thesis by (simp add: Let_def cong: option.case_cong prod.case_cong)
  next
    case other
    then have "shape_piece un keepClasses r (un_encode un r)" by (simp add: shape_piece_def)
    then show ?thesis using ps other by (intro exI [of _ "un_encode un r # ps"]) simp
  qed
qed

lemma length_bit_groups: "0 < w \<Longrightarrow> length bs = w * m \<Longrightarrow> m \<le> n \<Longrightarrow> length (bit_groups w n bs) = m"
proof (induction n arbitrary: bs m)
  case (Suc n)
  then show ?case by (cases m) auto
qed auto

lemma opaque_text:
  assumes "length bs = 20"
  shows "length (base_encode 5 base32_alphabet bs) = 32"
    and "set (base_encode 5 base32_alphabet bs) \<subseteq> set base32_alphabet"
proof -
  let ?bits = "concat (map byte_bits bs)"
  have "length (concat (map byte_bits xs)) = 8 * length xs" for xs by (induction xs) (simp_all add: byte_bits_byte)
  then have len: "length ?bits = 5 * 32" using assms by simp
  then show "length (base_encode 5 base32_alphabet bs) = 32"
    by (simp add: base_encode_def Let_def length_bit_groups)
  have "\<forall>g \<in> set (bit_groups 5 (length ?bits) ?bits). length g = 5"
    using bit_groups_all [of 5 ?bits "length ?bits"] by simp
  then have "\<forall>g \<in> set (bit_groups 5 (length ?bits) ?bits). bits_value g < length base32_alphabet"
    using bits_value_bound base32_facts(2) by metis
  then show "set (base_encode 5 base32_alphabet bs) \<subseteq> set base32_alphabet"
    by (auto simp: base_encode_def Let_def)
qed


text \<open>A digest that is constant, and a table of character classes for ASCII.\<close>

definition flat_digest :: "byte \<Rightarrow> hmac" where
  "flat_digest b k m = replicate 32 b"

definition ascii_classes :: unicode where
  "ascii_classes = \<lparr>un_runes = map of_char, un_encode = (\<lambda>r. [char_of r]),
    un_IsDigit = (\<lambda>r. 48 \<le> r \<and> r \<le> 57),
    un_IsLetter = (\<lambda>r. 65 \<le> r \<and> r \<le> 90 \<or> 97 \<le> r \<and> r \<le> 122),
    un_IsUpper = (\<lambda>r. 65 \<le> r \<and> r \<le> 90)\<rparr>"

lemma flat_digest_fair: "unat b < 128 \<Longrightarrow> fair_digest (flat_digest b)"
  by (simp add: fair_digest_def digest32_def flat_digest_def)


lemma constantTimeEqualString_iff: "constantTimeEqualString a b \<longleftrightarrow> a = b"
proof (cases "length a = length b")
  case True
  have fold: "foldl (\<lambda>diff (x, y). or diff (xor x y)) d (zip xs ys) = 0 \<longleftrightarrow> d = 0 \<and> xs = ys"
    if "length xs = length ys" for d :: byte and xs ys
    using that
  proof (induction xs ys arbitrary: d rule: list_induct2)
    case (Cons x xs y ys)
    have "or d (xor x y) = 0 \<longleftrightarrow> d = 0 \<and> x = y"
      by (metis bit.xor_self bit.xor_left_self or_eq_0_iff xor.right_neutral)
    then show ?case using Cons by auto
  qed simp
  show ?thesis using fold [of "bytes_of a" "bytes_of b" 0] True by (simp add: constantTimeEqualString_def bytes_of_def [of a] bytes_of_def [of b] flip: bytes_of_inj)
next
  case False
  then show ?thesis by (auto simp: constantTimeEqualString_def)
qed

text \<open>
  verification is exact. A token verifies against a value precisely when it is the token of that
  value in that column and format, the empty value's token being empty; the comparison in constant
  time decides equality.
\<close>

theorem Verify_exact:
  "Verify_token hmac un key domain value token format
   = map_option (\<lambda>t. t = token) (Token hmac un key domain value format)"
  by (auto simp: Verify_token_def Token_def constantTimeEqualString_iff option.map_comp comp_def)

text \<open>
  tokens of different columns or values are tied to different messages. If two opaque tokens are
  equal although their columns or their values differ, then two different messages have
  the same first twenty bytes of HMAC under the same key: the length in front of the
  domain leaves no other way for two columns to share a token.
\<close>

theorem opaque_collision:
  assumes "Token hmac un key d v FormatOpaque = Token hmac un key d' v' FormatOpaque"
    and "d \<noteq> d' \<or> v \<noteq> v'" and "v \<noteq> ''''" and "v' \<noteq> ''''" and "length d < 2 ^ 64" and "length d' < 2 ^ 64"
  shows "prf_input d (bytes_of v) \<noteq> prf_input d' (bytes_of v')
    \<and> take 20 (hmac key (prf_input d (bytes_of v))) = take 20 (hmac key (prf_input d' (bytes_of v')))"
proof
  show "prf_input d (bytes_of v) \<noteq> prf_input d' (bytes_of v')"
    using prf_input_inj [OF assms(5,6)] assms(2) by simp
  have "base_encode 5 base32_alphabet (take 20 (hmac key (prf_input d (bytes_of v))))
      = base_encode 5 base32_alphabet (take 20 (hmac key (prf_input d' (bytes_of v'))))"
    using assms(1,3,4) by (simp add: Token_def keyed_prf_def Let_def)
  then show "take 20 (hmac key (prf_input d (bytes_of v))) = take 20 (hmac key (prf_input d' (bytes_of v')))"
    by (rule base_encode_inj [OF base32_facts]) simp_all
qed

theorem opaque_collision_witness:
  "prf_input ''s.t.a'' (bytes_of ''x'') \<noteq> prf_input ''s.t.b'' (bytes_of ''x'')
    \<and> take 20 (flat_digest 7 [] (prf_input ''s.t.a'' (bytes_of ''x'')))
      = take 20 (flat_digest 7 [] (prf_input ''s.t.b'' (bytes_of ''x'')))"
proof (rule opaque_collision)
  show "Token (flat_digest 7) ascii_classes [] ''s.t.a'' ''x'' FormatOpaque
      = Token (flat_digest 7) ascii_classes [] ''s.t.b'' ''x'' FormatOpaque"
    by (simp add: Token_def keyed_prf_def flat_digest_def Let_def)
qed simp_all

end
