(* ===== verification/Config.thy ===== *)
theory Config
  imports Consume Plane Token
begin

text \<open>
  \<open>internal/config/config.go\<close>: defaults, environment, validation, and what the services build from
  a configuration. The content of a file, the decoding of JSON over the defaults and the environment
  are arguments. \<open>fr f unit scale\<close> is \<open>uint64(float64(f) * (float64(unit) / scale))\<close> of Go's
  \<open>time.ParseDuration\<close>, the only floating-point step of it.
\<close>

section \<open>Durations\<close>

definition unit_value :: "string \<Rightarrow> nat option" where
  "unit_value u =
     map_of [(''ns'', 1), (''us'', 10 ^ 3), ([CHR 0xC2, CHR 0xB5, CHR ''s''], 10 ^ 3),
             ([CHR 0xCE, CHR 0xBC, CHR ''s''], 10 ^ 3), (''ms'', 10 ^ 6), (''s'', 10 ^ 9),
             (''m'', 60 * 10 ^ 9), (''h'', 3600 * 10 ^ 9)] u"

text \<open>
  \<open>leadingFraction\<close>: digits are used while the value stays within 63 bits, the rest is skipped; the
  second result is the scale.
\<close>

fun leading_fraction :: "string \<Rightarrow> nat \<Rightarrow> nat \<Rightarrow> nat \<times> nat" where
  "leading_fraction [] f scale = (f, scale)"
| "leading_fraction (c # cs) f scale =
     (if f > (2 ^ 63 - 1) div 10 then (f, scale)
      else let y = 10 * f + (of_char c - 48) in
           if y > 2 ^ 63 then (f, scale) else leading_fraction cs y (10 * scale))"

definition unit_char :: "char \<Rightarrow> bool" where
  "unit_char c \<longleftrightarrow> c \<noteq> CHR ''.'' \<and> \<not> is_digit c"

text \<open>The number and unit at the head of a text: their value and the rest.\<close>

definition duration_component :: "(nat \<Rightarrow> nat \<Rightarrow> nat \<Rightarrow> nat) \<Rightarrow> string \<Rightarrow> (nat \<times> string) option" where
  "duration_component fr s =
     (if \<not> (hd s = CHR ''.'' \<or> is_digit (hd s)) then None
      else
        let ds = takeWhile is_digit s; v = undigits ds; s1 = dropWhile is_digit s;
            dot = (s1 \<noteq> [] \<and> hd s1 = CHR ''.'');
            fs = (if dot then takeWhile is_digit (tl s1) else []);
            s2 = (if dot then dropWhile is_digit (tl s1) else s1);
            (f, scale) = leading_fraction fs 0 1;
            u = takeWhile unit_char s2
        in if v > 2 ^ 63 \<or> ds = [] \<and> fs = [] then None
           else case unit_value u of
             None \<Rightarrow> None
           | Some unit \<Rightarrow>
               if v > 2 ^ 63 div unit then None
               else let w = (if f > 0 then v * unit + fr f unit scale else v * unit) in
                    if f > 0 \<and> w > 2 ^ 63 then None else Some (w, dropWhile unit_char s2))"

lemma unit_value_nonempty: "unit_value u = Some unit \<Longrightarrow> u \<noteq> []"
  by (auto simp: unit_value_def)

lemma duration_component_shorter:
  assumes "duration_component fr s = Some (w, rest)"
  shows "length rest < length s"
proof -
  define s1 where "s1 = dropWhile is_digit s"
  define dot where "dot = (s1 \<noteq> [] \<and> hd s1 = CHR ''.'')"
  define s2 where "s2 = (if dot then dropWhile is_digit (tl s1) else s1)"
  have rest: "rest = dropWhile unit_char s2" "takeWhile unit_char s2 \<noteq> []"
    using assms unit_value_nonempty
    by (auto simp: duration_component_def Let_def s1_def dot_def s2_def split: if_splits option.splits prod.splits)
  have "length s2 = length (takeWhile unit_char s2) + length rest"
    unfolding rest(1) by (metis length_append takeWhile_dropWhile_id)
  then have "length rest < length s2" using rest(2) by simp
  also have "length s2 \<le> length s1" by (auto simp: s2_def intro: order_trans [OF length_dropWhile_le])
  also have "length s1 \<le> length s" unfolding s1_def by (rule length_dropWhile_le)
  finally show ?thesis .
qed

text \<open>The sum is kept in 64 bits.\<close>

function duration_sum :: "(nat \<Rightarrow> nat \<Rightarrow> nat \<Rightarrow> nat) \<Rightarrow> string \<Rightarrow> nat \<Rightarrow> nat option" where
  "duration_sum fr s d =
     (if s = [] then Some d
      else case duration_component fr s of
        None \<Rightarrow> None
      | Some (w, rest) \<Rightarrow>
          let d = (d + w) mod 2 ^ 64 in if d > 2 ^ 63 then None else duration_sum fr rest d)"
  by pat_completeness auto
termination
  by (relation "measure (\<lambda>(fr, s, d). length s)") (auto dest: duration_component_shorter)

declare duration_sum.simps [simp del]

definition ParseDuration :: "(nat \<Rightarrow> nat \<Rightarrow> nat \<Rightarrow> nat) \<Rightarrow> string \<Rightarrow> duration option" where
  "ParseDuration fr s0 =
     (let signed = (s0 \<noteq> [] \<and> (hd s0 = CHR ''-'' \<or> hd s0 = CHR ''+''));
          neg = (s0 \<noteq> [] \<and> hd s0 = CHR ''-'');
          s = (if signed then tl s0 else s0)
      in if s = ''0'' then Some 0
         else if s = [] then None
         else case duration_sum fr s 0 of
           None \<Rightarrow> None
         | Some d \<Rightarrow>
             if neg then Some (- int d) else if d > 2 ^ 63 - 1 then None else Some (int d))"

definition mustDuration :: "(nat \<Rightarrow> nat \<Rightarrow> nat \<Rightarrow> nat) \<Rightarrow> string \<Rightarrow> duration \<Rightarrow> duration" where
  "mustDuration fr s fallback =
     (if s = '''' then fallback
      else case ParseDuration fr s of None \<Rightarrow> fallback | Some d \<Rightarrow> d)"

text \<open>A duration written as numbers with units, such as \<open>1h30m\<close>.\<close>

definition duration_text :: "(nat \<times> string) list \<Rightarrow> string" where
  "duration_text cs = concat (map (\<lambda>(n, u). digits n @ u) cs)"

definition duration_nanos :: "(nat \<times> string) list \<Rightarrow> nat" where
  "duration_nanos cs = sum_list (map (\<lambda>(n, u). n * the (unit_value u)) cs)"

lemma unit_value_chars:
  assumes "unit_value u = Some unit"
  shows "\<forall>c \<in> set u. unit_char c" and "0 < unit"
proof -
  have "\<forall>(u, unit) \<in> set [(''ns'', 1), (''us'', 10 ^ 3), ([CHR 0xC2, CHR 0xB5, CHR ''s''], 10 ^ 3),
             ([CHR 0xCE, CHR 0xBC, CHR ''s''], 10 ^ 3), (''ms'', 10 ^ 6), (''s'', 10 ^ 9),
             (''m'', 60 * 10 ^ 9), (''h'', 3600 * 10 ^ 9 :: nat)]. (\<forall>c \<in> set u. unit_char c) \<and> 0 < unit"
    by (simp add: unit_char_def is_digit_def)
  moreover have "(u, unit) \<in> set [(''ns'', 1), (''us'', 10 ^ 3), ([CHR 0xC2, CHR 0xB5, CHR ''s''], 10 ^ 3),
             ([CHR 0xCE, CHR 0xBC, CHR ''s''], 10 ^ 3), (''ms'', 10 ^ 6), (''s'', 10 ^ 9),
             (''m'', 60 * 10 ^ 9), (''h'', 3600 * 10 ^ 9 :: nat)]"
    using assms unfolding unit_value_def by (rule map_of_SomeD)
  ultimately show "\<forall>c \<in> set u. unit_char c" and "0 < unit" by blast+
qed

lemma duration_component_text:
  assumes "unit_value u = Some unit" and "n * unit \<le> 2 ^ 63" and "rest = [] \<or> is_digit (hd rest)"
  shows "duration_component fr (digits n @ u @ rest) = Some (n * unit, rest)"
proof -
  let ?s = "digits n @ u @ rest"
  note unit = unit_value_chars [OF assms(1)]
  have u: "u \<noteq> []" "\<not> is_digit (hd u)" "hd u \<noteq> CHR ''.''"
    using unit_value_nonempty [OF assms(1)] unit(1) by (auto simp: unit_char_def)
  have digs: "\<forall>c \<in> set (digits n). is_digit c" using digits_are_digits [of n] by (simp add: list_all_iff)
  have hd: "is_digit (hd ?s)" using digs by simp
  have tk: "takeWhile is_digit ?s = digits n" and dr: "dropWhile is_digit ?s = u @ rest"
    using digs u by (simp_all add: takeWhile_append2 dropWhile_append2 takeWhile_eq_Nil_iff dropWhile_eq_self_iff)
  have un: "takeWhile unit_char (u @ rest) = u" "dropWhile unit_char (u @ rest) = rest"
    using unit(1) assms(3)
    by (auto simp: takeWhile_append2 dropWhile_append2 takeWhile_eq_Nil_iff dropWhile_eq_self_iff unit_char_def)
  have "n \<le> 2 ^ 63 div unit" using assms(2) unit(2) by (simp add: less_eq_div_iff_mult_less_eq)
  moreover have "n \<le> n * unit" using unit(2) by simp
  with assms(2) have "n \<le> 2 ^ 63" by linarith
  ultimately show ?thesis
    unfolding duration_component_def tk dr Let_def using hd u un assms(1) by simp
qed

lemma duration_text_head: "duration_text cs = [] \<or> is_digit (hd (duration_text cs))"
proof (cases cs)
  case (Cons c cs')
  have "is_digit (hd (digits (fst c)))"
    using digits_are_digits [of "fst c"] by (cases "digits (fst c)") (simp_all add: digits_nonempty)
  then show ?thesis using Cons by (simp add: duration_text_def case_prod_beta)
qed (simp add: duration_text_def)

lemma duration_sum_text:
  "\<forall>(n, u) \<in> set cs. unit_value u \<noteq> None \<Longrightarrow> d + duration_nanos cs \<le> 2 ^ 63 \<Longrightarrow>
   duration_sum fr (duration_text cs) d = Some (d + duration_nanos cs)"
proof (induction cs arbitrary: d)
  case Nil
  then show ?case by (simp add: duration_text_def duration_nanos_def duration_sum.simps)
next
  case (Cons c cs)
  obtain n u where c: "c = (n, u)" by (cases c)
  obtain unit where unit: "unit_value u = Some unit" using Cons.prems(1) c by auto
  have nanos: "duration_nanos (c # cs) = n * unit + duration_nanos cs"
    by (simp add: duration_nanos_def c unit)
  have spelled: "duration_text (c # cs) = digits n @ u @ duration_text cs"
    by (simp add: duration_text_def c)
  have "duration_component fr (duration_text (c # cs)) = Some (n * unit, duration_text cs)"
    unfolding spelled by (rule duration_component_text [OF unit _ duration_text_head]) (use Cons.prems(2) nanos in linarith)
  moreover have "duration_text (c # cs) \<noteq> []" by (simp add: spelled)
  moreover have "(d + n * unit) mod 2 ^ 64 = d + n * unit" "\<not> d + n * unit > 2 ^ 63"
    using Cons.prems(2) nanos by simp_all
  moreover have "duration_sum fr (duration_text cs) (d + n * unit) = Some (d + n * unit + duration_nanos cs)"
    using Cons.IH Cons.prems nanos by (simp add: add.assoc)
  ultimately show ?case
    by (simp add: duration_sum.simps [of fr "duration_text (c # cs)"] nanos Let_def del: One_nat_def) (simp add: spelled)?
qed

lemma duration_text_parses:
  assumes "cs \<noteq> []" and "\<forall>(n, u) \<in> set cs. unit_value u \<noteq> None" and "duration_nanos cs < 2 ^ 63"
  shows "ParseDuration fr (duration_text cs) = Some (int (duration_nanos cs))
    \<and> ParseDuration fr (CHR ''-'' # duration_text cs) = Some (- int (duration_nanos cs))"
proof -
  obtain n u cs' where cs: "cs = (n, u) # cs'" using assms(1) by (cases cs) auto
  then have "u \<noteq> []" using assms(2) unit_value_nonempty by auto
  then have len: "length (duration_text cs) \<ge> 2"
    using digits_nonempty [of n] by (cases "digits n"; cases u) (simp_all add: cs duration_text_def)
  have head: "is_digit (hd (duration_text cs))" and ne: "duration_text cs \<noteq> []"
    using duration_text_head [of cs] len by auto
  have "duration_text cs \<noteq> ''0''" using len by auto
  moreover have "hd (duration_text cs) \<noteq> CHR ''-''" "hd (duration_text cs) \<noteq> CHR ''+''"
    using head by (auto simp: is_digit_def)
  moreover have "duration_sum fr (duration_text cs) 0 = Some (duration_nanos cs)"
    using duration_sum_text [OF assms(2), of 0] assms(3) by simp
  ultimately show ?thesis using ne assms(3) by (simp add: ParseDuration_def)
qed

text \<open>
  durations in the configuration mean what they say. A text of numbers with units, such as 1h30m,
  is read as the sum of its parts in nanoseconds, negated after a minus sign, as long as it stays
  within 63 bits.
\<close>

theorem ParseDuration_text:
  assumes "cs \<noteq> []" and "\<forall>(n, u) \<in> set cs. unit_value u \<noteq> None" and "duration_nanos cs < 2 ^ 63"
  shows "ParseDuration fr (duration_text cs) = Some (int (duration_nanos cs))
    \<and> ParseDuration fr (CHR ''-'' # duration_text cs) = Some (- int (duration_nanos cs))"
  using assms by (rule duration_text_parses)

theorem ParseDuration_text_witness:
  "ParseDuration (\<lambda>f unit scale. 0) ''1h30m'' = Some 5400000000000"
proof -
  have "digits 1 = ''1''" "digits 30 = ''30''" by code_simp+
  then have "duration_text [(1, ''h''), (30, ''m'')] = ''1h30m''" by (simp add: duration_text_def)
  then show ?thesis
    using ParseDuration_text [of "[(1, ''h''), (30, ''m'')]" "\<lambda>f unit scale. 0"]
    by (simp add: duration_nanos_def unit_value_def)
qed

section \<open>The configuration\<close>

record database =
  dc_Engine :: string
  dc_DSN :: string
  dc_DSNEnv :: string
  dc_MaxOpenConns :: int
  dc_MaxIdleConns :: int
  dc_ConnMaxLife :: string
  dc_StatementTimeout :: string

record kafka =
  kf_Brokers :: "string list"
  kf_GroupID :: string
  kf_Topics :: "string list"
  kf_TLS :: bool
  kf_SASL :: string
  kf_Username :: string
  kf_PasswordEnv :: string
  kf_MinBytes :: int
  kf_MaxBytes :: int
  kf_MaxWait :: string
  kf_StartOffset :: string

record crypto_config =
  cc_KeySource :: string
  cc_StaticKeyEnv :: string
  cc_AllowInsecureStaticKey :: bool
  cc_WrappedKeyFile :: string
  cc_KMSKeyID :: string
  cc_KMSRegion :: string
  cc_EncryptionContext :: "string gomap"
  cc_PKCS11Module :: string
  cc_PKCS11Slot :: string
  cc_PKCS11PinEnv :: string
  cc_KeyTTL :: string
  cc_DefaultTokenFormat :: string
  cc_ColumnTokenFormats :: "string gomap"

record storage =
  so_LocalDir :: string
  so_Bucket :: string
  so_Prefix :: string
  so_Region :: string

record apply_config =
  ac_BatchSize :: int
  ac_BatchTimeout :: string
  ac_MaxRowsPerStatement :: int
  ac_Workers :: int
  ac_RetryBase :: string
  ac_RetryMax :: string
  ac_RetryMaxAttempts :: int
  ac_DLQRetryBase :: string
  ac_DLQRetryMax :: string
  ac_DLQRetryMaxAttempts :: int

record extract_config =
  ec_MaxPartBytes :: int
  ec_MaxPartRows :: int
  ec_Compress :: bool
  ec_Delimiter :: string
  ec_NullSentinel :: string
  ec_ChunkRows :: int
  ec_LoaderConcurrency :: int
  ec_SignalSchema :: string

record reconciliation =
  rl_Enabled :: bool
  rl_Interval :: string
  rl_LeafRows :: int
  rl_MaxDepth :: int
  rl_MaxFindings :: int
  rl_Workers :: int
  rl_AutoRepair :: bool

record cutover =
  ct_MaxLag :: string
  ct_LagStableFor :: string
  ct_MaxOpenDeadLetters :: int
  ct_MaxReconcileFindings :: int
  ct_MaxReconcileAge :: string
  ct_RequireAllPartsLoaded :: bool
  ct_RequireReverseReplication :: bool

record observability =
  os_LogLevel :: string
  os_AdminAddr :: string
  os_Instance :: string

record config =
  cf_MigrationID :: string
  cf_Environment :: string
  cf_Source :: database
  cf_Target :: database
  cf_Kafka :: kafka
  cf_Crypto :: crypto_config
  cf_Storage :: storage
  cf_Apply :: apply_config
  cf_Extract :: extract_config
  cf_Recon :: reconciliation
  cf_Cutover :: cutover
  cf_Obs :: observability
  cf_PlanFile :: string
  cf_Plan :: plan

definition Postgres :: string where "Postgres = ''postgres''"
definition MySQL :: string where "MySQL = ''mysql''"

definition Defaults :: config where
  "Defaults =
     \<lparr>cf_MigrationID = '''', cf_Environment = ''development'',
      cf_Source = \<lparr>dc_Engine = Postgres, dc_DSN = '''', dc_DSNEnv = '''', dc_MaxOpenConns = 8,
        dc_MaxIdleConns = 4, dc_ConnMaxLife = ''30m'', dc_StatementTimeout = ''''\<rparr>,
      cf_Target = \<lparr>dc_Engine = Postgres, dc_DSN = '''', dc_DSNEnv = '''', dc_MaxOpenConns = 16,
        dc_MaxIdleConns = 8, dc_ConnMaxLife = ''30m'', dc_StatementTimeout = ''''\<rparr>,
      cf_Kafka = \<lparr>kf_Brokers = [], kf_GroupID = ''db-migration-applier'', kf_Topics = [], kf_TLS = False,
        kf_SASL = '''', kf_Username = '''', kf_PasswordEnv = '''', kf_MinBytes = 2 ^ 10,
        kf_MaxBytes = 10 * 2 ^ 20, kf_MaxWait = ''500ms'', kf_StartOffset = ''earliest''\<rparr>,
      cf_Crypto = \<lparr>cc_KeySource = ''static'', cc_StaticKeyEnv = '''', cc_AllowInsecureStaticKey = False,
        cc_WrappedKeyFile = '''', cc_KMSKeyID = '''', cc_KMSRegion = '''', cc_EncryptionContext = [],
        cc_PKCS11Module = '''', cc_PKCS11Slot = '''', cc_PKCS11PinEnv = '''', cc_KeyTTL = ''1h'',
        cc_DefaultTokenFormat = ''opaque'', cc_ColumnTokenFormats = []\<rparr>,
      cf_Storage = \<lparr>so_LocalDir = ''./parts'', so_Bucket = '''', so_Prefix = '''', so_Region = ''''\<rparr>,
      cf_Apply = \<lparr>ac_BatchSize = 1000, ac_BatchTimeout = ''250ms'', ac_MaxRowsPerStatement = 500,
        ac_Workers = 4, ac_RetryBase = ''100ms'', ac_RetryMax = ''30s'', ac_RetryMaxAttempts = 8,
        ac_DLQRetryBase = ''30s'', ac_DLQRetryMax = ''2h'', ac_DLQRetryMaxAttempts = 12\<rparr>,
      cf_Extract = \<lparr>ec_MaxPartBytes = 2 * 2 ^ 30, ec_MaxPartRows = 20000000, ec_Compress = True,
        ec_Delimiter = '','', ec_NullSentinel = [CHR 0x5C, CHR ''N''], ec_ChunkRows = 50000,
        ec_LoaderConcurrency = 4, ec_SignalSchema = ''migration_ctl''\<rparr>,
      cf_Recon = \<lparr>rl_Enabled = True, rl_Interval = ''5m'', rl_LeafRows = 5000, rl_MaxDepth = 48,
        rl_MaxFindings = 1000, rl_Workers = 2, rl_AutoRepair = False\<rparr>,
      cf_Cutover = \<lparr>ct_MaxLag = ''10s'', ct_LagStableFor = ''15m'', ct_MaxOpenDeadLetters = 0,
        ct_MaxReconcileFindings = 0, ct_MaxReconcileAge = ''30m'', ct_RequireAllPartsLoaded = True,
        ct_RequireReverseReplication = True\<rparr>,
      cf_Obs = \<lparr>os_LogLevel = ''info'', os_AdminAddr = '':9090'', os_Instance = ''''\<rparr>,
      cf_PlanFile = '''', cf_Plan = \<lparr>pl_Name = '''', pl_Tables = []\<rparr>\<rparr>"

section \<open>The environment\<close>

fun split_on :: "char \<Rightarrow> string \<Rightarrow> string list" where
  "split_on sep [] = [[]]"
| "split_on sep (c # s) =
     (if c = sep then [] # split_on sep s
      else case split_on sep s of [] \<Rightarrow> [[c]] | w # ws \<Rightarrow> (c # w) # ws)"

definition Atoi :: "string \<Rightarrow> int option" where
  "Atoi s = (case s of
       [] \<Rightarrow> None
     | c # cs \<Rightarrow> if c = CHR ''+'' \<and> (cs = [] \<or> is_digit (hd cs)) then parse_int64 cs else parse_int64 s)"

definition dsn_env :: "(string \<Rightarrow> string) \<Rightarrow> string \<Rightarrow> database \<Rightarrow> database" where
  "dsn_env env name d =
     (if env name \<noteq> '''' then d\<lparr>dc_DSN := env name\<rparr>
      else if dc_DSNEnv d \<noteq> '''' then d\<lparr>dc_DSN := env (dc_DSNEnv d)\<rparr> else d)"

definition or_env :: "(string \<Rightarrow> string) \<Rightarrow> string \<Rightarrow> string \<Rightarrow> string" where
  "or_env env name v = (if env name \<noteq> '''' then env name else v)"

definition applyEnv :: "(string \<Rightarrow> string) \<Rightarrow> string \<Rightarrow> config \<Rightarrow> config" where
  "applyEnv env host c =
     c\<lparr>cf_MigrationID := or_env env ''MIGRATION_ID'' (cf_MigrationID c),
       cf_Environment := or_env env ''ENVIRONMENT'' (cf_Environment c),
       cf_Source := dsn_env env ''SOURCE_DSN'' (cf_Source c),
       cf_Target := dsn_env env ''TARGET_DSN'' (cf_Target c),
       cf_Kafka := (if env ''KAFKA_BROKERS'' \<noteq> ''''
         then (cf_Kafka c)\<lparr>kf_Brokers := split_on CHR '','' (env ''KAFKA_BROKERS'')\<rparr> else cf_Kafka c),
       cf_Obs := (let inst = or_env env ''INSTANCE'' (os_Instance (cf_Obs c)) in
         \<lparr>os_LogLevel = or_env env ''LOG_LEVEL'' (os_LogLevel (cf_Obs c)),
          os_AdminAddr = or_env env ''ADMIN_ADDR'' (os_AdminAddr (cf_Obs c)),
          os_Instance = (if inst = '''' then host else inst)\<rparr>),
       cf_PlanFile := or_env env ''PLAN_FILE'' (cf_PlanFile c),
       cf_Extract := (case Atoi (env ''LOADER_CONCURRENCY'') of
           None \<Rightarrow> cf_Extract c
         | Some n \<Rightarrow> if n > 0 then (cf_Extract c)\<lparr>ec_LoaderConcurrency := n\<rparr> else cf_Extract c)\<rparr>"

section \<open>Validation\<close>

datatype config_error =
    MigrationIDRequired
  | UnsupportedTarget string
  | UnsupportedSource string
  | BadDuration string string
  | BatchSizeNotPositive
  | LoaderConcurrencyNotPositive
  | MaxPartBytesNotPositive
  | StaticKeyInProduction
  | KMSKeyRequired
  | PKCS11ModuleRequired
  | UnknownKeySource string
  | UnknownTokenFormat string
  | ColumnTokenFormat string config_error
  | InvalidPlan spec_error

definition supported :: "string \<Rightarrow> bool" where
  "supported engine \<longleftrightarrow> engine = Postgres \<or> engine = MySQL"

definition TokenFormat :: "string \<Rightarrow> config_error + token_format" where
  "TokenFormat name =
     (let n = ToLower (TrimSpace name) in
      if n = '''' \<or> n = ''opaque'' then Inr FormatOpaque
      else if n = ''preserve_shape'' \<or> n = ''preserve-shape'' then Inr FormatPreserveShape
      else if n = ''digits'' then Inr FormatDigits
      else Inl (UnknownTokenFormat name))"

definition validated_durations :: "config \<Rightarrow> (string \<times> string) list" where
  "validated_durations c =
     [(''apply.batch_timeout'', ac_BatchTimeout (cf_Apply c)),
      (''apply.retry_base'', ac_RetryBase (cf_Apply c)),
      (''apply.retry_max'', ac_RetryMax (cf_Apply c)),
      (''apply.dlq_retry_base'', ac_DLQRetryBase (cf_Apply c)),
      (''apply.dlq_retry_max'', ac_DLQRetryMax (cf_Apply c)),
      (''reconciliation.interval'', rl_Interval (cf_Recon c)),
      (''cutover.max_lag'', ct_MaxLag (cf_Cutover c)),
      (''cutover.lag_stable_for'', ct_LagStableFor (cf_Cutover c)),
      (''cutover.max_reconcile_age'', ct_MaxReconcileAge (cf_Cutover c))]"

fun check_durations ::
  "(nat \<Rightarrow> nat \<Rightarrow> nat \<Rightarrow> nat) \<Rightarrow> (string \<times> string) list \<Rightarrow> config_error option" where
  "check_durations fr [] = None"
| "check_durations fr ((name, v) # ds) =
     (if v = '''' then check_durations fr ds
      else if ParseDuration fr v = None then Some (BadDuration name v)
      else check_durations fr ds)"

definition check_key_source :: "config \<Rightarrow> config_error option" where
  "check_key_source c =
     (let k = cf_Crypto c in
      if cc_KeySource k = ''static'' then
        (if cf_Environment c = ''production'' \<and> \<not> cc_AllowInsecureStaticKey k
         then Some StaticKeyInProduction else None)
      else if cc_KeySource k = ''kms'' then (if cc_KMSKeyID k = '''' then Some KMSKeyRequired else None)
      else if cc_KeySource k = ''pkcs11''
      then (if cc_PKCS11Module k = '''' then Some PKCS11ModuleRequired else None)
      else Some (UnknownKeySource (cc_KeySource k)))"

fun check_column_formats :: "(string \<times> string) list \<Rightarrow> config_error option" where
  "check_column_formats [] = None"
| "check_column_formats ((col, f) # cs) =
     (case TokenFormat f of
        Inl e \<Rightarrow> Some (ColumnTokenFormat col e)
      | Inr _ \<Rightarrow> check_column_formats cs)"

definition Config_Validate :: "(nat \<Rightarrow> nat \<Rightarrow> nat \<Rightarrow> nat) \<Rightarrow> config \<Rightarrow> config_error option" where
  "Config_Validate fr c =
     (if cf_MigrationID c = '''' then Some MigrationIDRequired
      else if \<not> supported (dc_Engine (cf_Target c)) then Some (UnsupportedTarget (dc_Engine (cf_Target c)))
      else if dc_Engine (cf_Source c) \<noteq> '''' \<and> \<not> supported (dc_Engine (cf_Source c))
      then Some (UnsupportedSource (dc_Engine (cf_Source c)))
      else case check_durations fr (validated_durations c) of
        Some e \<Rightarrow> Some e
      | None \<Rightarrow>
        if ac_BatchSize (cf_Apply c) \<le> 0 then Some BatchSizeNotPositive
        else if ec_LoaderConcurrency (cf_Extract c) \<le> 0 then Some LoaderConcurrencyNotPositive
        else if ec_MaxPartBytes (cf_Extract c) \<le> 0 then Some MaxPartBytesNotPositive
        else case check_key_source c of
          Some e \<Rightarrow> Some e
        | None \<Rightarrow>
          (case TokenFormat (cc_DefaultTokenFormat (cf_Crypto c)) of
             Inl e \<Rightarrow> Some e
           | Inr _ \<Rightarrow>
             (case check_column_formats (cc_ColumnTokenFormats (cf_Crypto c)) of
                Some e \<Rightarrow> Some e
              | None \<Rightarrow>
                if pl_Tables (cf_Plan c) \<noteq> [] then map_option InvalidPlan (Plan_Validate (cf_Plan c))
                else None)))"

section \<open>What the services build from it\<close>

fun column_formats :: "(string \<times> string) list \<Rightarrow> config_error + token_format gomap" where
  "column_formats [] = Inr []"
| "column_formats ((col, name) # cs) =
     (case TokenFormat name of
        Inl e \<Rightarrow> Inl e
      | Inr f \<Rightarrow> (case column_formats cs of Inl e \<Rightarrow> Inl e | Inr fs \<Rightarrow> Inr ((col, f) # fs)))"

record crypto_options =
  co_ColumnFormats :: "token_format gomap"
  co_DefaultFormat :: token_format

definition CryptoOptions :: "config \<Rightarrow> config_error + crypto_options" where
  "CryptoOptions c =
     (case TokenFormat (cc_DefaultTokenFormat (cf_Crypto c)) of
        Inl e \<Rightarrow> Inl e
      | Inr def \<Rightarrow>
          (case column_formats (cc_ColumnTokenFormats (cf_Crypto c)) of
             Inl e \<Rightarrow> Inl e
           | Inr fs \<Rightarrow> Inr \<lparr>co_ColumnFormats = fs, co_DefaultFormat = def\<rparr>))"

definition ApplyPolicy :: "(nat \<Rightarrow> nat \<Rightarrow> nat \<Rightarrow> nat) \<Rightarrow> config \<Rightarrow> policy" where
  "ApplyPolicy fr c =
     \<lparr>pc_Base = mustDuration fr (ac_RetryBase (cf_Apply c)) (100 * Millisecond),
      pc_Max = mustDuration fr (ac_RetryMax (cf_Apply c)) (30 * Second), pc_Multiplier = 2,
      pc_MaxAttempts = ac_RetryMaxAttempts (cf_Apply c), pc_Jitter = True\<rparr>"

definition config_DLQPolicy :: "(nat \<Rightarrow> nat \<Rightarrow> nat \<Rightarrow> nat) \<Rightarrow> config \<Rightarrow> policy" where
  "config_DLQPolicy fr c =
     \<lparr>pc_Base = mustDuration fr (ac_DLQRetryBase (cf_Apply c)) (30 * Second),
      pc_Max = mustDuration fr (ac_DLQRetryMax (cf_Apply c)) (120 * Minute), pc_Multiplier = 3,
      pc_MaxAttempts = ac_DLQRetryMaxAttempts (cf_Apply c), pc_Jitter = True\<rparr>"

definition Thresholds :: "(nat \<Rightarrow> nat \<Rightarrow> nat \<Rightarrow> nat) \<Rightarrow> config \<Rightarrow> thresholds" where
  "Thresholds fr c =
     (let ct = cf_Cutover c in
      \<lparr>th_MaxLag = mustDuration fr (ct_MaxLag ct) (10 * Second),
       th_LagStableFor = mustDuration fr (ct_LagStableFor ct) (15 * Minute),
       th_MaxOpenDeadLetters = ct_MaxOpenDeadLetters ct,
       th_MaxReconcileFindings = ct_MaxReconcileFindings ct,
       th_MaxReconcileAge = mustDuration fr (ct_MaxReconcileAge ct) (30 * Minute),
       th_RequireAllPartsLoaded = ct_RequireAllPartsLoaded ct,
       th_RequireReverseReplication = ct_RequireReverseReplication ct\<rparr>)"

section \<open>Loading\<close>

datatype load_error =
    ReadFailed string go_error
  | ParseFailed string go_error
  | PlanInvalid string spec_error
  | Invalid config_error

text \<open>
  \<open>files path\<close> is the content of a file, \<open>decode data c\<close> the configuration \<open>c\<close> with the members of
  the JSON text set, \<open>decode_plan\<close> a plan from one.
\<close>

definition LoadPlan ::
  "(string \<Rightarrow> go_error + string) \<Rightarrow> (string \<Rightarrow> go_error + plan) \<Rightarrow> string \<Rightarrow> load_error + plan" where
  "LoadPlan files decode_plan path =
     (case files path of
        Inl e \<Rightarrow> Inl (ReadFailed path e)
      | Inr data \<Rightarrow>
          (case decode_plan data of
             Inl e \<Rightarrow> Inl (ParseFailed path e)
           | Inr plan \<Rightarrow>
               (case Plan_Validate plan of Some e \<Rightarrow> Inl (PlanInvalid path e) | None \<Rightarrow> Inr plan)))"

definition Load ::
  "(nat \<Rightarrow> nat \<Rightarrow> nat \<Rightarrow> nat) \<Rightarrow> (string \<Rightarrow> go_error + string) \<Rightarrow> (string \<Rightarrow> config \<Rightarrow> go_error + config)
   \<Rightarrow> (string \<Rightarrow> go_error + plan) \<Rightarrow> (string \<Rightarrow> string) \<Rightarrow> string \<Rightarrow> string \<Rightarrow> load_error + config" where
  "Load fr files decode decode_plan env host path =
     (case (if path = '''' then Inr Defaults
            else case files path of
              Inl e \<Rightarrow> Inl (ReadFailed path e)
            | Inr data \<Rightarrow>
                (case decode data Defaults of Inl e \<Rightarrow> Inl (ParseFailed path e) | Inr c \<Rightarrow> Inr c)) of
        Inl e \<Rightarrow> Inl e
      | Inr c \<Rightarrow>
          let c = applyEnv env host c in
          (case (if cf_PlanFile c = '''' then Inr c
                 else case LoadPlan files decode_plan (cf_PlanFile c) of
                   Inl e \<Rightarrow> Inl e
                 | Inr plan \<Rightarrow> Inr (c\<lparr>cf_Plan := plan\<rparr>)) of
             Inl e \<Rightarrow> Inl e
           | Inr c \<Rightarrow> (case Config_Validate fr c of Some e \<Rightarrow> Inl (Invalid e) | None \<Rightarrow> Inr c)))"

section \<open>What validation guarantees\<close>

text \<open>A duration of the configuration is the fallback if it is left out, and what is written otherwise.\<close>

definition written :: "(nat \<Rightarrow> nat \<Rightarrow> nat \<Rightarrow> nat) \<Rightarrow> string \<Rightarrow> duration \<Rightarrow> duration \<Rightarrow> bool" where
  "written fr s fallback d \<longleftrightarrow> (if s = '''' then d = fallback else ParseDuration fr s = Some d)"

lemma ball_anti: "A \<subseteq> B \<Longrightarrow> \<forall>x \<in> B. P x \<Longrightarrow> \<forall>x \<in> A. P x"
  by blast

lemma check_durations_None:
  "check_durations fr ds = None \<longleftrightarrow> (\<forall>(name, v) \<in> set ds. v = '''' \<or> ParseDuration fr v \<noteq> None)"
  by (induction ds) (auto split: if_splits)

lemma mustDuration_written:
  "v = '''' \<or> ParseDuration fr v \<noteq> None \<Longrightarrow> written fr v fallback (mustDuration fr v fallback)"
  by (auto simp: written_def mustDuration_def)

lemma check_column_formats_None:
  "check_column_formats cs = None \<longleftrightarrow> (\<exists>fs. column_formats cs = Inr fs)"
  by (induction cs) (auto split: sum.splits)

lemma column_formats_map:
  "column_formats cs = Inr fs \<Longrightarrow> map fst fs = map fst cs"
  by (induction cs arbitrary: fs) (auto split: sum.splits)

lemma Config_Validate_None:
  "Config_Validate fr c = None \<longleftrightarrow>
     cf_MigrationID c \<noteq> '''' \<and> supported (dc_Engine (cf_Target c))
     \<and> (dc_Engine (cf_Source c) = '''' \<or> supported (dc_Engine (cf_Source c)))
     \<and> check_durations fr (validated_durations c) = None
     \<and> 0 < ac_BatchSize (cf_Apply c) \<and> 0 < ec_LoaderConcurrency (cf_Extract c)
     \<and> 0 < ec_MaxPartBytes (cf_Extract c) \<and> check_key_source c = None
     \<and> (\<exists>o'. CryptoOptions c = Inr o')
     \<and> (pl_Tables (cf_Plan c) = [] \<or> Plan_Validate (cf_Plan c) = None)"
proof -
  have "(\<exists>o'. CryptoOptions c = Inr o') \<longleftrightarrow>
      (\<exists>f. TokenFormat (cc_DefaultTokenFormat (cf_Crypto c)) = Inr f)
      \<and> check_column_formats (cc_ColumnTokenFormats (cf_Crypto c)) = None"
    by (auto simp: CryptoOptions_def check_column_formats_None split: sum.splits)
  then show ?thesis
    by (auto simp: Config_Validate_def split: if_splits option.splits sum.splits)
qed


lemma ParseDuration_empty [simp]: "ParseDuration fr '''' = None"
  by (simp add: ParseDuration_def)

text \<open>
  a retry policy that can never run passes validation. Validation parses the two delays but does
  not compare them: with a base above the maximum the configuration is still valid, and
  then every batch of the change stream fails before its first attempt and is given up: the target
  is not touched and the loop goes on to the next messages.
\<close>

theorem unusable_policy_loads:
  assumes "Config_Validate fr c = None" and "ParseDuration fr base = Some x" and "ParseDuration fr high = Some y"
    and "0 < y" and "y < x"
    and "c' = c\<lparr>cf_Apply := (cf_Apply c)\<lparr>ac_RetryBase := base, ac_RetryMax := high\<rparr>\<rparr>"
    and "en_policy env = ApplyPolicy fr c'"
    and "decode_batch env b ms [] db = (Inr events, db1)" and "events \<noteq> []"
  shows "Config_Validate fr c' = None \<and> process_batch drv env b ms (w, db) = Some (Continue, w, db1)"
proof
  have ne: "base \<noteq> ''''" "high \<noteq> ''''" using assms(2,3) by auto
  have same: "cf_Crypto c' = cf_Crypto c" "cf_Environment c' = cf_Environment c" by (simp_all add: assms(6))
  have "set (validated_durations c') \<subseteq> insert (''apply.retry_base'', base)
      (insert (''apply.retry_max'', high) (set (validated_durations c)))"
    unfolding validated_durations_def assms(6) by simp
  moreover have "\<forall>(name, v) \<in> set (validated_durations c). v = '''' \<or> ParseDuration fr v \<noteq> None"
    using assms(1) unfolding Config_Validate_None check_durations_None by blast
  then have "\<forall>(name, v) \<in> insert (''apply.retry_base'', base)
      (insert (''apply.retry_max'', high) (set (validated_durations c))). v = '''' \<or> ParseDuration fr v \<noteq> None"
    using assms(2,3) by simp
  ultimately have "check_durations fr (validated_durations c') = None"
    unfolding check_durations_None by (rule ball_anti)
  moreover have "CryptoOptions c' = CryptoOptions c" "check_key_source c' = check_key_source c"
    using same by (simp_all only: CryptoOptions_def check_key_source_def)
  ultimately show "Config_Validate fr c' = None"
    using assms(1) unfolding Config_Validate_None by (simp add: assms(6))
  have pol: "pc_Base (ApplyPolicy fr c') = x" "pc_Max (ApplyPolicy fr c') = y"
    using assms(2,3) ne by (simp_all add: ApplyPolicy_def mustDuration_def assms(6))
  then have "fst (Policy_Validate (ApplyPolicy fr c')) = Some BaseExceedsMax"
    using assms(4,5) by (simp add: Policy_Validate_def policy_defaults_def Let_def)
  then obtain p where "Policy_Validate (ApplyPolicy fr c') = (Some BaseExceedsMax, p)" by (metis prod.collapse)
  then have "applyWithRetry drv env b events w
      = Some ((empty_result, Some (policy_error_as_error BaseExceedsMax)), w)"
    by (simp add: applyWithRetry_def Do_def assms(7))
  moreover have "ms \<noteq> []" using assms(8,9) by auto
  ultimately show "process_batch drv env b ms (w, db) = Some (Continue, w, db1)"
    using assms(8,9) by (simp add: process_batch_def)
qed

section \<open>Concrete configurations\<close>

definition no_fraction :: "nat \<Rightarrow> nat \<Rightarrow> nat \<Rightarrow> nat" where
  "no_fraction f unit scale = 0"

lemma simple_duration:
  assumes "unit_value u = Some unit" and "n * unit < 2 ^ 63"
  shows "ParseDuration fr (digits n @ u) = Some (int (n * unit))"
  using duration_text_parses [of "[(n, u)]" fr] assms by (simp add: duration_text_def duration_nanos_def)

lemma unit_values:
  "unit_value ''ms'' = Some 1000000" "unit_value ''s'' = Some 1000000000"
  "unit_value ''m'' = Some 60000000000" "unit_value ''h'' = Some 3600000000000"
  by (simp_all add: unit_value_def)

lemma small_digits:
  "digits 250 = ''250''" "digits 100 = ''100''" "digits 30 = ''30''" "digits 2 = ''2''" "digits 5 = ''5''"
  "digits 10 = ''10''" "digits 15 = ''15''" "digits (Suc 0) = ''1''"
  by code_simp+

lemma default_durations:
  "ParseDuration fr ''250ms'' = Some 250000000" "ParseDuration fr ''100ms'' = Some 100000000"
  "ParseDuration fr ''30s'' = Some 30000000000" "ParseDuration fr ''2h'' = Some 7200000000000"
  "ParseDuration fr ''5m'' = Some 300000000000" "ParseDuration fr ''10s'' = Some 10000000000"
  "ParseDuration fr ''15m'' = Some 900000000000" "ParseDuration fr ''30m'' = Some 1800000000000"
  "ParseDuration fr ''1s'' = Some 1000000000"
  using simple_duration [OF unit_values(1), of 250 fr] simple_duration [OF unit_values(1), of 100 fr]
    simple_duration [OF unit_values(2), of 30 fr] simple_duration [OF unit_values(4), of 2 fr]
    simple_duration [OF unit_values(3), of 5 fr] simple_duration [OF unit_values(2), of 10 fr]
    simple_duration [OF unit_values(3), of 15 fr] simple_duration [OF unit_values(3), of 30 fr]
    simple_duration [OF unit_values(2), of 1 fr]
  by (simp_all add: small_digits)

lemma opaque_format: "TokenFormat ''opaque'' = Inr FormatOpaque"
proof -
  have "ToLower (TrimSpace ''opaque'') = ''opaque''" by code_simp
  then show ?thesis by (simp add: TokenFormat_def)
qed

definition named_defaults :: config where
  "named_defaults = Defaults\<lparr>cf_MigrationID := ''m''\<rparr>"

lemma named_defaults_valid: "Config_Validate fr named_defaults = None"
proof -
  have "check_durations fr (validated_durations named_defaults) = None"
    by (simp add: validated_durations_def named_defaults_def Defaults_def default_durations)
  moreover have "CryptoOptions named_defaults = Inr \<lparr>co_ColumnFormats = [], co_DefaultFormat = FormatOpaque\<rparr>"
    by (simp add: CryptoOptions_def named_defaults_def Defaults_def opaque_format)
  moreover have "check_key_source named_defaults = None"
    by (simp add: check_key_source_def named_defaults_def Defaults_def)
  ultimately show ?thesis
    unfolding Config_Validate_None by (simp add: named_defaults_def Defaults_def supported_def)
qed

definition demo_environment :: "string \<Rightarrow> string" where
  "demo_environment name = (if name = ''MIGRATION_ID'' then ''m'' else if name = ''INSTANCE'' then ''i'' else '''')"

definition demo_config :: config where
  "demo_config = named_defaults\<lparr>cf_Obs := (cf_Obs named_defaults)\<lparr>os_Instance := ''i''\<rparr>\<rparr>"

lemma demo_config_valid: "Config_Validate fr demo_config = None"
proof -
  have "validated_durations demo_config = validated_durations named_defaults"
    "CryptoOptions demo_config = CryptoOptions named_defaults"
    by (simp_all add: demo_config_def validated_durations_def named_defaults_def Defaults_def CryptoOptions_def opaque_format)
  moreover have "check_key_source demo_config = None"
    by (simp add: demo_config_def check_key_source_def named_defaults_def Defaults_def)
  ultimately show ?thesis
    using named_defaults_valid [of fr] unfolding Config_Validate_None
    by (simp add: demo_config_def named_defaults_def Defaults_def supported_def)
qed

lemma demo_config_loads:
  "Load no_fraction (\<lambda>path. Inr '''') (\<lambda>data c. Inr c) (\<lambda>data. Inr (cf_Plan Defaults)) demo_environment ''host'' ''''
   = Inr demo_config"
proof -
  have "applyEnv demo_environment ''host'' Defaults = demo_config"
    by (simp add: applyEnv_def demo_environment_def or_env_def dsn_env_def Atoi_def demo_config_def
        named_defaults_def Defaults_def)
  moreover have "cf_PlanFile demo_config = ''''" by (simp add: demo_config_def named_defaults_def Defaults_def)
  ultimately show ?thesis using demo_config_valid by (simp add: Load_def Let_def)
qed


lemma decode_batch_policy:
  "decode_batch (env\<lparr>en_policy := p\<rparr>) b ms evs db = decode_batch env b ms evs db"
proof -
  have "new_entry (env\<lparr>en_policy := p\<rparr>) = new_entry env" by (intro ext) (simp add: new_entry_def)
  then show ?thesis
    by (induction ms arbitrary: evs db)
      (simp_all cong: sum.case_cong option.case_cong prod.case_cong if_cong)
qed

theorem unusable_policy_loads_witness:
  "\<exists>db. process_batch demo_down (demo_env\<lparr>en_policy := ApplyPolicy no_fraction
      (named_defaults\<lparr>cf_Apply := (cf_Apply named_defaults)\<lparr>ac_RetryBase := ''2h'', ac_RetryMax := ''1s''\<rparr>\<rparr>)\<rparr>)
      demo_batch_env [demo_kafka 9] ((), demo_dl) = Some (Continue, (), db)"
proof -
  let ?env = "demo_env\<lparr>en_policy := ApplyPolicy no_fraction
      (named_defaults\<lparr>cf_Apply := (cf_Apply named_defaults)\<lparr>ac_RetryBase := ''2h'', ac_RetryMax := ''1s''\<rparr>\<rparr>)\<rparr>"
  obtain ev db where "decode_batch demo_env demo_batch_env [demo_kafka 9] [] demo_dl = (Inr [ev], db)"
    using demo_kafka_decodes by blast
  then have "decode_batch ?env demo_batch_env [demo_kafka 9] [] demo_dl = (Inr [ev], db)"
    by (simp only: decode_batch_policy)
  from unusable_policy_loads [OF named_defaults_valid default_durations(4,9) _ _ refl _ this, of no_fraction demo_down "()"]
  show ?thesis by auto
qed

end
