(* ===== verification/Verify.thy ===== *)
theory Verify
  imports Recon Plane
begin

text \<open>
  A verification pass: the loop of \<open>cmd/reconciler/main.go\<close> over the tables of the plan, which
  records its outcome in the control database for the gate. Metrics and logs are left out.
\<close>

section \<open>One pass\<close>

record recon_config =
  rg_LeafRows :: int
  rg_MaxDepth :: int
  rg_MaxFindings :: int

definition pass_options :: "recon_config \<Rightarrow> (nat \<Rightarrow> gotime) \<Rightarrow> recon_options" where
  "pass_options c clock =
     \<lparr>ro_LeafRows = rg_LeafRows c, ro_MaxDepth = rg_MaxDepth c, ro_MaxFindings = rg_MaxFindings c,
      ro_Now = clock\<rparr>"

text \<open>A table comes with the state of its context before each range of its run.\<close>

fun pass_tables ::
  "recon_options \<Rightarrow> (string \<Rightarrow> 8 word list) \<Rightarrow> (gotime \<Rightarrow> string)
   \<Rightarrow> (sql_pair \<times> (nat \<Rightarrow> go_error option)) list \<Rightarrow> nat \<Rightarrow> bool \<Rightarrow> nat \<times> bool" where
  "pass_tables opts sum256 fmt [] totalFindings ok = (totalFindings, ok)"
| "pass_tables opts sum256 fmt ((p, ctx) # tables) totalFindings ok =
     (case run_of p opts sum256 fmt ctx of
        ((stats, findings), Some e) \<Rightarrow> pass_tables opts sum256 fmt tables totalFindings False
      | ((stats, findings), None) \<Rightarrow>
          pass_tables opts sum256 fmt tables
            (totalFindings + sm_Total (Summarise (ts_Source (sp_Spec p)) findings stats)) ok)"

text \<open>
  What a pass leaves in the control database, and with which error the process ends if it runs one
  pass only. A failure to record the run is logged and ignored.
\<close>

definition verification_pass ::
  "store \<Rightarrow> recon_options \<Rightarrow> (string \<Rightarrow> 8 word list) \<Rightarrow> (gotime \<Rightarrow> string)
   \<Rightarrow> (sql_pair \<times> (nat \<Rightarrow> go_error option)) list \<Rightarrow> go_error option \<Rightarrow> gotime \<Rightarrow> control_db
   \<Rightarrow> go_error option \<times> control_db" where
  "verification_pass s opts sum256 fmt tables fault now db =
     (let res = pass_tables opts sum256 fmt tables 0 True;
          db = snd (RecordReconcileRun s fault now (int (fst res)) (snd res) db)
      in (if fst res > 0
          then Some (plain_error (''reconciliation found '' @ digits (fst res) @ '' discrepancies'')) else None, db))"

section \<open>What a recorded pass is worth\<close>

lemma Summarise_total: "sm_Total (Summarise table findings stats) = length findings"
proof -
  have "sm_Total (fold summarise_step fs s) = sm_Total s" for fs s
    by (induction fs arbitrary: s) (simp_all add: summarise_step_def Let_def)
  then show ?thesis by (simp add: Summarise_def)
qed

definition findings_of ::
  "recon_options \<Rightarrow> (string \<Rightarrow> 8 word list) \<Rightarrow> (gotime \<Rightarrow> string) \<Rightarrow> sql_pair \<times> (nat \<Rightarrow> go_error option) \<Rightarrow> nat" where
  "findings_of opts sum256 fmt t =
     (case run_of (fst t) opts sum256 fmt (snd t) of
        ((stats, findings), Some e) \<Rightarrow> 0 | ((stats, findings), None) \<Rightarrow> length findings)"

lemma pass_tables_exact:
  "pass_tables opts sum256 fmt tables n ok =
     (n + sum_list (map (findings_of opts sum256 fmt) tables),
      ok \<and> (\<forall>t \<in> set tables. snd (run_of (fst t) opts sum256 fmt (snd t)) = None))"
proof (induction tables arbitrary: n ok)
  case (Cons t tables)
  obtain p ctx where t: "t = (p, ctx)" by (cases t)
  obtain stats findings err where run: "run_of p opts sum256 fmt ctx = ((stats, findings), err)"
    by (metis prod.collapse)
  show ?case
    using Cons.IH by (cases err) (simp_all add: t run findings_of_def Summarise_total)
qed simp

lemma pass_tables_clean:
  assumes "pass_tables opts sum256 fmt tables 0 True = (0, True)" and "(p, ctx) \<in> set tables"
  shows "\<exists>stats. run_of p opts sum256 fmt ctx = ((stats, []), None)"
proof -
  obtain stats findings err where run: "run_of p opts sum256 fmt ctx = ((stats, findings), err)"
    by (metis prod.collapse)
  have "findings_of opts sum256 fmt (p, ctx) = 0" and "snd (run_of p opts sum256 fmt ctx) = None"
    using assms by (auto simp: pass_tables_exact)
  then show ?thesis using run by (simp add: findings_of_def)
qed


text \<open>
  a single pass that verified nothing ends without an error. If the run of every table fails, the
  process of a one-pass verification still exits as after a clean one; only the control database,
  when it could be written, knows that the pass was not complete.
\<close>

theorem failed_pass_exits_clean:
  assumes "\<forall>t \<in> set tables. snd (run_of (fst t) opts sum256 fmt (snd t)) \<noteq> None"
  shows "fst (verification_pass s opts sum256 fmt tables fault now db) = None
    \<and> (tables \<noteq> [] \<longrightarrow> fault = None \<longrightarrow> cd_migrations db (st_migrationID s) = Some row \<longrightarrow>
         cd_migrations (snd (verification_pass s opts sum256 fmt tables fault now db)) (st_migrationID s)
         = Some (row\<lparr>mr_reconcile_ran_at := Some now, mr_reconcile_findings := 0,
                     mr_reconcile_complete := False, mr_updated_at := now\<rparr>))"
proof -
  have "findings_of opts sum256 fmt t = 0" if "t \<in> set tables" for t
    using assms that by (force simp: findings_of_def split: prod.splits option.splits)
  then have "sum_list (map (findings_of opts sum256 fmt) tables) = 0" by (simp add: sum_list_0 cong: map_cong)
  then have "pass_tables opts sum256 fmt tables 0 True = (0, tables = [])"
    using assms by (cases tables) (simp_all add: pass_tables_exact)
  then show ?thesis by (simp add: verification_pass_def RecordReconcileRun_def Let_def)
qed

section \<open>Concrete passes\<close>

definition equal_pair :: sql_pair where
  "equal_pair = small_pair [small_row 1 ''0a''] [small_row 1 ''0a'']"

definition no_sum :: "string \<Rightarrow> 8 word list" where "no_sum s = []"
definition no_text :: "gotime \<Rightarrow> string" where "no_text t = ''''"
definition calm_ctx :: "nat \<Rightarrow> go_error option" where "calm_ctx n = None"

definition demo_pass :: "go_error option \<times> control_db" where
  "demo_pass = verification_pass demo_store (DefaultOptions (\<lambda>n. 1)) no_sum no_text
     [(equal_pair, calm_ctx)] None 5 (demo_control PhaseVerifying)"

lemma equal_pair_run: "\<exists>stats. run_of equal_pair opts no_sum no_text calm_ctx = ((stats, []), None)"
  by (subst run_of_matched) (simp_all add: calm_pair_def equal_pair_def small_pair_def calm_ctx_def same_sums_def
      live_hashes_def where_holds_def range_holds_def FullRange_def Let_def small_row_def row_hash_def)

lemma demo_pass_row:
  "\<exists>row. cd_migrations (snd demo_pass) ''m'' = Some row \<and> mr_reconcile_complete row \<and> mr_reconcile_findings row = 0"
proof -
  obtain stats where "run_of equal_pair (DefaultOptions (\<lambda>n. 1)) no_sum no_text calm_ctx = ((stats, []), None)"
    using equal_pair_run by blast
  then have "pass_tables (DefaultOptions (\<lambda>n. 1)) no_sum no_text [(equal_pair, calm_ctx)] 0 True = (0, True)"
    by (simp add: Summarise_total)
  then show ?thesis
    by (simp add: demo_pass_def verification_pass_def RecordReconcileRun_def demo_store_def demo_control_def Let_def)
qed

lemma equal_pair_good: "good_key equal_pair (key_text equal_pair (small_row 1 ''0a''))"
proof -
  have "sp_gt equal_pair = num_gt" "sp_le equal_pair = num_le" "ts_Key (sp_Spec equal_pair) = ''id''"
    by (simp_all add: equal_pair_def small_pair_def)
  moreover have rows: "rows_of_key equal_pair s k = [] \<or> rows_of_key equal_pair s k = [small_row 1 ''0a'']" for s k
    by (cases s) (simp_all add: rows_of_key_def equal_pair_def small_pair_def)
  have "length (rows_of_key equal_pair s k) \<le> 1 \<and> set (rows_of_key equal_pair s k) \<subseteq> {small_row 1 ''0a''}"
    for s k using rows [of s k] by auto
  moreover have "num_gt (GInt 1) b \<or> num_le (GInt 1) b" for b by (simp add: num_le_def)
  ultimately show ?thesis unfolding good_key_def by (fastforce simp: small_row_def Let_def)
qed


theorem failed_pass_exits_clean_witness:
  "fst (verification_pass demo_store (DefaultOptions (\<lambda>n. 1)) no_sum no_text
     [(equal_pair\<lparr>sp_digest_fault := (\<lambda>s r. Some demo_deadlock)\<rparr>, calm_ctx)] None 5 (demo_control PhaseVerifying)) = None"
proof -
  let ?p = "equal_pair\<lparr>sp_digest_fault := (\<lambda>s r. Some demo_deadlock)\<rparr>"
  have "pair_Digest ?p s r = Inl (Errorf (''recon: digesting '' @ TableRef_String (side_table ?p s)
                         @ '' on the '' @ side_name s) demo_deadlock)" for s r
    by (simp add: pair_Digest_def)
  then have "snd (run_of ?p opts no_sum no_text calm_ctx) \<noteq> None" for opts
    using max_findings_pos by (simp add: run_of_def Reconcile_def descend.simps [of _ _ _ 0] calm_ctx_def is_full_iff not_le Let_def)
  then show ?thesis
    using failed_pass_exits_clean [of "[(?p, calm_ctx)]" "DefaultOptions (\<lambda>n. 1)" no_sum no_text] by simp
qed

end
