(* ===== verification/Cipher.thy ===== *)
theory Cipher
  imports Token DlqStore
begin

text \<open>
  Reversible column protection, \<open>internal/crypto/cipher.go\<close>. AES-256-GCM is the record \<open>aead\<close> with
  the two constructors of the library as arguments; random bytes are an argument of each call.
\<close>

section \<open>Base 64\<close>

definition base64_alphabet :: string where
  "base64_alphabet = ''ABCDEFGHIJKLMNOPQRSTUVWXYZabcdefghijklmnopqrstuvwxyz0123456789+/''"

text \<open>\<open>DecodeString\<close> of the encoding without padding and of the one with it: line breaks are skipped.\<close>

definition skip_breaks :: "string \<Rightarrow> string" where
  "skip_breaks s = filter (\<lambda>c. c \<noteq> CHR 0x0A \<and> c \<noteq> CHR 0x0D) s"

definition raw64_decode :: "string \<Rightarrow> byte list option" where
  "raw64_decode s =
     (let t = skip_breaks s in if length t mod 4 = 1 then None else base_decode 6 base64_alphabet t)"

definition drop_padding :: "string \<Rightarrow> string" where
  "drop_padding t =
     (if t \<noteq> [] \<and> last t = CHR ''=''
      then (if butlast t \<noteq> [] \<and> last (butlast t) = CHR ''='' then butlast (butlast t) else butlast t)
      else t)"

definition std64_decode :: "string \<Rightarrow> byte list option" where
  "std64_decode s =
     (let t = skip_breaks s in
      if length t mod 4 \<noteq> 0 then None else base_decode 6 base64_alphabet (drop_padding t))"

section \<open>The cipher\<close>

record aead =
  ae_NonceSize :: nat
  ae_Overhead :: nat
  ae_Seal :: "byte list \<Rightarrow> byte list \<Rightarrow> byte list \<Rightarrow> byte list"
  ae_Open :: "byte list \<Rightarrow> byte list \<Rightarrow> byte list \<Rightarrow> byte list option"

type_synonym block = "byte list"

record aes_library =
  al_aes :: "byte list \<Rightarrow> go_error + block"
  al_gcm :: "block \<Rightarrow> go_error + aead"

definition cipherPrefix :: string where "cipherPrefix = ''enc:v1:''"
definition deterministicMagic :: string where "deterministicMagic = ''det:v1:''"

record cipher =
  cr_aead :: aead
  cr_macKey :: "byte list"

definition NewCipher :: "hmac \<Rightarrow> aes_library \<Rightarrow> byte list \<Rightarrow> go_error + cipher" where
  "NewCipher hmac lib key =
     (if length key \<noteq> 32
      then Inl (plain_error (''crypto: cipher requires a 32-byte key, got '' @ digits (length key)))
      else case al_aes lib key of
        Inl e \<Rightarrow> Inl (Errorf ''crypto: aes'' e)
      | Inr block \<Rightarrow>
          (case al_gcm lib block of
             Inl e \<Rightarrow> Inl (Errorf ''crypto: gcm'' e)
           | Inr a \<Rightarrow> Inr \<lparr>cr_aead = a, cr_macKey = deriveKey hmac key ''synthetic-nonce/v1''\<rparr>))"

type_synonym random_source = "nat \<Rightarrow> go_error + byte list"

definition envelope :: "cipher \<Rightarrow> string \<Rightarrow> string \<Rightarrow> byte list \<Rightarrow> byte list \<Rightarrow> string" where
  "envelope c label domain nonce plaintext =
     label @ base_encode 6 base64_alphabet (nonce @ ae_Seal (cr_aead c) nonce plaintext (bytes_of domain))"

definition Encrypt :: "cipher \<Rightarrow> random_source \<Rightarrow> string \<Rightarrow> byte list \<Rightarrow> go_error + string" where
  "Encrypt c rnd domain plaintext =
     (case rnd (ae_NonceSize (cr_aead c)) of
        Inl e \<Rightarrow> Inl (Errorf ''crypto: nonce'' e)
      | Inr nonce \<Rightarrow> Inr (envelope c cipherPrefix domain nonce plaintext))"

text \<open>\<open>copy\<close> fills a buffer of \<open>NonceSize\<close> zeros with the first bytes of the PRF.\<close>

definition synthetic_nonce :: "hmac \<Rightarrow> cipher \<Rightarrow> string \<Rightarrow> byte list \<Rightarrow> byte list" where
  "synthetic_nonce hmac c domain plaintext =
     take (ae_NonceSize (cr_aead c)) (keyed_prf hmac (cr_macKey c) domain plaintext)"

definition EncryptDeterministic :: "hmac \<Rightarrow> cipher \<Rightarrow> string \<Rightarrow> byte list \<Rightarrow> string" where
  "EncryptDeterministic hmac c domain plaintext =
     envelope c deterministicMagic domain (synthetic_nonce hmac c domain plaintext) plaintext"

definition Decrypt :: "cipher \<Rightarrow> string \<Rightarrow> string \<Rightarrow> go_error + byte list" where
  "Decrypt c domain encoded =
     (if \<not> starts_with encoded cipherPrefix \<and> \<not> starts_with encoded deterministicMagic
      then Inl (plain_error ''crypto: value is not a recognised ciphertext envelope'')
      else
        let encrypted_body = (if starts_with encoded cipherPrefix then drop (length cipherPrefix) encoded
                    else drop (length deterministicMagic) encoded)
        in case raw64_decode encrypted_body of
             None \<Rightarrow> Inl (Errorf ''crypto: ciphertext is not valid base64'' (plain_error ''illegal base64 data''))
           | Some raw \<Rightarrow>
               let a = cr_aead c; ns = ae_NonceSize a in
               if length raw < ns + ae_Overhead a
               then Inl (plain_error ''crypto: ciphertext is too short to be valid'')
               else case ae_Open a (take ns raw) (drop ns raw) (bytes_of domain) of
                 None \<Rightarrow> Inl (plain_error ''crypto: authentication failed'')
               | Some plaintext \<Rightarrow> Inr plaintext)"

definition IsCiphertext :: "string \<Rightarrow> bool" where
  "IsCiphertext s \<longleftrightarrow> starts_with s cipherPrefix \<or> starts_with s deterministicMagic"

section \<open>Base 64 envelopes\<close>

lemma length_bit_groups_ceiling:
  "0 < w \<Longrightarrow> length bs \<le> n \<Longrightarrow> length (bit_groups w n bs) = (length bs + w - 1) div w"
proof (induction n arbitrary: bs)
  case (Suc n)
  show ?case
  proof (cases "bs = []")
    case False
    have "length (drop w bs) \<le> n" using Suc.prems by simp
    then have IH: "length (bit_groups w n (drop w bs)) = (length bs - w + w - 1) div w"
      using Suc.IH [OF Suc.prems(1), of "drop w bs"] by simp
    show ?thesis
    proof (cases "length bs \<le> w")
      case True
      then have "(length bs + w - 1) div w = 1"
        using False Suc.prems(1) by (cases bs) (simp_all add: div_nat_eqI)
      then show ?thesis using IH False True Suc.prems(1) by simp
    next
      case less: False
      then have "length bs + w - 1 = (length bs - w + w - 1) + w" by simp
      then have "(length bs + w - 1) div w = Suc ((length bs - w + w - 1) div w)"
        using Suc.prems(1) by (simp only: div_add_self2)
      then show ?thesis using IH False by simp
    qed
  qed (use Suc.prems in simp)
qed simp

lemma length_base_encode: "0 < w \<Longrightarrow> length (base_encode w alphabet bs) = (8 * length bs + w - 1) div w"
proof -
  assume "0 < w"
  moreover have "length (concat (map byte_bits bs)) = 8 * length bs" by (induction bs) (simp_all add: byte_bits_byte)
  ultimately show ?thesis by (simp add: base_encode_def Let_def length_bit_groups_ceiling)
qed

lemma base64_facts: "distinct base64_alphabet" "length base64_alphabet = 2 ^ 6"
  "CHR 0x0A \<notin> set base64_alphabet" "CHR 0x0D \<notin> set base64_alphabet"
  by (simp_all add: base64_alphabet_def)

lemma set_base_encode:
  assumes "0 < w" and "length alphabet = 2 ^ w"
  shows "set (base_encode w alphabet bs) \<subseteq> set alphabet"
proof -
  let ?bits = "concat (map byte_bits bs)"
  have "\<forall>g \<in> set (bit_groups w (length ?bits) ?bits). length g = w"
    using bit_groups_all [OF assms(1), of ?bits "length ?bits"] by simp
  then have "\<forall>g \<in> set (bit_groups w (length ?bits) ?bits). bits_value g < length alphabet"
    using bits_value_bound assms(2) by metis
  then show ?thesis by (auto simp: base_encode_def Let_def)
qed

lemma raw64_decode_encode [simp]: "raw64_decode (base_encode 6 base64_alphabet bs) = Some bs"
proof -
  let ?t = "base_encode 6 base64_alphabet bs"
  have "skip_breaks ?t = ?t"
    using set_base_encode [of 6 base64_alphabet bs] base64_facts by (auto simp: skip_breaks_def filter_id_conv)
  moreover have "length ?t mod 4 \<noteq> 1"
  proof -
    have "(5 + 8 * n) div 6 mod 4 \<noteq> 1" for n :: nat by presburger
    from this [of "length bs"] show ?thesis using length_base_encode [of 6 base64_alphabet bs] by simp
  qed
  ultimately show ?thesis
    using base_decode_encode [OF base64_facts(1,2), of bs] by (simp add: raw64_decode_def Let_def)
qed


section \<open>Authenticated encryption\<close>

text \<open>
  What AES-GCM promises: a ciphertext is as long as its plaintext and the tag, opens to its
  plaintext, and opens at all only if it is what sealing the plaintext again would give.
\<close>

definition aead_ok :: "aead \<Rightarrow> bool" where
  "aead_ok a \<longleftrightarrow> ae_NonceSize a \<le> 32
     \<and> (\<forall>n p d. length n = ae_NonceSize a \<longrightarrow> length (ae_Seal a n p d) = length p + ae_Overhead a)
     \<and> (\<forall>n c p d. length n = ae_NonceSize a \<longrightarrow> (ae_Open a n c d = Some p \<longleftrightarrow> c = ae_Seal a n p d))"

definition fills :: "random_source \<Rightarrow> bool" where
  "fills rnd \<longleftrightarrow> (\<forall>n bs. rnd n = Inr bs \<longrightarrow> length bs = n)"

declare starts_with_append [simp]

lemma labels_differ [simp]: "\<not> starts_with (deterministicMagic @ s) cipherPrefix"
  by (simp add: cipherPrefix_def deterministicMagic_def)

lemma Decrypt_body:
  assumes "label \<in> {cipherPrefix, deterministicMagic}"
  shows "Decrypt c domain (label @ s) = Decrypt c domain (cipherPrefix @ s)"
    and "raw64_decode s = Some raw \<Longrightarrow> ae_NonceSize (cr_aead c) + ae_Overhead (cr_aead c) \<le> length raw
      \<Longrightarrow> Decrypt c domain (label @ s)
        = (case ae_Open (cr_aead c) (take (ae_NonceSize (cr_aead c)) raw) (drop (ae_NonceSize (cr_aead c)) raw)
               (bytes_of domain) of
             None \<Rightarrow> Inl (plain_error ''crypto: authentication failed'') | Some p \<Rightarrow> Inr p)"
  using assms by (auto simp: Decrypt_def Let_def not_less)

lemma Decrypt_envelope:
  assumes "aead_ok (cr_aead c)" and "length nonce = ae_NonceSize (cr_aead c)"
    and "label \<in> {cipherPrefix, deterministicMagic}"
  shows "Decrypt c domain' (envelope c label domain nonce plaintext)
    = (case ae_Open (cr_aead c) nonce (ae_Seal (cr_aead c) nonce plaintext (bytes_of domain)) (bytes_of domain') of
         None \<Rightarrow> Inl (plain_error ''crypto: authentication failed'') | Some p \<Rightarrow> Inr p)"
  using Decrypt_body(2) [OF assms(3) raw64_decode_encode] assms(1,2)
  by (simp add: envelope_def aead_ok_def)

lemma IsCiphertext_envelope:
  "label \<in> {cipherPrefix, deterministicMagic} \<Longrightarrow> IsCiphertext (envelope c label domain nonce plaintext)"
  by (auto simp: IsCiphertext_def envelope_def)

lemma envelope_opens:
  assumes "aead_ok (cr_aead c)" and "length nonce = ae_NonceSize (cr_aead c)"
    and "label \<in> {cipherPrefix, deterministicMagic}"
  shows "Decrypt c domain (envelope c label domain nonce plaintext) = Inr plaintext"
proof -
  have "ae_Open (cr_aead c) nonce (ae_Seal (cr_aead c) nonce plaintext (bytes_of domain)) (bytes_of domain) = Some plaintext"
    using assms(1,2) by (simp add: aead_ok_def)
  then show ?thesis unfolding Decrypt_envelope [OF assms] by simp
qed

lemma length_synthetic_nonce:
  "aead_ok (cr_aead c) \<Longrightarrow> digest32 hmac \<Longrightarrow> length (synthetic_nonce hmac c domain p) = ae_NonceSize (cr_aead c)"
  by (simp add: synthetic_nonce_def keyed_prf_def digest32_def aead_ok_def)

lemma Encrypt_envelope:
  assumes "Encrypt c rnd domain plaintext = Inr s" and "fills rnd"
  obtains nonce where "length nonce = ae_NonceSize (cr_aead c)" "s = envelope c cipherPrefix domain nonce plaintext"
  using assms by (auto simp: Encrypt_def fills_def split: sum.splits)

text \<open>
  C27: encryption round trips in both modes. What either mode makes of a value in a column is
  recognised as a ciphertext and decrypts, in that column, to the value; and the deterministic mode
  gives two values of a column the same text only if they are the same value.
\<close>

theorem decrypt_encrypt:
  assumes "aead_ok (cr_aead c)" and "digest32 hmac" and "fills rnd"
  shows "(\<forall>s. Encrypt c rnd domain v = Inr s \<longrightarrow> IsCiphertext s \<and> Decrypt c domain s = Inr v)
    \<and> IsCiphertext (EncryptDeterministic hmac c domain v)
    \<and> Decrypt c domain (EncryptDeterministic hmac c domain v) = Inr v
    \<and> (EncryptDeterministic hmac c domain v = EncryptDeterministic hmac c domain w \<longleftrightarrow> v = w)"
proof -
  have det: "Decrypt c domain (EncryptDeterministic hmac c domain v) = Inr v" for v
    unfolding EncryptDeterministic_def
    by (rule envelope_opens [OF assms(1) length_synthetic_nonce [OF assms(1,2)]]) simp
  have inj: "EncryptDeterministic hmac c domain v = EncryptDeterministic hmac c domain w \<longleftrightarrow> v = w"
  proof
    assume "EncryptDeterministic hmac c domain v = EncryptDeterministic hmac c domain w"
    then show "v = w" by (metis det sum.inject(2))
  qed (simp only:)
  have enc: "IsCiphertext s \<and> Decrypt c domain s = Inr v" if enc: "Encrypt c rnd domain v = Inr s" for s
  proof -
    obtain nonce where "length nonce = ae_NonceSize (cr_aead c)" "s = envelope c cipherPrefix domain nonce v"
      using Encrypt_envelope [OF enc assms(3)] .
    then show ?thesis using envelope_opens [OF assms(1)] IsCiphertext_envelope by simp
  qed
  have "IsCiphertext (EncryptDeterministic hmac c domain v)"
    unfolding EncryptDeterministic_def by (rule IsCiphertext_envelope) simp
  then show ?thesis using enc det [of v] inj by blast
qed

text \<open>
  a ciphertext is bound to its column, but not to its label. A ciphertext of one column decrypts
  in another one only to a plaintext that seals to the same bytes there; but the label
  that says how a value was produced is not authenticated: whatever decrypts, decrypts to the
  same under the other label, and with line breaks added.
\<close>

theorem decrypt_binds_domain:
  assumes "aead_ok (cr_aead c)" and "fills rnd" and "Encrypt c rnd domain v = Inr s"
  shows "\<exists>nonce s'. s = cipherPrefix @ s'
    \<and> (\<forall>other w. Decrypt c other s = Inr w
         \<longrightarrow> ae_Seal (cr_aead c) nonce w (bytes_of other) = ae_Seal (cr_aead c) nonce v (bytes_of domain))
    \<and> (\<forall>other. Decrypt c other (deterministicMagic @ s') = Decrypt c other s)
    \<and> Decrypt c domain (s @ [CHR 0x0A]) = Inr v"
proof -
  obtain nonce where nonce: "length nonce = ae_NonceSize (cr_aead c)" "s = envelope c cipherPrefix domain nonce v"
    using Encrypt_envelope [OF assms(3,2)] .
  define t where "t = base_encode 6 base64_alphabet (nonce @ ae_Seal (cr_aead c) nonce v (bytes_of domain))"
  have s: "s = cipherPrefix @ t" using nonce(2) by (simp add: envelope_def t_def)
  have "ae_Seal (cr_aead c) nonce w (bytes_of other) = ae_Seal (cr_aead c) nonce v (bytes_of domain)"
    if "Decrypt c other s = Inr w" for other w
  proof -
    have "ae_Open (cr_aead c) nonce (ae_Seal (cr_aead c) nonce v (bytes_of domain)) (bytes_of other) = Some w"
      using that unfolding nonce(2) Decrypt_envelope [OF assms(1) nonce(1) insertI1] by (simp split: option.splits)
    then show ?thesis using assms(1) nonce(1) by (simp add: aead_ok_def)
  qed
  moreover have "Decrypt c other (deterministicMagic @ t) = Decrypt c other s" for other
    unfolding s by (rule Decrypt_body(1)) simp
  moreover have "Decrypt c domain (s @ [CHR 0x0A]) = Inr v"
  proof -
    have "raw64_decode (t @ [CHR 0x0A]) = raw64_decode t" by (simp add: raw64_decode_def skip_breaks_def Let_def)
    then have "Decrypt c domain (cipherPrefix @ (t @ [CHR 0x0A])) = Decrypt c domain (cipherPrefix @ t)"
      by (simp add: Decrypt_def)
    also have "\<dots> = Inr v" unfolding s [symmetric] nonce(2) by (rule envelope_opens [OF assms(1) nonce(1) insertI1])
    finally show ?thesis by (simp only: s append_assoc)
  qed
  ultimately show ?thesis using s by blast
qed

section \<open>An instance\<close>

text \<open>A tag that is the whole associated data, plaintext in clear: it satisfies the laws only.\<close>

definition clear_aead :: aead where
  "clear_aead = \<lparr>ae_NonceSize = 2, ae_Overhead = 1, ae_Seal = (\<lambda>n p d. p @ [of_nat (length d)]),
     ae_Open = (\<lambda>n c d. if c \<noteq> [] \<and> last c = of_nat (length d) then Some (butlast c) else None)\<rparr>"

lemma clear_aead_ok: "aead_ok clear_aead"
proof -
  have "(c \<noteq> [] \<and> last c = x \<and> butlast c = p) \<longleftrightarrow> c = p @ [x]" for c p :: "byte list" and x
    by (metis append_butlast_last_id butlast_snoc last_snoc snoc_eq_iff_butlast)
  then show ?thesis by (auto simp: aead_ok_def clear_aead_def)
qed

definition clear_cipher :: cipher where
  "clear_cipher = \<lparr>cr_aead = clear_aead, cr_macKey = []\<rparr>"

definition zeros :: random_source where
  "zeros n = Inr (replicate n 0)"

lemma zeros_fills: "fills zeros"
  by (simp add: fills_def zeros_def)

theorem decrypt_encrypt_witness:
  "(\<exists>s. Encrypt clear_cipher zeros ''s.t.c'' [1, 2] = Inr s \<and> Decrypt clear_cipher ''s.t.c'' s = Inr [1, 2])
    \<and> Decrypt clear_cipher ''s.t.c'' (EncryptDeterministic (flat_digest 7) clear_cipher ''s.t.c'' [1, 2]) = Inr [1, 2]
    \<and> EncryptDeterministic (flat_digest 7) clear_cipher ''s.t.c'' [1, 2]
      \<noteq> EncryptDeterministic (flat_digest 7) clear_cipher ''s.t.c'' [3]"
proof -
  have aead: "aead_ok (cr_aead clear_cipher)" using clear_aead_ok by (simp add: clear_cipher_def)
  have digest: "digest32 (flat_digest 7)" by (simp add: digest32_def flat_digest_def)
  obtain s where s: "Encrypt clear_cipher zeros ''s.t.c'' [1, 2] = Inr s" by (simp add: Encrypt_def zeros_def)
  show ?thesis
    using decrypt_encrypt [OF aead digest zeros_fills, of "''s.t.c''" "[1, 2]" "[3]"] s by simp
qed

theorem decrypt_binds_domain_witness:
  "\<exists>s s'. Encrypt clear_cipher zeros ''s.t.c'' [1, 2] = Inr s \<and> s = cipherPrefix @ s'
    \<and> Decrypt clear_cipher ''s.t.c'' (deterministicMagic @ s') = Decrypt clear_cipher ''s.t.c'' s"
proof -
  have aead: "aead_ok (cr_aead clear_cipher)" using clear_aead_ok by (simp add: clear_cipher_def)
  obtain s where s: "Encrypt clear_cipher zeros ''s.t.c'' [1, 2] = Inr s" by (simp add: Encrypt_def zeros_def)
  from decrypt_binds_domain [OF aead zeros_fills this] s show ?thesis by blast
qed

end
