(* ===== verification/KeySource.thy ===== *)
theory KeySource
  imports Cipher
begin

text \<open>
  Key sources, \<open>internal/crypto/keysource.go\<close>. Keys are handed out as slices that the source keeps
  and later overwrites, so buffers live in an explicit heap and a slice is the number of its buffer.
  The clock is a sequence of readings; the unwrapper (a KMS or an HSM) is an argument.
\<close>

section \<open>Buffers\<close>

type_synonym heap = "byte list list"

definition alloc :: "byte list \<Rightarrow> heap \<Rightarrow> nat \<times> heap" where
  "alloc bs h = (length h, h @ [bs])"

definition read_buf :: "heap \<Rightarrow> nat \<Rightarrow> byte list" where
  "read_buf h a = (if a < length h then h ! a else [])"

definition zero :: "nat \<Rightarrow> heap \<Rightarrow> heap" where
  "zero a h = h[a := replicate (length (read_buf h a)) 0]"

definition zero_all :: "nat gomap \<Rightarrow> heap \<Rightarrow> heap" where
  "zero_all derived h = fold (\<lambda>(purpose, a). zero a) derived h"

section \<open>The static source\<close>

definition ErrNoKeyMaterial :: go_error where
  "ErrNoKeyMaterial = plain_error ''crypto: key source returned no key material''"

record static_source =
  ss_master :: nat
  ss_acknowledged :: bool
  ss_derived :: "nat gomap"

definition NewStaticKeySource :: "byte list \<Rightarrow> bool \<Rightarrow> heap \<Rightarrow> go_error + (static_source \<times> heap)" where
  "NewStaticKeySource master ack h =
     (if length master < 32 then Inl ErrNoKeyMaterial
      else let (a, h) = alloc master h in Inr (\<lparr>ss_master = a, ss_acknowledged = ack, ss_derived = []\<rparr>, h))"

definition NewStaticKeySourceFromEnv ::
  "(string \<Rightarrow> string) \<Rightarrow> string \<Rightarrow> bool \<Rightarrow> heap \<Rightarrow> go_error + (static_source \<times> heap)" where
  "NewStaticKeySourceFromEnv env envVar ack h =
     (if env envVar = '''' then Inl ErrNoKeyMaterial
      else case std64_decode (TrimSpace (env envVar)) of
        None \<Rightarrow> Inl (Errorf (''crypto: '' @ envVar @ '' is not valid base64'') (plain_error ''illegal base64 data''))
      | Some key \<Rightarrow> NewStaticKeySource key ack h)"

definition GenerateStaticKey :: "random_source \<Rightarrow> go_error + byte list" where
  "GenerateStaticKey rnd =
     (case rnd 32 of Inl e \<Rightarrow> Inl (Errorf ''crypto: generating key'' e) | Inr k \<Rightarrow> Inr k)"

definition static_Key ::
  "hmac \<Rightarrow> string \<Rightarrow> static_source \<times> heap \<Rightarrow> (go_error + nat) \<times> static_source \<times> heap" where
  "static_Key hmac purpose w =
     (let (s, h) = w in
      if \<not> ss_acknowledged s
      then (Inl (plain_error ''crypto: static key source is disabled; set allow_insecure_static_key to use it outside production''), w)
      else case map_of (ss_derived s) purpose of
        Some a \<Rightarrow> (Inr a, w)
      | None \<Rightarrow>
          let (a, h) = alloc (deriveKey hmac (read_buf h (ss_master s)) purpose) h
          in (Inr a, s\<lparr>ss_derived := AList.update purpose a (ss_derived s)\<rparr>, h))"

definition static_Close :: "static_source \<times> heap \<Rightarrow> static_source \<times> heap" where
  "static_Close w =
     (let (s, h) = w in (s\<lparr>ss_derived := []\<rparr>, zero_all (ss_derived s) (zero (ss_master s) h)))"

section \<open>The envelope source\<close>

text \<open>What unwrapping a key does: an error or a buffer, in the heap it leaves.\<close>

type_synonym unwrapper = "byte list \<Rightarrow> string gomap \<Rightarrow> heap \<Rightarrow> (go_error + nat) \<times> heap"

record envelope_source =
  es_wrapped :: "byte list"
  es_encCtx :: "string gomap"
  es_ttl :: duration
  es_dek :: "nat option"
  es_loadedAt :: gotime
  es_derived :: "nat gomap"
  es_reads :: nat

definition NewEnvelopeKeySource ::
  "byte list \<Rightarrow> unwrapper option \<Rightarrow> string gomap \<Rightarrow> duration \<Rightarrow> go_error + envelope_source" where
  "NewEnvelopeKeySource wrapped u encCtx ttl =
     (if wrapped = [] then Inl ErrNoKeyMaterial
      else if u = None then Inl (plain_error ''crypto: envelope key source requires an unwrapper'')
      else Inr \<lparr>es_wrapped = wrapped, es_encCtx = encCtx, es_ttl = ttl, es_dek = None, es_loadedAt = 0,
                es_derived = [], es_reads = 0\<rparr>)"

definition expired :: "(nat \<Rightarrow> gotime) \<Rightarrow> envelope_source \<Rightarrow> bool" where
  "expired clock s \<longleftrightarrow> es_ttl s > 0 \<and> clock (es_reads s) - es_loadedAt s > es_ttl s"

text \<open>Each reading of the clock is counted; the age of the key is read only if there is a limit on it.\<close>

definition check_age :: "(nat \<Rightarrow> gotime) \<Rightarrow> envelope_source \<Rightarrow> bool \<times> envelope_source" where
  "check_age clock s =
     (expired clock s, if es_ttl s > 0 then s\<lparr>es_reads := es_reads s + 1\<rparr> else s)"

definition derive_from ::
  "hmac \<Rightarrow> string \<Rightarrow> envelope_source \<times> heap \<Rightarrow> (go_error + nat) \<times> envelope_source \<times> heap" where
  "derive_from hmac purpose w =
     (let (s, h) = w in
      case map_of (es_derived s) purpose of
        Some a \<Rightarrow> (Inr a, w)
      | None \<Rightarrow>
          let dek = (case es_dek s of None \<Rightarrow> [] | Some d \<Rightarrow> read_buf h d);
              (a, h) = alloc (deriveKey hmac dek purpose) h
          in (Inr a, s\<lparr>es_derived := AList.update purpose a (es_derived s)\<rparr>, h))"

definition replace_dek :: "(nat \<Rightarrow> gotime) \<Rightarrow> nat \<Rightarrow> envelope_source \<times> heap \<Rightarrow> envelope_source \<times> heap" where
  "replace_dek clock dek w =
     (let (s, h) = w;
          h = (case es_dek s of None \<Rightarrow> h | Some d \<Rightarrow> zero d h);
          h = zero_all (es_derived s) h
      in (s\<lparr>es_dek := Some dek, es_loadedAt := clock (es_reads s), es_reads := es_reads s + 1,
            es_derived := []\<rparr>, h))"

definition envelope_Key ::
  "hmac \<Rightarrow> unwrapper \<Rightarrow> (nat \<Rightarrow> gotime) \<Rightarrow> string \<Rightarrow> envelope_source \<times> heap
   \<Rightarrow> (go_error + nat) \<times> envelope_source \<times> heap" where
  "envelope_Key hmac unwrap clock purpose w =
     (let (s, h) = w; (old, s) = check_age clock s in
      if es_dek s = None \<or> old
      then case unwrap (es_wrapped s) (es_encCtx s) h of
          (Inl e, h) \<Rightarrow> (Inl (Errorf ''crypto: unwrapping data key'' e), s, h)
        | (Inr dek, h) \<Rightarrow>
            if length (read_buf h dek) < 32 then (Inl ErrNoKeyMaterial, s, h)
            else derive_from hmac purpose (replace_dek clock dek (s, h))
      else derive_from hmac purpose (s, h))"

definition envelope_Close :: "envelope_source \<times> heap \<Rightarrow> envelope_source \<times> heap" where
  "envelope_Close w =
     (let (s, h) = w;
          h = (case es_dek s of None \<Rightarrow> h | Some d \<Rightarrow> zero d h)
      in (s\<lparr>es_dek := None, es_derived := []\<rparr>, zero_all (es_derived s) h))"

section \<open>What a source promises\<close>

text \<open>
  A source serves a master key (\<open>serves\<close>) if every request gets a buffer with the key of its
  purpose and what it handed out before stays as it was.
\<close>

locale key_source =
  fixes Key :: "string \<Rightarrow> 's \<Rightarrow> (go_error + nat) \<times> 's"
    and heap_of :: "'s \<Rightarrow> heap"
    and serves :: "byte list \<Rightarrow> 's \<Rightarrow> bool"
    and hmac :: hmac
  assumes serve: "serves m s \<Longrightarrow> \<exists>a s'. Key purpose s = (Inr a, s') \<and> serves m s'
      \<and> a < length (heap_of s') \<and> heap_of s' ! a = deriveKey hmac m purpose
      \<and> (\<forall>b < length (heap_of s). b < length (heap_of s') \<and> heap_of s' ! b = heap_of s ! b)"
begin

lemma key_of_purpose:
  assumes "serves m s" and "Key purpose s = (r, s')"
  obtains a where "r = Inr a" "serves m s'" "read_buf (heap_of s') a = deriveKey hmac m purpose"
    "\<And>b. b < length (heap_of s) \<Longrightarrow> read_buf (heap_of s') b = read_buf (heap_of s) b" "a < length (heap_of s')"
  using serve [OF assms(1), of purpose] assms(2) by (auto simp: read_buf_def)

end

text \<open>Any number of requests, one after the other.\<close>

fun request_keys ::
  "(string \<Rightarrow> 's \<Rightarrow> (go_error + nat) \<times> 's) \<Rightarrow> string list \<Rightarrow> 's \<Rightarrow> (go_error + nat) list \<times> 's" where
  "request_keys Key [] s = ([], s)"
| "request_keys Key (p # ps) s =
     (let (r, s) = Key p s; (rs, s) = request_keys Key ps s in (r # rs, s))"

context key_source begin

lemma requests_serve:
  assumes "serves m s" and "request_keys Key ps s = (rs, s')"
  shows "\<exists>as. rs = map Inr as \<and> map (read_buf (heap_of s')) as = map (deriveKey hmac m) ps
    \<and> (\<forall>b < length (heap_of s). b < length (heap_of s') \<and> read_buf (heap_of s') b = read_buf (heap_of s) b)"
  using assms
proof (induction ps arbitrary: s rs)
  case (Cons p ps)
  obtain r s1 where key: "Key p s = (r, s1)" by fastforce
  obtain rs1 where rest: "request_keys Key ps s1 = (rs1, s')" "rs = r # rs1"
    using Cons.prems(2) key by (auto split: prod.splits)
  obtain a where a: "Key p s = (Inr a, s1)" "serves m s1" "a < length (heap_of s1)"
      "heap_of s1 ! a = deriveKey hmac m p"
      "\<forall>b < length (heap_of s). b < length (heap_of s1) \<and> heap_of s1 ! b = heap_of s ! b"
    using serve [OF Cons.prems(1), of p] key by auto
  obtain as where as: "rs1 = map Inr as" "map (read_buf (heap_of s')) as = map (deriveKey hmac m) ps"
      "\<forall>b < length (heap_of s1). b < length (heap_of s') \<and> read_buf (heap_of s') b = read_buf (heap_of s1) b"
    using Cons.IH [OF a(2) rest(1)] by blast
  have "read_buf (heap_of s1) a = deriveKey hmac m p" using a(3,4) by (simp add: read_buf_def)
  then have "read_buf (heap_of s') a = deriveKey hmac m p" using as(3) a(3) by simp
  moreover have "r = Inr a" using a(1) key by simp
  moreover have "\<forall>b < length (heap_of s). b < length (heap_of s') \<and> read_buf (heap_of s') b = read_buf (heap_of s) b"
    using as(3) a(5) by (auto simp: read_buf_def)
  ultimately show ?case using as(1,2) rest(2) by (intro exI [of _ "a # as"]) simp
qed simp

end

section \<open>The static source keeps it\<close>

definition derived_ok :: "hmac \<Rightarrow> byte list \<Rightarrow> nat gomap \<Rightarrow> heap \<Rightarrow> bool" where
  "derived_ok hmac m derived h \<longleftrightarrow>
     (\<forall>p a. map_of derived p = Some a \<longrightarrow> a < length h \<and> h ! a = deriveKey hmac m p)"

definition static_serves :: "hmac \<Rightarrow> byte list \<Rightarrow> static_source \<times> heap \<Rightarrow> bool" where
  "static_serves hmac m w \<longleftrightarrow>
     (let (s, h) = w in ss_acknowledged s \<and> ss_master s < length h \<and> h ! ss_master s = m
        \<and> derived_ok hmac m (ss_derived s) h)"

lemma derived_ok_extend:
  assumes "derived_ok hmac m derived h"
  shows "derived_ok hmac m (AList.update p (length h) derived) (h @ [deriveKey hmac m p])"
  using assms by (auto simp: derived_ok_def update_conv' nth_append intro: less_SucI)

lemma static_Key_serves:
  assumes "static_serves hmac m (s, h)"
  shows "\<exists>a s' h'. static_Key hmac p (s, h) = (Inr a, s', h') \<and> static_serves hmac m (s', h')
     \<and> a < length h' \<and> h' ! a = deriveKey hmac m p
     \<and> (\<forall>b < length h. b < length h' \<and> h' ! b = h ! b)"
proof (cases "map_of (ss_derived s) p")
  case (Some a)
  then show ?thesis using assms by (auto simp: static_Key_def static_serves_def derived_ok_def)
next
  case None
  have "static_serves hmac m
      (s\<lparr>ss_derived := AList.update p (length h) (ss_derived s)\<rparr>, h @ [deriveKey hmac m p])"
    using assms derived_ok_extend by (simp add: static_serves_def nth_append)
  then show ?thesis using None assms
    by (simp add: static_Key_def static_serves_def alloc_def read_buf_def nth_append)
qed

interpretation static: key_source "static_Key hmac" snd "static_serves hmac" hmac for hmac
proof
  fix m purpose and w :: "static_source \<times> heap"
  assume good: "static_serves hmac m w"
  obtain s h where "w = (s, h)" by (cases w)
  then show "\<exists>a s'. static_Key hmac purpose w = (Inr a, s') \<and> static_serves hmac m s'
      \<and> a < length (snd s') \<and> snd s' ! a = deriveKey hmac m purpose
      \<and> (\<forall>b < length (snd w). b < length (snd s') \<and> snd s' ! b = snd w ! b)"
    using static_Key_serves [of hmac m s h purpose] good by fastforce
qed

section \<open>The envelope source keeps it while its key is fresh\<close>

definition envelope_serves :: "hmac \<Rightarrow> byte list \<Rightarrow> envelope_source \<times> heap \<Rightarrow> bool" where
  "envelope_serves hmac m w \<longleftrightarrow>
     (let (s, h) = w in es_ttl s \<le> 0 \<and> (\<exists>d. es_dek s = Some d \<and> d < length h \<and> h ! d = m)
        \<and> derived_ok hmac m (es_derived s) h)"

lemma envelope_Key_serves:
  assumes "envelope_serves hmac m (s, h)"
  shows "\<exists>a s' h'. envelope_Key hmac unwrap clock p (s, h) = (Inr a, s', h') \<and> envelope_serves hmac m (s', h')
     \<and> a < length h' \<and> h' ! a = deriveKey hmac m p
     \<and> (\<forall>b < length h. b < length h' \<and> h' ! b = h ! b)"
proof -
  obtain d where "es_ttl s \<le> 0" "es_dek s = Some d" using assms by (auto simp: envelope_serves_def)
  then have key: "envelope_Key hmac unwrap clock p (s, h) = derive_from hmac p (s, h)"
    by (simp add: envelope_Key_def check_age_def expired_def)
  show ?thesis
  proof (cases "map_of (es_derived s) p")
    case (Some a)
    then show ?thesis using assms by (auto simp: key derive_from_def envelope_serves_def derived_ok_def)
  next
    case None
    have "envelope_serves hmac m
        (s\<lparr>es_derived := AList.update p (length h) (es_derived s)\<rparr>, h @ [deriveKey hmac m p])"
      using assms derived_ok_extend by (auto simp: envelope_serves_def nth_append)
    then show ?thesis using None assms
      by (auto simp: key derive_from_def envelope_serves_def alloc_def read_buf_def nth_append)
  qed
qed

interpretation cached: key_source "envelope_Key hmac unwrap clock" snd "envelope_serves hmac" hmac
  for hmac unwrap clock
proof
  fix m purpose and w :: "envelope_source \<times> heap"
  assume good: "envelope_serves hmac m w"
  obtain s h where "w = (s, h)" by (cases w)
  then show "\<exists>a s'. envelope_Key hmac unwrap clock purpose w = (Inr a, s') \<and> envelope_serves hmac m s'
      \<and> a < length (snd s') \<and> snd s' ! a = deriveKey hmac m purpose
      \<and> (\<forall>b < length (snd w). b < length (snd s') \<and> snd s' ! b = snd w ! b)"
    using envelope_Key_serves [of hmac m s h unwrap clock purpose] good by fastforce
qed

section \<open>Keys while the source is open\<close>

lemma NewStaticKeySource_serves:
  "NewStaticKeySource master True h = Inr (s, h') \<Longrightarrow> static_serves hmac master (s, h')"
  by (auto simp: NewStaticKeySource_def static_serves_def alloc_def derived_ok_def split: if_splits)

text \<open>
  a key depends on the master key and its purpose only. Whatever is asked of an acknowledged static source,
  in any order and however often, every buffer it hands out holds the key derived from the
  master for its purpose, and still holds it after all the later requests.
\<close>

theorem static_keys:
  assumes "NewStaticKeySource master True h = Inr w" and "request_keys (static_Key hmac) purposes w = (rs, s', h')"
  shows "\<exists>as. rs = map Inr as \<and> map (read_buf h') as = map (deriveKey hmac master) purposes"
proof -
  have "static_serves hmac master w" using NewStaticKeySource_serves assms(1) by (metis surj_pair)
  from static.requests_serve [OF this assms(2)] show ?thesis by auto
qed

section \<open>Keys after the source has changed\<close>

lemma length_zero [simp]: "length (zero a h) = length h"
  by (simp add: zero_def)

lemma read_buf_zero:
  "read_buf (zero a h) b = (if a = b then replicate (length (read_buf h b)) 0 else read_buf h b)"
  by (auto simp: zero_def read_buf_def)

lemma zero_all_Cons [simp]: "zero_all ((p, a) # derived) h = zero_all derived (zero a h)"
  by (simp add: zero_all_def)

lemma zero_all_Nil [simp]: "zero_all [] h = h"
  by (simp add: zero_all_def)

lemma length_zero_all [simp]: "length (zero_all derived h) = length h"
  by (induction derived arbitrary: h) auto

lemma read_buf_zero_all:
  "read_buf (zero_all derived h) b
   = (if b \<in> snd ` set derived then replicate (length (read_buf h b)) 0 else read_buf h b)"
proof (induction derived arbitrary: h)
  case (Cons e derived)
  obtain p a where "e = (p, a)" by (cases e)
  then show ?case by (simp add: Cons.IH read_buf_zero)
qed simp

lemma derive_from_effect:
  assumes "derive_from hmac p (s, h) = (r, s', h')"
  obtains a extra where "r = Inr a" "map_of (es_derived s') p = Some a" "h' = h @ extra"
    "es_ttl s' = es_ttl s" "es_loadedAt s' = es_loadedAt s" "es_reads s' = es_reads s" "es_dek s' = es_dek s"
proof (cases "map_of (es_derived s) p")
  case None
  then show ?thesis using assms that by (auto simp: derive_from_def alloc_def update_conv' Let_def)
next
  case (Some a)
  then show ?thesis using assms that [of a "[]"] by (simp add: derive_from_def)
qed

lemma envelope_Key_Inr:
  assumes "envelope_Key hmac unwrap clock p (s, h) = (Inr a, s', h')"
  shows "map_of (es_derived s') p = Some a"
proof -
  have "map_of (es_derived s2) p = Some a" if "derive_from hmac p (s1, h1) = (Inr a, s2, h2)" for s1 h1 s2 h2
    using derive_from_effect [OF that] by (metis sum.inject(2))
  then show ?thesis using assms
    by (fastforce simp: envelope_Key_def Let_def replace_dek_def split: if_splits sum.splits prod.splits)
qed

definition source_ok :: "envelope_source \<times> heap \<Rightarrow> bool" where
  "source_ok w \<longleftrightarrow>
     (let (s, h) = w in (\<forall>d. es_dek s = Some d \<longrightarrow> d < length h) \<and> (\<forall>a \<in> snd ` set (es_derived s). a < length h))"

lemma replace_dek_effect:
  assumes "source_ok (s, h)" and "replace_dek clock (length h) (s, h @ [dek]) = (s', h')"
  shows "es_derived s' = [] \<and> es_dek s' = Some (length h) \<and> length h' = Suc (length h)
    \<and> read_buf h' (length h) = dek
    \<and> (\<forall>a \<in> snd ` set (es_derived s). read_buf h' a = replicate (length (read_buf h a)) 0)"
proof -
  define h1 where "h1 = (case es_dek s of None \<Rightarrow> h @ [dek] | Some d \<Rightarrow> zero d (h @ [dek]))"
  have res: "es_derived s' = []" "es_dek s' = Some (length h)" "h' = zero_all (es_derived s) h1"
    using assms(2) by (auto simp: replace_dek_def h1_def)
  have ok: "es_dek s \<noteq> Some (length h)" "length h \<notin> snd ` set (es_derived s)"
    "\<And>a. a \<in> snd ` set (es_derived s) \<Longrightarrow> a < length h"
    using assms(1) by (auto simp: source_ok_def)
  have len: "length (read_buf h1 a) = length (read_buf (h @ [dek]) a)" for a
    by (simp add: h1_def read_buf_zero split: option.split)
  have "read_buf h1 (length h) = read_buf (h @ [dek]) (length h)"
    using ok(1) by (simp add: h1_def read_buf_zero split: option.split)
  then have "read_buf h' (length h) = dek" using ok(2) by (simp add: res(3) read_buf_zero_all) (simp add: read_buf_def)
  moreover have "length h' = Suc (length h)" by (simp add: res(3) h1_def split: option.split)
  moreover have "read_buf h' a = replicate (length (read_buf h a)) 0" if "a \<in> snd ` set (es_derived s)" for a
  proof -
    have "read_buf (h @ [dek]) a = read_buf h a" using ok(3) [OF that] by (simp add: read_buf_def nth_append)
    then show ?thesis using that by (simp only: res(3) read_buf_zero_all len if_True)
  qed
  ultimately show ?thesis using res(1,2) by blast
qed

text \<open>
  A refresh wipes the keys that are in use. When the limit on the age of the data key has passed, the next request
  overwrites with zeros every buffer handed out before, so that whoever asked earlier and did not copy
  holds a key of zero bytes; what it hands out itself is the key derived from the new data key.
\<close>

lemma refresh_zeroes_keys:
  assumes "envelope_Key hmac unwrap clock p (s, h) = (Inr a, s1, h1)" and "source_ok (s1, h1)"
    and "0 < es_ttl s1" and "es_ttl s1 < clock (es_reads s1) - es_loadedAt s1"
    and "unwrap (es_wrapped s1) (es_encCtx s1) h1 = (Inr (length h1), h1 @ [dek])" and "32 \<le> length dek"
  shows "\<exists>b s2 h2. envelope_Key hmac unwrap clock q (s1, h1) = (Inr b, s2, h2)
    \<and> read_buf h2 a = replicate (length (read_buf h1 a)) 0 \<and> read_buf h2 b = deriveKey hmac dek q"
proof -
  have "map_of (es_derived s1) p = Some a" using envelope_Key_Inr [OF assms(1)] .
  then have a: "a \<in> snd ` set (es_derived s1)" by (force dest: map_of_SomeD)
  define s1' where "s1' = s1\<lparr>es_reads := es_reads s1 + 1\<rparr>"
  obtain s2 h2 where new: "replace_dek clock (length h1) (s1', h1 @ [dek]) = (s2, h2)" by fastforce
  have "source_ok (s1', h1)" using assms(2) by (simp add: source_ok_def s1'_def)
  note effect = replace_dek_effect [OF this new]
  have "check_age clock s1 = (True, s1')" using assms(3,4) by (simp add: check_age_def expired_def s1'_def)
  then have "envelope_Key hmac unwrap clock q (s1, h1) = derive_from hmac q (s2, h2)"
    using assms(5,6) new by (simp add: envelope_Key_def s1'_def read_buf_def)
  also have "\<dots> = (Inr (length h2), s2\<lparr>es_derived := AList.update q (length h2) []\<rparr>, h2 @ [deriveKey hmac dek q])"
    using effect by (simp add: derive_from_def alloc_def)
  finally have key: "envelope_Key hmac unwrap clock q (s1, h1)
    = (Inr (length h2), s2\<lparr>es_derived := AList.update q (length h2) []\<rparr>, h2 @ [deriveKey hmac dek q])" .
  have "a < length h2" using a assms(2) effect by (auto simp: source_ok_def)
  then have "read_buf (h2 @ [deriveKey hmac dek q]) a = read_buf h2 a" by (simp add: read_buf_def nth_append)
  moreover have "\<forall>a \<in> snd ` set (es_derived s1). read_buf h2 a = replicate (length (read_buf h1 a)) 0"
    using effect unfolding s1'_def by simp
  then have "read_buf h2 a = replicate (length (read_buf h1 a)) 0" using a by (rule bspec)
  moreover have "read_buf (h2 @ [deriveKey hmac dek q]) (length h2) = deriveKey hmac dek q" by (simp add: read_buf_def)
  ultimately show ?thesis unfolding key by simp
qed

text \<open>
  a revoked key stops working once its age passes the limit. When unwrapping then fails, the
  request fails, whatever key is cached, and the source stays as it was.
\<close>

theorem revoked_key_refused:
  assumes "0 < es_ttl s" and "es_ttl s < clock (es_reads s) - es_loadedAt s"
    and "unwrap (es_wrapped s) (es_encCtx s) h = (Inl e, h)"
  shows "\<exists>s'. envelope_Key hmac unwrap clock p (s, h) = (Inl (Errorf ''crypto: unwrapping data key'' e), s', h)
    \<and> es_dek s' = es_dek s \<and> es_derived s' = es_derived s"
  using assms by (simp add: envelope_Key_def check_age_def expired_def)

text \<open>
  a closed static source goes on handing out keys, derived from zero bytes. Closing overwrites the
  master key but does not disable the source: the next request returns the key that an all-zero
  master of that length would give, not an error.
\<close>

theorem closed_static_key:
  assumes "ss_acknowledged s" and "ss_master s < length h"
  shows "\<exists>a s' h'. static_Key hmac p (static_Close (s, h)) = (Inr a, s', h')
    \<and> read_buf h' a = deriveKey hmac (replicate (length (h ! ss_master s)) 0) p"
proof -
  define h1 where "h1 = zero_all (ss_derived s) (zero (ss_master s) h)"
  have "read_buf h1 (ss_master s) = replicate (length (h ! ss_master s)) 0"
    using assms(2) by (simp add: h1_def read_buf_zero_all read_buf_zero) (simp add: read_buf_def)
  then have "static_Key hmac p (static_Close (s, h))
      = (Inr (length h1), s\<lparr>ss_derived := AList.update p (length h1) []\<rparr>,
         h1 @ [deriveKey hmac (replicate (length (h ! ss_master s)) 0) p])"
    using assms(1) by (simp add: static_Close_def static_Key_def alloc_def h1_def)
  moreover have "read_buf (h1 @ [k]) (length h1) = k" for k by (simp add: read_buf_def)
  ultimately show ?thesis by simp
qed

section \<open>Witnesses\<close>

definition demo_unwrap :: unwrapper where
  "demo_unwrap wrapped ctx h = (Inr (length h), h @ [replicate 32 9])"

definition hourly :: "nat \<Rightarrow> gotime" where
  "hourly n = 3600000000000 * (int n + 1)"

definition fresh_envelope :: envelope_source where
  "fresh_envelope = \<lparr>es_wrapped = [1], es_encCtx = [], es_ttl = 1800000000000, es_dek = None, es_loadedAt = 0,
     es_derived = [], es_reads = 0\<rparr>"

theorem static_keys_witness:
  "\<exists>w rs s' h' as. NewStaticKeySource (replicate 32 5) True [] = Inr w
    \<and> request_keys (static_Key (flat_digest 7)) [PurposeToken, PurposeEncrypt, PurposeToken] w = (rs, s', h')
    \<and> rs = map Inr as
    \<and> map (read_buf h') as = map (deriveKey (flat_digest 7) (replicate 32 5)) [PurposeToken, PurposeEncrypt, PurposeToken]"
proof -
  obtain w where w: "NewStaticKeySource (replicate 32 5) True [] = Inr w"
    by (simp add: NewStaticKeySource_def alloc_def)
  obtain rs s' h' where req: "request_keys (static_Key (flat_digest 7)) [PurposeToken, PurposeEncrypt, PurposeToken] w = (rs, s', h')"
    by (metis surj_pair)
  from static_keys [OF w req] w req show ?thesis by blast
qed

theorem closed_static_key_witness:
  "\<exists>a s' h'. static_Key (flat_digest 7) PurposeToken
      (static_Close (\<lparr>ss_master = 0, ss_acknowledged = True, ss_derived = []\<rparr>, [[1, 2, 3]])) = (Inr a, s', h')
    \<and> read_buf h' a = deriveKey (flat_digest 7) (replicate 3 0) PurposeToken"
proof -
  have "length ([[1, 2, 3]] ! ss_master \<lparr>ss_master = 0, ss_acknowledged = True, ss_derived = []\<rparr> :: byte list) = 3"
    by simp
  moreover have "\<exists>a s' h'. static_Key (flat_digest 7) PurposeToken
      (static_Close (\<lparr>ss_master = 0, ss_acknowledged = True, ss_derived = []\<rparr>, [[1, 2, 3]])) = (Inr a, s', h')
    \<and> read_buf h' a = deriveKey (flat_digest 7)
      (replicate (length ([[1, 2, 3]] ! ss_master \<lparr>ss_master = 0, ss_acknowledged = True, ss_derived = []\<rparr> :: byte list)) 0)
      PurposeToken"
    by (rule closed_static_key) simp_all
  ultimately show ?thesis by (simp only:)
qed

theorem revoked_key_refused_witness:
  "\<exists>s'. envelope_Key (flat_digest 7) (\<lambda>w c h. (Inl (plain_error ''revoked''), h)) hourly PurposeToken
      (fresh_envelope\<lparr>es_dek := Some 0\<rparr>, [[1]])
    = (Inl (Errorf ''crypto: unwrapping data key'' (plain_error ''revoked'')), s', [[1]])"
  using revoked_key_refused [of "fresh_envelope\<lparr>es_dek := Some 0\<rparr>" hourly "\<lambda>w c h. (Inl (plain_error ''revoked''), h)"
      "[[1]]" "plain_error ''revoked''"]
  by (auto simp: fresh_envelope_def hourly_def)

end
