(* ===== verification/Provider.thy ===== *)
theory Provider
  imports KeySource Config
begin

text \<open>
  Row protection, \<open>internal/crypto/provider.go\<close>, and its construction from the configuration
  (\<open>buildCrypto\<close> in \<open>internal/app/app.go\<close>). Each column that is encrypted reads random bytes of its
  own; the deadline on acquiring the keys belongs to the key source.
\<close>

section \<open>The provider\<close>

record provider =
  pv_tokenizer :: tokenizer
  pv_cipher :: cipher
  pv_shapes :: "token_format gomap"
  pv_defaultShape :: token_format

record 's source_ops =
  so_Key :: "string \<Rightarrow> 's \<Rightarrow> (go_error + nat) \<times> 's"
  so_heap :: "'s \<Rightarrow> heap"

definition lower_shapes :: "token_format gomap \<Rightarrow> token_format gomap" where
  "lower_shapes formats = fold (\<lambda>(k, v). AList.update (ToLower k) v) formats []"

text \<open>
  Both keys are requested before either is copied: the tokenizer copies its key when everything else
  has succeeded, from the buffer as it is then.
\<close>

definition NewProvider ::
  "hmac \<Rightarrow> aes_library \<Rightarrow> 's source_ops option \<Rightarrow> crypto_options \<Rightarrow> 's \<Rightarrow> (go_error + provider) \<times> 's" where
  "NewProvider hmac lib src opts s =
     (case src of
        None \<Rightarrow> (Inl (plain_error ''crypto: provider requires a key source''), s)
      | Some ops \<Rightarrow>
          (case so_Key ops PurposeToken s of
             (Inl e, s) \<Rightarrow> (Inl (Errorf ''crypto: acquiring tokenisation key'' e), s)
           | (Inr tokenKey, s) \<Rightarrow>
               (case so_Key ops PurposeEncrypt s of
                  (Inl e, s) \<Rightarrow> (Inl (Errorf ''crypto: acquiring encryption key'' e), s)
                | (Inr encKey, s) \<Rightarrow>
                    (case NewCipher hmac lib (read_buf (so_heap ops s) encKey) of
                       Inl e \<Rightarrow> (Inl e, s)
                     | Inr c \<Rightarrow>
                         (Inr \<lparr>pv_tokenizer = read_buf (so_heap ops s) tokenKey, pv_cipher = c,
                               pv_shapes = lower_shapes (co_ColumnFormats opts),
                               pv_defaultShape = co_DefaultFormat opts\<rparr>, s)))))"

definition Domain :: "table_ref \<Rightarrow> string \<Rightarrow> string" where
  "Domain table column = ToLower (TableRef_String table @ ''.'' @ column)"

definition formatFor :: "provider \<Rightarrow> string \<Rightarrow> token_format" where
  "formatFor p domain = (case map_of (pv_shapes p) domain of Some f \<Rightarrow> f | None \<Rightarrow> pv_defaultShape p)"

fun asString :: "gval \<Rightarrow> string" where
  "asString (GString t) = t"
| "asString (GBytes b) = b"
| "asString GNil = ''''"
| "asString v = CanonicalValue v"

text \<open>The outcome is \<open>None\<close> if a token is never found.\<close>

definition protectValue ::
  "hmac \<Rightarrow> unicode \<Rightarrow> provider \<Rightarrow> random_source \<Rightarrow> table_spec \<Rightarrow> column_spec \<Rightarrow> gval
   \<Rightarrow> (go_error + (gval \<times> bool)) option" where
  "protectValue hmac un p rnd spec col v =
     (if cs_Protect col = '''' \<or> cs_Protect col = ProtectNone then Some (Inr (v, True))
      else if cs_Protect col = ProtectRedact then Some (Inr (GNil, False))
      else if cs_Protect col = ProtectTokenize then
        (if v = GNil then Some (Inr (GNil, True))
         else let domain = Domain (ts_Source spec) (cs_Name col) in
           map_option (\<lambda>t. Inr (GString t, True))
             (Token hmac un (pv_tokenizer p) domain (asString v) (formatFor p domain)))
      else if cs_Protect col = ProtectEncrypt then
        (if v = GNil then Some (Inr (GNil, True))
         else case Encrypt (pv_cipher p) rnd (Domain (ts_Source spec) (cs_Name col)) (bytes_of (asString v)) of
             Inl e \<Rightarrow> Some (Inl e)
           | Inr ct \<Rightarrow> Some (Inr (GString ct, True)))
      else Some (Inl (plain_error (''unknown protection mode '' @ cs_Protect col))))"

fun protect_columns ::
  "hmac \<Rightarrow> unicode \<Rightarrow> provider \<Rightarrow> (string \<Rightarrow> random_source) \<Rightarrow> table_spec \<Rightarrow> row \<Rightarrow> row
   \<Rightarrow> (go_error + row) option" where
  "protect_columns hmac un p rnd spec [] out = Some (Inr out)"
| "protect_columns hmac un p rnd spec ((name, v) # row) out =
     (case ts_Column spec name of
        None \<Rightarrow> protect_columns hmac un p rnd spec row out
      | Some col \<Rightarrow>
          (case protectValue hmac un p (rnd name) spec col v of
             None \<Rightarrow> None
           | Some (Inl e) \<Rightarrow>
               Some (Inl (Errorf (''protecting '' @ TableRef_String (ts_Source spec) @ ''.'' @ name) e))
           | Some (Inr (protected, keep)) \<Rightarrow>
               protect_columns hmac un p rnd spec row (if keep then AList.update name protected out else out)))"

text \<open>A nil row is \<open>None\<close>.\<close>

definition ProtectRow ::
  "hmac \<Rightarrow> unicode \<Rightarrow> provider \<Rightarrow> (string \<Rightarrow> random_source) \<Rightarrow> table_spec \<Rightarrow> row option
   \<Rightarrow> (go_error + row option) option" where
  "ProtectRow hmac un p rnd spec row =
     (case row of
        None \<Rightarrow> Some (Inr None)
      | Some r \<Rightarrow>
          map_option (\<lambda>res. case res of Inl e \<Rightarrow> Inl e | Inr out \<Rightarrow> Inr (Some out))
            (protect_columns hmac un p rnd spec r []))"

fun protect_key_columns ::
  "hmac \<Rightarrow> unicode \<Rightarrow> provider \<Rightarrow> (string \<Rightarrow> random_source) \<Rightarrow> table_spec \<Rightarrow> key_column list \<Rightarrow> row
   \<Rightarrow> (go_error + row) option" where
  "protect_key_columns hmac un p rnd spec [] out = Some (Inr out)"
| "protect_key_columns hmac un p rnd spec (c # cs) out =
     (case ts_Column spec (kc_Name c) of
        None \<Rightarrow> protect_key_columns hmac un p rnd spec cs (AList.update (kc_Name c) (kc_Value c) out)
      | Some col \<Rightarrow>
          (case protectValue hmac un p (rnd (kc_Name c)) spec col (kc_Value c) of
             None \<Rightarrow> None
           | Some (Inl e) \<Rightarrow> Some (Inl e)
           | Some (Inr (v, keep)) \<Rightarrow>
               protect_key_columns hmac un p rnd spec cs (if keep then AList.update (kc_Name c) v out else out)))"

definition ProtectKey ::
  "hmac \<Rightarrow> unicode \<Rightarrow> provider \<Rightarrow> (string \<Rightarrow> random_source) \<Rightarrow> table_spec \<Rightarrow> row_key
   \<Rightarrow> (go_error + row_key) option" where
  "ProtectKey hmac un p rnd spec key =
     map_option (\<lambda>res. case res of Inl e \<Rightarrow> Inl e | Inr protected \<Rightarrow> Inr (NewRowKey protected))
       (protect_key_columns hmac un p rnd spec (cols key) [])"

definition VerifyToken ::
  "hmac \<Rightarrow> unicode \<Rightarrow> provider \<Rightarrow> table_ref \<Rightarrow> string \<Rightarrow> string \<Rightarrow> string \<Rightarrow> bool option" where
  "VerifyToken hmac un p table column plaintext token =
     (let domain = Domain table column in
      Verify_token hmac un (pv_tokenizer p) domain plaintext token (formatFor p domain))"

definition EncryptPayload :: "provider \<Rightarrow> random_source \<Rightarrow> string \<Rightarrow> string \<Rightarrow> go_error + string" where
  "EncryptPayload p rnd domain payload = Encrypt (pv_cipher p) rnd domain (bytes_of payload)"

definition DecryptPayload :: "provider \<Rightarrow> string \<Rightarrow> string \<Rightarrow> go_error + string" where
  "DecryptPayload p domain encoded =
     (case Decrypt (pv_cipher p) domain encoded of Inl e \<Rightarrow> Inl e | Inr raw \<Rightarrow> Inr (string_of raw))"

section \<open>Construction from the configuration\<close>

definition static_ops :: "hmac \<Rightarrow> (static_source \<times> heap) source_ops" where
  "static_ops hmac = \<lparr>so_Key = static_Key hmac, so_heap = snd\<rparr>"

definition crypto_error :: "config_error \<Rightarrow> go_error" where
  "crypto_error e = plain_error (case e of
       UnknownTokenFormat name \<Rightarrow> ''config: unknown token format '' @ name
     | _ \<Rightarrow> ''config: invalid'')"

definition buildCrypto ::
  "hmac \<Rightarrow> aes_library \<Rightarrow> (string \<Rightarrow> string) \<Rightarrow> config \<Rightarrow> heap \<Rightarrow> go_error + provider" where
  "buildCrypto hmac lib env c h =
     (case CryptoOptions c of
        Inl e \<Rightarrow> Inl (crypto_error e)
      | Inr opts \<Rightarrow>
          let k = cf_Crypto c in
          if cc_KeySource k = ''static'' then
            (case NewStaticKeySourceFromEnv env
                 (if cc_StaticKeyEnv k = '''' then ''MIGRATION_STATIC_KEY'' else cc_StaticKeyEnv k)
                 (cc_AllowInsecureStaticKey k) h of
               Inl e \<Rightarrow> Inl e
             | Inr w \<Rightarrow> fst (NewProvider hmac lib (Some (static_ops hmac)) opts w))
          else if cc_KeySource k = ''kms'' \<or> cc_KeySource k = ''pkcs11''
          then Inl (plain_error (''crypto: the '' @ cc_KeySource k @ '' key source requires an Unwrapper implementation for your key store''))
          else Inl (plain_error (''crypto: unknown key source '' @ cc_KeySource k)))"

section \<open>What leaves the source side\<close>

text \<open>The form in which a value of a column leaves: what it is sent as, for each protection.\<close>

definition sent_as ::
  "hmac \<Rightarrow> unicode \<Rightarrow> provider \<Rightarrow> table_spec \<Rightarrow> column_spec \<Rightarrow> gval \<Rightarrow> gval \<Rightarrow> bool" where
  "sent_as hmac un p spec col v w \<longleftrightarrow>
     (if cs_Protect col = '''' \<or> cs_Protect col = ProtectNone then w = v
      else if cs_Protect col = ProtectTokenize then
        (if v = GNil then w = GNil
         else \<exists>t. w = GString t \<and> VerifyToken hmac un p (ts_Source spec) (cs_Name col) (asString v) t = Some True)
      else if cs_Protect col = ProtectEncrypt then
        (if v = GNil then w = GNil
         else \<exists>ct. w = GString ct \<and> IsCiphertext ct
           \<and> Decrypt (pv_cipher p) (Domain (ts_Source spec) (cs_Name col)) ct = Inr (bytes_of (asString v)))
      else False)"

lemma constant_time_equal: "constantTimeEqualString a b \<longleftrightarrow> a = b"
  by (rule constantTimeEqualString_iff)

lemma Token_verifies:
  "Token hmac un key domain s f = Some t \<Longrightarrow> Verify_token hmac un key domain s t f = Some True"
  by (simp add: Verify_token_def constant_time_equal)

lemma Encrypt_opens:
  assumes "aead_ok (cr_aead c)" and "fills rnd" and "Encrypt c rnd domain v = Inr ct"
  shows "IsCiphertext ct \<and> Decrypt c domain ct = Inr v"
proof -
  obtain nonce where nonce: "length nonce = ae_NonceSize (cr_aead c)" "ct = envelope c cipherPrefix domain nonce v"
    using Encrypt_envelope [OF assms(3,2)] .
  then show ?thesis using envelope_opens [OF assms(1) nonce(1)] IsCiphertext_envelope by simp
qed

lemma protectValue_sent:
  assumes "aead_ok (cr_aead (pv_cipher p))" and "fills rnd"
    and "protectValue hmac un p rnd spec col v = Some (Inr (w, keep))"
  shows "(keep \<longleftrightarrow> cs_Protect col \<noteq> ProtectRedact) \<and> (keep \<longrightarrow> sent_as hmac un p spec col v w)"
proof -
  have enc: "IsCiphertext ct \<and> Decrypt (pv_cipher p) d ct = Inr x" if "Encrypt (pv_cipher p) rnd d x = Inr ct" for d x ct
    using Encrypt_opens [OF assms(1,2) that] .
  have distinct_modes: "ProtectRedact \<noteq> ''''" "ProtectRedact \<noteq> ProtectNone" "ProtectRedact \<noteq> ProtectTokenize"
      "ProtectRedact \<noteq> ProtectEncrypt"
    by (simp_all add: protect_defs)
  consider "cs_Protect col = '''' \<or> cs_Protect col = ProtectNone" | "cs_Protect col = ProtectRedact"
    | (token) "cs_Protect col = ProtectTokenize" | (encrypt) "cs_Protect col = ProtectEncrypt"
    | "\<not> (cs_Protect col = '''' \<or> cs_Protect col = ProtectNone)" "cs_Protect col \<noteq> ProtectRedact"
      "cs_Protect col \<noteq> ProtectTokenize" "cs_Protect col \<noteq> ProtectEncrypt" by blast
  then show ?thesis
  proof cases
    case token
    have modes: "ProtectTokenize \<noteq> ''''" "ProtectTokenize \<noteq> ProtectNone" "ProtectTokenize \<noteq> ProtectRedact"
      by (simp_all add: protect_defs)
    show ?thesis
      using assms(3) token modes
      by (auto simp: protectValue_def sent_as_def VerifyToken_def Let_def Token_verifies split: if_splits)
  next
    case encrypt
    have modes: "ProtectEncrypt \<noteq> ''''" "ProtectEncrypt \<noteq> ProtectNone" "ProtectEncrypt \<noteq> ProtectRedact"
        "ProtectEncrypt \<noteq> ProtectTokenize"
      by (simp_all add: protect_defs)
    show ?thesis
      using assms(3) encrypt modes enc
      by (auto simp: protectValue_def sent_as_def split: if_splits sum.splits)
  qed (use assms(3) distinct_modes in \<open>auto simp: protectValue_def sent_as_def\<close>)
qed

definition sends ::
  "hmac \<Rightarrow> unicode \<Rightarrow> provider \<Rightarrow> table_spec \<Rightarrow> row \<Rightarrow> string \<Rightarrow> gval option \<Rightarrow> bool" where
  "sends hmac un p spec row name sent \<longleftrightarrow>
     (case (map_of row name, ts_Column spec name) of
        (Some v, Some col) \<Rightarrow>
          if cs_Protect col = ProtectRedact then sent = None
          else (case sent of None \<Rightarrow> False | Some w \<Rightarrow> sent_as hmac un p spec col v w)
      | _ \<Rightarrow> sent = None)"

lemma protect_columns_values:
  "protect_columns hmac un p rnd spec row out = Some (Inr out') \<Longrightarrow> distinct (map fst row) \<Longrightarrow>
    (\<forall>n. map_of row n = None \<or> ts_Column spec n = None \<longrightarrow> map_of out' n = map_of out n)
    \<and> (\<forall>n v col. map_of row n = Some v \<longrightarrow> ts_Column spec n = Some col \<longrightarrow>
         (\<exists>w keep. protectValue hmac un p (rnd n) spec col v = Some (Inr (w, keep))
            \<and> map_of out' n = (if keep then Some w else map_of out n)))"
proof (induction row arbitrary: out)
  case (Cons e row)
  obtain name v where e: "e = (name, v)" by (cases e)
  have fresh: "map_of row name = None" using Cons.prems(2) by (simp add: e map_of_eq_None_iff)
  have rest: "distinct (map fst row)" using Cons.prems(2) by simp
  show ?case
  proof (cases "ts_Column spec name")
    case None
    then have "protect_columns hmac un p rnd spec row out = Some (Inr out')" using Cons.prems(1) by (simp add: e)
    note IH = Cons.IH [OF this rest]
    show ?thesis using IH None by (auto simp: e)
  next
    case (Some col)
    obtain w keep where pv: "protectValue hmac un p (rnd name) spec col v = Some (Inr (w, keep))"
      and run: "protect_columns hmac un p rnd spec row (if keep then AList.update name w out else out) = Some (Inr out')"
      using Cons.prems(1) Some by (auto simp: e split: option.splits sum.splits prod.splits)
    define out1 where "out1 = (if keep then AList.update name w out else out)"
    have other: "map_of out1 n = map_of out n" if "n \<noteq> name" for n
      using that by (simp add: out1_def update_conv')
    note IH = Cons.IH [OF run rest, folded out1_def]
    have here: "map_of out' name = (if keep then Some w else map_of out name)"
      using IH fresh by (simp add: out1_def update_conv')
    show ?thesis
    proof (intro conjI allI impI)
      fix n assume "map_of (e # row) n = None \<or> ts_Column spec n = None"
      then have "n \<noteq> name" "map_of row n = None \<or> ts_Column spec n = None" using Some by (auto simp: e split: if_splits)
      then have "map_of out' n = map_of out1 n" "n \<noteq> name" using IH by blast+
      then show "map_of out' n = map_of out n" using other by simp
    next
      fix n u c assume n: "map_of (e # row) n = Some u" "ts_Column spec n = Some c"
      show "\<exists>w keep. protectValue hmac un p (rnd n) spec c u = Some (Inr (w, keep))
          \<and> map_of out' n = (if keep then Some w else map_of out n)"
      proof (cases "n = name")
        case True
        then show ?thesis using here pv n Some by (auto simp: e)
      next
        case False
        then have "map_of row n = Some u" using n(1) by (simp add: e)
        then obtain w' keep' where "protectValue hmac un p (rnd n) spec c u = Some (Inr (w', keep'))"
          "map_of out' n = (if keep' then Some w' else map_of out1 n)"
          using IH n(2) by blast
        then show ?thesis using other [OF False] by (intro exI [of _ w'] exI [of _ keep']) simp
      qed
    qed
  qed
qed simp

lemma protect_columns_present:
  assumes "protect_columns hmac un p rnd spec row [] = Some (Inr out)" and "distinct (map fst row)"
    and "map_of row n = Some v" and "ts_Column spec n = Some col"
  obtains w keep where "protectValue hmac un p (rnd n) spec col v = Some (Inr (w, keep))"
    "map_of out n = (if keep then Some w else None)"
  using protect_columns_values [OF assms(1,2)] assms(3,4) unfolding map_of.simps by blast

lemma ProtectRow_columns:
  "ProtectRow hmac un p rnd spec (Some row) = Some (Inr (Some out))
   \<longleftrightarrow> protect_columns hmac un p rnd spec row [] = Some (Inr out)"
proof (cases "protect_columns hmac un p rnd spec row []")
  case (Some res)
  then show ?thesis by (cases res) (simp_all add: ProtectRow_def)
qed (simp add: ProtectRow_def)

text \<open>
  C28: nothing leaves unprotected that the plan protects. In a row that protection lets through, a
  column that the plan does not name or that it redacts is absent, an unprotected column is as it
  was, a tokenised column holds a token that verifies against its value and an encrypted column a ciphertext that
  decrypts, in that column, to the text of its value; nulls stay nulls and no other column is missing.
\<close>

theorem ProtectRow_exact:
  assumes "aead_ok (cr_aead (pv_cipher p))" and "\<forall>n. fills (rnd n)" and "distinct (map fst row)"
    and "ProtectRow hmac un p rnd spec (Some row) = Some (Inr (Some out))"
  shows "sends hmac un p spec row name (map_of out name)"
proof (cases "map_of row name = None \<or> ts_Column spec name = None")
  case True
  then have "map_of out name = None"
    using protect_columns_values [OF assms(4) [unfolded ProtectRow_columns] assms(3)] by auto
  then show ?thesis using True by (auto simp: sends_def split: option.splits)
next
  case False
  then obtain v col where vc: "map_of row name = Some v" "ts_Column spec name = Some col" by auto
  obtain w keep where "protectValue hmac un p (rnd name) spec col v = Some (Inr (w, keep))"
      "map_of out name = (if keep then Some w else None)"
    using protect_columns_present [OF assms(4) [unfolded ProtectRow_columns] assms(3) vc] .
  then show ?thesis using protectValue_sent [OF assms(1) assms(2) [rule_format]] vc by (auto simp: sends_def)
qed

section \<open>Keys and rows agree\<close>

lemma protectValue_deterministic:
  assumes "Deterministic (cs_Protect col) \<or> cs_Protect col = ''''"
    and "protectValue hmac un p rnd spec col v = Some (Inr (w, keep))"
  shows "protectValue hmac un p rnd' spec col v = Some (Inr (w, True)) \<and> keep"
  using assms by (auto simp: protectValue_def Deterministic_def protect_defs Let_def split: if_splits)

lemma protect_key_columns_all:
  assumes "\<forall>c \<in> set cs. \<exists>col. ts_Column spec (kc_Name c) = Some col
      \<and> protectValue hmac un p (rnd (kc_Name c)) spec col (kc_Value c) = Some (Inr (f (kc_Name c), True))"
    and "distinct (map kc_Name cs)" and "fst ` set out \<inter> kc_Name ` set cs = {}"
  shows "protect_key_columns hmac un p rnd spec cs out = Some (Inr (out @ map (\<lambda>c. (kc_Name c, f (kc_Name c))) cs))"
  using assms
proof (induction cs arbitrary: out)
  case (Cons c cs)
  have "AList.update (kc_Name c) (f (kc_Name c)) out = out @ [(kc_Name c, f (kc_Name c))]"
    using Cons.prems(3) by (intro AList_update_new) auto
  moreover have "fst ` set (out @ [(kc_Name c, f (kc_Name c))]) \<inter> kc_Name ` set cs = {}"
    using Cons.prems(2,3) by auto
  ultimately show ?case using Cons.IH [of "out @ [(kc_Name c, f (kc_Name c))]"] Cons.prems(1,2) by auto
qed simp

lemma well_formed_key:
  assumes "TableSpec_Validate spec = None" and "pk \<in> set (ts_PrimaryKey spec)"
  shows "\<exists>c. ts_Column spec pk = Some c \<and> (Deterministic (cs_Protect c) \<or> cs_Protect c = '''')"
proof -
  have "well_formed spec" using assms(1) by (simp only: TableSpec_Validate_None)
  then show ?thesis using assms(2) unfolding well_formed_def by blast
qed

text \<open>
  a protected row is found under its protected key. For a plan that validates, protecting the
  key of a row gives the key of the protected row, whatever random bytes either uses: so a change
  event and a snapshot row of the same source row meet in the same target row.
\<close>

theorem ProtectKey_of_row:
  assumes "TableSpec_Validate spec = None" and "distinct (map fst row)" and "distinct names"
    and "set names \<subseteq> set (ts_PrimaryKey spec)" and "set names \<subseteq> fst ` set row"
    and "ProtectRow hmac un p rnd spec (Some row) = Some (Inr (Some out))"
  shows "ProtectKey hmac un p rnd' spec (NewRowKey (map (\<lambda>n. (n, the (map_of row n))) names))
    = Some (Inr (NewRowKey (map (\<lambda>n. (n, the (map_of out n))) names)))"
proof -
  let ?kv = "map (\<lambda>n. (n, the (map_of row n))) names"
  let ?cs = "cols (NewRowKey ?kv)"

  have "\<exists>col. ts_Column spec n = Some col
      \<and> protectValue hmac un p (rnd' n) spec col (the (map_of row n)) = Some (Inr (the (map_of out n), True))"
    if n: "n \<in> set names" for n
  proof -
    have "n \<in> set (ts_PrimaryKey spec)" using assms(4) n by (rule subsetD)
    from well_formed_key [OF assms(1) this] obtain col where col: "ts_Column spec n = Some col" "Deterministic (cs_Protect col) \<or> cs_Protect col = ''''"
      by (elim exE conjE)
    have "n \<in> fst ` set row" using assms(5) n by (rule subsetD)
    then have "map_of row n \<noteq> None" by (simp only: map_of_eq_None_iff not_not)
    then obtain v where v: "map_of row n = Some v" by (rule not_None_eq [THEN iffD1, THEN exE])
    obtain w keep where w: "protectValue hmac un p (rnd n) spec col v = Some (Inr (w, keep))"
      "map_of out n = (if keep then Some w else None)"
      using protect_columns_present [OF assms(6) [unfolded ProtectRow_columns] assms(2) v col(1)] .
    show ?thesis using protectValue_deterministic [OF col(2) w(1), of "rnd' n"] w(2) v col(1) by auto
  qed
  moreover have cs: "mset ?cs = mset (map mk_col ?kv)" by (simp add: NewRowKey_def)
  then have "set ?cs = mk_col ` set ?kv" by (metis set_map set_mset_mset)
  ultimately have all: "\<forall>c \<in> set ?cs. \<exists>col. ts_Column spec (kc_Name c) = Some col
      \<and> protectValue hmac un p (rnd' (kc_Name c)) spec col (kc_Value c) = Some (Inr (the (map_of out (kc_Name c)), True))"
    by (auto simp: mk_col_def)
  have "mset (map kc_Name ?cs) = mset (map kc_Name (map mk_col ?kv))" using cs by (metis mset_map)
  also have "map kc_Name (map mk_col ?kv) = names" by (simp add: comp_def)
  finally have "distinct (map kc_Name ?cs)" using assms(3) by (metis mset_eq_imp_distinct_iff)
  then have protected: "protect_key_columns hmac un p rnd' spec ?cs []
      = Some (Inr (map (\<lambda>c. (kc_Name c, the (map_of out (kc_Name c)))) ?cs))"
    using protect_key_columns_all [OF all, of "[]"] by simp
  have "mset (map (\<lambda>c. (kc_Name c, the (map_of out (kc_Name c)))) ?cs)
      = mset (map (\<lambda>c. (kc_Name c, the (map_of out (kc_Name c)))) (map mk_col ?kv))"
    using cs by (metis mset_map)
  then have "mset (map (\<lambda>n. (n, the (map_of out n))) names)
      = mset (map (\<lambda>c. (kc_Name c, the (map_of out (kc_Name c)))) ?cs)"
    by (simp add: comp_def)
  then have "NewRowKey (map (\<lambda>n. (n, the (map_of out n))) names)
      = NewRowKey (map (\<lambda>c. (kc_Name c, the (map_of out (kc_Name c)))) ?cs)"
    by (rule NewRowKey_perm) (simp add: comp_def assms(3))
  then show ?thesis by (simp add: ProtectKey_def protected)
qed

section \<open>The keys of a provider\<close>

context key_source begin

lemma NewProvider_keys:
  assumes "serves m s" and "NewCipher hmac lib (deriveKey hmac m PurposeEncrypt) = Inr c"
  shows "fst (NewProvider hmac lib (Some \<lparr>so_Key = Key, so_heap = heap_of\<rparr>) opts s)
    = Inr \<lparr>pv_tokenizer = deriveKey hmac m PurposeToken, pv_cipher = c,
        pv_shapes = lower_shapes (co_ColumnFormats opts), pv_defaultShape = co_DefaultFormat opts\<rparr>"
proof -
  obtain r1 s1 where key1: "Key PurposeToken s = (r1, s1)" by fastforce
  obtain a where a: "r1 = Inr a" "serves m s1" "read_buf (heap_of s1) a = deriveKey hmac m PurposeToken"
      "a < length (heap_of s1)"
    using key_of_purpose [OF assms(1) key1] by metis
  obtain r2 s2 where key2: "Key PurposeEncrypt s1 = (r2, s2)" by fastforce
  obtain b where b: "r2 = Inr b" "read_buf (heap_of s2) b = deriveKey hmac m PurposeEncrypt"
      "\<And>x. x < length (heap_of s1) \<Longrightarrow> read_buf (heap_of s2) x = read_buf (heap_of s1) x"
    using key_of_purpose [OF a(2) key2] by metis
  have "read_buf (heap_of s2) a = deriveKey hmac m PurposeToken" using b(3) [OF a(4)] a(3) by simp
  then show ?thesis using assms(2) a(1) b(1,2) by (simp add: NewProvider_def key1 key2)
qed

end

text \<open>
  the provider is a function of the configuration and the key. With an acknowledged static source and a key
  of at least 32 bytes in the environment, the provider that a process builds has the
  tokenisation and encryption keys derived from that key for their purposes: two processes
  with the same configuration and key make the same tokens and read each other's ciphertexts.
\<close>

theorem buildCrypto_keys:
  assumes "CryptoOptions cfg = Inr opts" and "cc_KeySource (cf_Crypto cfg) = ''static''"
    and "cc_AllowInsecureStaticKey (cf_Crypto cfg)"
    and "var = (if cc_StaticKeyEnv (cf_Crypto cfg) = '''' then ''MIGRATION_STATIC_KEY'' else cc_StaticKeyEnv (cf_Crypto cfg))"
    and "std64_decode (TrimSpace (env var)) = Some master" and "env var \<noteq> ''''" and "32 \<le> length master"
    and "NewCipher hmac lib (deriveKey hmac master PurposeEncrypt) = Inr c"
  shows "buildCrypto hmac lib env cfg h
    = Inr \<lparr>pv_tokenizer = deriveKey hmac master PurposeToken, pv_cipher = c,
        pv_shapes = lower_shapes (co_ColumnFormats opts), pv_defaultShape = co_DefaultFormat opts\<rparr>"
proof -
  obtain s h' where new: "NewStaticKeySource master True h = Inr (s, h')"
    using assms(7) by (simp add: NewStaticKeySource_def alloc_def)
  then have env: "NewStaticKeySourceFromEnv env var (cc_AllowInsecureStaticKey (cf_Crypto cfg)) h = Inr (s, h')"
    using assms(3,5,6) by (simp add: NewStaticKeySourceFromEnv_def)
  note built = static.NewProvider_keys [OF NewStaticKeySource_serves [OF new] assms(8), of opts]
  show ?thesis
    using built env unfolding assms(4) by (simp add: buildCrypto_def assms(1,2) static_ops_def Let_def)
qed

definition envelope_ops ::
  "hmac \<Rightarrow> unwrapper \<Rightarrow> (nat \<Rightarrow> gotime) \<Rightarrow> (envelope_source \<times> heap) source_ops" where
  "envelope_ops hmac unwrap clock = \<lparr>so_Key = envelope_Key hmac unwrap clock, so_heap = snd\<rparr>"

lemma envelope_first_key:
  assumes "es_dek s = None" and "es_derived s = []" and "0 < es_ttl s"
    and "unwrap (es_wrapped s) (es_encCtx s) h = (Inr (length h), h @ [dek])" and "32 \<le> length dek"
  shows "envelope_Key hmac unwrap clock p (s, h)
    = (Inr (Suc (length h)),
       s\<lparr>es_dek := Some (length h), es_loadedAt := clock (es_reads s + 1), es_reads := es_reads s + 2,
         es_derived := [(p, Suc (length h))]\<rparr>,
       h @ [dek, deriveKey hmac dek p])"
  using assms
  by (simp add: envelope_Key_def check_age_def replace_dek_def derive_from_def alloc_def read_buf_def nth_append)

text \<open>
  C29: a slow start gives every token the same, public key. If the limit on the age of the data key
  passes between the two requests that building a provider makes, the second one wipes the
  buffer of the first before it is copied: the provider is built without an error and tokenises with
  a key of 32 zero bytes.
\<close>

theorem tokens_under_zero_key:
  assumes "digest32 hmac" and "es_dek s = None" and "es_derived s = []" and "0 < es_ttl s"
    and "\<forall>w ctx h. unwrap w ctx h = (Inr (length h), h @ [dek])" and "32 \<le> length dek"
    and "es_ttl s < clock (es_reads s + 2) - clock (es_reads s + 1)"
    and "NewCipher hmac lib (deriveKey hmac dek PurposeEncrypt) = Inr c"
  shows "\<exists>p. fst (NewProvider hmac lib (Some (envelope_ops hmac unwrap clock)) opts (s, h)) = Inr p
    \<and> pv_tokenizer p = replicate 32 0"
proof -
  let ?k = "deriveKey hmac dek PurposeToken"
  define s1 where "s1 = s\<lparr>es_dek := Some (length h), es_loadedAt := clock (es_reads s + 1), es_reads := es_reads s + 2,
    es_derived := [(PurposeToken, Suc (length h))]\<rparr>"
  let ?h1 = "h @ [dek, ?k]"
  have key: "envelope_Key hmac unwrap clock PurposeToken (s, h) = (Inr (Suc (length h)), s1, ?h1)"
    unfolding s1_def using assms(5) by (intro envelope_first_key [OF assms(2,3,4) _ assms(6)]) simp
  have "source_ok (s1, ?h1)" by (simp add: source_ok_def s1_def)
  moreover have "0 < es_ttl s1" "es_ttl s1 < clock (es_reads s1) - es_loadedAt s1"
    using assms(4,7) by (simp_all add: s1_def)
  moreover have "unwrap (es_wrapped s1) (es_encCtx s1) ?h1 = (Inr (length ?h1), ?h1 @ [dek])" using assms(5) by blast
  ultimately obtain b s2 h2 where second: "envelope_Key hmac unwrap clock PurposeEncrypt (s1, ?h1) = (Inr b, s2, h2)"
      "read_buf h2 (Suc (length h)) = replicate (length (read_buf ?h1 (Suc (length h)))) 0"
      "read_buf h2 b = deriveKey hmac dek PurposeEncrypt"
    using refresh_zeroes_keys [OF key _ _ _ _ assms(6), of PurposeEncrypt] by blast
  have "length (read_buf ?h1 (Suc (length h))) = 32"
    using hkdfExpand_length [OF assms(1)] by (simp add: read_buf_def nth_append deriveKey_def)
  then show ?thesis
    using assms(8) key second by (simp add: NewProvider_def envelope_ops_def)
qed

section \<open>Dead letters under the provider\<close>

lemma string_of_bytes_of [simp]: "string_of (bytes_of s) = s"
proof -
  have "char_of (unat (of_char c :: byte)) = c" for c
  proof -
    have "unat (of_nat (of_char c) :: byte) = of_char c" unfolding unat_of_nat by simp
    then have "unat (of_char c :: byte) = of_char c" by (simp only: of_nat_of_char)
    then show ?thesis by simp
  qed
  then show ?thesis by (simp add: string_of_def bytes_of_def comp_def)
qed

definition payload_ops :: "provider \<Rightarrow> random_source \<Rightarrow> payload_cipher" where
  "payload_ops p rnd = \<lparr>ci_Encrypt = EncryptPayload p rnd, ci_Decrypt = DecryptPayload p\<rparr>"

lemma payload_ops_ok:
  assumes "aead_ok (cr_aead (pv_cipher p))" and "fills rnd"
  shows "cipher_ok (payload_ops p rnd)"
  using Encrypt_opens [OF assms] by (auto simp: cipher_ok_def payload_ops_def EncryptPayload_def DecryptPayload_def)

text \<open>
  dead letters are at rest as ciphertexts and come back as they were. A store whose cipher is the
  provider writes every payload that is not empty as a ciphertext, never in clear, and reads
  each one back to the payload it was given.
\<close>

theorem dead_letters_sealed:
  assumes "aead_ok (cr_aead (pv_cipher p))" and "fills rnd" and "st_cipher s = Some (payload_ops p rnd)"
    and "encodePayload s raw = Inr (stored', enc)"
  shows "decodePayload s stored' enc = Inr raw \<and> (enc \<longleftrightarrow> raw \<noteq> '''') \<and> (enc \<longrightarrow> IsCiphertext stored')"
proof -
  have "decodePayload s stored' enc = Inr raw"
    using payload_roundtrip [OF _ assms(4)] payload_ops_ok [OF assms(1,2)] assms(3) by simp
  moreover have "enc \<longleftrightarrow> raw \<noteq> ''''"
    using assms(3,4) by (auto simp: encodePayload_def split: if_splits sum.splits)
  moreover have "enc \<longrightarrow> IsCiphertext stored'"
    using assms(3,4) Encrypt_opens [OF assms(1,2)]
    by (auto simp: encodePayload_def payload_ops_def EncryptPayload_def split: if_splits sum.splits)
  ultimately show ?thesis by blast
qed

section \<open>Witnesses\<close>

definition clear_library :: aes_library where
  "clear_library = \<lparr>al_aes = Inr, al_gcm = (\<lambda>b. Inr clear_aead)\<rparr>"

definition clear_provider :: provider where
  "clear_provider = \<lparr>pv_tokenizer = [], pv_cipher = clear_cipher, pv_shapes = [], pv_defaultShape = FormatOpaque\<rparr>"

lemma clear_NewCipher: "NewCipher (flat_digest 7) clear_library (deriveKey (flat_digest 7) m p)
    = Inr \<lparr>cr_aead = clear_aead,
        cr_macKey = deriveKey (flat_digest 7) (deriveKey (flat_digest 7) m p) ''synthetic-nonce/v1''\<rparr>"
proof -
  have "length (deriveKey (flat_digest 7) m p) = 32"
    unfolding deriveKey_def by (rule hkdfExpand_length) (simp add: digest32_def flat_digest_def)
  then show ?thesis by (simp add: NewCipher_def clear_library_def)
qed

theorem tokens_under_zero_key_witness:
  "\<exists>p. fst (NewProvider (flat_digest 7) clear_library (Some (envelope_ops (flat_digest 7) demo_unwrap hourly))
      \<lparr>co_ColumnFormats = [], co_DefaultFormat = FormatOpaque\<rparr> (fresh_envelope, [])) = Inr p
    \<and> pv_tokenizer p = replicate 32 0"
  by (rule tokens_under_zero_key [of "flat_digest 7" _ "demo_unwrap" "replicate 32 9", OF _ _ _ _ _ _ _ clear_NewCipher])
    (simp_all add: digest32_def flat_digest_def fresh_envelope_def demo_unwrap_def hourly_def)

theorem dead_letters_sealed_witness:
  "\<exists>t. encodePayload \<lparr>st_migrationID = ''m'', st_cipher = Some (payload_ops clear_provider zeros)\<rparr> ''x'' = Inr (t, True)
    \<and> IsCiphertext t
    \<and> decodePayload \<lparr>st_migrationID = ''m'', st_cipher = Some (payload_ops clear_provider zeros)\<rparr> t True = Inr ''x''"
proof -
  let ?s = "\<lparr>st_migrationID = ''m'', st_cipher = Some (payload_ops clear_provider zeros)\<rparr>"
  have aead: "aead_ok (cr_aead (pv_cipher clear_provider))"
    using clear_aead_ok by (simp add: clear_provider_def clear_cipher_def)
  obtain t where t: "encodePayload ?s ''x'' = Inr (t, True)"
    by (simp add: encodePayload_def payload_ops_def EncryptPayload_def Encrypt_def zeros_def)
  have "st_cipher ?s = Some (payload_ops clear_provider zeros)" by simp
  from dead_letters_sealed [OF aead zeros_fills this t] t show ?thesis by blast
qed

definition secret_spec :: table_spec where
  "secret_spec = demo_spec\<lparr>ts_PrimaryKey := [''id''], ts_ChunkColumn := '''', ts_Columns :=
     [\<lparr>cs_Name = ''id'', cs_TargetName = '''', cs_Type = '''', cs_Protect = ProtectTokenize, cs_Nullable = False,
       cs_TrimTrailingSpace = False, cs_Scale = 0\<rparr>,
      \<lparr>cs_Name = ''pin'', cs_TargetName = '''', cs_Type = '''', cs_Protect = ProtectRedact, cs_Nullable = False,
       cs_TrimTrailingSpace = False, cs_Scale = 0\<rparr>]\<rparr>"

lemma secret_valid: "TableSpec_Validate secret_spec = None"
  by (simp add: TableSpec_Validate_def secret_spec_def demo_defs ts_Column_def ts_Key_def Protection_Valid_def
      Deterministic_def protect_defs cs_Target_def)

lemma secret_row:
  "\<exists>t. ProtectRow (flat_digest 7) ascii_classes clear_provider (\<lambda>n. zeros) secret_spec
      (Some [(''pin'', GString ''42''), (''id'', GInt 5), (''new'', GInt 1)]) = Some (Inr (Some [(''id'', GString t)]))"
  by (simp add: ProtectRow_def secret_spec_def ts_Column_def protectValue_def protect_defs Let_def Token_def
      formatFor_def clear_provider_def FormatInt_def digits.simps)

theorem ProtectRow_exact_witness:
  "\<exists>out. ProtectRow (flat_digest 7) ascii_classes clear_provider (\<lambda>n. zeros) secret_spec
      (Some [(''pin'', GString ''42''), (''id'', GInt 5), (''new'', GInt 1)]) = Some (Inr (Some out))
    \<and> sends (flat_digest 7) ascii_classes clear_provider secret_spec
        [(''pin'', GString ''42''), (''id'', GInt 5), (''new'', GInt 1)] ''id'' (map_of out ''id'')"
proof -
  have aead: "aead_ok (cr_aead (pv_cipher clear_provider))"
    using clear_aead_ok by (simp add: clear_provider_def clear_cipher_def)
  obtain out where out: "ProtectRow (flat_digest 7) ascii_classes clear_provider (\<lambda>n. zeros) secret_spec
      (Some [(''pin'', GString ''42''), (''id'', GInt 5), (''new'', GInt 1)]) = Some (Inr (Some out))"
    using secret_row by blast
  have "sends (flat_digest 7) ascii_classes clear_provider secret_spec
        [(''pin'', GString ''42''), (''id'', GInt 5), (''new'', GInt 1)] ''id'' (map_of out ''id'')"
    by (rule ProtectRow_exact [OF aead _ _ out]) (simp_all add: zeros_fills)
  with out show ?thesis by blast
qed

theorem ProtectKey_of_row_witness:
  "\<exists>t. ProtectKey (flat_digest 7) ascii_classes clear_provider (\<lambda>n. zeros) secret_spec (NewRowKey [(''id'', GInt 5)])
    = Some (Inr (NewRowKey [(''id'', GString t)]))"
proof -
  obtain t where t: "ProtectRow (flat_digest 7) ascii_classes clear_provider (\<lambda>n. zeros) secret_spec
      (Some [(''pin'', GString ''42''), (''id'', GInt 5), (''new'', GInt 1)]) = Some (Inr (Some [(''id'', GString t)]))"
    using secret_row by blast
  have "ProtectKey (flat_digest 7) ascii_classes clear_provider (\<lambda>n. zeros) secret_spec
      (NewRowKey (map (\<lambda>n. (n, the (map_of [(''pin'', GString ''42''), (''id'', GInt 5), (''new'', GInt 1)] n))) [''id'']))
    = Some (Inr (NewRowKey (map (\<lambda>n. (n, the (map_of [(''id'', GString t)] n))) [''id''])))"
    by (rule ProtectKey_of_row [OF secret_valid _ _ _ _ t]) (simp_all add: secret_spec_def)
  then show ?thesis by auto
qed

lemma std64_decode_encode:
  assumes "length bs mod 3 = 0"
  shows "std64_decode (TrimSpace (base_encode 6 base64_alphabet bs)) = Some bs"
proof -
  let ?t = "base_encode 6 base64_alphabet bs"
  have chars: "set ?t \<subseteq> set base64_alphabet" by (rule set_base_encode) (simp_all add: base64_facts)
  have plain: "\<not> is_space c \<and> c \<noteq> CHR ''=''" if "c \<in> set base64_alphabet" for c
    using that by (auto simp: base64_alphabet_def is_space_def)
  have trim: "TrimSpace ?t = ?t" by (rule TrimSpace_id) (use chars plain in blast)
  have breaks: "skip_breaks ?t = ?t"
    using chars base64_facts(3,4) by (auto simp: skip_breaks_def filter_id_conv)
  obtain k where "length bs = 3 * k" using assms by auto
  then have "length ?t = (5 + 8 * (3 * k)) div 6" using length_base_encode [of 6 base64_alphabet bs] by simp
  also have "\<dots> = 4 * k" by presburger
  finally have "length ?t mod 4 = 0" by simp
  moreover have "\<not> (?t \<noteq> [] \<and> last ?t = CHR ''='')" using chars plain last_in_set [of ?t] by blast
  then have "drop_padding ?t = ?t" unfolding drop_padding_def by (rule if_not_P)
  ultimately show ?thesis
    using base_decode_encode [OF base64_facts(1,2), of bs] by (simp add: std64_decode_def trim breaks Let_def)
qed

theorem buildCrypto_keys_witness:
  "\<exists>c. buildCrypto (flat_digest 7) clear_library (\<lambda>v. base_encode 6 base64_alphabet (replicate 33 5))
      (Defaults\<lparr>cf_Crypto := (cf_Crypto Defaults)\<lparr>cc_AllowInsecureStaticKey := True\<rparr>\<rparr>) []
    = Inr \<lparr>pv_tokenizer = deriveKey (flat_digest 7) (replicate 33 5) PurposeToken, pv_cipher = c,
        pv_shapes = [], pv_defaultShape = FormatOpaque\<rparr>"
proof -
  let ?env = "\<lambda>v :: string. base_encode 6 base64_alphabet (replicate 33 5)"
  let ?cfg = "Defaults\<lparr>cf_Crypto := (cf_Crypto Defaults)\<lparr>cc_AllowInsecureStaticKey := True\<rparr>\<rparr>"
  have opts: "CryptoOptions ?cfg = Inr \<lparr>co_ColumnFormats = [], co_DefaultFormat = FormatOpaque\<rparr>"
    by (simp add: CryptoOptions_def Defaults_def opaque_format)
  have decoded: "std64_decode (TrimSpace (?env v)) = Some (replicate 33 5)" for v
    by (rule std64_decode_encode) simp
  have "length (?env v) = 44" for v using length_base_encode [of 6 base64_alphabet "replicate 33 5"] by simp
  then have "?env v \<noteq> ''''" for v by (metis list.size(3) zero_neq_numeral)
  from buildCrypto_keys [OF opts _ _ refl decoded this _ clear_NewCipher, of "[]"] show ?thesis
    by (simp add: Defaults_def lower_shapes_def)
qed

end
