(* ===== verification/Csv.thy ===== *)
theory Csv
  imports RowKey
begin

text \<open>
  The text of a part file: the records that Go's \<open>csv.Writer\<close> writes for the values that
  \<open>PartWriter.encode\<close> in \<open>internal/snapshot/partition.go\<close> renders, and the reading of such a file by
  the import of the target database (\<open>COPY\<close> in CSV format). The delimiter is one byte; whether a text
  starts with white space is an argument for the sake of texts that are not ASCII.
\<close>

section \<open>Writing\<close>

definition DefaultNullSentinel :: string where
  "DefaultNullSentinel = [CHR 0x5C, CHR ''N'']"

definition encode_value :: "string \<Rightarrow> gval \<Rightarrow> string" where
  "encode_value sentinel v =
     (case v of
        GNil \<Rightarrow> sentinel
      | GString s \<Rightarrow> if s = sentinel then CHR 0x5C # s else s
      | _ \<Rightarrow> CanonicalValue v)"

definition fieldNeedsQuotes :: "(string \<Rightarrow> bool) \<Rightarrow> char \<Rightarrow> string \<Rightarrow> bool" where
  "fieldNeedsQuotes leading_space comma f \<longleftrightarrow>
     f \<noteq> [] \<and> (f = [CHR 0x5C, CHR ''.'']
       \<or> (\<exists>c \<in> set f. c = CHR 0x0A \<or> c = CHR 0x0D \<or> c = CHR 0x22 \<or> c = comma) \<or> leading_space f)"

definition quoted :: "string \<Rightarrow> string" where
  "quoted f = CHR 0x22 # concat (map (\<lambda>c. if c = CHR 0x22 then [c, c] else [c]) f) @ [CHR 0x22]"

definition csv_field :: "(string \<Rightarrow> bool) \<Rightarrow> char \<Rightarrow> string \<Rightarrow> string" where
  "csv_field sp comma f = (if fieldNeedsQuotes sp comma f then quoted f else f)"

fun csv_record :: "(string \<Rightarrow> bool) \<Rightarrow> char \<Rightarrow> string list \<Rightarrow> string" where
  "csv_record sp comma [] = [CHR 0x0A]"
| "csv_record sp comma [f] = csv_field sp comma f @ [CHR 0x0A]"
| "csv_record sp comma (f # g # fs) = csv_field sp comma f @ comma # csv_record sp comma (g # fs)"

definition valid_delim :: "char \<Rightarrow> bool" where
  "valid_delim comma \<longleftrightarrow> comma \<notin> {CHR 0x00, CHR 0x22, CHR 0x0D, CHR 0x0A}"

section \<open>Reading\<close>

text \<open>A field and whether it was quoted; what is left of the text starts at the separator.\<close>

fun read_quoted :: "string \<Rightarrow> (string \<times> string) option" where
  "read_quoted [] = None"
| "read_quoted (c # s) =
     (if c \<noteq> CHR 0x22 then map_option (apfst ((#) c)) (read_quoted s)
      else case s of
        d # s' \<Rightarrow> if d = CHR 0x22 then map_option (apfst ((#) c)) (read_quoted s') else Some ([], s)
      | [] \<Rightarrow> Some ([], []))"

definition read_field :: "char \<Rightarrow> string \<Rightarrow> ((string \<times> bool) \<times> string) option" where
  "read_field comma s =
     (if s \<noteq> [] \<and> hd s = CHR 0x22 then map_option (\<lambda>(f, r). ((f, True), r)) (read_quoted (tl s))
      else Some ((takeWhile (\<lambda>c. c \<noteq> comma \<and> c \<noteq> CHR 0x0A) s, False),
                 dropWhile (\<lambda>c. c \<noteq> comma \<and> c \<noteq> CHR 0x0A) s))"

lemma read_quoted_shorter: "read_quoted s = Some (f, r) \<Longrightarrow> length r < length s"
proof (induction s arbitrary: f r rule: read_quoted.induct)
  case (2 c s)
  then show ?case by (auto split: if_splits list.splits) (fastforce dest: less_trans)+
qed simp

lemma read_field_shorter: "read_field comma s = Some (f, r) \<Longrightarrow> length r \<le> length s"
  using length_dropWhile_le [of "\<lambda>c. c \<noteq> comma \<and> c \<noteq> CHR 0x0A" s]
  by (auto simp: read_field_def split: if_splits dest!: read_quoted_shorter)

function read_record :: "char \<Rightarrow> string \<Rightarrow> ((string \<times> bool) list \<times> string) option" where
  "read_record comma s =
     (case read_field comma s of
        None \<Rightarrow> None
      | Some (f, []) \<Rightarrow> Some ([f], [])
      | Some (f, c # r) \<Rightarrow>
          if c = CHR 0x0A then Some ([f], r)
          else if c = comma then map_option (apfst ((#) f)) (read_record comma r)
          else None)"
  by pat_completeness auto
termination
  by (relation "measure (\<lambda>(comma, s). length s)") (auto dest: read_field_shorter)

declare read_record.simps [simp del]

lemma read_record_shorter:
  "read_record comma s = Some (fs, r) \<Longrightarrow> s \<noteq> [] \<Longrightarrow> length r < length s"
proof (induction comma s arbitrary: fs rule: read_record.induct)
  case (1 comma s)
  obtain f t where field: "read_field comma s = Some (f, t)"
    using 1(2) by (auto simp: read_record.simps [of comma s] split: option.splits)
  show ?case
  proof (cases t)
    case Nil
    then show ?thesis using 1(2,3) field by (simp add: read_record.simps [of comma s])
  next
    case (Cons c u)
    have u: "length u < length s" using read_field_shorter [OF field] Cons by simp
    show ?thesis
    proof (cases "c = CHR 0x0A")
      case True
      then show ?thesis using 1(2) field Cons u by (simp add: read_record.simps [of comma s])
    next
      case False
      then obtain fs' where "read_record comma u = Some (fs', r)" "c = comma"
        using 1(2) field Cons by (auto simp: read_record.simps [of comma s] split: if_splits)
      then show ?thesis
        using 1(1) [OF field refl Cons False] u by (cases "u = []") (auto simp: read_record.simps read_field_def)
    qed
  qed
qed

function read_records :: "char \<Rightarrow> string \<Rightarrow> (string \<times> bool) list list option" where
  "read_records comma s =
     (if s = [] then Some []
      else case read_record comma s of
        None \<Rightarrow> None
      | Some (fs, r) \<Rightarrow> map_option ((#) fs) (read_records comma r))"
  by pat_completeness auto
termination
  by (relation "measure (\<lambda>(comma, s). length s)") (auto dest: read_record_shorter)

declare read_records.simps [simp del]

text \<open>An unquoted field that is the sentinel is a NULL, every other field its text.\<close>

definition import_field :: "string \<Rightarrow> string \<times> bool \<Rightarrow> string option" where
  "import_field sentinel fq = (if \<not> snd fq \<and> fst fq = sentinel then None else Some (fst fq))"

definition import_file :: "char \<Rightarrow> string \<Rightarrow> string \<Rightarrow> string option list list option" where
  "import_file comma sentinel s = map_option (map (map (import_field sentinel))) (read_records comma s)"

section \<open>What is written is read\<close>

lemma read_quoted_quoted:
  "r = [] \<or> hd r \<noteq> CHR 0x22 \<Longrightarrow>
   read_quoted (concat (map (\<lambda>c. if c = CHR 0x22 then [c, c] else [c]) f) @ CHR 0x22 # r) = Some (f, r)"
proof (induction f)
  case Nil
  then show ?case by (cases r) auto
qed auto

lemma read_field_field:
  assumes "valid_delim comma" and "sep = comma \<or> sep = CHR 0x0A"
  shows "read_field comma (csv_field sp comma f @ sep # r) = Some ((f, fieldNeedsQuotes sp comma f), sep # r)"
proof (cases "fieldNeedsQuotes sp comma f")
  case True
  have "sep \<noteq> CHR 0x22" using assms by (auto simp: valid_delim_def)
  then show ?thesis using True read_quoted_quoted [of "sep # r" f]
    by (simp add: read_field_def csv_field_def quoted_def)
next
  case False
  then have plain: "\<forall>c \<in> set f. c \<noteq> comma \<and> c \<noteq> CHR 0x0A \<and> c \<noteq> CHR 0x22"
    by (cases "f = []") (auto simp: fieldNeedsQuotes_def)
  have "takeWhile (\<lambda>c. c \<noteq> comma \<and> c \<noteq> CHR 0x0A) (f @ sep # r) = f"
    "dropWhile (\<lambda>c. c \<noteq> comma \<and> c \<noteq> CHR 0x0A) (f @ sep # r) = sep # r"
    using plain assms(2) by (auto simp: takeWhile_append dropWhile_append)
  moreover have "hd (f @ sep # r) \<noteq> CHR 0x22" using plain assms by (cases f) (auto simp: valid_delim_def)
  ultimately show ?thesis using False by (simp add: read_field_def csv_field_def)
qed

lemma read_record_record:
  assumes "valid_delim comma" and "fs \<noteq> []"
  shows "read_record comma (csv_record sp comma fs @ r) = Some (map (\<lambda>f. (f, fieldNeedsQuotes sp comma f)) fs, r)"
  using assms(2)
proof (induction fs)
  case (Cons f fs)
  show ?case
  proof (cases fs)
    case Nil
    then show ?thesis using read_field_field [OF assms(1), of "CHR 0x0A" sp f r]
      by (simp add: read_record.simps)
  next
    case (Cons g gs)
    have "comma \<noteq> CHR 0x0A" using assms(1) by (auto simp: valid_delim_def)
    then show ?thesis using Cons Cons.IH read_field_field [OF assms(1), of comma sp f "csv_record sp comma fs @ r"]
      by (simp add: read_record.simps [of comma "csv_field sp comma f @ comma # csv_record sp comma (g # gs) @ r"])
  qed
qed simp

lemma csv_record_nonempty [simp]: "csv_record sp comma fs \<noteq> []"
  by (induction sp comma fs rule: csv_record.induct) simp_all

lemma read_records_records:
  assumes "valid_delim comma" and "\<forall>fs \<in> set rs. fs \<noteq> []"
  shows "read_records comma (concat (map (csv_record sp comma) rs))
    = Some (map (map (\<lambda>f. (f, fieldNeedsQuotes sp comma f))) rs)"
  using assms(2)
proof (induction rs)
  case Nil
  then show ?case by (simp add: read_records.simps)
next
  case (Cons fs rs)
  have "read_record comma (csv_record sp comma fs @ concat (map (csv_record sp comma) rs))
      = Some (map (\<lambda>f. (f, fieldNeedsQuotes sp comma f)) fs, concat (map (csv_record sp comma) rs))"
    by (rule read_record_record [OF assms(1)]) (use Cons.prems in simp)
  then show ?case using Cons
    by (simp add: read_records.simps [of comma "csv_record sp comma fs @ concat (map (csv_record sp comma) rs)"])
qed

section \<open>What a value becomes on the way\<close>

text \<open>
  The text that a value arrives with: nothing for a NULL; the value's text, except that the text of
  the sentinel itself arrives with a backslash in front.
\<close>

definition arrives_as :: "string \<Rightarrow> gval \<Rightarrow> string option" where
  "arrives_as sentinel v =
     (if v = GNil then None
      else if v = GString sentinel then Some (CHR 0x5C # sentinel)
      else if CanonicalValue v = sentinel then None
      else Some (CanonicalValue v))"

lemma import_encode:
  assumes "\<not> fieldNeedsQuotes sp comma sentinel"
  shows "import_field sentinel (encode_value sentinel v, fieldNeedsQuotes sp comma (encode_value sentinel v))
    = arrives_as sentinel v"
proof (cases v)
  case (GString s)
  have "CHR 0x5C # sentinel \<noteq> sentinel" by (metis not_Cons_self2)
  then show ?thesis using GString by (auto simp: import_field_def encode_value_def arrives_as_def)
qed (use assms in \<open>auto simp: import_field_def encode_value_def arrives_as_def\<close>)

text \<open>
  an extracted file imports as what was extracted. For any rows with at least one column, the records
  written one after the other read back as the same rows, in order: NULL as NULL and each
  value as its canonical text. The two exceptions are values whose text is the NULL sentinel: a string
  arrives with a backslash in front of it, since nothing removes the one that was added, and any other
  value arrives as NULL.
\<close>

theorem extract_imports:
  assumes "valid_delim comma" and "\<not> fieldNeedsQuotes sp comma sentinel" and "\<forall>r \<in> set rows. r \<noteq> []"
  shows "import_file comma sentinel (concat (map (\<lambda>r. csv_record sp comma (map (encode_value sentinel) r)) rows))
    = Some (map (map (arrives_as sentinel)) rows)"
proof -
  have "read_records comma (concat (map (csv_record sp comma) (map (map (encode_value sentinel)) rows)))
    = Some (map (map (\<lambda>f. (f, fieldNeedsQuotes sp comma f))) (map (map (encode_value sentinel)) rows))"
    by (rule read_records_records [OF assms(1)]) (use assms(3) in simp)
  then show ?thesis
    by (simp add: import_file_def comp_def import_encode [OF assms(2)])
qed

theorem extract_imports_witness:
  "import_file CHR '','' DefaultNullSentinel
     (concat (map (\<lambda>r. csv_record (\<lambda>f. False) CHR '','' (map (encode_value DefaultNullSentinel) r))
        [[GInt 1, GString ''a,b''], [GNil, GString DefaultNullSentinel], [GBytes DefaultNullSentinel, GString '''']]))
   = Some [[Some ''1'', Some ''a,b''], [None, Some (CHR 0x5C # DefaultNullSentinel)], [None, Some '''']]"
proof -
  let ?rows = "[[GInt 1, GString ''a,b''], [GNil, GString DefaultNullSentinel], [GBytes DefaultNullSentinel, GString '''']]"
  have "import_file CHR '','' DefaultNullSentinel
     (concat (map (\<lambda>r. csv_record (\<lambda>f. False) CHR '','' (map (encode_value DefaultNullSentinel) r)) ?rows))
    = Some (map (map (arrives_as DefaultNullSentinel)) ?rows)"
    by (rule extract_imports) (simp_all add: valid_delim_def fieldNeedsQuotes_def DefaultNullSentinel_def)
  also have "map (map (arrives_as DefaultNullSentinel)) ?rows
    = [[Some ''1'', Some ''a,b''], [None, Some (CHR 0x5C # DefaultNullSentinel)], [None, Some '''']]"
  proof -
    have "FormatInt 1 = ''1''" by code_simp
    then show ?thesis by (simp add: arrives_as_def DefaultNullSentinel_def)
  qed
  finally show ?thesis .
qed

end
