(* ===== verification/Manifest.thy ===== *)
theory Manifest
  imports Csv TableSpec ErrClass
begin

text \<open>
  The manifest of a table's extract, \<open>internal/snapshot/manifest.go\<close>. A file of the extract directory
  is the text it holds; SHA-256 (as hexadecimal text) is an argument. The manifest file holds the
  manifest: its encoding as JSON is left to the library, its replacement by a rename is atomic.
\<close>

section \<open>Parts and manifests\<close>

definition ManifestVersion :: int where "ManifestVersion = 1"

datatype part_state = PartWriting | PartSealed | PartLoadedState | PartFailed

record part =
  pa_Index :: int
  pa_Name :: string
  pa_Bytes :: int
  pa_Rows :: int
  pa_SHA256 :: string
  pa_Compressed :: bool
  pa_ExtractLSN :: uint64
  pa_FirstKey :: string
  pa_LastKey :: string
  pa_State :: part_state
  pa_SealedAt :: gotime

definition Eligible :: "part \<Rightarrow> bool" where
  "Eligible p \<longleftrightarrow> pa_State p = PartSealed \<and> pa_SHA256 p \<noteq> ''''"

record manifest =
  mn_Version :: int
  mn_SourceTable :: string
  mn_TargetTable :: string
  mn_Columns :: "string list"
  mn_Delimiter :: string
  mn_NullSentinel :: string
  mn_Quote :: string
  mn_ExtractStartLSN :: uint64
  mn_ExtractEndLSN :: uint64
  mn_Parts :: "part list"
  mn_TotalRows :: int
  mn_CreatedAt :: gotime
  mn_SealedAt :: gotime
  mn_Complete :: bool

definition SealedParts :: "manifest \<Rightarrow> part list" where
  "SealedParts m = sort_key pa_Index (filter Eligible (mn_Parts m))"

definition part_at :: "manifest \<Rightarrow> int \<Rightarrow> part option" where
  "part_at m index = find (\<lambda>p. pa_Index p = index) (mn_Parts m)"

definition RowsInSealedParts :: "manifest \<Rightarrow> int" where
  "RowsInSealedParts m = fold (\<lambda>p n. if Eligible p then n + pa_Rows p else n) (mn_Parts m) 0"

section \<open>Validation\<close>

datatype manifest_error =
    UnsupportedVersion int
  | MissingTableNames
  | NoManifestColumns
  | NoDelimiter
  | DuplicateIndex int
  | SealedWithoutDigest int
  | NegativeRowCount int
  | StillWriting int
  | RowSumMismatch int int
  | EndBeforeStart uint64 uint64

fun check_parts :: "int list \<Rightarrow> int \<Rightarrow> part list \<Rightarrow> manifest_error + int" where
  "check_parts seen rows [] = Inr rows"
| "check_parts seen rows (p # ps) =
     (if pa_Index p \<in> set seen then Inl (DuplicateIndex (pa_Index p))
      else if pa_State p = PartSealed \<and> pa_SHA256 p = '''' then Inl (SealedWithoutDigest (pa_Index p))
      else if pa_State p = PartSealed \<and> pa_Rows p < 0 then Inl (NegativeRowCount (pa_Index p))
      else check_parts (pa_Index p # seen) (rows + pa_Rows p) ps)"

definition Manifest_Validate :: "manifest \<Rightarrow> manifest_error option" where
  "Manifest_Validate m =
     (if mn_Version m \<noteq> ManifestVersion then Some (UnsupportedVersion (mn_Version m))
      else if mn_SourceTable m = '''' \<or> mn_TargetTable m = '''' then Some MissingTableNames
      else if mn_Columns m = [] then Some NoManifestColumns
      else if mn_Delimiter m = '''' then Some NoDelimiter
      else case check_parts [] 0 (mn_Parts m) of
        Inl e \<Rightarrow> Some e
      | Inr rows \<Rightarrow>
          if \<not> mn_Complete m then None
          else case find (\<lambda>p. pa_State p = PartWriting) (mn_Parts m) of
            Some p \<Rightarrow> Some (StillWriting (pa_Index p))
          | None \<Rightarrow>
              if rows \<noteq> mn_TotalRows m then Some (RowSumMismatch (mn_TotalRows m) rows)
              else if mn_ExtractEndLSN m < mn_ExtractStartLSN m
              then Some (EndBeforeStart (mn_ExtractEndLSN m) (mn_ExtractStartLSN m))
              else None)"

section \<open>Files\<close>

type_synonym directory = "string \<rightharpoonup> string"

datatype verify_error =
    NoRecordedDigest int
  | OpeningFailed int
  | ReadingFailed int go_error
  | SizeMismatch int int int
  | DigestMismatch int string string

definition VerifyPart :: "(string \<Rightarrow> string) \<Rightarrow> go_error option \<Rightarrow> directory \<Rightarrow> part \<Rightarrow> verify_error option" where
  "VerifyPart sha fault dir p =
     (if pa_SHA256 p = '''' then Some (NoRecordedDigest (pa_Index p))
      else case dir (pa_Name p) of
        None \<Rightarrow> Some (OpeningFailed (pa_Index p))
      | Some content \<Rightarrow>
          if fault \<noteq> None then Some (ReadingFailed (pa_Index p) (the fault))
          else if int (length content) \<noteq> pa_Bytes p
          then Some (SizeMismatch (pa_Index p) (int (length content)) (pa_Bytes p))
          else if sha content \<noteq> pa_SHA256 p
          then Some (DigestMismatch (pa_Index p) (sha content) (pa_SHA256 p))
          else None)"

datatype manifest_io = EncodingFailed go_error | WritingFailed go_error | InstallingFailed go_error

definition manifest_io_error :: "manifest_io \<Rightarrow> go_error" where
  "manifest_io_error f = (case f of
       EncodingFailed e \<Rightarrow> Errorf ''encoding manifest'' e
     | WritingFailed e \<Rightarrow> Errorf ''writing manifest'' e
     | InstallingFailed e \<Rightarrow> Errorf ''installing manifest'' e)"

text \<open>The manifest file is replaced as a whole or not at all.\<close>

definition Manifest_Write :: "manifest_io option \<Rightarrow> manifest \<Rightarrow> manifest option \<Rightarrow> go_error option \<times> manifest option" where
  "Manifest_Write fault m installed =
     (case fault of Some f \<Rightarrow> (Some (manifest_io_error f), installed) | None \<Rightarrow> (None, Some m))"

datatype read_error = ReadingManifest go_error | ParsingManifest go_error | InvalidManifest manifest_error

definition ReadManifest :: "go_error + (go_error + manifest) \<Rightarrow> read_error + manifest" where
  "ReadManifest content =
     (case content of
        Inl e \<Rightarrow> Inl (ReadingManifest e)
      | Inr (Inl e) \<Rightarrow> Inl (ParsingManifest e)
      | Inr (Inr m) \<Rightarrow>
          (case Manifest_Validate m of Some e \<Rightarrow> Inl (InvalidManifest e) | None \<Rightarrow> Inr m))"

section \<open>What validation means\<close>

lemma check_parts_Inr:
  "check_parts seen rows ps = Inr n \<longleftrightarrow>
     distinct (map pa_Index ps) \<and> set (map pa_Index ps) \<inter> set seen = {}
     \<and> (\<forall>p \<in> set ps. pa_State p = PartSealed \<longrightarrow> pa_SHA256 p \<noteq> '''' \<and> 0 \<le> pa_Rows p)
     \<and> n = rows + sum_list (map pa_Rows ps)"
  by (induction ps arbitrary: seen rows) (auto simp: not_less)

lemma Manifest_Validate_None:
  "Manifest_Validate m = None \<longleftrightarrow>
     mn_Version m = ManifestVersion \<and> mn_SourceTable m \<noteq> '''' \<and> mn_TargetTable m \<noteq> ''''
     \<and> mn_Columns m \<noteq> [] \<and> mn_Delimiter m \<noteq> '''' \<and> distinct (map pa_Index (mn_Parts m))
     \<and> (\<forall>p \<in> set (mn_Parts m). pa_State p = PartSealed \<longrightarrow> pa_SHA256 p \<noteq> '''' \<and> 0 \<le> pa_Rows p)
     \<and> (mn_Complete m \<longrightarrow> (\<forall>p \<in> set (mn_Parts m). pa_State p \<noteq> PartWriting)
          \<and> mn_TotalRows m = sum_list (map pa_Rows (mn_Parts m))
          \<and> mn_ExtractStartLSN m \<le> mn_ExtractEndLSN m)"
proof -
  have parts: "(\<exists>n. check_parts [] 0 (mn_Parts m) = Inr n) \<longleftrightarrow> distinct (map pa_Index (mn_Parts m))
      \<and> (\<forall>p \<in> set (mn_Parts m). pa_State p = PartSealed \<longrightarrow> pa_SHA256 p \<noteq> '''' \<and> 0 \<le> pa_Rows p)"
    by (simp add: check_parts_Inr)
  show ?thesis
  proof (cases "check_parts [] 0 (mn_Parts m)")
    case (Inl e)
    then have "\<not> (\<exists>n. check_parts [] 0 (mn_Parts m) = Inr n)" by simp
    then show ?thesis using Inl parts by (auto simp: Manifest_Validate_def)
  next
    case (Inr n)
    note known = Inr [unfolded check_parts_Inr]
    show ?thesis
    proof (cases "find (\<lambda>p. pa_State p = PartWriting) (mn_Parts m)")
      case None
      then have "\<forall>p \<in> set (mn_Parts m). pa_State p \<noteq> PartWriting" by (auto simp: find_None_iff)
      then show ?thesis using None Inr known by (auto simp: Manifest_Validate_def not_less)
    next
      case (Some p)
      then have "p \<in> set (mn_Parts m)" "pa_State p = PartWriting" by (auto simp: find_Some_iff)
      then show ?thesis using Some Inr known by (auto simp: Manifest_Validate_def)
    qed
  qed
qed

text \<open>
  a complete manifest accounts for every row. One that validates has parts with different
  numbers, none of them still being written, whose rows add up to its total; when every part
  is sealed or being written (the only states that the writer gives), the
  loader is offered every part, in the order of their numbers, and the rows of those parts are the total.
\<close>

theorem complete_manifest_accounts:
  assumes "Manifest_Validate m = None" and "mn_Complete m"
    and "\<forall>p \<in> set (mn_Parts m). pa_State p = PartSealed \<or> pa_State p = PartWriting"
  shows "mset (SealedParts m) = mset (mn_Parts m) \<and> sorted (map pa_Index (SealedParts m))
    \<and> distinct (map pa_Index (SealedParts m)) \<and> RowsInSealedParts m = mn_TotalRows m"
proof -
  note valid = assms(1) [unfolded Manifest_Validate_None]
  have "\<forall>p \<in> set (mn_Parts m). Eligible p" using valid assms(2,3) by (auto simp: Eligible_def)
  then have all: "filter Eligible (mn_Parts m) = mn_Parts m" by (rule filter_True)
  have sum: "fold (\<lambda>p n. if Eligible p then n + pa_Rows p else n) ps k = k + sum_list (map pa_Rows ps)"
    if "\<forall>p \<in> set ps. Eligible p" for ps k
    using that by (induction ps arbitrary: k) simp_all
  have "mset (map pa_Index (SealedParts m)) = mset (map pa_Index (mn_Parts m))" by (simp add: SealedParts_def all)
  then have "distinct (map pa_Index (SealedParts m))" using valid by (metis mset_eq_imp_distinct_iff)
  then show ?thesis
    using sum [OF \<open>\<forall>p \<in> set (mn_Parts m). Eligible p\<close>, of 0] valid assms(2)
    by (simp add: SealedParts_def all RowsInSealedParts_def)
qed


section \<open>An example\<close>

definition demo_part :: "int \<Rightarrow> int \<Rightarrow> part" where
  "demo_part i n = \<lparr>pa_Index = i, pa_Name = ''p'', pa_Bytes = 9, pa_Rows = n, pa_SHA256 = ''h'', pa_Compressed = False,
     pa_ExtractLSN = 0, pa_FirstKey = [], pa_LastKey = [], pa_State = PartSealed, pa_SealedAt = 0\<rparr>"

definition demo_manifest :: manifest where
  "demo_manifest = \<lparr>mn_Version = 1, mn_SourceTable = ''s'', mn_TargetTable = ''t'', mn_Columns = [''id''],
     mn_Delimiter = '','', mn_NullSentinel = ''N'', mn_Quote = [CHR 0x22], mn_ExtractStartLSN = 1, mn_ExtractEndLSN = 2,
     mn_Parts = [demo_part 1 5, demo_part 0 7], mn_TotalRows = 12, mn_CreatedAt = 0, mn_SealedAt = 0, mn_Complete = True\<rparr>"

theorem complete_manifest_accounts_witness:
  "Manifest_Validate demo_manifest = None \<and> mset (SealedParts demo_manifest) = {#demo_part 1 5, demo_part 0 7#}
    \<and> RowsInSealedParts demo_manifest = 12"
proof -
  have valid: "Manifest_Validate demo_manifest = None"
    unfolding Manifest_Validate_None by (simp add: demo_manifest_def demo_part_def ManifestVersion_def)
  moreover have "mn_Complete demo_manifest" "\<forall>p \<in> set (mn_Parts demo_manifest). pa_State p = PartSealed \<or> pa_State p = PartWriting"
    by (simp_all add: demo_manifest_def demo_part_def)
  note complete_manifest_accounts [OF valid this]
  ultimately show ?thesis by (simp add: demo_manifest_def)
qed

end
