(* ===== verification/Parts.thy ===== *)
theory Parts
  imports Manifest
begin

text \<open>
  The extractor's output, \<open>internal/snapshot/partition.go\<close>: rows become size-bounded part files and a
  manifest. The state is the writer and what is on disk; the faults of the operating system are an
  argument of each call, as is the clock. What a part file holds while it is being written is not
  modelled: it is empty until it is sealed. Compression and SHA-256 are arguments.
\<close>

section \<open>The writer\<close>

definition DefaultMaxPartBytes :: int where "DefaultMaxPartBytes = 2 * 2 ^ 30"
definition DefaultMaxPartRows :: int where "DefaultMaxPartRows = 20000000"
definition flushThresholdBytes :: int where "flushThresholdBytes = 64 * 2 ^ 10"

record writer_config =
  wc_Dir :: string
  wc_Spec :: table_spec
  wc_MaxPartBytes :: int
  wc_MaxPartRows :: int
  wc_Compress :: bool
  wc_Delimiter :: char
  wc_NullSentinel :: string
  wc_ExtractStartLSN :: uint64

definition writer_defaults :: "writer_config \<Rightarrow> writer_config" where
  "writer_defaults c =
     c\<lparr>wc_MaxPartBytes := (if wc_MaxPartBytes c \<le> 0 then DefaultMaxPartBytes else wc_MaxPartBytes c),
       wc_MaxPartRows := (if wc_MaxPartRows c \<le> 0 then DefaultMaxPartRows else wc_MaxPartRows c),
       wc_Delimiter := (if wc_Delimiter c = CHR 0x00 then CHR '','' else wc_Delimiter c),
       wc_NullSentinel := (if wc_NullSentinel c = '''' then DefaultNullSentinel else wc_NullSentinel c)\<rparr>"

text \<open>
  \<open>op_content\<close> is the text written so far, \<open>op_flushed\<close> how much of it the last flush let through;
  between flushes the writer's buffer lets 4096 bytes through whenever it is full and more comes.
  A failed write sticks to the CSV writer.
\<close>

record open_part =
  op_index :: nat
  op_name :: string
  op_content :: string
  op_flushed :: nat
  op_rows :: int
  op_pending :: int
  op_firstKey :: string
  op_lastKey :: string
  op_failed :: "go_error option"

definition counter :: "open_part \<Rightarrow> int" where
  "counter p = int (op_flushed p + 4096 * ((length (op_content p) - op_flushed p - 1) div 4096))"

record part_writer =
  pw_cfg :: writer_config
  pw_columns :: "string list"
  pw_cur :: "open_part option"
  pw_parts :: "part list"
  pw_rows :: int
  pw_nextIdx :: nat
  pw_closed :: bool

text \<open>The disk, and the parts announced to the loader in the order of the calls of \<open>OnSeal\<close>.\<close>

record disk =
  dk_dir :: directory
  dk_manifest :: "manifest option"
  dk_announced :: "part list"

record io_faults =
  io_mkdir :: "go_error option"
  io_open :: "go_error option"
  io_write :: "go_error option"
  io_flush :: "go_error option"
  io_seal :: "go_error option"
  io_gzip :: "go_error option"
  io_sync :: "go_error option"
  io_stat :: "go_error option"
  io_close :: "go_error option"
  io_manifest :: "manifest_io option"
  io_OnSeal :: "go_error option"
  io_remove :: bool

definition calm_io :: io_faults where
  "calm_io = \<lparr>io_mkdir = None, io_open = None, io_write = None, io_flush = None, io_seal = None, io_gzip = None,
     io_sync = None, io_stat = None, io_close = None, io_manifest = None, io_OnSeal = None, io_remove = False\<rparr>"

record environment =
  ev_sha :: "string \<Rightarrow> string"
  ev_gzip :: "string \<Rightarrow> string"
  ev_leading_space :: "string \<Rightarrow> bool"

definition slug :: "table_ref \<Rightarrow> string" where
  "slug t = map (\<lambda>c. if c = CHR ''/'' \<or> c = CHR '' '' then CHR ''_'' else c) (TableRef_String t)"

definition manifestName :: "table_ref \<Rightarrow> string" where
  "manifestName t = slug t @ ''.manifest.json''"

definition zero_padded :: "nat \<Rightarrow> nat \<Rightarrow> string" where
  "zero_padded width n = replicate (width - length (digits n)) CHR ''0'' @ digits n"

definition partName :: "writer_config \<Rightarrow> nat \<Rightarrow> string" where
  "partName c index =
     slug (ts_Source (wc_Spec c)) @ ''.dat.'' @ zero_padded 5 index @ (if wc_Compress c then ''.gz'' else '''')"

definition buildManifest :: "gotime \<Rightarrow> bool \<Rightarrow> part_writer \<Rightarrow> manifest" where
  "buildManifest now all_done w =
     (let c = pw_cfg w in
      \<lparr>mn_Version = ManifestVersion, mn_SourceTable = TableRef_String (ts_Source (wc_Spec c)),
       mn_TargetTable = TableRef_String (ts_Target (wc_Spec c)), mn_Columns = pw_columns w,
       mn_Delimiter = [wc_Delimiter c], mn_NullSentinel = wc_NullSentinel c, mn_Quote = [CHR 0x22],
       mn_ExtractStartLSN = wc_ExtractStartLSN c, mn_ExtractEndLSN = 0, mn_Parts = pw_parts w,
       mn_TotalRows = pw_rows w, mn_CreatedAt = now, mn_SealedAt = (if all_done then now else 0),
       mn_Complete = all_done\<rparr>)"

definition writeManifest ::
  "io_faults \<Rightarrow> gotime \<Rightarrow> part_writer \<Rightarrow> disk \<Rightarrow> go_error option \<times> disk" where
  "writeManifest io now w d =
     (let (e, m) = Manifest_Write (io_manifest io) (buildManifest now False w) (dk_manifest d)
      in (e, d\<lparr>dk_manifest := m\<rparr>))"

section \<open>Sealing and rolling\<close>

definition stored_form :: "environment \<Rightarrow> writer_config \<Rightarrow> string \<Rightarrow> string" where
  "stored_form env c content = (if wc_Compress c then ev_gzip env content else content)"

definition sealed_part :: "environment \<Rightarrow> writer_config \<Rightarrow> gotime \<Rightarrow> open_part \<Rightarrow> part" where
  "sealed_part env c now p =
     (let stored' = stored_form env c (op_content p) in
      \<lparr>pa_Index = int (op_index p), pa_Name = op_name p, pa_Bytes = int (length stored'), pa_Rows = op_rows p,
       pa_SHA256 = ev_sha env stored', pa_Compressed = wc_Compress c, pa_ExtractLSN = wc_ExtractStartLSN c,
       pa_FirstKey = op_firstKey p, pa_LastKey = op_lastKey p, pa_State = PartSealed, pa_SealedAt = now\<rparr>)"

fun replace_part :: "part \<Rightarrow> part list \<Rightarrow> part list" where
  "replace_part s [] = []"
| "replace_part s (p # ps) = (if pa_Index p = pa_Index s then s # ps else p # replace_part s ps)"

definition part_failure :: "string \<Rightarrow> open_part \<Rightarrow> go_error \<Rightarrow> go_error" where
  "part_failure what p e = Errorf (''snapshot: '' @ what @ digits (op_index p)) e"

definition seal ::
  "environment \<Rightarrow> io_faults \<Rightarrow> gotime \<Rightarrow> part_writer \<times> disk \<Rightarrow> go_error option \<times> part_writer \<times> disk" where
  "seal env io now s =
     (let (w, d) = s in
      case pw_cur w of
        None \<Rightarrow> (None, w, d)
      | Some p \<Rightarrow>
          let c = pw_cfg w; w = w\<lparr>pw_cur := None\<rparr> in
          (case (case op_failed p of Some e \<Rightarrow> Some e | None \<Rightarrow> io_seal io) of
             Some e \<Rightarrow> (Some (part_failure ''flushing part '' p e), w, d)
           | None \<Rightarrow>
             (case (if wc_Compress c then io_gzip io else None) of
                Some e \<Rightarrow> (Some (part_failure ''closing gzip for part '' p e), w, d)
              | None \<Rightarrow>
                (case io_sync io of
                   Some e \<Rightarrow> (Some (part_failure ''syncing part '' p e), w, d)
                 | None \<Rightarrow>
                   (case io_stat io of
                      Some e \<Rightarrow> (Some (part_failure ''stat part '' p e), w, d)
                    | None \<Rightarrow>
                      (case io_close io of
                         Some e \<Rightarrow> (Some (part_failure ''closing part '' p e), w, d)
                       | None \<Rightarrow>
                         let sealed = sealed_part env c now p;
                             w = w\<lparr>pw_parts := replace_part sealed (pw_parts w)\<rparr>;
                             d = d\<lparr>dk_dir := (dk_dir d)(op_name p \<mapsto> stored_form env c (op_content p))\<rparr>;
                             (e, d) = writeManifest io now w d
                         in case e of
                              Some e \<Rightarrow> (Some e, w, d)
                            | None \<Rightarrow>
                                let d = d\<lparr>dk_announced := dk_announced d @ [sealed]\<rparr> in
                                (case io_OnSeal io of
                                   Some e \<Rightarrow> (Some (part_failure ''seal callback for part '' p e), w, d)
                                 | None \<Rightarrow> (None, w, d))))))))"

definition open_next :: "io_faults \<Rightarrow> part_writer \<times> disk \<Rightarrow> go_error option \<times> part_writer \<times> disk" where
  "open_next io s =
     (let (w, d) = s; idx = pw_nextIdx w; name = partName (pw_cfg w) idx; w = w\<lparr>pw_nextIdx := idx + 1\<rparr> in
      case io_open io of
        Some e \<Rightarrow> (Some (Errorf (''snapshot: creating part '' @ digits idx) e), w, d)
      | None \<Rightarrow>
          (None,
           w\<lparr>pw_cur := Some \<lparr>op_index = idx, op_name = name, op_content = [], op_flushed = 0, op_rows = 0,
               op_pending = 0, op_firstKey = [], op_lastKey = [], op_failed = None\<rparr>,
             pw_parts := pw_parts w @
               [\<lparr>pa_Index = int idx, pa_Name = name, pa_Bytes = 0, pa_Rows = 0, pa_SHA256 = [],
                 pa_Compressed = wc_Compress (pw_cfg w), pa_ExtractLSN = wc_ExtractStartLSN (pw_cfg w),
                 pa_FirstKey = [], pa_LastKey = [], pa_State = PartWriting, pa_SealedAt = 0\<rparr>]\<rparr>,
           d\<lparr>dk_dir := (dk_dir d)(name \<mapsto> [])\<rparr>))"

definition roll ::
  "environment \<Rightarrow> io_faults \<Rightarrow> gotime \<Rightarrow> part_writer \<times> disk \<Rightarrow> go_error option \<times> part_writer \<times> disk" where
  "roll env io now s =
     (case pw_cur (fst s) of
        None \<Rightarrow> open_next io s
      | Some p \<Rightarrow>
          (case seal env io now s of
             (Some e, s) \<Rightarrow> (Some e, s)
           | (None, s) \<Rightarrow> open_next io s))"

section \<open>The operations\<close>

datatype writer_error = NoDirectory | BadSpec spec_error | WriterFailed go_error

definition NewPartWriter ::
  "environment \<Rightarrow> io_faults \<Rightarrow> gotime \<Rightarrow> writer_config \<Rightarrow> disk \<Rightarrow> (writer_error + part_writer) \<times> disk" where
  "NewPartWriter env io now cfg d =
     (let c = writer_defaults cfg in
      if wc_Dir c = '''' then (Inl NoDirectory, d)
      else case TableSpec_Validate (wc_Spec c) of
        Some e \<Rightarrow> (Inl (BadSpec e), d)
      | None \<Rightarrow>
        (case io_mkdir io of
           Some e \<Rightarrow> (Inl (WriterFailed (Errorf ''snapshot: creating output directory'' e)), d)
         | None \<Rightarrow>
           let w = \<lparr>pw_cfg = c, pw_columns = ColumnNames (wc_Spec c), pw_cur = None, pw_parts = [],
                    pw_rows = 0, pw_nextIdx = 0, pw_closed = False\<rparr> in
           (case roll env io now (w, d) of
              (Some e, w, d) \<Rightarrow> (Inl (WriterFailed e), d)
            | (None, w, d) \<Rightarrow>
                (case writeManifest io now w d of
                   (Some e, d) \<Rightarrow> (Inl (WriterFailed e), d)
                 | (None, d) \<Rightarrow> (Inr w, d)))))"

definition row_text :: "environment \<Rightarrow> writer_config \<Rightarrow> gval list \<Rightarrow> string" where
  "row_text env c vs =
     csv_record (ev_leading_space env) (wc_Delimiter c) (map (encode_value (wc_NullSentinel c)) vs)"

definition row_estimate :: "writer_config \<Rightarrow> gval list \<Rightarrow> int" where
  "row_estimate c vs = sum_list (map (\<lambda>v. int (length (encode_value (wc_NullSentinel c) v)) + 1) vs)"

datatype row_outcome = RowWritten | RowFailed go_error | RowPanic

text \<open>What the buffers and counters of a part are after a row that was written.\<close>

definition flush_part :: "open_part \<Rightarrow> open_part" where
  "flush_part p =
     (if op_pending p \<ge> flushThresholdBytes
      then p\<lparr>op_flushed := length (op_content p), op_pending := 0\<rparr> else p)"

definition count_row :: "string \<Rightarrow> open_part \<Rightarrow> open_part" where
  "count_row key p =
     p\<lparr>op_rows := op_rows p + 1,
       op_firstKey := (if key \<noteq> '''' \<and> op_firstKey p = '''' then key else op_firstKey p),
       op_lastKey := (if key \<noteq> '''' then key else op_lastKey p)\<rparr>"

definition WriteRow ::
  "environment \<Rightarrow> io_faults \<Rightarrow> gotime \<Rightarrow> string \<Rightarrow> gval list \<Rightarrow> part_writer \<times> disk
   \<Rightarrow> row_outcome \<times> part_writer \<times> disk" where
  "WriteRow env io now key vs s =
     (let (w, d) = s; c = pw_cfg w in
      if pw_closed w then (RowFailed (plain_error ''snapshot: part writer is closed''), w, d)
      else if length vs \<noteq> length (pw_columns w)
      then (RowFailed (plain_error (''snapshot: row has '' @ digits (length vs) @ '' values but the table declares ''
              @ digits (length (pw_columns w)) @ '' columns'')), w, d)
      else case pw_cur w of
        None \<Rightarrow> (RowPanic, w, d)
      | Some p \<Rightarrow>
          (case (if \<not> valid_delim (wc_Delimiter c) then Some (plain_error ''csv: invalid field or comment delimiter'')
                 else case op_failed p of Some e \<Rightarrow> Some e | None \<Rightarrow> io_write io) of
             Some e \<Rightarrow>
               (RowFailed (part_failure ''writing row to part '' p e),
                w\<lparr>pw_cur := Some (if valid_delim (wc_Delimiter c) then p\<lparr>op_failed := Some e\<rparr> else p)\<rparr>, d)
           | None \<Rightarrow>
               let p = p\<lparr>op_content := op_content p @ row_text env c vs,
                         op_pending := op_pending p + row_estimate c vs\<rparr> in
               (case (if op_pending p \<ge> flushThresholdBytes then io_flush io else None) of
                  Some e \<Rightarrow>
                    (RowFailed (part_failure ''flushing part '' p e), w\<lparr>pw_cur := Some (p\<lparr>op_failed := Some e\<rparr>)\<rparr>, d)
                | None \<Rightarrow>
                    let p = count_row key (flush_part p);
                        w = w\<lparr>pw_cur := Some p, pw_rows := pw_rows w + 1\<rparr>
                    in if counter p + op_pending p \<ge> wc_MaxPartBytes c \<or> op_rows p \<ge> wc_MaxPartRows c
                       then (case roll env io now (w, d) of
                               (Some e, w, d) \<Rightarrow> (RowFailed e, w, d)
                             | (None, w, d) \<Rightarrow> (RowWritten, w, d))
                       else (RowWritten, w, d))))"

fun drop_part :: "int \<Rightarrow> part list \<Rightarrow> part list" where
  "drop_part idx [] = []"
| "drop_part idx (p # ps) = (if pa_Index p = idx then ps else p # drop_part idx ps)"

datatype close_error =
    AlreadyClosed
  | SealFailed go_error
  | ManifestInvalid manifest_error
  | ManifestNotWritten go_error

definition finish_part ::
  "environment \<Rightarrow> io_faults \<Rightarrow> gotime \<Rightarrow> part_writer \<times> disk \<Rightarrow> go_error option \<times> part_writer \<times> disk" where
  "finish_part env io now s =
     (let (w, d) = s in
      case pw_cur w of
        Some p \<Rightarrow>
          if op_rows p = 0 \<and> length (pw_parts w) > 1
          then (None, w\<lparr>pw_cur := None, pw_parts := drop_part (int (op_index p)) (pw_parts w)\<rparr>,
                d\<lparr>dk_dir := (if io_remove io then dk_dir d else (dk_dir d)(op_name p := None))\<rparr>)
          else seal env io now s
      | None \<Rightarrow> (None, w, d))"

definition Close ::
  "environment \<Rightarrow> io_faults \<Rightarrow> gotime \<Rightarrow> uint64 \<Rightarrow> part_writer \<times> disk
   \<Rightarrow> (close_error + manifest) \<times> part_writer \<times> disk" where
  "Close env io now extractEndLSN s =
     (if pw_closed (fst s) then (Inl AlreadyClosed, s)
      else case finish_part env io now s of
        (Some e, w, d) \<Rightarrow> (Inl (SealFailed e), w, d)
      | (None, w, d) \<Rightarrow>
          let w = w\<lparr>pw_closed := True\<rparr>;
              m = (buildManifest now True w)\<lparr>mn_ExtractEndLSN := extractEndLSN\<rparr>
          in case Manifest_Validate m of
               Some e \<Rightarrow> (Inl (ManifestInvalid e), w, d)
             | None \<Rightarrow>
                 (case Manifest_Write (io_manifest io) m (dk_manifest d) of
                    (Some e, i) \<Rightarrow> (Inl (ManifestNotWritten e), w, d\<lparr>dk_manifest := i\<rparr>)
                  | (None, i) \<Rightarrow> (Inr m, w, d\<lparr>dk_manifest := i\<rparr>)))"

section \<open>What can happen to an extract\<close>

inductive extracting :: "environment \<Rightarrow> part_writer \<times> disk \<Rightarrow> bool" for env where
  ex_new: "NewPartWriter env io now cfg \<lparr>dk_dir = dir, dk_manifest = man, dk_announced = []\<rparr> = (Inr w, d)
    \<Longrightarrow> extracting env (w, d)"
| ex_row: "extracting env s \<Longrightarrow> WriteRow env io now key vs s = (r, s') \<Longrightarrow> extracting env s'"
| ex_close: "extracting env s \<Longrightarrow> Close env io now lsn s = (r, s') \<Longrightarrow> extracting env s'"

text \<open>A run in which every row was accepted.\<close>

inductive extracted :: "environment \<Rightarrow> gval list list \<Rightarrow> part_writer \<times> disk \<Rightarrow> bool" for env where
  ed_new: "NewPartWriter env io now cfg \<lparr>dk_dir = dir, dk_manifest = man, dk_announced = []\<rparr> = (Inr w, d)
    \<Longrightarrow> extracted env [] (w, d)"
| ed_row: "extracted env rows s \<Longrightarrow> WriteRow env io now key vs s = (RowWritten, s')
    \<Longrightarrow> extracted env (rows @ [vs]) s'"

section \<open>What sealing does\<close>

lemma seal_effect:
  assumes "seal env io now (w, d) = (r, w', d')"
  shows "(w' = w\<lparr>pw_cur := None\<rparr> \<and> d' = d \<and> (r = None \<longrightarrow> pw_cur w = None))
    \<or> (\<exists>p. pw_cur w = Some p \<and> op_failed p = None
         \<and> w' = w\<lparr>pw_cur := None, pw_parts := replace_part (sealed_part env (pw_cfg w) now p) (pw_parts w)\<rparr>
         \<and> dk_dir d' = (dk_dir d)(op_name p \<mapsto> stored_form env (pw_cfg w) (op_content p))
         \<and> ((r \<noteq> None \<and> dk_manifest d' = dk_manifest d \<and> dk_announced d' = dk_announced d)
            \<or> (dk_manifest d' = Some (buildManifest now False w')
               \<and> dk_announced d' = dk_announced d @ [sealed_part env (pw_cfg w) now p])))"
proof (cases "pw_cur w")
  case None
  then show ?thesis using assms by (cases w) (auto simp: seal_def)
next
  case (Some p)
  show ?thesis
    using assms
    by (auto simp: seal_def Some Let_def writeManifest_def Manifest_Write_def split: option.splits if_splits)
qed

lemma open_next_effect:
  assumes "open_next io (w, d) = (r, w', d')"
  shows "(r \<noteq> None \<and> w' = w\<lparr>pw_nextIdx := pw_nextIdx w + 1\<rparr> \<and> d' = d)
    \<or> (r = None
       \<and> w' = w\<lparr>pw_nextIdx := pw_nextIdx w + 1,
           pw_cur := Some \<lparr>op_index = pw_nextIdx w, op_name = partName (pw_cfg w) (pw_nextIdx w), op_content = [],
             op_flushed = 0, op_rows = 0, op_pending = 0, op_firstKey = [], op_lastKey = [], op_failed = None\<rparr>,
           pw_parts := pw_parts w @ [\<lparr>pa_Index = int (pw_nextIdx w), pa_Name = partName (pw_cfg w) (pw_nextIdx w),
             pa_Bytes = 0, pa_Rows = 0, pa_SHA256 = [], pa_Compressed = wc_Compress (pw_cfg w),
             pa_ExtractLSN = wc_ExtractStartLSN (pw_cfg w), pa_FirstKey = [], pa_LastKey = [],
             pa_State = PartWriting, pa_SealedAt = 0\<rparr>]\<rparr>
       \<and> d' = d\<lparr>dk_dir := (dk_dir d)(partName (pw_cfg w) (pw_nextIdx w) \<mapsto> [])\<rparr>)"
  using assms by (auto simp: open_next_def Let_def split: option.splits)

section \<open>Names and lists of parts\<close>

lemma padded_undigits: "undigits (zero_padded width n) = n"
proof -
  have "foldl (\<lambda>a c. 10 * a + (of_char c - 48)) 0 (replicate k CHR ''0'') = (0 :: nat)" for k
    by (induction k) simp_all
  then have "undigits (replicate k CHR ''0'' @ s) = undigits s" for k s by (simp add: undigits_def)
  then show ?thesis by (simp add: zero_padded_def)
qed

lemma partName_inj [simp]: "partName c i = partName c j \<longleftrightarrow> i = j"
proof
  assume "partName c i = partName c j"
  then have "zero_padded 5 i = zero_padded 5 j" by (simp add: partName_def)
  then show "i = j" by (metis padded_undigits)
qed simp

lemma map_index_replace [simp]: "map pa_Index (replace_part s ps) = map pa_Index ps"
  by (induction ps) auto

lemma length_replace [simp]: "length (replace_part s ps) = length ps"
  by (induction ps) auto

lemma replace_part_old:
  "x \<in> set (replace_part s ps) \<Longrightarrow> distinct (map pa_Index ps) \<Longrightarrow> x = s \<or> x \<in> set ps \<and> pa_Index x \<noteq> pa_Index s"
  by (induction ps) (auto split: if_splits simp: image_iff)

lemma replace_part_keeps: "x \<in> set ps \<Longrightarrow> pa_Index x \<noteq> pa_Index s \<Longrightarrow> x \<in> set (replace_part s ps)"
  by (induction ps) auto

lemma replace_part_new: "pa_Index s \<in> pa_Index ` set ps \<Longrightarrow> s \<in> set (replace_part s ps)"
  by (induction ps) auto

lemma drop_part_subset: "set (drop_part i ps) \<subseteq> set ps"
  by (induction ps) auto

lemma drop_part_keeps: "x \<in> set ps \<Longrightarrow> pa_Index x \<noteq> i \<Longrightarrow> x \<in> set (drop_part i ps)"
  by (induction ps) auto

lemma distinct_drop_part: "distinct (map pa_Index ps) \<Longrightarrow> distinct (map pa_Index (drop_part i ps))"
proof (induction ps)
  case (Cons p ps)
  have "pa_Index ` set (drop_part i ps) \<subseteq> pa_Index ` set ps" using drop_part_subset by blast
  then show ?case using Cons by auto
qed simp

lemma VerifyPart_sealed:
  "ev_sha env (stored_form env c (op_content p)) \<noteq> '''' \<Longrightarrow>
   VerifyPart (ev_sha env) None (dir(op_name p \<mapsto> stored_form env c (op_content p))) (sealed_part env c now p) = None"
  by (simp add: VerifyPart_def sealed_part_def Let_def)

lemma VerifyPart_other:
  "pa_Name p \<noteq> name \<Longrightarrow> VerifyPart sha fault (dir(name := x)) p = VerifyPart sha fault dir p"
  by (simp add: VerifyPart_def)

section \<open>The invariant of an extract\<close>

definition part_ok :: "environment \<Rightarrow> part_writer \<Rightarrow> directory \<Rightarrow> part \<Rightarrow> bool" where
  "part_ok env w dir p \<longleftrightarrow>
     (\<exists>i < pw_nextIdx w. pa_Index p = int i \<and> pa_Name p = partName (pw_cfg w) i)
     \<and> (pa_State p = PartWriting
        \<or> pa_State p = PartSealed \<and> pa_SHA256 p \<noteq> '''' \<and> 0 \<le> pa_Rows p \<and> VerifyPart (ev_sha env) None dir p = None)"

definition parts_ok :: "environment \<Rightarrow> part_writer \<Rightarrow> directory \<Rightarrow> bool" where
  "parts_ok env w dir \<longleftrightarrow>
     distinct (map pa_Index (pw_parts w)) \<and> (\<forall>p \<in> set (pw_parts w). part_ok env w dir p)
     \<and> pw_columns w \<noteq> [] \<and> TableRef_String (ts_Source (wc_Spec (pw_cfg w))) \<noteq> ''''
     \<and> TableRef_String (ts_Target (wc_Spec (pw_cfg w))) \<noteq> ''''"

definition cur_ok :: "part_writer \<Rightarrow> bool" where
  "cur_ok w \<longleftrightarrow>
     (case pw_cur w of
        None \<Rightarrow> True
      | Some p \<Rightarrow> op_index p < pw_nextIdx w \<and> op_name p = partName (pw_cfg w) (op_index p) \<and> 0 \<le> op_rows p
          \<and> (\<exists>q \<in> set (pw_parts w). pa_Index q = int (op_index p) \<and> pa_State q = PartWriting))"

definition disk_ok :: "part_writer \<Rightarrow> disk \<Rightarrow> bool" where
  "disk_ok w d \<longleftrightarrow>
     (\<forall>m. dk_manifest d = Some m \<longrightarrow> Manifest_Validate m = None)
     \<and> (\<forall>p \<in> set (dk_announced d). p \<in> set (pw_parts w) \<and> pa_State p = PartSealed
          \<and> (\<exists>m. dk_manifest d = Some m \<and> p \<in> set (mn_Parts m)))"

definition extract_inv :: "environment \<Rightarrow> part_writer \<times> disk \<Rightarrow> bool" where
  "extract_inv env s \<longleftrightarrow>
     (let (w, d) = s in parts_ok env w (dk_dir d) \<and> cur_ok w \<and> disk_ok w d)"

lemma buildManifest_valid:
  "parts_ok env w dir \<Longrightarrow> Manifest_Validate (buildManifest now False w) = None"
  by (auto simp: Manifest_Validate_None buildManifest_def Let_def parts_ok_def part_ok_def)

lemma sealed_parts_ok:
  assumes "parts_ok env w dir" and "cur_ok w" and "pw_cur w = Some p" and "\<And>s. ev_sha env s \<noteq> ''''"
    and "w' = w\<lparr>pw_cur := None, pw_parts := replace_part (sealed_part env (pw_cfg w) now p) (pw_parts w)\<rparr>"
  shows "parts_ok env w' (dir(op_name p \<mapsto> stored_form env (pw_cfg w) (op_content p)))"
proof -
  let ?s = "sealed_part env (pw_cfg w) now p"
  let ?dir = "dir(op_name p \<mapsto> stored_form env (pw_cfg w) (op_content p))"
  have cur: "op_index p < pw_nextIdx w" "op_name p = partName (pw_cfg w) (op_index p)" "0 \<le> op_rows p"
    using assms(2,3) by (auto simp: cur_ok_def)
  have fields: "pa_Index ?s = int (op_index p)" "pa_Name ?s = op_name p" "pa_State ?s = PartSealed"
      "pa_Rows ?s = op_rows p" "pa_SHA256 ?s \<noteq> ''''"
    using assms(4) by (simp_all add: sealed_part_def Let_def)
  have "part_ok env w' ?dir q" if "q \<in> set (replace_part ?s (pw_parts w))" for q
  proof -
    have "q = ?s \<or> q \<in> set (pw_parts w) \<and> pa_Index q \<noteq> pa_Index ?s"
      using replace_part_old [OF that] assms(1) by (simp add: parts_ok_def)
    then show ?thesis
    proof
      assume q: "q = ?s"
      have "VerifyPart (ev_sha env) None ?dir ?s = None" by (rule VerifyPart_sealed [OF assms(4)])
      then have "pa_State q = PartSealed \<and> pa_SHA256 q \<noteq> '''' \<and> 0 \<le> pa_Rows q
          \<and> VerifyPart (ev_sha env) None ?dir q = None"
        using fields cur(3) by (simp add: q)
      moreover have "\<exists>i < pw_nextIdx w'. pa_Index q = int i \<and> pa_Name q = partName (pw_cfg w') i"
        using cur(1,2) fields(1,2) by (intro exI [of _ "op_index p"]) (simp add: q assms(5))
      ultimately show ?thesis unfolding part_ok_def by blast
    next
      assume q: "q \<in> set (pw_parts w) \<and> pa_Index q \<noteq> pa_Index ?s"
      then have ok: "part_ok env w dir q" using assms(1) by (simp add: parts_ok_def)
      then have "pa_Name q \<noteq> op_name p" using q fields(1) cur(2) by (auto simp: part_ok_def)
      then show ?thesis using ok by (simp add: part_ok_def assms(5) VerifyPart_other)
    qed
  qed
  then show ?thesis using assms(1) by (simp add: parts_ok_def assms(5))
qed

lemma seal_inv:
  assumes "extract_inv env (w, d)" and "\<And>s. ev_sha env s \<noteq> ''''" and "seal env io now (w, d) = (r, w', d')"
  shows "extract_inv env (w', d') \<and> pw_cur w' = None \<and> pw_cfg w' = pw_cfg w"
proof -
  have inv: "parts_ok env w (dk_dir d)" "cur_ok w" "disk_ok w d" using assms(1) by (simp_all add: extract_inv_def)
  from seal_effect [OF assms(3)] show ?thesis
  proof
    assume "w' = w\<lparr>pw_cur := None\<rparr> \<and> d' = d \<and> (r = None \<longrightarrow> pw_cur w = None)"
    then show ?thesis using inv by (auto simp: extract_inv_def parts_ok_def part_ok_def cur_ok_def disk_ok_def)
  next
    assume "\<exists>p. pw_cur w = Some p \<and> op_failed p = None
         \<and> w' = w\<lparr>pw_cur := None, pw_parts := replace_part (sealed_part env (pw_cfg w) now p) (pw_parts w)\<rparr>
         \<and> dk_dir d' = (dk_dir d)(op_name p \<mapsto> stored_form env (pw_cfg w) (op_content p))
         \<and> ((r \<noteq> None \<and> dk_manifest d' = dk_manifest d \<and> dk_announced d' = dk_announced d)
            \<or> (dk_manifest d' = Some (buildManifest now False w')
               \<and> dk_announced d' = dk_announced d @ [sealed_part env (pw_cfg w) now p]))"
    then obtain p where p: "pw_cur w = Some p"
      "w' = w\<lparr>pw_cur := None, pw_parts := replace_part (sealed_part env (pw_cfg w) now p) (pw_parts w)\<rparr>"
      "dk_dir d' = (dk_dir d)(op_name p \<mapsto> stored_form env (pw_cfg w) (op_content p))"
      and writes: "(dk_manifest d' = dk_manifest d \<and> dk_announced d' = dk_announced d)
            \<or> (dk_manifest d' = Some (buildManifest now False w')
               \<and> dk_announced d' = dk_announced d @ [sealed_part env (pw_cfg w) now p])"
      by blast
    let ?s = "sealed_part env (pw_cfg w) now p"
    have ok: "parts_ok env w' (dk_dir d')" unfolding p(3) by (rule sealed_parts_ok [OF inv(1,2) p(1) assms(2) p(2)])
    obtain q where q: "q \<in> set (pw_parts w)" "pa_Index q = int (op_index p)" "pa_State q = PartWriting"
      using inv(2) p(1) by (auto simp: cur_ok_def)
    have index: "pa_Index ?s = int (op_index p)" "pa_State ?s = PartSealed" by (simp_all add: sealed_part_def Let_def)
    have "pa_Index ?s \<in> pa_Index ` set (pw_parts w)" using q(1,2) index(1) by (metis image_eqI)
    then have new: "?s \<in> set (pw_parts w')" using replace_part_new by (simp add: p(2))
    have kept: "x \<in> set (pw_parts w')" if "x \<in> set (dk_announced d)" for x
    proof -
      have x: "x \<in> set (pw_parts w)" "pa_State x = PartSealed" using inv(3) that by (auto simp: disk_ok_def)
      have "pa_Index x \<noteq> int (op_index p)"
      proof
        assume "pa_Index x = int (op_index p)"
        then have "x = q" using x(1) q(1,2) inv(1) by (auto simp: parts_ok_def distinct_map inj_on_def)
        then show False using x(2) q(3) by simp
      qed
      then show ?thesis using x(1) index(1) by (auto simp: p(2) intro!: replace_part_keeps)
    qed
    have "disk_ok w' d'" using writes
    proof
      assume "dk_manifest d' = dk_manifest d \<and> dk_announced d' = dk_announced d"
      then show ?thesis using inv(3) kept by (auto simp: disk_ok_def)
    next
      assume m: "dk_manifest d' = Some (buildManifest now False w') \<and> dk_announced d' = dk_announced d @ [?s]"
      have "mn_Parts (buildManifest now False w') = pw_parts w'" by (simp add: buildManifest_def Let_def)
      then show ?thesis
        using inv(3) kept m new index(2) buildManifest_valid [OF ok] by (auto simp: disk_ok_def)
    qed
    then show ?thesis using ok by (simp add: extract_inv_def p(2) cur_ok_def)
  qed
qed

lemma disk_ok_more:
  assumes "disk_ok w d" and "set (pw_parts w) \<subseteq> set (pw_parts w')"
    and "dk_manifest d' = dk_manifest d" and "dk_announced d' = dk_announced d"
  shows "disk_ok w' d'"
  using assms unfolding disk_ok_def by (metis subsetD)

lemma open_next_inv:
  assumes "extract_inv env (w, d)" and "pw_cur w = None" and "open_next io (w, d) = (r, w', d')"
  shows "extract_inv env (w', d') \<and> pw_cfg w' = pw_cfg w"
  using open_next_effect [OF assms(3)]
proof
  assume "r \<noteq> None \<and> w' = w\<lparr>pw_nextIdx := pw_nextIdx w + 1\<rparr> \<and> d' = d"
  then show ?thesis using assms(1,2)
    by (auto simp: extract_inv_def parts_ok_def part_ok_def cur_ok_def disk_ok_def intro: less_SucI)
next
  let ?name = "partName (pw_cfg w) (pw_nextIdx w)"
  let ?p = "\<lparr>pa_Index = int (pw_nextIdx w), pa_Name = ?name, pa_Bytes = 0, pa_Rows = 0, pa_SHA256 = [],
     pa_Compressed = wc_Compress (pw_cfg w), pa_ExtractLSN = wc_ExtractStartLSN (pw_cfg w), pa_FirstKey = [],
     pa_LastKey = [], pa_State = PartWriting, pa_SealedAt = 0\<rparr> :: part"
  assume "r = None
       \<and> w' = w\<lparr>pw_nextIdx := pw_nextIdx w + 1,
           pw_cur := Some \<lparr>op_index = pw_nextIdx w, op_name = ?name, op_content = [], op_flushed = 0, op_rows = 0,
             op_pending = 0, op_firstKey = [], op_lastKey = [], op_failed = None\<rparr>,
           pw_parts := pw_parts w @ [?p]\<rparr>
       \<and> d' = d\<lparr>dk_dir := (dk_dir d)(?name \<mapsto> [])\<rparr>"
  then have w': "pw_nextIdx w' = pw_nextIdx w + 1" "pw_parts w' = pw_parts w @ [?p]" "pw_cfg w' = pw_cfg w"
      "pw_columns w' = pw_columns w"
      "pw_cur w' = Some \<lparr>op_index = pw_nextIdx w, op_name = ?name, op_content = [], op_flushed = 0, op_rows = 0,
             op_pending = 0, op_firstKey = [], op_lastKey = [], op_failed = None\<rparr>"
    and d': "dk_dir d' = (dk_dir d)(?name \<mapsto> [])" "dk_manifest d' = dk_manifest d" "dk_announced d' = dk_announced d"
    by simp_all
  have inv: "parts_ok env w (dk_dir d)" "disk_ok w d" using assms(1) by (simp_all add: extract_inv_def)
  have below: "\<exists>i < pw_nextIdx w. pa_Index q = int i \<and> pa_Name q = partName (pw_cfg w) i"
    if "q \<in> set (pw_parts w)" for q using inv(1) that by (auto simp: parts_ok_def part_ok_def)
  have "part_ok env w' (dk_dir d') q" if q: "q \<in> set (pw_parts w)" for q
  proof -
    have "pa_Name q \<noteq> ?name" using below [OF q] by auto
    then have "VerifyPart (ev_sha env) None (dk_dir d') q = VerifyPart (ev_sha env) None (dk_dir d) q"
      unfolding d'(1) by (rule VerifyPart_other)
    moreover have "part_ok env w (dk_dir d) q" using inv(1) q by (simp add: parts_ok_def)
    ultimately show ?thesis by (auto simp: part_ok_def w'(1,3) intro: less_SucI)
  qed
  moreover have "part_ok env w' (dk_dir d') ?p" by (simp add: part_ok_def w'(1,3))
  moreover have "distinct (map pa_Index (pw_parts w @ [?p]))"
    using inv(1) below by (fastforce simp: parts_ok_def)
  ultimately have "parts_ok env w' (dk_dir d')" using inv(1) by (simp add: parts_ok_def w')
  moreover have "cur_ok w'" by (simp add: cur_ok_def w')
  moreover have "disk_ok w' d'" by (rule disk_ok_more [OF inv(2)]) (auto simp: w' d')
  ultimately show ?thesis by (simp add: extract_inv_def w'(3))
qed

lemma roll_inv:
  assumes "extract_inv env (w, d)" and "\<And>s. ev_sha env s \<noteq> ''''" and "roll env io now (w, d) = (r, w', d')"
  shows "extract_inv env (w', d') \<and> pw_cfg w' = pw_cfg w"
proof (cases "pw_cur w")
  case None
  then show ?thesis using open_next_inv [OF assms(1) None] assms(3) by (simp add: roll_def)
next
  case (Some p)
  obtain r1 w1 d1 where seal: "seal env io now (w, d) = (r1, w1, d1)" by (metis surj_pair)
  note inv = seal_inv [OF assms(1,2) seal]
  show ?thesis
  proof (cases r1)
    case None
    then have "open_next io (w1, d1) = (r, w', d')" using assms(3) Some seal by (simp add: roll_def)
    then show ?thesis using open_next_inv [of env w1 d1 io r w' d'] inv by simp
  next
    case failed: (Some e)
    then show ?thesis using assms(3) Some seal inv by (simp add: roll_def)
  qed
qed

lemma cur_inv:
  assumes "extract_inv env (w, d)" and "pw_cur w = Some p" and "op_index p' = op_index p" and "op_name p' = op_name p"
    and "0 \<le> op_rows p'"
  shows "extract_inv env (w\<lparr>pw_cur := Some p', pw_rows := n\<rparr>, d) \<and> extract_inv env (w\<lparr>pw_cur := Some p'\<rparr>, d)"
  using assms by (auto simp: extract_inv_def parts_ok_def part_ok_def cur_ok_def disk_ok_def)

lemma part_fields [simp]:
  "op_index (flush_part p) = op_index p" "op_name (flush_part p) = op_name p" "op_rows (flush_part p) = op_rows p"
  "op_content (flush_part p) = op_content p" "op_failed (flush_part p) = op_failed p"
  "op_index (count_row key p) = op_index p" "op_name (count_row key p) = op_name p"
  "op_rows (count_row key p) = op_rows p + 1" "op_content (count_row key p) = op_content p"
  "op_failed (count_row key p) = op_failed p" "op_pending (count_row key p) = op_pending p"
  "op_flushed (count_row key p) = op_flushed p"
  by (simp_all add: flush_part_def count_row_def)

text \<open>A row is refused by the writer, lost by the file, or written; then the part may be full.\<close>

lemma WriteRow_effect:
  assumes "WriteRow env io now key vs (w, d) = (out, w', d')"
  shows "(out \<noteq> RowWritten \<and> d' = d \<and> (w' = w \<or> (\<exists>p p'. pw_cur w = Some p \<and> w' = w\<lparr>pw_cur := Some p'\<rparr>
            \<and> op_index p' = op_index p \<and> op_name p' = op_name p \<and> op_rows p' = op_rows p)))
    \<or> (\<exists>p p1 p2 w2. pw_cur w = Some p \<and> \<not> pw_closed w \<and> length vs = length (pw_columns w)
         \<and> valid_delim (wc_Delimiter (pw_cfg w)) \<and> op_failed p = None
         \<and> p1 = p\<lparr>op_content := op_content p @ row_text env (pw_cfg w) vs,
                  op_pending := op_pending p + row_estimate (pw_cfg w) vs\<rparr>
         \<and> p2 = count_row key (flush_part p1) \<and> w2 = w\<lparr>pw_cur := Some p2, pw_rows := pw_rows w + 1\<rparr>
         \<and> (if counter p2 + op_pending p2 \<ge> wc_MaxPartBytes (pw_cfg w) \<or> op_rows p2 \<ge> wc_MaxPartRows (pw_cfg w)
            then \<exists>r. roll env io now (w2, d) = (r, w', d') \<and> (out = RowWritten \<longleftrightarrow> r = None)
            else out = RowWritten \<and> w' = w2 \<and> d' = d))"
proof (cases "pw_closed w \<or> length vs \<noteq> length (pw_columns w) \<or> pw_cur w = None")
  case True
  then show ?thesis using assms by (auto simp: WriteRow_def Let_def split: if_splits option.splits)
next
  case False
  then obtain p where p: "pw_cur w = Some p" by blast
  let ?fault = "if \<not> valid_delim (wc_Delimiter (pw_cfg w)) then Some (plain_error ''csv: invalid field or comment delimiter'')
                 else case op_failed p of Some e \<Rightarrow> Some e | None \<Rightarrow> io_write io"
  define p1 where "p1 = p\<lparr>op_content := op_content p @ row_text env (pw_cfg w) vs,
                  op_pending := op_pending p + row_estimate (pw_cfg w) vs\<rparr>"
  define p2 where "p2 = count_row key (flush_part p1)"
  define w2 where "w2 = w\<lparr>pw_cur := Some p2, pw_rows := pw_rows w + 1\<rparr>"
  show ?thesis
  proof (cases ?fault)
    case (Some e)
    then show ?thesis using assms False p by (auto simp: WriteRow_def Let_def)
  next
    case None
    then have fine: "valid_delim (wc_Delimiter (pw_cfg w))" "op_failed p = None"
      by (auto split: if_splits option.splits)
    show ?thesis
    proof (cases "if op_pending p1 \<ge> flushThresholdBytes then io_flush io else None")
      case (Some e)
      then show ?thesis using assms False p None by (auto simp: WriteRow_def Let_def p1_def)
    next
      case flushed: None
      have "(if counter p2 + op_pending p2 \<ge> wc_MaxPartBytes (pw_cfg w) \<or> op_rows p2 \<ge> wc_MaxPartRows (pw_cfg w)
            then \<exists>r. roll env io now (w2, d) = (r, w', d') \<and> (out = RowWritten \<longleftrightarrow> r = None)
            else out = RowWritten \<and> w' = w2 \<and> d' = d)"
        using assms False p None flushed unfolding p2_def w2_def
        by (auto simp: WriteRow_def Let_def p1_def split: option.splits prod.splits if_splits)
      then show ?thesis using False p fine p1_def p2_def w2_def by blast
    qed
  qed
qed

lemma WriteRow_inv:
  assumes "extract_inv env (w, d)" and "\<And>s. ev_sha env s \<noteq> ''''" and "WriteRow env io now key vs (w, d) = (out, w', d')"
  shows "extract_inv env (w', d')"
  using WriteRow_effect [OF assms(3)]
proof (elim disjE exE conjE)
  fix p p' assume "pw_cur w = Some p" "w' = w\<lparr>pw_cur := Some p'\<rparr>" "d' = d"
    "op_index p' = op_index p" "op_name p' = op_name p" "op_rows p' = op_rows p"
  moreover have "0 \<le> op_rows p" using assms(1) \<open>pw_cur w = Some p\<close> by (simp add: extract_inv_def cur_ok_def)
  ultimately show ?thesis using cur_inv [OF assms(1), of p p'] by simp
next
  fix p p1 p2 w2
  assume p: "pw_cur w = Some p" and p1: "p1 = p\<lparr>op_content := op_content p @ row_text env (pw_cfg w) vs,
      op_pending := op_pending p + row_estimate (pw_cfg w) vs\<rparr>"
    and p2: "p2 = count_row key (flush_part p1)" and w2: "w2 = w\<lparr>pw_cur := Some p2, pw_rows := pw_rows w + 1\<rparr>"
    and rest: "if counter p2 + op_pending p2 \<ge> wc_MaxPartBytes (pw_cfg w) \<or> op_rows p2 \<ge> wc_MaxPartRows (pw_cfg w)
            then \<exists>r. roll env io now (w2, d) = (r, w', d') \<and> (out = RowWritten \<longleftrightarrow> r = None)
            else out = RowWritten \<and> w' = w2 \<and> d' = d"
  have "0 \<le> op_rows p" using assms(1) p by (simp add: extract_inv_def cur_ok_def)
  then have inv: "extract_inv env (w2, d)"
    unfolding w2 by (intro cur_inv [OF assms(1) p, THEN conjunct1]) (simp_all add: p2 p1)
  show ?thesis
  proof (cases "counter p2 + op_pending p2 \<ge> wc_MaxPartBytes (pw_cfg w) \<or> op_rows p2 \<ge> wc_MaxPartRows (pw_cfg w)")
    case True
    then obtain r where "roll env io now (w2, d) = (r, w', d')" using rest by auto
    from roll_inv [OF inv assms(2) this] show ?thesis by simp
  next
    case False
    then have "w' = w2" "d' = d" using rest by simp_all
    then show ?thesis using inv by simp
  qed
qed (use assms(1) in simp)

lemma closed_inv: "extract_inv env (w, d) \<Longrightarrow> extract_inv env (w\<lparr>pw_closed := b\<rparr>, d)"
  by (simp add: extract_inv_def parts_ok_def part_ok_def cur_ok_def disk_ok_def split: option.splits)

lemma drop_inv:
  assumes "extract_inv env (w, d)" and "pw_cur w = Some p"
    and "w' = w\<lparr>pw_cur := None, pw_parts := drop_part (int (op_index p)) (pw_parts w)\<rparr>"
    and "dk_dir d' = dk_dir d \<or> dk_dir d' = (dk_dir d)(op_name p := None)"
    and "dk_manifest d' = dk_manifest d" and "dk_announced d' = dk_announced d"
  shows "extract_inv env (w', d')"
proof -
  have inv: "parts_ok env w (dk_dir d)" "cur_ok w" "disk_ok w d" using assms(1) by (simp_all add: extract_inv_def)
  obtain q where q: "q \<in> set (pw_parts w)" "pa_Index q = int (op_index p)" "pa_State q = PartWriting"
    and name: "op_name p = partName (pw_cfg w) (op_index p)" using inv(2) assms(2) by (auto simp: cur_ok_def)
  have only: "x = q" if "x \<in> set (pw_parts w)" "pa_Index x = int (op_index p)" for x
    using that q(1,2) inv(1) by (auto simp: parts_ok_def distinct_map inj_on_def)
  have "part_ok env w' (dk_dir d') x" if "x \<in> set (pw_parts w')" for x
  proof -
    have x: "x \<in> set (pw_parts w)" using that drop_part_subset by (auto simp: assms(3))
    then have ok: "part_ok env w (dk_dir d) x" using inv(1) by (simp add: parts_ok_def)
    show ?thesis
    proof (cases "pa_State x = PartSealed")
      case True
      then have "pa_Index x \<noteq> int (op_index p)" using only [OF x] q(3) by auto
      then have "pa_Name x \<noteq> op_name p" using ok name by (auto simp: part_ok_def)
      then have "VerifyPart (ev_sha env) None (dk_dir d') x = VerifyPart (ev_sha env) None (dk_dir d) x"
        using assms(4) VerifyPart_other by metis
      then show ?thesis using ok by (simp add: part_ok_def assms(3))
    next
      case False
      then show ?thesis using ok by (simp add: part_ok_def assms(3))
    qed
  qed
  then have "parts_ok env w' (dk_dir d')"
    using inv(1) distinct_drop_part by (simp add: parts_ok_def assms(3))
  moreover have "x \<in> set (pw_parts w')" if "x \<in> set (dk_announced d)" for x
  proof -
    have "x \<in> set (pw_parts w)" "pa_State x = PartSealed" using inv(3) that by (auto simp: disk_ok_def)
    then show ?thesis using only [of x] q(3) by (auto simp: assms(3) intro!: drop_part_keeps)
  qed
  then have "disk_ok w' d'" using inv(3) by (simp add: disk_ok_def assms(5,6))
  ultimately show ?thesis by (simp add: extract_inv_def assms(3) cur_ok_def)
qed

lemma finish_part_inv:
  assumes "extract_inv env (w, d)" and "\<And>s. ev_sha env s \<noteq> ''''" and "finish_part env io now (w, d) = (r, w', d')"
  shows "extract_inv env (w', d') \<and> pw_cur w' = None \<and> pw_cfg w' = pw_cfg w"
proof (cases "pw_cur w")
  case None
  then show ?thesis using assms by (simp add: finish_part_def)
next
  case (Some p)
  show ?thesis
  proof (cases "op_rows p = 0 \<and> length (pw_parts w) > 1")
    case True
    then have w': "w' = w\<lparr>pw_cur := None, pw_parts := drop_part (int (op_index p)) (pw_parts w)\<rparr>"
      and d': "d' = d\<lparr>dk_dir := (if io_remove io then dk_dir d else (dk_dir d)(op_name p := None))\<rparr>"
      using assms(3) Some by (simp_all add: finish_part_def)
    have "extract_inv env (w', d')" by (rule drop_inv [OF assms(1) Some w']) (simp_all add: d')
    then show ?thesis by (simp add: w')
  next
    case False
    then have "seal env io now (w, d) = (r, w', d')"
      using assms(3) unfolding finish_part_def Let_def prod.case Some option.case by (simp only: if_not_P if_False)
    from seal_inv [OF assms(1,2) this] show ?thesis .
  qed
qed

lemma Close_inv:
  assumes "extract_inv env s" and "\<And>s. ev_sha env s \<noteq> ''''" and "Close env io now lsn s = (r, s')"
  shows "extract_inv env s'"
proof (cases "pw_closed (fst s)")
  case True
  then show ?thesis using assms(1,3) by (simp add: Close_def)
next
  case False
  obtain w d where s: "s = (w, d)" by (cases s)
  obtain e w1 d1 where fin: "finish_part env io now (w, d) = (e, w1, d1)" by (metis surj_pair)
  have inv: "extract_inv env (w1, d1)" using finish_part_inv [OF assms(1) [unfolded s] assms(2) fin] by simp
  let ?w = "w1\<lparr>pw_closed := True\<rparr>"
  let ?m = "(buildManifest now True ?w)\<lparr>mn_ExtractEndLSN := lsn\<rparr>"
  have inv': "extract_inv env (?w, d1)" by (rule closed_inv [OF inv])
  have "mn_Parts ?m = pw_parts ?w" by (simp add: buildManifest_def Let_def)
  then have written: "extract_inv env (?w, d1\<lparr>dk_manifest := Some ?m\<rparr>)" if "Manifest_Validate ?m = None"
    using inv' that by (auto simp: extract_inv_def disk_ok_def)
  show ?thesis
    using assms(3) False fin inv inv' written
    by (auto simp: s Close_def Let_def Manifest_Write_def split: option.splits)
qed

lemma TableRef_String_nonempty: "tr_Name t \<noteq> '''' \<Longrightarrow> TableRef_String t \<noteq> ''''"
  by (simp add: TableRef_String_def)

lemma NewPartWriter_inv:
  assumes "NewPartWriter env io now cfg \<lparr>dk_dir = dir, dk_manifest = man, dk_announced = []\<rparr> = (Inr w, d)"
    and "\<And>s. ev_sha env s \<noteq> ''''"
  shows "extract_inv env (w, d)"
proof -
  let ?c = "writer_defaults cfg"
  let ?w = "\<lparr>pw_cfg = ?c, pw_columns = ColumnNames (wc_Spec ?c), pw_cur = None, pw_parts = [],
                    pw_rows = 0, pw_nextIdx = 0, pw_closed = False\<rparr>"
  let ?d = "\<lparr>dk_dir = dir, dk_manifest = None, dk_announced = []\<rparr>"
  obtain d1 where run: "roll env io now (?w, \<lparr>dk_dir = dir, dk_manifest = man, dk_announced = []\<rparr>) = (None, w, d1)"
    "writeManifest io now w d1 = (None, d)" and valid: "TableSpec_Validate (wc_Spec ?c) = None"
    using assms(1) by (auto simp: NewPartWriter_def Let_def split: if_splits option.splits prod.splits)
  have roll: "open_next io (?w, \<lparr>dk_dir = dir, dk_manifest = man, dk_announced = []\<rparr>) = (None, w, d1)"
    using run(1) by (simp add: roll_def)
  have fresh: "open_next io (?w, ?d) = (None, w, d1\<lparr>dk_manifest := None\<rparr>)"
    using roll by (auto simp: open_next_def Let_def split: option.splits)
  have spec: "tr_Name (ts_Source (wc_Spec ?c)) \<noteq> ''''" "tr_Name (ts_Target (wc_Spec ?c)) \<noteq> ''''"
      "ts_Columns (wc_Spec ?c) \<noteq> []"
    using valid by (simp_all add: TableSpec_Validate_None well_formed_def)
  have "extract_inv env (?w, ?d)"
    using spec TableRef_String_nonempty by (simp add: extract_inv_def parts_ok_def cur_ok_def disk_ok_def ColumnNames_def)
  from open_next_inv [OF this _ fresh] have inv: "extract_inv env (w, d1\<lparr>dk_manifest := None\<rparr>)" by simp
  have "dk_announced d1 = []" using open_next_effect [OF roll] by auto
  moreover have "d = d1\<lparr>dk_manifest := Some (buildManifest now False w)\<rparr>"
    using run(2) by (auto simp: writeManifest_def Manifest_Write_def split: option.splits)
  moreover have "parts_ok env w (dk_dir d1)" "cur_ok w" using inv by (simp_all add: extract_inv_def)
  ultimately show ?thesis
    using buildManifest_valid by (auto simp: extract_inv_def disk_ok_def)
qed

lemma extracting_inv: "extracting env s \<Longrightarrow> (\<And>x. ev_sha env x \<noteq> '''') \<Longrightarrow> extract_inv env s"
proof (induction rule: extracting.induct)
  case (ex_new io now cfg dir man w d)
  then show ?case using NewPartWriter_inv by blast
next
  case (ex_row s io now key vs r s')
  then show ?case using WriteRow_inv by (metis surj_pair)
next
  case (ex_close s io now lsn r s')
  then show ?case using Close_inv by metis
qed

text \<open>
  C23: a part that the loader hears of is durable, listed and intact. Whatever the operating system refuses
  at any moment, when a part has been announced then the manifest on disk is valid and offers it
  to the loader, and its file has the size and digest recorded, and this stays so during the rest of the
  extract: no later part, failed call or close overwrites it.
\<close>

theorem announced_parts_verify:
  assumes "extracting env (w, d)" and "\<forall>x. ev_sha env x \<noteq> ''''" and "p \<in> set (dk_announced d)"
  shows "VerifyPart (ev_sha env) None (dk_dir d) p = None
    \<and> (\<exists>m. dk_manifest d = Some m \<and> Manifest_Validate m = None \<and> p \<in> set (SealedParts m))"
proof -
  have "extract_inv env (w, d)" using extracting_inv [OF assms(1)] assms(2) by blast
  then have inv: "parts_ok env w (dk_dir d)" "disk_ok w d" by (simp_all add: extract_inv_def)
  obtain m where p: "p \<in> set (pw_parts w)" "pa_State p = PartSealed" and m: "dk_manifest d = Some m" "p \<in> set (mn_Parts m)"
      "Manifest_Validate m = None"
    using inv(2) assms(3) by (auto simp: disk_ok_def)
  have "part_ok env w (dk_dir d) p" using inv(1) p(1) by (simp add: parts_ok_def)
  then have "VerifyPart (ev_sha env) None (dk_dir d) p = None" "Eligible p"
    using p(2) by (auto simp: part_ok_def Eligible_def)
  then show ?thesis using m by (simp add: SealedParts_def)
qed

section \<open>Every row is in one part\<close>

definition part_text :: "environment \<Rightarrow> writer_config \<Rightarrow> gval list list \<Rightarrow> string" where
  "part_text env c rows = concat (map (row_text env c) rows)"

definition within_limits :: "environment \<Rightarrow> writer_config \<Rightarrow> gval list list \<Rightarrow> bool" where
  "within_limits env c rows \<longleftrightarrow>
     int (length rows) \<le> wc_MaxPartRows c \<and> 0 < wc_MaxPartBytes c
     \<and> int (length (part_text env c (butlast rows))) < wc_MaxPartBytes c + 4096"

definition holds_rows :: "environment \<Rightarrow> writer_config \<Rightarrow> directory \<Rightarrow> part \<Rightarrow> gval list list \<Rightarrow> bool" where
  "holds_rows env c dir p rows \<longleftrightarrow>
     pa_State p = PartSealed \<and> pa_Rows p = int (length rows) \<and> within_limits env c rows
     \<and> dir (pa_Name p) = Some (stored_form env c (part_text env c rows))"

definition has_room :: "writer_config \<Rightarrow> open_part \<Rightarrow> bool" where
  "has_room c p \<longleftrightarrow> 0 \<le> op_pending p \<and> op_flushed p \<le> length (op_content p)
     \<and> counter p + op_pending p < wc_MaxPartBytes c \<and> op_rows p < wc_MaxPartRows c"

definition cur_holds :: "environment \<Rightarrow> writer_config \<Rightarrow> open_part \<Rightarrow> gval list list \<Rightarrow> bool" where
  "cur_holds env c p rows \<longleftrightarrow>
     op_content p = part_text env c rows \<and> op_rows p = int (length rows) \<and> op_failed p = None"

definition log_inv :: "environment \<Rightarrow> gval list list \<Rightarrow> part_writer \<times> disk \<Rightarrow> bool" where
  "log_inv env rows s \<longleftrightarrow>
     (let (w, d) = s in
      \<exists>sealed q p chunks recent. pw_parts w = sealed @ [q] \<and> pw_cur w = Some p \<and> \<not> pw_closed w
        \<and> map pa_Index (pw_parts w) = map int [0..<Suc (length sealed)] \<and> op_index p = length sealed
        \<and> pw_nextIdx w = Suc (length sealed)
        \<and> list_all2 (holds_rows env (pw_cfg w) (dk_dir d)) sealed chunks
        \<and> cur_holds env (pw_cfg w) p recent \<and> has_room (pw_cfg w) p
        \<and> rows = concat chunks @ recent \<and> pw_rows w = int (length rows))"

lemma part_text_simps [simp]: "part_text env c [] = []" "part_text env c (a @ b) = part_text env c a @ part_text env c b"
  "part_text env c [r] = row_text env c r"
  by (simp_all add: part_text_def)

lemma counter_lag:
  assumes "op_flushed p \<le> length (op_content p)"
  shows "0 \<le> counter p" and "int (length (op_content p)) \<le> counter p + 4096"
proof -
  have "n \<le> 4096 * ((n - 1) div 4096) + 4096" for n :: nat
  proof (cases n)
    case (Suc m)
    have "m = 4096 * (m div 4096) + m mod 4096" "m mod 4096 < 4096" by simp_all
    then have "Suc m \<le> 4096 * (m div 4096) + 4096" by linarith
    then show ?thesis by (simp only: Suc diff_Suc_1)
  qed simp
  from this [of "length (op_content p) - op_flushed p"] assms show "int (length (op_content p)) \<le> counter p + 4096"
    by (simp add: counter_def)
qed (simp add: counter_def)

lemma has_room_limits:
  assumes "has_room c p" and "cur_holds env c p rows"
  shows "within_limits env c rows"
    and "int (length (rows @ [vs])) \<le> wc_MaxPartRows c \<and> within_limits env c (rows @ [vs])"
proof -
  have room: "0 \<le> op_pending p" "counter p + op_pending p < wc_MaxPartBytes c" "op_rows p < wc_MaxPartRows c"
    "op_flushed p \<le> length (op_content p)" using assms(1) by (simp_all add: has_room_def)
  note lag = counter_lag [OF room(4)]
  have len: "int (length (part_text env c rows)) < wc_MaxPartBytes c + 4096"
    using lag(2) room assms(2) by (simp add: cur_holds_def)
  have "length (part_text env c (butlast rows)) \<le> length (part_text env c rows)"
    by (cases rows rule: rev_cases) simp_all
  then show "within_limits env c rows" using len lag(1) room assms(2) by (simp add: within_limits_def cur_holds_def)
  show "int (length (rows @ [vs])) \<le> wc_MaxPartRows c \<and> within_limits env c (rows @ [vs])"
    using len lag(1) room assms(2) by (simp add: within_limits_def cur_holds_def)
qed

lemma holds_rows_other:
  "pa_Name p \<noteq> name \<Longrightarrow> holds_rows env c (dir(name := x)) p rows = holds_rows env c dir p rows"
  by (simp add: holds_rows_def)

lemma replace_last:
  "\<forall>x \<in> set ps. pa_Index x \<noteq> pa_Index s \<Longrightarrow> pa_Index q = pa_Index s \<Longrightarrow> replace_part s (ps @ [q]) = ps @ [s]"
  by (induction ps) auto

lemma drop_last: "\<forall>x \<in> set ps. pa_Index x \<noteq> pa_Index q \<Longrightarrow> drop_part (pa_Index q) (ps @ [q]) = ps"
  by (induction ps) auto

text \<open>Sealing the current part turns the rows it holds into a chunk of its own.\<close>

lemma seal_log:
  assumes "seal env io now (w, d) = (None, w', d')" and "extract_inv env (w, d)"
    and "pw_parts w = sealed @ [q]" and "pw_cur w = Some p"
    and "map pa_Index (pw_parts w) = map int [0..<Suc (length sealed)]" and "op_index p = length sealed"
    and "list_all2 (holds_rows env (pw_cfg w) (dk_dir d)) sealed chunks" and "cur_holds env (pw_cfg w) p recent"
    and "within_limits env (pw_cfg w) recent"
  shows "\<exists>s. w' = w\<lparr>pw_cur := None, pw_parts := sealed @ [s]\<rparr> \<and> pa_Index s = int (length sealed)
    \<and> list_all2 (holds_rows env (pw_cfg w) (dk_dir d')) (sealed @ [s]) (chunks @ [recent])"
proof -
  let ?s = "sealed_part env (pw_cfg w) now p"
  have eff: "w' = w\<lparr>pw_cur := None, pw_parts := replace_part ?s (pw_parts w)\<rparr>"
    "dk_dir d' = (dk_dir d)(op_name p \<mapsto> stored_form env (pw_cfg w) (op_content p))"
    using seal_effect [OF assms(1)] assms(4) by auto
  have idx: "map pa_Index sealed = map int [0..<length sealed]" "pa_Index q = int (length sealed)"
    using assms(3,5) by simp_all
  have "pa_Index x \<noteq> int (length sealed)" if "x \<in> set sealed" for x
  proof -
    have "pa_Index x \<in> set (map pa_Index sealed)" using that by simp
    then show ?thesis unfolding idx(1) by auto
  qed
  moreover have s: "pa_Index ?s = int (length sealed)" "pa_Name ?s = op_name p" "pa_State ?s = PartSealed"
    "pa_Rows ?s = op_rows p" by (simp_all add: sealed_part_def Let_def assms(6))
  ultimately have parts: "replace_part ?s (pw_parts w) = sealed @ [?s]"
    unfolding assms(3) by (intro replace_last) (simp_all add: idx(2))
  have inv: "parts_ok env w (dk_dir d)" "cur_ok w" using assms(2) by (simp_all add: extract_inv_def)
  have name: "op_name p = partName (pw_cfg w) (length sealed)" using inv(2) assms(4,6) by (simp add: cur_ok_def)
  have "pa_Name x \<noteq> op_name p" if x: "x \<in> set sealed" for x
  proof -
    have "part_ok env w (dk_dir d) x" using inv(1) x assms(3) by (simp add: parts_ok_def)
    then obtain i where "pa_Index x = int i" "pa_Name x = partName (pw_cfg w) i" by (auto simp: part_ok_def)
    moreover have "pa_Index x \<in> set (map pa_Index sealed)" using x by simp
    then have "pa_Index x < int (length sealed)" unfolding idx(1) by auto
    ultimately show ?thesis by (simp add: name)
  qed
  then have "list_all2 (holds_rows env (pw_cfg w) (dk_dir d')) sealed chunks"
    using assms(7) unfolding eff(2) by (auto simp: holds_rows_other list_all2_conv_all_nth)
  moreover have "holds_rows env (pw_cfg w) (dk_dir d') ?s recent"
    using assms(8,9) s by (simp add: holds_rows_def cur_holds_def eff(2))
  ultimately have "list_all2 (holds_rows env (pw_cfg w) (dk_dir d')) (sealed @ [?s]) (chunks @ [recent])"
    by (simp add: list_all2_appendI)
  then show ?thesis using eff(1) parts s(1) by auto
qed

lemma row_estimate_nonneg: "0 \<le> row_estimate c vs"
  unfolding row_estimate_def by (induction vs) simp_all

lemma flush_part_room:
  assumes "op_flushed p \<le> length (op_content p)" and "0 \<le> op_pending p"
  shows "op_flushed (flush_part p) \<le> length (op_content p) \<and> 0 \<le> op_pending (flush_part p)"
  using assms by (simp add: flush_part_def)

text \<open>A new part after one that was sealed.\<close>

lemma open_next_log:
  assumes "open_next io (w, d) = (None, w', d')" and "extract_inv env (w, d)" and "\<not> pw_closed w"
    and "map pa_Index (pw_parts w) = map int [0..<length (pw_parts w)]" and "pw_nextIdx w = length (pw_parts w)"
    and "list_all2 (holds_rows env (pw_cfg w) (dk_dir d)) (pw_parts w) chunks"
    and "rows = concat chunks" and "pw_rows w = int (length rows)"
    and "0 < wc_MaxPartBytes (pw_cfg w)" and "0 < wc_MaxPartRows (pw_cfg w)"
  shows "log_inv env rows (w', d')"
proof -
  let ?name = "partName (pw_cfg w) (pw_nextIdx w)"
  note eff = open_next_effect [OF assms(1)]
  have inv: "parts_ok env w (dk_dir d)" using assms(2) by (simp add: extract_inv_def)
  have "pa_Name x \<noteq> ?name" if "x \<in> set (pw_parts w)" for x
    using inv that by (auto simp: parts_ok_def part_ok_def)
  then have "list_all2 (holds_rows env (pw_cfg w) ((dk_dir d)(?name \<mapsto> []))) (pw_parts w) chunks"
    using assms(6) by (auto simp: holds_rows_other list_all2_conv_all_nth)
  then show ?thesis
    using eff assms(3,4,5,7,8,9,10)
    by (auto simp: log_inv_def cur_holds_def has_room_def counter_def intro!: exI [of _ chunks])
qed

lemma WriteRow_log:
  assumes "log_inv env rows (w, d)" and "extract_inv env (w, d)" and "\<And>s. ev_sha env s \<noteq> ''''"
    and "WriteRow env io now key vs (w, d) = (RowWritten, w', d')"
  shows "log_inv env (rows @ [vs]) (w', d')"
proof -
  obtain sealed q p chunks recent where parts: "pw_parts w = sealed @ [q]" and cur: "pw_cur w = Some p"
    and open': "\<not> pw_closed w" and idx: "map pa_Index (pw_parts w) = map int [0..<Suc (length sealed)]"
      "op_index p = length sealed" "pw_nextIdx w = Suc (length sealed)"
    and held: "list_all2 (holds_rows env (pw_cfg w) (dk_dir d)) sealed chunks"
      "cur_holds env (pw_cfg w) p recent" "has_room (pw_cfg w) p" "rows = concat chunks @ recent"
      "pw_rows w = int (length rows)"
    using assms(1) by (auto simp: log_inv_def)
  obtain p1 p2 w2 where p1: "p1 = p\<lparr>op_content := op_content p @ row_text env (pw_cfg w) vs,
                  op_pending := op_pending p + row_estimate (pw_cfg w) vs\<rparr>"
    and p2: "p2 = count_row key (flush_part p1)" and w2: "w2 = w\<lparr>pw_cur := Some p2, pw_rows := pw_rows w + 1\<rparr>"
    and rest: "if counter p2 + op_pending p2 \<ge> wc_MaxPartBytes (pw_cfg w) \<or> op_rows p2 \<ge> wc_MaxPartRows (pw_cfg w)
            then roll env io now (w2, d) = (None, w', d') else w' = w2 \<and> d' = d"
    using WriteRow_effect [OF assms(4)] cur by (auto split: if_splits)
  have holds: "cur_holds env (pw_cfg w) p2 (recent @ [vs])"
    using held(2) by (simp add: cur_holds_def p2 p1)
  have "0 \<le> op_rows p" using held(2) by (simp add: cur_holds_def)
  then have inv2: "extract_inv env (w2, d)"
    unfolding w2 by (intro cur_inv [OF assms(2) cur, THEN conjunct1]) (simp_all add: p2 p1)
  have limits: "0 < wc_MaxPartBytes (pw_cfg w)" "0 < wc_MaxPartRows (pw_cfg w)"
    using has_room_limits [OF held(3,2)] held(2,3) by (auto simp: within_limits_def has_room_def cur_holds_def)
  show ?thesis
  proof (cases "counter p2 + op_pending p2 \<ge> wc_MaxPartBytes (pw_cfg w) \<or> op_rows p2 \<ge> wc_MaxPartRows (pw_cfg w)")
    case False
    have "op_flushed p1 \<le> length (op_content p1)" "0 \<le> op_pending p1"
      using held(3) row_estimate_nonneg [of "pw_cfg w" vs] by (auto simp: p1 has_room_def)
    then have "has_room (pw_cfg w) p2"
      using False flush_part_room [of p1] by (simp add: has_room_def p2)
    moreover have "w' = w2" "d' = d" using rest False by simp_all
    moreover have "op_index p2 = length sealed" using idx(2) by (simp add: p2 p1)
    ultimately show ?thesis
      using parts open' idx(1,3) held(1,4,5) holds
      by (auto simp: log_inv_def w2 intro!: exI [of _ chunks] exI [of _ "recent @ [vs]"])
  next
    case True
    then obtain w3 d3 where seal: "seal env io now (w2, d) = (None, w3, d3)" and opened: "open_next io (w3, d3) = (None, w', d')"
      using rest by (auto simp: roll_def w2 split: prod.splits option.splits)
    obtain s where s: "w3 = w2\<lparr>pw_cur := None, pw_parts := sealed @ [s]\<rparr>" "pa_Index s = int (length sealed)"
      "list_all2 (holds_rows env (pw_cfg w2) (dk_dir d3)) (sealed @ [s]) (chunks @ [recent @ [vs]])"
      using seal_log [OF seal inv2, of sealed q p2 chunks "recent @ [vs]"] parts idx(1,2) held(1) holds
        has_room_limits(2) [OF held(3,2), of vs] by (auto simp: w2 p2 p1)
    have inv3: "extract_inv env (w3, d3)" using seal_inv [OF inv2 assms(3) seal] by simp
    have "map pa_Index sealed = map int [0..<length sealed]" using idx(1) parts by simp
    then have "map pa_Index (pw_parts w3) = map int [0..<length (pw_parts w3)]" by (simp add: s(1,2))
    then show ?thesis
      using open_next_log [OF opened inv3, of "chunks @ [recent @ [vs]]" "rows @ [vs]"] open' idx(3) s held(4,5) limits
      by (simp add: w2)
  qed
qed

lemma NewPartWriter_log:
  assumes "NewPartWriter env io now cfg \<lparr>dk_dir = dir, dk_manifest = man, dk_announced = []\<rparr> = (Inr w, d)"
  shows "log_inv env [] (w, d)"
proof -
  let ?c = "writer_defaults cfg"
  obtain d1 where run: "roll env io now (\<lparr>pw_cfg = ?c, pw_columns = ColumnNames (wc_Spec ?c), pw_cur = None, pw_parts = [],
        pw_rows = 0, pw_nextIdx = 0, pw_closed = False\<rparr>, \<lparr>dk_dir = dir, dk_manifest = man, dk_announced = []\<rparr>) = (None, w, d1)"
    "writeManifest io now w d1 = (None, d)"
    using assms(1) by (auto simp: NewPartWriter_def Let_def split: if_splits option.splits prod.splits)
  have "dk_dir d = dk_dir d1" using run(2) by (auto simp: writeManifest_def Manifest_Write_def split: option.splits)
  moreover have "0 < wc_MaxPartBytes ?c" "0 < wc_MaxPartRows ?c"
    by (simp_all add: writer_defaults_def DefaultMaxPartBytes_def DefaultMaxPartRows_def)
  moreover have "open_next io (\<lparr>pw_cfg = ?c, pw_columns = ColumnNames (wc_Spec ?c), pw_cur = None, pw_parts = [],
        pw_rows = 0, pw_nextIdx = 0, pw_closed = False\<rparr>, \<lparr>dk_dir = dir, dk_manifest = man, dk_announced = []\<rparr>) = (None, w, d1)"
    using run(1) by (simp add: roll_def)
  note open_next_effect [OF this]
  ultimately show ?thesis by (auto simp: log_inv_def cur_holds_def has_room_def counter_def)
qed

lemma extracted_invs:
  assumes "extracted env rows s" and "\<And>x. ev_sha env x \<noteq> ''''"
  shows "extract_inv env s \<and> log_inv env rows s"
  using assms(1)
proof induction
  case (ed_new io now cfg dir man w d)
  then show ?case using NewPartWriter_inv assms(2) NewPartWriter_log by blast
next
  case (ed_row rows s io now key vs s')
  then show ?case using WriteRow_inv WriteRow_log assms(2) by (metis surj_pair)
qed

lemma sort_key_indices:
  assumes "map pa_Index ps = map int [0..<n]"
  shows "sort_key pa_Index ps = ps"
proof -
  have "sorted (map int [0..<n])" by (rule sorted_map_mono) (simp_all add: mono_on_def)
  then have "sorted (map pa_Index ps)" by (simp only: assms)
  then show ?thesis by (rule sort_key_id_if_sorted)
qed

text \<open>Closing: the rows are those of the sealed parts, one chunk each.\<close>

lemma finish_part_log:
  assumes "log_inv env rows (w, d)" and "extract_inv env (w, d)" and "\<And>s. ev_sha env s \<noteq> ''''"
    and "finish_part env io now (w, d) = (None, w', d')"
  shows "\<exists>chunks. rows = concat chunks \<and> list_all2 (holds_rows env (pw_cfg w) (dk_dir d')) (pw_parts w') chunks
    \<and> map pa_Index (pw_parts w') = map int [0..<length (pw_parts w')] \<and> pw_rows w' = int (length rows)"
proof -
  obtain sealed q p chunks recent where parts: "pw_parts w = sealed @ [q]" and cur: "pw_cur w = Some p"
    and idx: "map pa_Index (pw_parts w) = map int [0..<Suc (length sealed)]" "op_index p = length sealed"
    and held: "list_all2 (holds_rows env (pw_cfg w) (dk_dir d)) sealed chunks"
      "cur_holds env (pw_cfg w) p recent" "has_room (pw_cfg w) p" "rows = concat chunks @ recent"
      "pw_rows w = int (length rows)"
    using assms(1) by (auto simp: log_inv_def)
  have idx': "map pa_Index sealed = map int [0..<length sealed]" "pa_Index q = int (length sealed)"
    using idx(1) parts by simp_all
  show ?thesis
  proof (cases "op_rows p = 0 \<and> length (pw_parts w) > 1")
    case True
    then have w': "w' = w\<lparr>pw_cur := None, pw_parts := drop_part (int (op_index p)) (pw_parts w)\<rparr>"
      and d': "dk_dir d' = (if io_remove io then dk_dir d else (dk_dir d)(op_name p := None))"
      using assms(4) cur by (auto simp: finish_part_def)
    have below: "pa_Index x < int (length sealed)" if "x \<in> set sealed" for x
    proof -
      have "pa_Index x \<in> set (map pa_Index sealed)" using that by simp
      then show ?thesis unfolding idx'(1) by auto
    qed
    then have dropped: "drop_part (int (op_index p)) (pw_parts w) = sealed"
      using drop_last [of sealed q] idx(2) idx'(2) parts by force
    have inv: "parts_ok env w (dk_dir d)" "cur_ok w" using assms(2) by (simp_all add: extract_inv_def)
    have name: "op_name p = partName (pw_cfg w) (length sealed)" using inv(2) cur idx(2) by (simp add: cur_ok_def)
    have "pa_Name x \<noteq> op_name p" if x: "x \<in> set sealed" for x
    proof -
      have "part_ok env w (dk_dir d) x" using inv(1) x parts by (simp add: parts_ok_def)
      then obtain i where "pa_Index x = int i" "pa_Name x = partName (pw_cfg w) i" by (auto simp: part_ok_def)
      then show ?thesis using below [OF x] by (simp add: name)
    qed
    then have "list_all2 (holds_rows env (pw_cfg w) (dk_dir d')) sealed chunks"
      using held(1) unfolding d' by (auto simp: holds_rows_other list_all2_conv_all_nth)
    moreover have "recent = []" using True held(2) by (simp add: cur_holds_def)
    ultimately show ?thesis using dropped idx'(1) held(4,5) by (auto simp: w')
  next
    case False
    then have seal: "seal env io now (w, d) = (None, w', d')"
      using assms(4) unfolding finish_part_def Let_def prod.case cur option.case by (simp only: if_not_P if_False)
    obtain s where s: "w' = w\<lparr>pw_cur := None, pw_parts := sealed @ [s]\<rparr>" "pa_Index s = int (length sealed)"
      "list_all2 (holds_rows env (pw_cfg w) (dk_dir d')) (sealed @ [s]) (chunks @ [recent])"
      using seal_log [OF seal assms(2) parts cur idx held(1,2) has_room_limits(1) [OF held(3,2)]] by blast
    then show ?thesis using held(4,5) idx'(1) by (intro exI [of _ "chunks @ [recent]"]) simp
  qed
qed

lemma Close_log:
  assumes "extracted env rows (w, d)" and "\<And>x. ev_sha env x \<noteq> ''''" and "Close env io now lsn (w, d) = (Inr m, w', d')"
  shows "\<exists>chunks. rows = concat chunks \<and> list_all2 (holds_rows env (pw_cfg w) (dk_dir d')) (SealedParts m) chunks
    \<and> mn_TotalRows m = int (length rows) \<and> Manifest_Validate m = None \<and> dk_manifest d' = Some m
    \<and> mn_Delimiter m = [wc_Delimiter (pw_cfg w)] \<and> mn_NullSentinel m = wc_NullSentinel (pw_cfg w)
    \<and> (\<forall>p \<in> set (SealedParts m). VerifyPart (ev_sha env) None (dk_dir d') p = None)"
proof -
  have inv: "extract_inv env (w, d)" "log_inv env rows (w, d)" using extracted_invs [OF assms(1,2)] by simp_all
  have open': "\<not> pw_closed w" using inv(2) by (auto simp: log_inv_def)
  obtain w1 d1 where fin: "finish_part env io now (w, d) = (None, w1, d1)" and m:
      "m = (buildManifest now True (w1\<lparr>pw_closed := True\<rparr>))\<lparr>mn_ExtractEndLSN := lsn\<rparr>"
      "Manifest_Validate m = None" "d' = d1\<lparr>dk_manifest := Some m\<rparr>"
    using assms(3) open' by (auto simp: Close_def Let_def Manifest_Write_def split: prod.splits option.splits)
  obtain chunks where chunks: "rows = concat chunks" "list_all2 (holds_rows env (pw_cfg w) (dk_dir d1)) (pw_parts w1) chunks"
      "map pa_Index (pw_parts w1) = map int [0..<length (pw_parts w1)]" "pw_rows w1 = int (length rows)"
    using finish_part_log [OF inv(2,1) assms(2) fin] by blast
  have inv1: "parts_ok env w1 (dk_dir d1)" "pw_cfg w1 = pw_cfg w"
    using finish_part_inv [OF inv(1) assms(2) fin] by (simp_all add: extract_inv_def)
  have sealed: "pa_State p = PartSealed" if "p \<in> set (pw_parts w1)" for p
    using chunks(2) that by (auto simp: list_all2_conv_all_nth in_set_conv_nth holds_rows_def)
  have ok: "Eligible p \<and> VerifyPart (ev_sha env) None (dk_dir d1) p = None" if "p \<in> set (pw_parts w1)" for p
    using sealed [OF that] inv1 that by (auto simp: parts_ok_def part_ok_def Eligible_def)
  have "filter Eligible (pw_parts w1) = pw_parts w1" using ok by (simp add: filter_id_conv)
  then have parts: "SealedParts m = pw_parts w1"
    using sort_key_indices [OF chunks(3)] by (simp add: SealedParts_def m(1) buildManifest_def Let_def)
  have "mn_TotalRows m = int (length rows) \<and> mn_Delimiter m = [wc_Delimiter (pw_cfg w)]
      \<and> mn_NullSentinel m = wc_NullSentinel (pw_cfg w)"
    using chunks(4) inv1(2) by (simp add: m(1) buildManifest_def Let_def)
  then show ?thesis using chunks(1,2) parts m(2,3) ok by (intro exI [of _ chunks]) simp
qed

text \<open>
  C25: a finished extract is the table, cut into parts. When every row was accepted and closing succeeds, the
  rows are the concatenation, in order, of what the sealed parts hold: each part's file stores
  the records of its rows and is intact, its row count is theirs, and the manifest on disk, which is valid,
  totals all rows.
\<close>

theorem extract_complete:
  assumes "extracted env rows (w, d)" and "\<forall>x. ev_sha env x \<noteq> ''''"
    and "Close env io now lsn (w, d) = (Inr m, w', d')"
  shows "dk_manifest d' = Some m \<and> Manifest_Validate m = None \<and> mn_TotalRows m = int (length rows)
    \<and> (\<exists>chunks. rows = concat chunks \<and> list_all2 (\<lambda>p part_rows. pa_Rows p = int (length part_rows)
         \<and> VerifyPart (ev_sha env) None (dk_dir d') p = None
         \<and> dk_dir d' (pa_Name p) = Some (stored_form env (pw_cfg w) (part_text env (pw_cfg w) part_rows)))
        (SealedParts m) chunks)"
proof -
  obtain chunks where c: "rows = concat chunks" "list_all2 (holds_rows env (pw_cfg w) (dk_dir d')) (SealedParts m) chunks"
    "mn_TotalRows m = int (length rows)" "Manifest_Validate m = None" "dk_manifest d' = Some m"
    "\<forall>p \<in> set (SealedParts m). VerifyPart (ev_sha env) None (dk_dir d') p = None"
    using Close_log [OF assms(1) _ assms(3)] assms(2) by blast
  have "list_all2 (\<lambda>p part_rows. pa_Rows p = int (length part_rows)
         \<and> VerifyPart (ev_sha env) None (dk_dir d') p = None
         \<and> dk_dir d' (pa_Name p) = Some (stored_form env (pw_cfg w) (part_text env (pw_cfg w) part_rows)))
        (SealedParts m) chunks"
    using c(2,6) by (auto simp: list_all2_conv_all_nth holds_rows_def)
  then show ?thesis using c(1,3,4,5) by blast
qed

text \<open>
  C26: parts stay within their limits. In a finished extract no part has more rows than the row limit, and the
  text of an uncompressed part exceeds the byte limit by less than the writer's buffer and one record.
\<close>

theorem parts_bounded:
  assumes "extracted env rows (w, d)" and "\<forall>x. ev_sha env x \<noteq> ''''"
    and "Close env io now lsn (w, d) = (Inr m, w', d')" and "p \<in> set (SealedParts m)"
    and "\<forall>r \<in> set rows. int (length (row_text env (pw_cfg w) r)) \<le> longest" and "0 \<le> longest"
  shows "pa_Rows p \<le> wc_MaxPartRows (pw_cfg w)
    \<and> (\<exists>content. dk_dir d' (pa_Name p) = Some (stored_form env (pw_cfg w) content)
        \<and> int (length content) < wc_MaxPartBytes (pw_cfg w) + 4096 + longest)"
proof -
  obtain chunks where c: "rows = concat chunks" "list_all2 (holds_rows env (pw_cfg w) (dk_dir d')) (SealedParts m) chunks"
    using Close_log [OF assms(1) _ assms(3)] assms(2) by blast
  obtain ch where ch: "ch \<in> set chunks" "holds_rows env (pw_cfg w) (dk_dir d') p ch"
    using c(2) assms(4) by (metis in_set_conv_nth list_all2_conv_all_nth)
  have "int (length (part_text env (pw_cfg w) ch)) < wc_MaxPartBytes (pw_cfg w) + 4096 + longest"
  proof (cases ch rule: rev_cases)
    case Nil
    then show ?thesis using ch(2) assms(6) by (simp add: holds_rows_def within_limits_def)
  next
    case (snoc ys y)
    then have "y \<in> set rows" using ch(1) unfolding c(1) by (metis UN_I in_set_conv_decomp set_concat)
    then have "int (length (row_text env (pw_cfg w) y)) \<le> longest" using assms(5) by blast
    then show ?thesis using ch(2) snoc by (simp add: holds_rows_def within_limits_def)
  qed
  moreover have "pa_Rows p \<le> wc_MaxPartRows (pw_cfg w)"
    "dk_dir d' (pa_Name p) = Some (stored_form env (pw_cfg w) (part_text env (pw_cfg w) ch))"
    using ch(2) by (simp_all add: holds_rows_def within_limits_def)
  ultimately show ?thesis by blast
qed

definition unfinished :: "disk \<Rightarrow> bool" where
  "unfinished d \<longleftrightarrow> (\<forall>m. dk_manifest d = Some m \<longrightarrow> \<not> mn_Complete m)"

text \<open>What the operations keep: the table's columns, and the LSN that every part is stamped with.\<close>

definition stamped :: "part_writer \<Rightarrow> bool" where
  "stamped w \<longleftrightarrow> (\<forall>p \<in> set (pw_parts w). pa_ExtractLSN p = wc_ExtractStartLSN (pw_cfg w))"

lemma replace_part_subset: "set (replace_part s ps) \<subseteq> insert s (set ps)"
  by (induction ps) auto

lemma stamped_sealed [simp]: "pa_ExtractLSN (sealed_part env c now p) = wc_ExtractStartLSN c"
  by (simp add: sealed_part_def Let_def)

lemma stamped_replace:
  "stamped w \<Longrightarrow> p \<in> set (replace_part (sealed_part env (pw_cfg w) now q) (pw_parts w))
    \<Longrightarrow> pa_ExtractLSN p = wc_ExtractStartLSN (pw_cfg w)"
  using replace_part_subset [of "sealed_part env (pw_cfg w) now q" "pw_parts w"] by (auto simp: stamped_def)

lemma stamped_drop: "stamped w \<Longrightarrow> p \<in> set (drop_part i (pw_parts w)) \<Longrightarrow> pa_ExtractLSN p = wc_ExtractStartLSN (pw_cfg w)"
  using drop_part_subset [of i "pw_parts w"] by (auto simp: stamped_def)

lemma seal_cfg:
  "seal env io now (w, d) = (r, w', d') \<Longrightarrow> pw_cfg w' = pw_cfg w \<and> pw_columns w' = pw_columns w \<and> (stamped w \<longrightarrow> stamped w')
    \<and> (unfinished d \<longrightarrow> unfinished d')"
  using seal_effect [of env io now w d r w' d'] by (auto simp: unfinished_def buildManifest_def Let_def stamped_def dest: stamped_replace [unfolded stamped_def])

lemma open_next_cfg:
  "open_next io (w, d) = (r, w', d') \<Longrightarrow> pw_cfg w' = pw_cfg w \<and> pw_columns w' = pw_columns w \<and> (stamped w \<longrightarrow> stamped w')
    \<and> (unfinished d \<longrightarrow> unfinished d')"
  using open_next_effect [of io w d r w' d'] by (auto simp: unfinished_def stamped_def)

lemma roll_cfg:
  assumes "roll env io now (w, d) = (r, w', d')"
  shows "pw_cfg w' = pw_cfg w \<and> pw_columns w' = pw_columns w \<and> (stamped w \<longrightarrow> stamped w')
    \<and> (unfinished d \<longrightarrow> unfinished d')"
proof (cases "pw_cur w")
  case None
  then show ?thesis using assms open_next_cfg [of io w d r w' d'] by (simp add: roll_def)
next
  case (Some p)
  obtain q w1 d1 where seal: "seal env io now (w, d) = (q, w1, d1)" by (metis surj_pair)
  show ?thesis
  proof (cases q)
    case None
    then have "open_next io (w1, d1) = (r, w', d')" using assms Some seal by (simp add: roll_def)
    from open_next_cfg [OF this] seal_cfg [OF seal] show ?thesis by simp
  next
    case failed: (Some e)
    then show ?thesis using assms Some seal seal_cfg [OF seal] by (simp add: roll_def)
  qed
qed

lemma WriteRow_cfg:
  assumes "WriteRow env io now key vs (w, d) = (RowWritten, w', d')"
  shows "pw_cfg w' = pw_cfg w \<and> pw_columns w' = pw_columns w \<and> (stamped w \<longrightarrow> stamped w')
    \<and> (unfinished d \<longrightarrow> unfinished d') \<and> valid_delim (wc_Delimiter (pw_cfg w))
    \<and> length vs = length (pw_columns w)"
proof -
  obtain p2 w2 where w2: "w2 = w\<lparr>pw_cur := Some p2, pw_rows := pw_rows w + 1\<rparr>"
    and row: "valid_delim (wc_Delimiter (pw_cfg w))" "length vs = length (pw_columns w)"
    and rest: "roll env io now (w2, d) = (None, w', d') \<or> w' = w2 \<and> d' = d"
    using WriteRow_effect [OF assms] by (auto split: if_splits)
  have "pw_cfg w' = pw_cfg w2 \<and> pw_columns w' = pw_columns w2 \<and> (stamped w2 \<longrightarrow> stamped w')
    \<and> (unfinished d \<longrightarrow> unfinished d')"
    using rest roll_cfg by blast
  then show ?thesis using row by (simp add: w2 stamped_def)
qed

lemma extracted_rows:
  assumes "extracted env rows s" and "\<And>x. ev_sha env x \<noteq> ''''"
  shows "(\<forall>r \<in> set rows. r \<noteq> []) \<and> (rows \<noteq> [] \<longrightarrow> valid_delim (wc_Delimiter (pw_cfg (fst s))))
    \<and> pw_columns (fst s) = ColumnNames (wc_Spec (pw_cfg (fst s))) \<and> stamped (fst s) \<and> unfinished (snd s)"
  using assms(1)
proof induction
  case (ed_new io now cfg dir man w d)
  then show ?case
    by (auto simp: NewPartWriter_def Let_def writeManifest_def Manifest_Write_def unfinished_def buildManifest_def
        roll_def open_next_def stamped_def split: if_splits option.splits prod.splits)
next
  case (ed_row rows s io now key vs s')
  obtain w d w' d' where s: "s = (w, d)" "s' = (w', d')" by (cases s; cases s')
  have "extract_inv env (w, d)" using extracted_invs [OF ed_row.hyps(1) assms(2)] by (simp add: s)
  then have "pw_columns w \<noteq> []" by (simp add: extract_inv_def parts_ok_def)
  moreover have "WriteRow env io now key vs (w, d) = (RowWritten, w', d')" using ed_row.hyps(2) by (simp add: s)
  note WriteRow_cfg [OF this]
  ultimately show ?case using ed_row.IH by (auto simp: s)
qed

lemma part_text_records:
  "part_text env c rows = concat (map (csv_record (ev_leading_space env) (wc_Delimiter c))
     (map (map (encode_value (wc_NullSentinel c))) rows))"
  by (simp add: part_text_def comp_def row_text_def [abs_def])

lemma list_all2_read:
  "list_all2 (\<lambda>x y. \<exists>t. f x = Some t \<and> g t = Some (h y) \<and> P x y) xs ys
    \<Longrightarrow> map f xs = map Some (map (\<lambda>x. the (f x)) xs) \<and> map g (map (\<lambda>x. the (f x)) xs) = map Some (map h ys)"
  by (induction rule: list_all2_induct) auto

lemma extract_imported:
  assumes "extracted env rows (w, d)" and sha: "\<And>x. ev_sha env x \<noteq> []"
    and "Close env io now lsn (w, d) = (Inr m, w', d')" and "\<not> wc_Compress (pw_cfg w)"
    and sentinel: "\<not> fieldNeedsQuotes (ev_leading_space env) (wc_Delimiter (pw_cfg w)) (wc_NullSentinel (pw_cfg w))"
  shows "\<exists>chunks. rows = concat chunks \<and> list_all2 (\<lambda>p ch. \<exists>t. dk_dir d' (pa_Name p) = Some t
      \<and> import_file (hd (mn_Delimiter m)) (mn_NullSentinel m) t = Some (map (map (arrives_as (mn_NullSentinel m))) ch)
      \<and> VerifyPart (ev_sha env) None (dk_dir d') p = None) (SealedParts m) chunks"
proof -
  let ?c = "pw_cfg w"
  obtain chunks where c: "rows = concat chunks" "list_all2 (holds_rows env ?c (dk_dir d')) (SealedParts m) chunks"
      "mn_Delimiter m = [wc_Delimiter ?c]" "mn_NullSentinel m = wc_NullSentinel ?c"
      "\<forall>p \<in> set (SealedParts m). VerifyPart (ev_sha env) None (dk_dir d') p = None"
    using Close_log [OF assms(1) sha assms(3)] by blast
  note accepted = extracted_rows [OF assms(1) sha]
  have imported: "import_file (wc_Delimiter ?c) (wc_NullSentinel ?c) (part_text env ?c ch)
      = Some (map (map (arrives_as (wc_NullSentinel ?c))) ch)" if "ch \<in> set chunks" for ch
  proof (cases "ch = []")
    case True
    then show ?thesis by (simp add: import_file_def read_records.simps)
  next
    case False
    then have "rows \<noteq> []" "\<forall>r \<in> set ch. r \<in> set rows" using that unfolding c(1) by auto
    then have "valid_delim (wc_Delimiter ?c)" "\<forall>r \<in> set ch. r \<noteq> []" using accepted by auto
    from read_records_records [OF this(1), of "map (map (encode_value (wc_NullSentinel ?c))) ch" "ev_leading_space env"] this(2)
    have "read_records (wc_Delimiter ?c) (part_text env ?c ch)
        = Some (map (map (\<lambda>f. (f, fieldNeedsQuotes (ev_leading_space env) (wc_Delimiter ?c) f)))
            (map (map (encode_value (wc_NullSentinel ?c))) ch))"
      by (simp add: part_text_records)
    then show ?thesis by (simp add: import_file_def comp_def import_encode [OF sentinel])
  qed
  have "list_all2 (\<lambda>p ch. \<exists>t. dk_dir d' (pa_Name p) = Some t
      \<and> import_file (wc_Delimiter ?c) (wc_NullSentinel ?c) t = Some (map (map (arrives_as (wc_NullSentinel ?c))) ch)
      \<and> VerifyPart (ev_sha env) None (dk_dir d') p = None) (SealedParts m) chunks"
    using c(2,5) assms(4) imported by (auto simp: list_all2_conv_all_nth holds_rows_def stored_form_def)
  then show ?thesis using c(1,3,4) by auto
qed


section \<open>After a failure\<close>

text \<open>
  an error on sealing leaves a writer that dies on the next row. When the row that fills a part is written
  but the announcement of the part fails, the row is reported as failed although the sealed part and
  the totals include it, and the next row does not fail but panics: there is no current part.
\<close>

theorem failed_roll_panics:
  assumes "pw_cur w = Some p" and "\<not> pw_closed w" and "length vs = length (pw_columns w)" and "length vs' = length vs"
    and "valid_delim (wc_Delimiter (pw_cfg w))" and "op_failed p = None" and "wc_MaxPartRows (pw_cfg w) \<le> op_rows p + 1"
    and "io = calm_io\<lparr>io_OnSeal := Some e\<rparr>"
  shows "\<exists>err w' d'. WriteRow env io now key vs (w, d) = (RowFailed err, w', d') \<and> pw_rows w' = pw_rows w + 1
    \<and> map pa_Rows (dk_announced d') = map pa_Rows (dk_announced d) @ [op_rows p + 1]
    \<and> WriteRow env io' now' key' vs' (w', d') = (RowPanic, w', d')"
proof -
  obtain out w' d' where row: "WriteRow env io now key vs (w, d) = (out, w', d')" by (metis surj_pair)
  define p1 where "p1 = p\<lparr>op_content := op_content p @ row_text env (pw_cfg w) vs,
                  op_pending := op_pending p + row_estimate (pw_cfg w) vs\<rparr>"
  define p2 where "p2 = count_row key (flush_part p1)"
  define w2 where "w2 = w\<lparr>pw_cur := Some p2, pw_rows := pw_rows w + 1\<rparr>"
  have full: "op_rows p2 \<ge> wc_MaxPartRows (pw_cfg w)" "op_failed p2 = None" "op_rows p2 = op_rows p + 1"
    using assms(6,7) by (simp_all add: p2_def p1_def)
  obtain err w3 d3 where seal: "seal env io now (w2, d) = (Some err, w3, d3)"
      "w3 = w2\<lparr>pw_cur := None, pw_parts := replace_part (sealed_part env (pw_cfg w) now p2) (pw_parts w)\<rparr>"
      "dk_announced d3 = dk_announced d @ [sealed_part env (pw_cfg w) now p2]"
    using full(2) by (simp add: seal_def w2_def assms(8) calm_io_def Let_def writeManifest_def Manifest_Write_def)
  then have "roll env io now (w2, d) = (Some err, w3, d3)" by (simp add: roll_def w2_def)
  then have first: "WriteRow env io now key vs (w, d) = (RowFailed err, w3, d3)"
    using assms(1-6) full(1) unfolding p2_def w2_def p1_def
    by (simp add: WriteRow_def Let_def assms(8) calm_io_def)
  have "pw_cur w3 = None" "\<not> pw_closed w3" "pw_columns w3 = pw_columns w" "pw_rows w3 = pw_rows w + 1"
    using assms(2) by (simp_all add: seal(2) w2_def)
  moreover have "pa_Rows (sealed_part env (pw_cfg w) now p2) = op_rows p + 1"
    by (simp add: sealed_part_def Let_def full(3))
  ultimately have "WriteRow env io' now' key' vs' (w3, d3) = (RowPanic, w3, d3)"
    "map pa_Rows (dk_announced d3) = map pa_Rows (dk_announced d) @ [op_rows p + 1]"
    using assms(3,4) seal(3) by (simp_all add: WriteRow_def Let_def)
  then show ?thesis using first \<open>pw_rows w3 = pw_rows w + 1\<close> by blast
qed

lemma finish_part_unfinished:
  assumes "finish_part env io now (w, d) = (r, w', d')"
  shows "pw_cfg w' = pw_cfg w \<and> pw_columns w' = pw_columns w \<and> (stamped w \<longrightarrow> stamped w')
    \<and> (unfinished d \<longrightarrow> unfinished d')"
proof (cases "pw_cur w")
  case None
  then show ?thesis using assms by (simp add: finish_part_def)
next
  case (Some p)
  show ?thesis
  proof (cases "op_rows p = 0 \<and> length (pw_parts w) > 1")
    case True
    then show ?thesis using assms Some by (auto simp: finish_part_def unfinished_def stamped_def dest: stamped_drop [unfolded stamped_def])
  next
    case False
    then have "seal env io now (w, d) = (r, w', d')"
      using assms unfolding finish_part_def Let_def prod.case Some option.case by (simp only: if_not_P if_False)
    then show ?thesis by (rule seal_cfg)
  qed
qed

text \<open>What a closed extract says about the table.\<close>

lemma Close_names:
  assumes "extracted env rows (w, d)" and "\<And>x. ev_sha env x \<noteq> []" and "Close env io now lsn (w, d) = (Inr m, w', d')"
  shows "mn_Columns m = ColumnNames (wc_Spec (pw_cfg w)) \<and> mn_SourceTable m = TableRef_String (ts_Source (wc_Spec (pw_cfg w)))
    \<and> (\<forall>p \<in> set (SealedParts m). pa_ExtractLSN p = wc_ExtractStartLSN (pw_cfg w)) \<and> mn_Complete m"
proof -
  have "log_inv env rows (w, d)" using extracted_invs [OF assms(1,2)] by simp
  then have open': "\<not> pw_closed w" by (auto simp: log_inv_def)
  obtain w1 d1 where fin: "finish_part env io now (w, d) = (None, w1, d1)" and m:
      "m = (buildManifest now True (w1\<lparr>pw_closed := True\<rparr>))\<lparr>mn_ExtractEndLSN := lsn\<rparr>"
    using assms(3) open' by (auto simp: Close_def Let_def Manifest_Write_def split: prod.splits option.splits)
  show ?thesis
    using finish_part_unfinished [OF fin] extracted_rows [OF assms(1,2)]
    by (auto simp: m buildManifest_def Let_def SealedParts_def stamped_def)
qed

text \<open>
  an extract closed with an end before its start stays incomplete for ever. Closing then fails, but the writer counts as
  closed: closing again is refused whatever the end, and the manifest on disk never becomes complete.
\<close>

theorem close_before_start:
  assumes "extracted env rows (w, d)" and "\<forall>x. ev_sha env x \<noteq> ''''" and "lsn < wc_ExtractStartLSN (pw_cfg w)"
    and "Close env calm_io now lsn (w, d) = (r, w', d')"
  shows "(\<exists>e. r = Inl (ManifestInvalid e)) \<and> Close env io' now' lsn' (w', d') = (Inl AlreadyClosed, w', d')
    \<and> (\<forall>m. dk_manifest d' = Some m \<longrightarrow> \<not> mn_Complete m)"
proof -
  have sha: "\<And>x. ev_sha env x \<noteq> ''''" using assms(2) by blast
  have open': "\<not> pw_closed w" using extracted_invs [OF assms(1) sha] by (auto simp: log_inv_def)
  obtain q w1 d1 where fin: "finish_part env calm_io now (w, d) = (q, w1, d1)" by (metis surj_pair)
  have "op_failed p = None" if "pw_cur w = Some p" for p
    using extracted_invs [OF assms(1) sha] that by (auto simp: log_inv_def cur_holds_def)
  then have q: "q = None"
    using fin by (auto simp: finish_part_def seal_def calm_io_def Let_def writeManifest_def Manifest_Write_def
        split: option.splits if_splits)
  note kept = finish_part_unfinished [OF fin]
  let ?m = "(buildManifest now True (w1\<lparr>pw_closed := True\<rparr>))\<lparr>mn_ExtractEndLSN := lsn\<rparr>"
  have "\<not> mn_ExtractStartLSN ?m \<le> mn_ExtractEndLSN ?m" "mn_Complete ?m"
    using assms(3) kept by (simp_all add: buildManifest_def Let_def)
  then have "Manifest_Validate ?m \<noteq> None" unfolding Manifest_Validate_None by blast
  then obtain e where e: "Manifest_Validate ?m = Some e" by blast
  have "r = Inl (ManifestInvalid e)" "w' = w1\<lparr>pw_closed := True\<rparr>" "d' = d1"
    using assms(4) open' fin e by (simp_all add: Close_def q Let_def)
  moreover have "unfinished d1" using kept extracted_rows [OF assms(1) sha] by simp
  ultimately show ?thesis by (simp add: Close_def unfinished_def)
qed

section \<open>A small extract\<close>

definition demo_files_env :: environment where
  "demo_files_env = \<lparr>ev_sha = (\<lambda>s. ''h''), ev_gzip = (\<lambda>s. s), ev_leading_space = (\<lambda>s. False)\<rparr>"

definition demo_writer_config :: writer_config where
  "demo_writer_config = \<lparr>wc_Dir = ''parts'', wc_Spec = demo_spec, wc_MaxPartBytes = 0, wc_MaxPartRows = 1,
     wc_Compress = False, wc_Delimiter = CHR '','', wc_NullSentinel = '''', wc_ExtractStartLSN = 7\<rparr>"

definition no_disk :: disk where
  "no_disk = \<lparr>dk_dir = Map.empty, dk_manifest = None, dk_announced = []\<rparr>"

lemma demo_new:
  "\<exists>w d p q. NewPartWriter demo_files_env calm_io 0 demo_writer_config no_disk = (Inr w, d)
    \<and> pw_cfg w = writer_defaults demo_writer_config \<and> pw_columns w = [''id'', ''balance''] \<and> \<not> pw_closed w
    \<and> pw_cur w = Some p \<and> op_failed p = None \<and> op_rows p = 0 \<and> op_index p = 0
    \<and> op_name p = partName (writer_defaults demo_writer_config) 0
    \<and> pw_parts w = [q] \<and> pa_Index q = 0 \<and> pw_rows w = 0 \<and> pw_nextIdx w = 1 \<and> dk_announced d = []"
  using demo_spec_valid
  by (simp add: NewPartWriter_def Let_def writer_defaults_def demo_writer_config_def calm_io_def roll_def
      open_next_def writeManifest_def Manifest_Write_def ColumnNames_def demo_spec_def demo_column_def no_disk_def)

definition demo_start :: "part_writer \<times> disk" where
  "demo_start = (let r = NewPartWriter demo_files_env calm_io 0 demo_writer_config no_disk in (projr (fst r), snd r))"

lemma demo_start: "NewPartWriter demo_files_env calm_io 0 demo_writer_config no_disk = (Inr (fst demo_start), snd demo_start)"
  "pw_cfg (fst demo_start) = writer_defaults demo_writer_config" "\<not> pw_closed (fst demo_start)"
  "pw_columns (fst demo_start) = [''id'', ''balance'']" "pw_rows (fst demo_start) = 0" "pw_nextIdx (fst demo_start) = 1"
  "\<exists>p. pw_cur (fst demo_start) = Some p \<and> op_failed p = None \<and> op_rows p = 0 \<and> op_index p = 0
    \<and> op_name p = partName (writer_defaults demo_writer_config) 0"
  "\<exists>q. pw_parts (fst demo_start) = [q] \<and> pa_Index q = 0" "dk_announced (snd demo_start) = []"
  using demo_new by (auto simp: demo_start_def Let_def)

lemma demo_config:
  "wc_Delimiter (writer_defaults demo_writer_config) = CHR '',''"
  "wc_MaxPartRows (writer_defaults demo_writer_config) = 1"
  "wc_Compress (writer_defaults demo_writer_config) = False"
  "wc_ExtractStartLSN (writer_defaults demo_writer_config) = 7"
  "wc_NullSentinel (writer_defaults demo_writer_config) = DefaultNullSentinel"
  "wc_Spec (writer_defaults demo_writer_config) = demo_spec"
  by (simp_all add: writer_defaults_def demo_writer_config_def)

lemma demo_extracted: "extracted demo_files_env [] demo_start"
  using ed_new [of demo_files_env calm_io 0 demo_writer_config Map.empty None "fst demo_start" "snd demo_start"] demo_start(1)
  by (simp add: no_disk_def)

definition demo_row_step :: "part_writer \<times> disk" where
  "demo_row_step = snd (WriteRow demo_files_env calm_io 0 ''k'' [GString ''1'', GString ''x''] demo_start)"

lemma demo_name: "partName (writer_defaults demo_writer_config) 0 = ''app.accounts.dat.00000''"
  by code_simp

lemma demo_row:
  "\<exists>w d p r q. WriteRow demo_files_env calm_io 0 ''k'' [GString ''1'', GString ''x''] demo_start = (RowWritten, w, d)
    \<and> pw_cfg w = writer_defaults demo_writer_config \<and> pw_columns w = [''id'', ''balance''] \<and> \<not> pw_closed w
    \<and> pw_cur w = Some p \<and> op_rows p = 0 \<and> op_index p = 1 \<and> pw_parts w = [r, q]
    \<and> pa_Index r = 0 \<and> pa_State r = PartSealed \<and> pa_SHA256 r = ''h'' \<and> pa_Rows r = 1 \<and> pa_Name r = partName (writer_defaults demo_writer_config) 0
    \<and> pa_Index q = 1 \<and> pw_rows w = 1 \<and> dk_announced d = [r]"
proof -
  obtain w d where wd: "demo_start = (w, d)" by (cases demo_start)
  obtain p where p: "pw_cur w = Some p" "op_failed p = None" "op_rows p = 0" "op_index p = 0"
      "op_name p = partName (writer_defaults demo_writer_config) 0"
    using demo_start(7) by (auto simp: wd)
  obtain q where q: "pw_parts w = [q]" "pa_Index q = 0" using demo_start(8) by (auto simp: wd)
  show ?thesis
    using p q demo_start(2-6,9)
    by (simp add: wd WriteRow_def Let_def calm_io_def demo_config valid_delim_def count_row_def flush_part_def
        roll_def seal_def open_next_def writeManifest_def Manifest_Write_def sealed_part_def stored_form_def demo_files_env_def)
qed

lemma demo_row_step: "WriteRow demo_files_env calm_io 0 ''k'' [GString ''1'', GString ''x''] demo_start = (RowWritten, demo_row_step)"
  using demo_row by (auto simp: demo_row_step_def)

lemma demo_extracted_row: "extracted demo_files_env [[GString ''1'', GString ''x'']] demo_row_step"
  using ed_row [OF demo_extracted demo_row_step] by simp

lemma demo_sha: "\<forall>x. ev_sha demo_files_env x \<noteq> ''''"
  by (simp add: demo_files_env_def)

theorem close_before_start_witness:
  "\<exists>e w d. Close demo_files_env calm_io 0 3 demo_start = (Inl (ManifestInvalid e), w, d)
    \<and> Close demo_files_env calm_io 0 9 (w, d) = (Inl AlreadyClosed, w, d)"
proof -
  obtain w d where wd: "demo_start = (w, d)" by (cases demo_start)
  obtain r w' d' where close: "Close demo_files_env calm_io 0 3 (w, d) = (r, w', d')" by (metis surj_pair)
  have "(3 :: uint64) < wc_ExtractStartLSN (pw_cfg w)"
    using demo_start(2) by (simp add: wd writer_defaults_def demo_writer_config_def)
  note both = close_before_start [OF demo_extracted [unfolded wd] demo_sha this close, of calm_io 0 9]
  then obtain e where "r = Inl (ManifestInvalid e)" by blast
  then show ?thesis using close both unfolding wd by blast
qed

lemma demo_closed:
  "\<exists>w d m w' d' p. demo_row_step = (w, d) \<and> pw_cfg w = writer_defaults demo_writer_config \<and> dk_announced d = [p]
    \<and> Close demo_files_env calm_io 0 9 demo_row_step = (Inr m, w', d') \<and> SealedParts m = [p]
    \<and> pa_Name p = partName (writer_defaults demo_writer_config) 0"
proof -
  obtain w d p r q where w: "demo_row_step = (w, d)" "pw_cfg w = writer_defaults demo_writer_config"
      "pw_columns w = [''id'', ''balance'']" "\<not> pw_closed w" "pw_cur w = Some p" "op_rows p = 0" "op_index p = 1"
      "pw_parts w = [r, q]" "pa_Index r = 0" "pa_State r = PartSealed" "pa_SHA256 r = ''h''" "pa_Rows r = 1"
      "pa_Index q = 1" "pw_rows w = 1" "dk_announced d = [r]" "pa_Name r = partName (writer_defaults demo_writer_config) 0"
    using demo_row by (auto simp: demo_row_step_def)
  let ?w = "w\<lparr>pw_cur := None, pw_parts := [r], pw_closed := True\<rparr>"
  let ?m = "(buildManifest 0 True ?w)\<lparr>mn_ExtractEndLSN := 9\<rparr>"
  have fin: "finish_part demo_files_env calm_io 0 (w, d) = (None, w\<lparr>pw_cur := None, pw_parts := [r]\<rparr>,
      d\<lparr>dk_dir := (dk_dir d)(op_name p := None)\<rparr>)"
    using w(5-9,13) by (simp add: finish_part_def calm_io_def)
  have ok: "Manifest_Validate ?m = None"
    unfolding Manifest_Validate_None using w(2,3,9-14)
    by (simp add: buildManifest_def Let_def demo_config TableRef_String_def demo_spec_def)
  have calm: "io_manifest calm_io = None" by (simp add: calm_io_def)
  have "Close demo_files_env calm_io 0 9 (w, d)
      = (Inr ?m, ?w, d\<lparr>dk_dir := (dk_dir d)(op_name p := None), dk_manifest := Some ?m\<rparr>)"
    using w(4) by (simp add: Close_def fin Let_def ok Manifest_Write_def calm)
  moreover have "SealedParts ?m = [r]"
    using w(10,11) by (simp add: SealedParts_def buildManifest_def Let_def Eligible_def)
  ultimately show ?thesis using w(1,2,15,16) by auto
qed

theorem announced_parts_verify_witness:
  "\<exists>w d p. demo_row_step = (w, d) \<and> dk_announced d = [p] \<and> VerifyPart (ev_sha demo_files_env) None (dk_dir d) p = None"
proof -
  obtain w d p where d: "demo_row_step = (w, d)" "dk_announced d = [p]" using demo_closed by blast
  have "extracting demo_files_env demo_start"
    using ex_new [of demo_files_env calm_io 0 demo_writer_config Map.empty None "fst demo_start" "snd demo_start"] demo_start(1)
    by (simp add: no_disk_def)
  then have "extracting demo_files_env demo_row_step" using demo_row_step by (rule ex_row)
  then show ?thesis using announced_parts_verify [OF _ demo_sha, of w d p] d by auto
qed

theorem extract_complete_witness:
  "\<exists>m w' d' p. Close demo_files_env calm_io 0 9 demo_row_step = (Inr m, w', d') \<and> SealedParts m = [p]
    \<and> mn_TotalRows m = 1 \<and> VerifyPart (ev_sha demo_files_env) None (dk_dir d') p = None"
proof -
  obtain w d m w' d' p where r: "demo_row_step = (w, d)" "Close demo_files_env calm_io 0 9 (w, d) = (Inr m, w', d')"
      "SealedParts m = [p]"
    using demo_closed by metis
  from extract_complete [OF demo_extracted_row [unfolded r(1)] demo_sha r(2)] show ?thesis
    using r by (auto simp: list_all2_Cons1)
qed

theorem parts_bounded_witness:
  "\<exists>m w' d' p. Close demo_files_env calm_io 0 9 demo_row_step = (Inr m, w', d') \<and> SealedParts m = [p] \<and> pa_Rows p \<le> 1"
proof -
  obtain w d m w' d' p where r: "demo_row_step = (w, d)" "pw_cfg w = writer_defaults demo_writer_config"
      "Close demo_files_env calm_io 0 9 (w, d) = (Inr m, w', d')" "SealedParts m = [p]"
    using demo_closed by metis
  from parts_bounded [OF demo_extracted_row [unfolded r(1)] demo_sha r(3), of p
      "int (length (row_text demo_files_env (pw_cfg w) [GString ''1'', GString ''x'']))"]
  show ?thesis using r by (simp add: demo_config)
qed

lemma sentinel_unquoted: "\<not> fieldNeedsQuotes (ev_leading_space demo_files_env) CHR '','' DefaultNullSentinel"
  by (simp add: fieldNeedsQuotes_def demo_files_env_def DefaultNullSentinel_def)


theorem failed_roll_panics_witness:
  "\<exists>err w d. WriteRow demo_files_env (calm_io\<lparr>io_OnSeal := Some (plain_error ''queue'')\<rparr>) 0 ''k'' [GInt 1, GNil] demo_start
      = (RowFailed err, w, d)
    \<and> WriteRow demo_files_env calm_io 0 ''k'' [GInt 2, GNil] (w, d) = (RowPanic, w, d)"
proof -
  obtain w d where wd: "demo_start = (w, d)" by (cases demo_start)
  obtain p where p: "pw_cur w = Some p" "op_failed p = None" "op_rows p = 0" using demo_start(7) by (auto simp: wd)
  have "valid_delim (wc_Delimiter (pw_cfg w))" "wc_MaxPartRows (pw_cfg w) \<le> op_rows p + 1"
    using demo_start(2) p(3) by (simp_all add: wd demo_config valid_delim_def)
  then have "\<exists>err w' d'. WriteRow demo_files_env (calm_io\<lparr>io_OnSeal := Some (plain_error ''queue'')\<rparr>) 0 ''k'' [GInt 1, GNil] (w, d)
      = (RowFailed err, w', d') \<and> pw_rows w' = pw_rows w + 1
    \<and> map pa_Rows (dk_announced d') = map pa_Rows (dk_announced d) @ [op_rows p + 1]
    \<and> WriteRow demo_files_env calm_io 0 ''k'' [GInt 2, GNil] (w', d') = (RowPanic, w', d')"
    using failed_roll_panics [of w p "[GInt 1, GNil]" "[GInt 2, GNil]" "calm_io\<lparr>io_OnSeal := Some (plain_error ''queue'')\<rparr>"
        "plain_error ''queue''" demo_files_env 0 "''k''" d calm_io 0 "''k''"] p(1,2) demo_start(3,4)
    by (simp add: wd)
  then show ?thesis by (auto simp: wd)
qed

end
