(* ===== verification/Loader.thy ===== *)
theory Loader
  imports Parts Plane Config SinkAtomic
begin

text \<open>
  The snapshot loader, \<open>cmd/snapshot-loader/main.go\<close>, and what the statements it sends do to the
  target (\<open>internal/dialect/postgres.go\<close> and \<open>mysql.go\<close>): the staging table, the import of a part,
  the fenced merge. The import itself is the database reading from object storage: an argument, from
  the location of a part to the rows or an error. The engines differ where their manuals do: in
  PostgreSQL the statements of a part are one transaction; in MySQLEngine creating or dropping a table
  commits at once, and a table created like the target has the target's primary key.
\<close>

section \<open>Statements\<close>

datatype engine = PostgresEngine | MySQLEngine

definition ControlSchema :: string where "ControlSchema = ''migration_ctl''"

record s3_source =
  s3_Bucket :: string
  s3_Key :: string
  s3_Region :: string
  s3_Compressed :: bool
  s3_Delimiter :: string
  s3_NullSentinel :: string

definition URI :: "s3_source \<Rightarrow> string" where
  "URI s = ''s3://'' @ s3_Bucket s @ ''/'' @ s3_Key s"

datatype load_stmt =
    ApplySetting string
  | CreateStagingTable
  | BulkImport s3_source
  | MergeStaging int
  | DropStagingTable
  | RestoreSetting string

definition pg_BulkLoadSessionSettings :: "string list" where
  "pg_BulkLoadSessionSettings =
     [''SET LOCAL synchronous_commit = OFF'', ''SET LOCAL maintenance_work_mem = '' @ [CHR 0x27] @ ''1GB'' @ [CHR 0x27],
      ''SET LOCAL statement_timeout = 0'']"

definition my_BulkLoadSessionSettings :: "string list" where
  "my_BulkLoadSessionSettings =
     [''SET SESSION unique_checks = 0'', ''SET SESSION foreign_key_checks = 0'',
      ''SET SESSION sql_mode = '' @ [CHR 0x27] @ ''STRICT_ALL_TABLES,NO_ENGINE_SUBSTITUTION'' @ [CHR 0x27]]"

definition pg_RestoreSessionSettings :: "string list" where
  "pg_RestoreSessionSettings =
     [''SET LOCAL synchronous_commit = ON'', ''SET LOCAL statement_timeout = '' @ [CHR 0x27] @ ''60s'' @ [CHR 0x27]]"

definition my_RestoreSessionSettings :: "string list" where
  "my_RestoreSessionSettings = [''SET SESSION unique_checks = 1'', ''SET SESSION foreign_key_checks = 1'']"

fun BulkLoadSessionSettings :: "engine \<Rightarrow> string list" where
  "BulkLoadSessionSettings PostgresEngine = pg_BulkLoadSessionSettings"
| "BulkLoadSessionSettings MySQLEngine = my_BulkLoadSessionSettings"

fun RestoreSessionSettings :: "engine \<Rightarrow> string list" where
  "RestoreSessionSettings PostgresEngine = pg_RestoreSessionSettings"
| "RestoreSessionSettings MySQLEngine = my_RestoreSessionSettings"

section \<open>What the database does\<close>

record load_db =
  ld_tables :: "table_ref \<Rightarrow> table"
  ld_staging :: "table_ref \<Rightarrow> gval list list option"
  ld_control :: control_db

text \<open>
  What the loader was started with, and what it depends on: the digest, the extract directory, the
  import and, for a part in which a key occurs twice, the row of them that the database picks.
\<close>

record load_env =
  le_engine :: engine
  le_plan :: plan
  le_storage :: storage
  le_store :: store
  le_sha :: "string \<Rightarrow> string"
  le_dir :: directory
  le_import :: "s3_source \<Rightarrow> string list \<Rightarrow> go_error + gval list list"
  le_pick :: "gval list list \<Rightarrow> gval list"

definition database_error :: "string \<Rightarrow> string option \<Rightarrow> nat option \<Rightarrow> go_error" where
  "database_error msg state number =
     Base \<lparr>be_msg = msg, be_is = None, be_net = False, be_dns = False, be_sqlstate = state, be_mysql = number\<rparr>"

definition undefined_table :: "engine \<Rightarrow> go_error" where
  "undefined_table e = (case e of
       PostgresEngine \<Rightarrow> database_error ''relation does not exist'' (Some ''42P01'') None
     | MySQLEngine \<Rightarrow> database_error ''table does not exist'' None (Some 1146))"

definition undefined_column :: "engine \<Rightarrow> go_error" where
  "undefined_column e = (case e of
       PostgresEngine \<Rightarrow> database_error ''column does not exist'' (Some ''42703'') None
     | MySQLEngine \<Rightarrow> database_error ''unknown column'' None (Some 1054))"

definition duplicate_key :: go_error where
  "duplicate_key = database_error ''duplicate entry for key PRIMARY'' None (Some 1062)"

definition null_key :: "engine \<Rightarrow> go_error" where
  "null_key e = (case e of
       PostgresEngine \<Rightarrow> database_error ''null value violates not-null constraint'' (Some ''23502'') None
     | MySQLEngine \<Rightarrow> database_error ''column cannot be null'' None (Some 1048))"

definition staging_of :: "table_spec \<Rightarrow> table_ref" where
  "staging_of spec = \<lparr>tr_Schema = ControlSchema, tr_Name = ''stg_'' @ tr_Name (ts_Target spec)\<rparr>"

definition merge_key :: "table_spec \<Rightarrow> string list \<Rightarrow> gval list \<Rightarrow> gval list" where
  "merge_key spec columns vals = row_key_of (ts_PrimaryKey spec) (incoming_row columns vals)"

text \<open>One row for each key, in the order of their first occurrence.\<close>

definition one_per_key ::
  "(gval list list \<Rightarrow> gval list) \<Rightarrow> table_spec \<Rightarrow> string list \<Rightarrow> gval list list \<Rightarrow> gval list list" where
  "one_per_key pick spec columns rows =
     map (\<lambda>k. case filter (\<lambda>v. merge_key spec columns v = k) rows of [v] \<Rightarrow> v | vs \<Rightarrow> pick vs)
       (remdups (map (merge_key spec columns) rows))"

definition merge_row :: "engine \<Rightarrow> string list \<Rightarrow> string list \<Rightarrow> int \<Rightarrow> gval list \<Rightarrow> table \<Rightarrow> table" where
  "merge_row e = (case e of PostgresEngine \<Rightarrow> pg_merge_row | MySQLEngine \<Rightarrow> my_merge_row)"

definition exec_stmt ::
  "load_env \<Rightarrow> table_spec \<Rightarrow> string list \<Rightarrow> load_stmt \<Rightarrow> load_db \<Rightarrow> go_error + load_db" where
  "exec_stmt env spec columns s db =
     (let stg = staging_of spec; e = le_engine env; staged = ld_staging db stg in
      case s of
        ApplySetting t \<Rightarrow> Inr db
      | RestoreSetting t \<Rightarrow> Inr db
      | CreateStagingTable \<Rightarrow>
          Inr (if staged = None then db\<lparr>ld_staging := (ld_staging db)(stg \<mapsto> [])\<rparr> else db)
      | BulkImport src \<Rightarrow>
          (case staged of
             None \<Rightarrow> Inl (undefined_table e)
           | Some old \<Rightarrow>
               if \<not> set columns \<subseteq> set (TargetColumnNames spec) then Inl (undefined_column e)
               else (case le_import env src columns of
                   Inl err \<Rightarrow> Inl err
                 | Inr new \<Rightarrow>
                     if e = MySQLEngine \<and> \<not> distinct (map (merge_key spec columns) (old @ new)) then Inl duplicate_key
                     else Inr (db\<lparr>ld_staging := (ld_staging db)(stg \<mapsto> old @ new)\<rparr>)))
      | MergeStaging lsn \<Rightarrow>
          (case staged of
             None \<Rightarrow> Inl (undefined_table e)
           | Some rows \<Rightarrow>
               if list_ex (\<lambda>v. GNil \<in> set (merge_key spec columns v)) rows then Inl (null_key e)
               else Inr (db\<lparr>ld_tables := (ld_tables db)(ts_Target spec :=
                      fold (merge_row e (ts_PrimaryKey spec) columns lsn)
                        (one_per_key (le_pick env) spec columns rows) (ld_tables db (ts_Target spec)))\<rparr>))
      | DropStagingTable \<Rightarrow> Inr (db\<lparr>ld_staging := (ld_staging db)(stg := None)\<rparr>))"

section \<open>One part\<close>

text \<open>\<open>filepath.Join\<close>: empty elements are ignored, the rest is joined with slashes and cleaned.\<close>

fun clean_step :: "bool \<Rightarrow> string \<Rightarrow> string list \<Rightarrow> string list" where
  "clean_step rooted e done' =
     (if e = '''' \<or> e = ''.'' then done'
      else if e = ''..'' then
        (if done' \<noteq> [] \<and> last done' \<noteq> ''..'' then butlast done'
         else if rooted then done' else done' @ [''..''])
      else done' @ [e])"

fun join_slash :: "string list \<Rightarrow> string" where
  "join_slash [] = ''''"
| "join_slash [p] = p"
| "join_slash (p # ps) = p @ CHR ''/'' # join_slash ps"

definition Clean :: "string \<Rightarrow> string" where
  "Clean p =
     (let rooted = (p \<noteq> '''' \<and> hd p = CHR ''/'');
          elements = fold (clean_step rooted) (split_on CHR ''/'' p) []
      in if rooted then CHR ''/'' # join_slash elements
         else if elements = [] then ''.'' else join_slash elements)"

definition Join :: "string list \<Rightarrow> string" where
  "Join elems =
     (case filter (\<lambda>e. e \<noteq> '''') elems of [] \<Rightarrow> '''' | es \<Rightarrow> Clean (join_slash es))"

definition source_of :: "load_env \<Rightarrow> manifest \<Rightarrow> part \<Rightarrow> s3_source" where
  "source_of env m p =
     \<lparr>s3_Bucket = so_Bucket (le_storage env), s3_Key = Join [so_Prefix (le_storage env), pa_Name p],
      s3_Region = so_Region (le_storage env), s3_Compressed = pa_Compressed p,
      s3_Delimiter = mn_Delimiter m, s3_NullSentinel = mn_NullSentinel m\<rparr>"

definition part_statements :: "load_env \<Rightarrow> manifest \<Rightarrow> part \<Rightarrow> load_stmt list" where
  "part_statements env m p =
     map ApplySetting (BulkLoadSessionSettings (le_engine env))
     @ [CreateStagingTable, BulkImport (source_of env m p), MergeStaging (uint (pa_ExtractLSN p)), DropStagingTable]
     @ map RestoreSetting (RestoreSessionSettings (le_engine env))"

definition stmt_error :: "part \<Rightarrow> load_stmt \<Rightarrow> go_error \<Rightarrow> go_error" where
  "stmt_error p s e =
     (case s of
        ApplySetting t \<Rightarrow> Errorf ''applying bulk-load session setting'' e
      | CreateStagingTable \<Rightarrow> Errorf ''creating staging table'' e
      | BulkImport src \<Rightarrow> Errorf (''importing '' @ URI src) e
      | MergeStaging lsn \<Rightarrow> Errorf (''merging part '' @ FormatInt (pa_Index p)) e
      | DropStagingTable \<Rightarrow> Errorf ''dropping staging table'' e
      | RestoreSetting t \<Rightarrow> Errorf ''restoring session settings'' e)"

text \<open>
  What the outside does to one attempt: the error of each call, if it fails. A commit that fails may
  have taken effect (the flag).
\<close>

record part_io =
  pi_check :: "go_error option"
  pi_read :: "go_error option"
  pi_begin :: "go_error option"
  pi_stmt :: "load_stmt \<Rightarrow> go_error option"
  pi_commit :: "(go_error \<times> bool) option"
  pi_mark :: "go_error option"
  pi_now :: gotime

definition calm_part :: part_io where
  "calm_part = \<lparr>pi_check = None, pi_read = None, pi_begin = None, pi_stmt = (\<lambda>s. None), pi_commit = None,
     pi_mark = None, pi_now = 0\<rparr>"

fun run_part_stmts ::
  "load_env \<Rightarrow> table_spec \<Rightarrow> string list \<Rightarrow> part_io \<Rightarrow> part \<Rightarrow> load_stmt list \<Rightarrow> load_db \<Rightarrow> go_error option \<times> load_db" where
  "run_part_stmts env spec columns io p [] db = (None, db)"
| "run_part_stmts env spec columns io p (s # ss) db =
     (case pi_stmt io s of
        Some e \<Rightarrow> (Some (stmt_error p s e), db)
      | None \<Rightarrow>
          (case exec_stmt env spec columns s db of
             Inl e \<Rightarrow> (Some (stmt_error p s e), db)
           | Inr db' \<Rightarrow> run_part_stmts env spec columns io p ss db'))"

datatype part_error = Unverified verify_error | LoadFailed go_error

definition loadPart ::
  "load_env \<Rightarrow> part_io \<Rightarrow> table_spec \<Rightarrow> manifest \<Rightarrow> part \<Rightarrow> load_db \<Rightarrow> part_error option \<times> load_db" where
  "loadPart env io spec m p db =
     (case VerifyPart (le_sha env) (pi_read io) (le_dir env) p of
        Some e \<Rightarrow> (Some (Unverified e), db)
      | None \<Rightarrow>
        (case pi_begin io of
           Some e \<Rightarrow> (Some (LoadFailed e), db)
         | None \<Rightarrow>
           (case run_part_stmts env spec (mn_Columns m) io p (part_statements env m p) db of
              (Some e, db') \<Rightarrow> (Some (LoadFailed e), if le_engine env = PostgresEngine then db else db')
            | (None, db') \<Rightarrow>
              (case pi_commit io of
                 Some (e, took_effect) \<Rightarrow>
                   (Some (LoadFailed (Errorf (''committing part '' @ FormatInt (pa_Index p)) e)),
                    if le_engine env = PostgresEngine \<and> \<not> took_effect then db else db')
               | None \<Rightarrow>
                 (case MarkPartLoaded (le_store env) (pi_mark io) (pi_now io) (ts_Source spec) (pa_Index p)
                         (pa_Rows p) (pa_SHA256 p) (ld_control db') of
                    (e, c) \<Rightarrow> (map_option LoadFailed e, db'\<lparr>ld_control := c\<rparr>))))))"

section \<open>A manifest, and a pass over all of them\<close>

datatype loader_error = NotInPlan string | StateUnknown go_error | PartError part_error | NoScan go_error

text \<open>The parts for which loading is started, and the error that ends the loop over the parts.\<close>

fun started_parts ::
  "load_env \<Rightarrow> (part \<Rightarrow> part_io) \<Rightarrow> table_spec \<Rightarrow> control_db \<Rightarrow> part list \<Rightarrow> part list \<times> go_error option" where
  "started_parts env io spec c [] = ([], None)"
| "started_parts env io spec c (p # ps) =
     (case PartLoaded (le_store env) (pi_check (io p)) (ts_Source spec) (pa_Index p) c of
        Inl e \<Rightarrow> ([], Some e)
      | Inr already \<Rightarrow>
          let (started, e) = started_parts env io spec c ps in (if already then started else p # started, e))"

text \<open>Loading the started parts one at a time, in the order in which they get hold of the staging table; the first error is kept.\<close>

fun run_parts ::
  "load_env \<Rightarrow> (part \<Rightarrow> part_io) \<Rightarrow> table_spec \<Rightarrow> manifest \<Rightarrow> part list \<Rightarrow> load_db \<Rightarrow> part_error option \<times> load_db" where
  "run_parts env io spec m [] db = (None, db)"
| "run_parts env io spec m (p # ps) db =
     (let (e, db) = loadPart env (io p) spec m p db;
          (e', db) = run_parts env io spec m ps db
      in (case e of None \<Rightarrow> e' | Some x \<Rightarrow> Some x, db))"

definition loadManifest ::
  "load_env \<Rightarrow> (part \<Rightarrow> part_io) \<Rightarrow> (part list \<Rightarrow> part list) \<Rightarrow> manifest \<Rightarrow> load_db \<Rightarrow> loader_error option \<times> load_db" where
  "loadManifest env io order m db =
     (case Plan_Table (le_plan env) (ParseTableRef (mn_SourceTable m)) of
        None \<Rightarrow> (Some (NotInPlan (mn_SourceTable m)), db)
      | Some spec \<Rightarrow>
          let (started, unknown) = started_parts env io spec (ld_control db) (SealedParts m);
              (e, db) = run_parts env io spec m (order started) db
          in (case unknown of Some u \<Rightarrow> Some (StateUnknown u) | None \<Rightarrow> map_option PartError e, db))"

fun pass_manifests ::
  "load_env \<Rightarrow> (part \<Rightarrow> part_io) \<Rightarrow> (part list \<Rightarrow> part list) \<Rightarrow> bool \<Rightarrow> (go_error + (go_error + manifest)) list \<Rightarrow> load_db
   \<Rightarrow> (loader_error + bool) \<times> load_db" where
  "pass_manifests env io order all_complete [] db = (Inr all_complete, db)"
| "pass_manifests env io order all_complete (content # rest) db =
     (case ReadManifest content of
        Inl e \<Rightarrow> pass_manifests env io order False rest db
      | Inr m \<Rightarrow>
          (case loadManifest env io order m db of
             (Some e, db) \<Rightarrow> (Inl e, db)
           | (None, db) \<Rightarrow> pass_manifests env io order (all_complete \<and> mn_Complete m) rest db))"

definition pass ::
  "load_env \<Rightarrow> (part \<Rightarrow> part_io) \<Rightarrow> (part list \<Rightarrow> part list) \<Rightarrow> go_error + (go_error + (go_error + manifest)) list \<Rightarrow> load_db
   \<Rightarrow> (loader_error + bool) \<times> load_db" where
  "pass env io order found db =
     (case found of
        Inl e \<Rightarrow> (Inl (NoScan e), db)
      | Inr contents \<Rightarrow> pass_manifests env io order True contents db)"

section \<open>What one part does\<close>

lemma merge_row_pg [simp]: "merge_row e = pg_merge_row"
  by (auto simp: merge_row_def my_merge_row_eq fun_eq_iff split: engine.splits)

lemma one_per_key_distinct:
  "distinct (map (merge_key spec columns) rows) \<Longrightarrow> one_per_key pick spec columns rows = rows"
proof -
  assume d: "distinct (map (merge_key spec columns) rows)"
  have "filter (\<lambda>v. merge_key spec columns v = merge_key spec columns r) rows = [r]" if "r \<in> set rows" for r
    using that d by (induction rows) (auto simp: filter_empty_conv, metis image_eqI)
  then show ?thesis by (simp add: one_per_key_def d distinct_remdups_id comp_def cong: map_cong)
qed

text \<open>The table after merging what the database read of a part.\<close>

definition part_merged :: "load_env \<Rightarrow> table_spec \<Rightarrow> string list \<Rightarrow> int \<Rightarrow> gval list list \<Rightarrow> table \<Rightarrow> table" where
  "part_merged env spec columns lsn rows tbl =
     fold (pg_merge_row (ts_PrimaryKey spec) columns lsn) (one_per_key (le_pick env) spec columns rows) tbl"

definition importable :: "load_env \<Rightarrow> table_spec \<Rightarrow> string list \<Rightarrow> gval list list \<Rightarrow> bool" where
  "importable env spec columns rows \<longleftrightarrow>
     set columns \<subseteq> set (TargetColumnNames spec)
     \<and> (le_engine env = MySQLEngine \<longrightarrow> distinct (map (merge_key spec columns) rows))
     \<and> (\<forall>v \<in> set rows. GNil \<notin> set (merge_key spec columns v))"

definition loaded_into :: "table_ref \<Rightarrow> (table \<Rightarrow> table) \<Rightarrow> load_db \<Rightarrow> load_db" where
  "loaded_into t f db = db\<lparr>ld_tables := (ld_tables db)(t := f (ld_tables db t))\<rparr>"

lemma run_settings [simp]:
  "run_part_stmts env spec columns io p (map ApplySetting ts @ ss) db =
     (case find (\<lambda>t. pi_stmt io (ApplySetting t) \<noteq> None) ts of
        Some t \<Rightarrow> (Some (stmt_error p (ApplySetting t) (the (pi_stmt io (ApplySetting t)))), db)
      | None \<Rightarrow> run_part_stmts env spec columns io p ss db)"
  by (induction ts) (auto simp: exec_stmt_def Let_def split: option.splits)

lemma run_restore [simp]:
  "run_part_stmts env spec columns io p (map RestoreSetting ts) db =
     (map_option (\<lambda>t. stmt_error p (RestoreSetting t) (the (pi_stmt io (RestoreSetting t))))
        (find (\<lambda>t. pi_stmt io (RestoreSetting t) \<noteq> None) ts), db)"
  by (induction ts) (auto simp: exec_stmt_def Let_def split: option.splits)

text \<open>When all statements of a part succeed, and that they do.\<close>

lemma part_statements_done:
  assumes "ld_staging db (staging_of spec) = None"
    and "run_part_stmts env spec columns io p (part_statements env m p) db = (None, db')"
  shows "\<exists>rows. le_import env (source_of env m p) columns = Inr rows \<and> importable env spec columns rows
    \<and> db' = loaded_into (ts_Target spec) (part_merged env spec columns (uint (pa_ExtractLSN p)) rows) db"
proof -
  have "(ld_staging db)(staging_of spec := None) = ld_staging db" using assms(1) by (metis fun_upd_triv)
  then show ?thesis
    using assms
    by (auto simp: part_statements_def exec_stmt_def Let_def importable_def part_merged_def loaded_into_def list_ex_iff
        split: option.splits sum.splits if_splits)
qed

lemma part_statements_succeed:
  assumes "ld_staging db (staging_of spec) = None" and "\<And>s. pi_stmt io s = None"
    and "le_import env (source_of env m p) columns = Inr rows" and "importable env spec columns rows"
  shows "run_part_stmts env spec columns io p (part_statements env m p) db
    = (None, loaded_into (ts_Target spec) (part_merged env spec columns (uint (pa_ExtractLSN p)) rows) db)"
proof -
  have "(ld_staging db)(staging_of spec := None) = ld_staging db" using assms(1) by (metis fun_upd_triv)
  moreover have "\<not> list_ex (\<lambda>v. GNil \<in> set (merge_key spec columns v)) rows"
    using assms(4) by (auto simp: importable_def list_ex_iff)
  moreover have "find (\<lambda>t. False) ts = None" for ts :: "string list" by (induction ts) simp_all
  ultimately show ?thesis
    using assms
    by (simp add: part_statements_def exec_stmt_def Let_def importable_def part_merged_def loaded_into_def)
qed

text \<open>
  C20: a part is loaded as a whole or not at all. In PostgreSQL, whatever fails at any moment, the
  target either stays as it was or has every row of the part merged under the fence, from a file that verified;
  nothing else of the database changes. A part is reported as loaded exactly when it is also recorded, so that
  the worst that a failure leaves behind is a part that was merged and will be merged again.
\<close>

theorem part_all_or_nothing:
  assumes "le_engine env = PostgresEngine" and "ld_staging db (staging_of spec) = None"
    and "loadPart env io spec m p db = (r, db')"
  shows "(ld_tables db' = ld_tables db
      \<or> VerifyPart (le_sha env) (pi_read io) (le_dir env) p = None
        \<and> (\<exists>rows. le_import env (source_of env m p) (mn_Columns m) = Inr rows
          \<and> ld_tables db' = (ld_tables db)(ts_Target spec := part_merged env spec (mn_Columns m)
              (uint (pa_ExtractLSN p)) rows (ld_tables db (ts_Target spec)))))
    \<and> ld_staging db' = ld_staging db
    \<and> (r \<noteq> None \<longrightarrow> ld_control db' = ld_control db)
    \<and> (r = None \<longrightarrow> PartLoaded (le_store env) None (ts_Source spec) (pa_Index p) (ld_control db') = Inr True
        \<and> (\<exists>rows. le_import env (source_of env m p) (mn_Columns m) = Inr rows
          \<and> ld_tables db' = (ld_tables db)(ts_Target spec := part_merged env spec (mn_Columns m)
              (uint (pa_ExtractLSN p)) rows (ld_tables db (ts_Target spec)))))"
proof (cases "VerifyPart (le_sha env) (pi_read io) (le_dir env) p = None \<and> pi_begin io = None")
  case False
  then show ?thesis using assms(3) by (auto simp: loadPart_def split: option.splits)
next
  case True
  obtain e d where run: "run_part_stmts env spec (mn_Columns m) io p (part_statements env m p) db = (e, d)"
    by (metis surj_pair)
  show ?thesis
  proof (cases e)
    case (Some x)
    then show ?thesis using assms(1,3) True run by (auto simp: loadPart_def)
  next
    case None
    from part_statements_done [OF assms(2) run [unfolded this]] obtain rows where
      rows: "le_import env (source_of env m p) (mn_Columns m) = Inr rows"
        "d = loaded_into (ts_Target spec) (part_merged env spec (mn_Columns m) (uint (pa_ExtractLSN p)) rows) db"
      by blast
    show ?thesis
    proof (cases "pi_commit io")
      case (Some f)
      then show ?thesis using assms(1,3) True run None rows
        by (cases f) (auto simp: loadPart_def loaded_into_def split: if_splits)
    next
      case commit: None
      obtain e' c where mark: "MarkPartLoaded (le_store env) (pi_mark io) (pi_now io) (ts_Source spec) (pa_Index p)
          (pa_Rows p) (pa_SHA256 p) (ld_control d) = (e', c)" by (metis surj_pair)
      have "e' \<noteq> None \<longrightarrow> c = ld_control d"
        "e' = None \<longrightarrow> PartLoaded (le_store env) None (ts_Source spec) (pa_Index p) c = Inr True"
        using mark by (auto simp: MarkPartLoaded_def PartLoaded_def Let_def split: option.splits if_splits)
      then show ?thesis using assms(3) True run None commit mark rows
        by (auto simp: loadPart_def loaded_into_def)
    qed
  qed
qed

section \<open>Loading an extract\<close>

lemma pg_merge_row_other: "k \<noteq> row_key_of pk (incoming_row columns vs) \<Longrightarrow> pg_merge_row pk columns lsn vs tbl k = tbl k"
  by (simp add: pg_merge_row_def Let_def split: option.splits)

lemma pg_merge_row_at:
  "tbl (row_key_of pk (incoming_row columns vs)) = tbl' (row_key_of pk (incoming_row columns vs)) \<Longrightarrow>
   pg_merge_row pk columns lsn vs tbl (row_key_of pk (incoming_row columns vs))
     = pg_merge_row pk columns lsn vs tbl' (row_key_of pk (incoming_row columns vs))"
  by (simp add: pg_merge_row_def Let_def split: option.splits)

lemma fold_merge_other:
  "k \<notin> set (map (merge_key spec columns) rows) \<Longrightarrow>
   fold (pg_merge_row (ts_PrimaryKey spec) columns lsn) rows tbl k = tbl k"
  by (induction rows arbitrary: tbl) (auto simp: pg_merge_row_other merge_key_def)

lemma fold_merge_row:
  assumes "distinct (map (merge_key spec columns) rows)" and "vs \<in> set rows"
  shows "fold (pg_merge_row (ts_PrimaryKey spec) columns lsn) rows tbl (merge_key spec columns vs)
    = pg_merge_row (ts_PrimaryKey spec) columns lsn vs tbl (merge_key spec columns vs)"
  using assms
proof (induction rows arbitrary: tbl)
  case (Cons r rows)
  show ?case
  proof (cases "vs = r")
    case True
    then show ?thesis using Cons.prems by (simp add: fold_merge_other)
  next
    case False
    then have vs: "vs \<in> set rows" "merge_key spec columns vs \<noteq> merge_key spec columns r"
      using Cons.prems by (auto simp: image_iff)
    let ?t = "pg_merge_row (ts_PrimaryKey spec) columns lsn r tbl"
    have "?t (merge_key spec columns vs) = tbl (merge_key spec columns vs)"
      using vs(2) by (simp add: pg_merge_row_other merge_key_def)
    then have "pg_merge_row (ts_PrimaryKey spec) columns lsn vs ?t (merge_key spec columns vs)
        = pg_merge_row (ts_PrimaryKey spec) columns lsn vs tbl (merge_key spec columns vs)"
      unfolding merge_key_def by (rule pg_merge_row_at)
    then show ?thesis using Cons.IH [of ?t] Cons.prems(1) vs(1) by (simp only: fold_Cons comp_apply distinct.simps list.map simp_thms)
  qed
qed simp

text \<open>A part that verifies, imports and is not recorded yet is loaded when nothing fails.\<close>

definition unrecorded :: "load_env \<Rightarrow> table_spec \<Rightarrow> part \<Rightarrow> load_db \<Rightarrow> bool" where
  "unrecorded env spec p db \<longleftrightarrow> (\<forall>r \<in> set (cd_parts (ld_control db)).
     part_key r \<noteq> (st_migrationID (le_store env), TableRef_String (ts_Source spec), pa_Index p))"

definition recorded :: "load_env \<Rightarrow> table_spec \<Rightarrow> part \<Rightarrow> load_db \<Rightarrow> load_db" where
  "recorded env spec p db =
     db\<lparr>ld_control := snd (MarkPartLoaded (le_store env) None 0 (ts_Source spec) (pa_Index p) (pa_Rows p) (pa_SHA256 p)
          (ld_control db))\<rparr>"

lemma loadPart_calm:
  assumes "ld_staging db (staging_of spec) = None" and "unrecorded env spec p db"
    and "VerifyPart (le_sha env) None (le_dir env) p = None"
    and "le_import env (source_of env m p) (mn_Columns m) = Inr rows" and "importable env spec (mn_Columns m) rows"
  shows "loadPart env calm_part spec m p db = (None, recorded env spec p
    (loaded_into (ts_Target spec) (part_merged env spec (mn_Columns m) (uint (pa_ExtractLSN p)) rows) db))"
proof -
  have "run_part_stmts env spec (mn_Columns m) calm_part p (part_statements env m p) db
    = (None, loaded_into (ts_Target spec) (part_merged env spec (mn_Columns m) (uint (pa_ExtractLSN p)) rows) db)"
    using assms(1,4,5) by (intro part_statements_succeed) (simp_all add: calm_part_def)
  then show ?thesis using assms(2,3)
    by (auto simp: loadPart_def calm_part_def recorded_def MarkPartLoaded_def Let_def loaded_into_def unrecorded_def
        part_key_def)
qed

lemma recorded_simps [simp]:
  "ld_tables (recorded env spec p db) = ld_tables db" "ld_staging (recorded env spec p db) = ld_staging db"
  "ld_tables (loaded_into t f db) = (ld_tables db)(t := f (ld_tables db t))"
  "ld_staging (loaded_into t f db) = ld_staging db" "ld_control (loaded_into t f db) = ld_control db"
  by (simp_all add: recorded_def loaded_into_def)

lemma recorded_unrecorded:
  "unrecorded env spec q (recorded env spec p db) \<longleftrightarrow> unrecorded env spec q db \<and> (unrecorded env spec p db \<longrightarrow> pa_Index q \<noteq> pa_Index p)"
  by (auto simp: unrecorded_def recorded_def MarkPartLoaded_def Let_def part_key_def split: if_splits)

lemma PartLoaded_recorded:
  "unrecorded env spec p db \<Longrightarrow> PartLoaded (le_store env) None (ts_Source spec) (pa_Index p) (ld_control (recorded env spec p db)) = Inr True"
  "PartLoaded (le_store env) None (ts_Source spec) (pa_Index q) (ld_control db) = Inr True
    \<Longrightarrow> PartLoaded (le_store env) None (ts_Source spec) (pa_Index q) (ld_control (recorded env spec p db)) = Inr True"
  "unrecorded env spec p db \<Longrightarrow> PartLoaded (le_store env) None (ts_Source spec) (pa_Index p) (ld_control db) = Inr False"
  by (auto simp: PartLoaded_def unrecorded_def recorded_def MarkPartLoaded_def Let_def part_key_def filter_empty_conv)

lemma run_parts_calm:
  assumes "ld_staging db (staging_of spec) = None" and "distinct (map pa_Index ps)"
    and "\<forall>p \<in> set ps. unrecorded env spec p db \<and> VerifyPart (le_sha env) None (le_dir env) p = None
       \<and> pa_ExtractLSN p = lsn
       \<and> le_import env (source_of env m p) (mn_Columns m) = Inr (rows_of p) \<and> importable env spec (mn_Columns m) (rows_of p)
       \<and> distinct (map (merge_key spec (mn_Columns m)) (rows_of p))"
  shows "\<exists>db'. run_parts env (\<lambda>p. calm_part) spec m ps db = (None, db')
    \<and> ld_tables db' = (ld_tables db)(ts_Target spec :=
        fold (pg_merge_row (ts_PrimaryKey spec) (mn_Columns m) (uint lsn)) (concat (map rows_of ps)) (ld_tables db (ts_Target spec)))
    \<and> (\<forall>p. p \<in> set ps \<or> PartLoaded (le_store env) None (ts_Source spec) (pa_Index p) (ld_control db) = Inr True
        \<longrightarrow> PartLoaded (le_store env) None (ts_Source spec) (pa_Index p) (ld_control db') = Inr True)"
  using assms
proof (induction ps arbitrary: db)
  case Nil
  then show ?case by simp
next
  case (Cons p ps)
  let ?d = "recorded env spec p (loaded_into (ts_Target spec)
      (fold (pg_merge_row (ts_PrimaryKey spec) (mn_Columns m) (uint lsn)) (rows_of p)) db)"
  have p: "unrecorded env spec p db" "VerifyPart (le_sha env) None (le_dir env) p = None" "pa_ExtractLSN p = lsn"
    "le_import env (source_of env m p) (mn_Columns m) = Inr (rows_of p)" "importable env spec (mn_Columns m) (rows_of p)"
    "distinct (map (merge_key spec (mn_Columns m)) (rows_of p))"
    using Cons.prems(3) by simp_all
  have "part_merged env spec (mn_Columns m) (uint lsn) (rows_of p)
      = fold (pg_merge_row (ts_PrimaryKey spec) (mn_Columns m) (uint lsn)) (rows_of p)"
    by (simp add: fun_eq_iff part_merged_def one_per_key_distinct [OF p(6)])
  then have first: "loadPart env calm_part spec m p db = (None, ?d)"
    using loadPart_calm [OF Cons.prems(1) p(1,2,4,5)] p(3) by simp
  let ?l = "loaded_into (ts_Target spec) (fold (pg_merge_row (ts_PrimaryKey spec) (mn_Columns m) (uint lsn)) (rows_of p)) db"
  have same: "unrecorded env spec q ?l = unrecorded env spec q db" for q by (simp add: unrecorded_def)
  have "\<forall>q \<in> set ps. unrecorded env spec q ?d"
    using Cons.prems(2,3) by (auto simp: recorded_unrecorded same) (metis image_eqI)
  then have rest_ok: "\<forall>p \<in> set ps. unrecorded env spec p ?d \<and> VerifyPart (le_sha env) None (le_dir env) p = None
       \<and> pa_ExtractLSN p = lsn
       \<and> le_import env (source_of env m p) (mn_Columns m) = Inr (rows_of p) \<and> importable env spec (mn_Columns m) (rows_of p)
       \<and> distinct (map (merge_key spec (mn_Columns m)) (rows_of p))"
    using Cons.prems(3) by simp
  have staging: "ld_staging ?d (staging_of spec) = None" using Cons.prems(1) by simp
  have indices: "distinct (map pa_Index ps)" using Cons.prems(2) by simp
  obtain db' where rest: "run_parts env (\<lambda>p. calm_part) spec m ps ?d = (None, db')"
    "ld_tables db' = (ld_tables ?d)(ts_Target spec :=
        fold (pg_merge_row (ts_PrimaryKey spec) (mn_Columns m) (uint lsn)) (concat (map rows_of ps)) (ld_tables ?d (ts_Target spec)))"
    "\<forall>p. p \<in> set ps \<or> PartLoaded (le_store env) None (ts_Source spec) (pa_Index p) (ld_control ?d) = Inr True
        \<longrightarrow> PartLoaded (le_store env) None (ts_Source spec) (pa_Index p) (ld_control db') = Inr True"
    using Cons.IH [OF staging indices rest_ok] by blast
  have "PartLoaded (le_store env) None (ts_Source spec) (pa_Index p) (ld_control ?d) = Inr True"
    using PartLoaded_recorded(1) [of env spec p ?l] p(1) by (simp add: same)
  moreover have "PartLoaded (le_store env) None (ts_Source spec) (pa_Index q) (ld_control db) = Inr True \<Longrightarrow>
      PartLoaded (le_store env) None (ts_Source spec) (pa_Index q) (ld_control ?d) = Inr True" for q
    using PartLoaded_recorded(2) [of env spec q ?l p] by simp
  moreover have "run_parts env (\<lambda>p. calm_part) spec m (p # ps) db = (None, db')" using first rest(1) by simp
  moreover have "ld_tables db' = (ld_tables db)(ts_Target spec :=
      fold (pg_merge_row (ts_PrimaryKey spec) (mn_Columns m) (uint lsn)) (concat (map rows_of (p # ps))) (ld_tables db (ts_Target spec)))"
    using rest(2) by (simp add: fun_eq_iff)
  ultimately show ?case using rest(3) by (intro exI [of _ db'] conjI allI impI) auto
qed

lemma started_calm:
  "\<forall>p \<in> set ps. unrecorded env spec p db \<Longrightarrow> started_parts env (\<lambda>p. calm_part) spec (ld_control db) ps = (ps, None)"
proof (induction ps)
  case (Cons p ps)
  then show ?case using PartLoaded_recorded(3) [of env spec p db] by (simp add: calm_part_def)
qed simp

lemma SealedParts_distinct: "Manifest_Validate m = None \<Longrightarrow> distinct (map pa_Index (SealedParts m))"
proof -
  assume "Manifest_Validate m = None"
  then have "distinct (map pa_Index (filter Eligible (mn_Parts m)))"
    unfolding Manifest_Validate_None by (simp add: distinct_map_filter)
  moreover have "mset (map pa_Index (SealedParts m)) = mset (map pa_Index (filter Eligible (mn_Parts m)))"
    by (simp add: SealedParts_def)
  ultimately show ?thesis by (metis mset_eq_imp_distinct_iff)
qed

lemma mset_concat_map: "mset (concat (map f xs)) = sum_mset (image_mset (\<lambda>x. mset (f x)) (mset xs))"
  by (induction xs) simp_all

lemma distinct_concat_part: "distinct (map g (concat (map f ps))) \<Longrightarrow> p \<in> set ps \<Longrightarrow> distinct (map g (f p))"
  by (induction ps) auto

text \<open>What the database reads of a part, as the manual of its CSV import says: the file's records, each value parsed.\<close>

definition reads_csv :: "load_env \<Rightarrow> manifest \<Rightarrow> (string option list \<Rightarrow> gval list) \<Rightarrow> bool" where
  "reads_csv env m parse \<longleftrightarrow> (\<forall>p \<in> set (SealedParts m). \<forall>t rows.
     le_dir env (pa_Name p) = Some t \<longrightarrow> import_file (hd (mn_Delimiter m)) (mn_NullSentinel m) t = Some rows \<longrightarrow>
     le_import env (source_of env m p) (mn_Columns m) = Inr (map parse rows))"

text \<open>The parts of a finished extract, with the rows that the database reads of each.\<close>

lemma extract_read:
  assumes "extracted env rows (w, d)" and "\<And>x. ev_sha env x \<noteq> []"
    and "Close env io now lsn (w, d) = (Inr m, w', d')" and "\<not> wc_Compress (pw_cfg w)"
    and "\<not> fieldNeedsQuotes (ev_leading_space env) (wc_Delimiter (pw_cfg w)) (wc_NullSentinel (pw_cfg w))"
    and "le_dir lenv = dk_dir d'" and "reads_csv lenv m parse"
    and "\<forall>vs \<in> set rows. parse (map (arrives_as (mn_NullSentinel m)) vs) = vs"
  shows "\<exists>chunks. rows = concat chunks \<and> list_all2 (\<lambda>p ch. le_import lenv (source_of lenv m p) (mn_Columns m) = Inr ch
    \<and> VerifyPart (ev_sha env) None (le_dir lenv) p = None) (SealedParts m) chunks"
proof -
  obtain chunks where c: "rows = concat chunks" "list_all2 (\<lambda>p ch. \<exists>t. dk_dir d' (pa_Name p) = Some t
      \<and> import_file (hd (mn_Delimiter m)) (mn_NullSentinel m) t = Some (map (map (arrives_as (mn_NullSentinel m))) ch)
      \<and> VerifyPart (ev_sha env) None (dk_dir d') p = None) (SealedParts m) chunks"
    using extract_imported [OF assms(1-5)] by blast
  have "le_import lenv (source_of lenv m p) (mn_Columns m) = Inr ch \<and> VerifyPart (ev_sha env) None (le_dir lenv) p = None"
    if "p \<in> set (SealedParts m)" "ch \<in> set chunks" "\<exists>t. dk_dir d' (pa_Name p) = Some t
      \<and> import_file (hd (mn_Delimiter m)) (mn_NullSentinel m) t = Some (map (map (arrives_as (mn_NullSentinel m))) ch)
      \<and> VerifyPart (ev_sha env) None (dk_dir d') p = None" for p ch
  proof -
    have "map parse (map (map (arrives_as (mn_NullSentinel m))) ch) = ch"
      using assms(8) that(2) unfolding c(1) by (auto intro: map_idI)
    then show ?thesis using that(1,3) assms(6,7) unfolding reads_csv_def by auto
  qed
  note list.rel_mono_strong [OF c(2) this]
  then show ?thesis using c(1) by (intro exI [of _ chunks] conjI)
qed


section \<open>MySQL: what is left in the staging table\<close>

lemma leftovers_block:
  assumes "le_engine env = MySQLEngine" and "ld_staging db (staging_of spec) = Some old" and "set columns \<subseteq> set (TargetColumnNames spec)"
    and "le_import env (source_of env m p) columns = Inr rows" and "\<not> distinct (map (merge_key spec columns) (old @ rows))"
  shows "\<exists>e. run_part_stmts env spec columns io p (part_statements env m p) db = (Some e, db)"
proof -
  have "\<exists>e. run_part_stmts env spec columns io p (CreateStagingTable # BulkImport (source_of env m p) # ss) db = (Some e, db)" for ss
    using assms by (auto simp: exec_stmt_def Let_def split: option.splits)
  then show ?thesis by (auto simp: part_statements_def split: option.splits)
qed

text \<open>
  C22: in MySQL one failed merge makes a part unloadable. When the merge of a part fails after its import, the
  imported rows stay in the staging table, since creating that table has ended the transaction. From then on every attempt to
  load the part is refused, as its rows would be duplicates there, and changes nothing: no later
  pass can load it before the staging table is emptied by someone else.
\<close>

theorem staged_leftovers_wedge:
  assumes "le_engine env = MySQLEngine" and "ld_staging db (staging_of spec) = None"
    and "VerifyPart (le_sha env) None (le_dir env) p = None"
    and "le_import env (source_of env m p) (mn_Columns m) = Inr rows" and "rows \<noteq> []"
    and "importable env spec (mn_Columns m) rows"
    and "io = calm_part\<lparr>pi_stmt := (\<lambda>s. if s = MergeStaging (uint (pa_ExtractLSN p)) then Some e else None)\<rparr>"
    and "loadPart env io spec m p db = (r, db1)"
  shows "r \<noteq> None \<and> ld_tables db1 = ld_tables db \<and> (\<forall>io'. \<exists>e'. loadPart env io' spec m p db1 = (Some e', db1))"
proof -
  have columns: "set (mn_Columns m) \<subseteq> set (TargetColumnNames spec)" and keys: "distinct (map (merge_key spec (mn_Columns m)) rows)"
    using assms(1,6) by (simp_all add: importable_def)
  have "find (\<lambda>t. False) ts = None" for ts :: "string list" by (induction ts) simp_all
  then have "\<exists>x. run_part_stmts env spec (mn_Columns m) io p (part_statements env m p) db
      = (Some x, db\<lparr>ld_staging := (ld_staging db)(staging_of spec \<mapsto> rows)\<rparr>)"
    using assms(1,2,4,7) columns keys
    by (simp add: part_statements_def exec_stmt_def Let_def calm_part_def)
  then have first: "r \<noteq> None" "db1 = db\<lparr>ld_staging := (ld_staging db)(staging_of spec \<mapsto> rows)\<rparr>"
    using assms(1,3,7,8) by (auto simp: loadPart_def calm_part_def)
  have "\<not> distinct (map (merge_key spec (mn_Columns m)) (rows @ rows))" using assms(5) by (cases rows) auto
  then have blocked: "\<exists>x. run_part_stmts env spec (mn_Columns m) io' p (part_statements env m p) db1 = (Some x, db1)" for io'
    using leftovers_block [OF assms(1) _ columns assms(4), of db1 rows] by (simp add: first(2))
  have "\<exists>e'. loadPart env io' spec m p db1 = (Some e', db1)" for io'
  proof -
    obtain x where "run_part_stmts env spec (mn_Columns m) io' p (part_statements env m p) db1 = (Some x, db1)"
      using blocked by blast
    then show ?thesis
      by (cases "VerifyPart (le_sha env) (pi_read io') (le_dir env) p"; cases "pi_begin io'") (simp_all add: loadPart_def assms(1))
  qed
  then show ?thesis using first by simp
qed

section \<open>MySQL: parts that load at the same time\<close>

text \<open>
  Several workers load parts of one table at once. As every statement is committed on its own, what they
  see of each other is the staging table that they all use: a step is one statement of one part. A statement may fail at any time,
  which ends the attempt.
\<close>

inductive loading ::
  "load_env \<Rightarrow> table_spec \<Rightarrow> manifest \<Rightarrow> (part \<Rightarrow> load_stmt list option) \<times> load_db
   \<Rightarrow> (part \<Rightarrow> load_stmt list option) \<times> load_db \<Rightarrow> bool" for env spec m where
  ls_start: "p \<in> set (SealedParts m) \<Longrightarrow> PartLoaded (le_store env) None (ts_Source spec) (pa_Index p) (ld_control db) = Inr False
    \<Longrightarrow> VerifyPart (le_sha env) None (le_dir env) p = None \<Longrightarrow> tasks p = None
    \<Longrightarrow> loading env spec m (tasks, db) (tasks(p \<mapsto> part_statements env m p), db)"
| ls_stmt: "tasks p = Some (s # ss) \<Longrightarrow> exec_stmt env spec (mn_Columns m) s db = Inr db'
    \<Longrightarrow> loading env spec m (tasks, db) (tasks(p \<mapsto> ss), db')"
| ls_fail: "tasks p = Some ss \<Longrightarrow> loading env spec m (tasks, db) (tasks(p := None), db)"
| ls_done: "tasks p = Some [] \<Longrightarrow> loading env spec m (tasks, db) (tasks(p := None), recorded env spec p db)"

fun exec_stmts :: "load_env \<Rightarrow> table_spec \<Rightarrow> string list \<Rightarrow> load_stmt list \<Rightarrow> load_db \<Rightarrow> load_db option" where
  "exec_stmts env spec columns [] db = Some db"
| "exec_stmts env spec columns (s # ss) db =
     (case exec_stmt env spec columns s db of Inl e \<Rightarrow> None | Inr db' \<Rightarrow> exec_stmts env spec columns ss db')"

lemma loading_stmts:
  assumes "exec_stmts env spec (mn_Columns m) ss db = Some db'" and "tasks p = Some (ss @ rest)"
  shows "(loading env spec m)\<^sup>*\<^sup>* (tasks, db) (tasks(p \<mapsto> rest), db')"
  using assms
proof (induction ss arbitrary: db tasks)
  case Nil
  then have "tasks(p \<mapsto> rest) = tasks" by (simp add: fun_upd_idem)
  then show ?case using Nil by simp
next
  case (Cons s ss)
  obtain d where s: "exec_stmt env spec (mn_Columns m) s db = Inr d" "exec_stmts env spec (mn_Columns m) ss d = Some db'"
    using Cons.prems(1) by (auto split: sum.splits)
  have "loading env spec m (tasks, db) (tasks(p \<mapsto> ss @ rest), d)" using ls_stmt Cons.prems(2) s(1) by simp
  moreover have "(loading env spec m)\<^sup>*\<^sup>* (tasks(p \<mapsto> ss @ rest), d) (tasks(p \<mapsto> ss @ rest, p \<mapsto> rest), db')"
    by (rule Cons.IH [OF s(2)]) simp
  ultimately show ?case unfolding fun_upd_upd by (rule converse_rtranclp_into_rtranclp)
qed

lemma exec_settings [simp]:
  "exec_stmts env spec columns (map ApplySetting ts @ ss) db = exec_stmts env spec columns ss db"
  "exec_stmts env spec columns (map RestoreSetting ts) db = Some db"
  by (induction ts) (simp_all add: exec_stmt_def Let_def)

text \<open>The three ways in which a task goes on, over the tasks as a map.\<close>

lemma loading_begin:
  assumes "p \<in> set (SealedParts m)" and "unrecorded env spec p db" and "VerifyPart (le_sha env) None (le_dir env) p = None"
    and "tasks p = None" and "part_statements env m p = ss @ rest" and "exec_stmts env spec (mn_Columns m) ss db = Some db'"
  shows "(loading env spec m)\<^sup>*\<^sup>* (tasks, db) (tasks(p \<mapsto> rest), db')"
proof -
  have "loading env spec m (tasks, db) (tasks(p \<mapsto> ss @ rest), db)"
    using ls_start [of p m env spec db tasks] assms(1,3-5) PartLoaded_recorded(3) [OF assms(2)] by simp
  moreover have "(loading env spec m)\<^sup>*\<^sup>* (tasks(p \<mapsto> ss @ rest), db) (tasks(p \<mapsto> rest), db')"
    using loading_stmts [OF assms(6), of "tasks(p \<mapsto> ss @ rest)" p rest] by simp
  ultimately show ?thesis by (rule converse_rtranclp_into_rtranclp)
qed

lemma loading_end:
  assumes "tasks p = Some ss" and "exec_stmts env spec (mn_Columns m) ss db = Some db'"
  shows "(loading env spec m)\<^sup>*\<^sup>* (tasks, db) (tasks(p := None), recorded env spec p db')"
proof -
  have "(loading env spec m)\<^sup>*\<^sup>* (tasks, db) (tasks(p \<mapsto> []), db')"
    using loading_stmts [OF assms(2), of tasks p "[]"] assms(1) by simp
  moreover have "loading env spec m (tasks(p \<mapsto> []), db') (tasks(p := None), recorded env spec p db')"
    using ls_done [of "tasks(p \<mapsto> [])" p env spec m db'] by simp
  ultimately show ?thesis by (rule rtranclp.rtrancl_into_rtrancl)
qed

definition staged :: "table_spec \<Rightarrow> gval list list option \<Rightarrow> load_db \<Rightarrow> load_db" where
  "staged spec rows db = db\<lparr>ld_staging := (ld_staging db)(staging_of spec := rows)\<rparr>"

lemma staged_simps [simp]:
  "ld_tables (staged spec rows db) = ld_tables db" "ld_control (staged spec rows db) = ld_control db"
  "ld_staging (staged spec rows db) (staging_of spec) = rows" "staged spec a (staged spec b db) = staged spec a db"
  "unrecorded env spec p (staged spec rows db) = unrecorded env spec p db"
  "unrecorded env spec p (loaded_into t f db) = unrecorded env spec p db"
  by (simp_all add: staged_def unrecorded_def)

lemma exec_create [simp]:
  "exec_stmts env spec columns (CreateStagingTable # ss) db =
     exec_stmts env spec columns ss (staged spec (Some (case ld_staging db (staging_of spec) of None \<Rightarrow> [] | Some rows \<Rightarrow> rows)) db)"
proof (cases "ld_staging db (staging_of spec)")
  case (Some rows)
  then have "staged spec (Some rows) db = db" by (simp add: staged_def fun_upd_idem)
  then show ?thesis using Some by (simp add: exec_stmt_def Let_def)
qed (simp add: exec_stmt_def Let_def staged_def)

lemma exec_drop [simp]:
  "exec_stmts env spec columns (DropStagingTable # ss) db = exec_stmts env spec columns ss (staged spec None db)"
  by (simp add: exec_stmt_def Let_def staged_def)

lemma exec_import:
  assumes "ld_staging db (staging_of spec) = Some old" and "set columns \<subseteq> set (TargetColumnNames spec)"
    and "le_import env src columns = Inr rows" and "distinct (map (merge_key spec columns) (old @ rows))"
  shows "exec_stmts env spec columns (BulkImport src # ss) db = exec_stmts env spec columns ss (staged spec (Some (old @ rows)) db)"
  using assms by (simp add: exec_stmt_def Let_def staged_def)

lemma exec_merge:
  assumes "ld_staging db (staging_of spec) = Some rows" and "\<forall>v \<in> set rows. GNil \<notin> set (merge_key spec columns v)"
  shows "exec_stmts env spec columns (MergeStaging lsn # ss) db
    = exec_stmts env spec columns ss (loaded_into (ts_Target spec) (part_merged env spec columns lsn rows) db)"
proof -
  have "\<not> list_ex (\<lambda>v. GNil \<in> set (merge_key spec columns v)) rows" using assms(2) by (auto simp: list_ex_iff)
  then show ?thesis using assms(1) by (simp add: exec_stmt_def Let_def loaded_into_def part_merged_def)
qed

declare exec_stmts.simps(2) [simp del]

lemma part_merged_Nil [simp]: "part_merged env spec columns lsn [] tbl = tbl"
  by (simp add: part_merged_def one_per_key_def)

text \<open>
  C21: in MySQL parts that load together can lose each other's rows. Three parts of a table, sound, with different keys and none
  of them failing: there is an interleaving of their statements that ends with all three recorded as loaded, while of the second part
  no row has reached the target. The first part empties the staging table after the second has
  filled it, and the third has created it again when the second merges.
\<close>

theorem interleaved_parts_lost:
  fixes m spec
  defines "key \<equiv> merge_key spec (mn_Columns m)"
  assumes "le_engine env = MySQLEngine" and "ld_staging db (staging_of spec) = None"
    and "{p, q, r} \<subseteq> set (SealedParts m)" and "distinct [pa_Index p, pa_Index q, pa_Index r]"
    and "\<forall>x \<in> {p, q, r}. unrecorded env spec x db \<and> VerifyPart (le_sha env) None (le_dir env) x = None
       \<and> le_import env (source_of env m x) (mn_Columns m) = Inr (rows_of x)"
    and "importable env spec (mn_Columns m) (rows_of p @ rows_of q @ rows_of r)"
  shows "\<exists>db'. (loading env spec m)\<^sup>*\<^sup>* (Map.empty, db) (Map.empty, db')
    \<and> (\<forall>x \<in> {p, q, r}. PartLoaded (le_store env) None (ts_Source spec) (pa_Index x) (ld_control db') = Inr True)
    \<and> (\<forall>v \<in> set (rows_of q). ld_tables db' (ts_Target spec) (key v) = ld_tables db (ts_Target spec) (key v))"
proof -
  let ?c = "mn_Columns m" and ?T = "ts_Target spec"
  let ?S = "map ApplySetting (BulkLoadSessionSettings (le_engine env))"
  let ?R = "map RestoreSetting (RestoreSessionSettings (le_engine env))"
  let ?im = "\<lambda>x. BulkImport (source_of env m x)" and ?me = "\<lambda>x. MergeStaging (uint (pa_ExtractLSN x))"
  let ?go = "(loading env spec m)\<^sup>*\<^sup>*"
  have ok: "set ?c \<subseteq> set (TargetColumnNames spec)" "distinct (map (merge_key spec ?c) (rows_of p @ rows_of q @ rows_of r))"
    "\<forall>v \<in> set (rows_of p) \<union> set (rows_of q) \<union> set (rows_of r). GNil \<notin> set (merge_key spec ?c v)"
    using assms(2,7) by (auto simp: importable_def)
  have reads: "le_import env (source_of env m p) ?c = Inr (rows_of p)" "le_import env (source_of env m q) ?c = Inr (rows_of q)"
    "le_import env (source_of env m r) ?c = Inr (rows_of r)" using assms(6) by simp_all
  have keys: "distinct (map (merge_key spec ?c) (rows_of p))" "distinct (map (merge_key spec ?c) (rows_of p @ rows_of q))"
    "distinct (map (merge_key spec ?c) (rows_of r))" "distinct (map (merge_key spec ?c) (rows_of q))"
    using ok(2) by auto
  have stmts: "part_statements env m x = (?S @ [CreateStagingTable, ?im x, ?me x]) @ DropStagingTable # ?R"
    "part_statements env m x = (?S @ [CreateStagingTable, ?im x]) @ ?me x # DropStagingTable # ?R"
    "part_statements env m x = (?S @ [CreateStagingTable]) @ ?im x # ?me x # DropStagingTable # ?R" for x
    by (simp_all add: part_statements_def)
  have pqr: "p \<noteq> q" "p \<noteq> r" "q \<noteq> r" using assms(5) by auto
  define d1 where "d1 = loaded_into ?T (part_merged env spec ?c (uint (pa_ExtractLSN p)) (rows_of p)) (staged spec (Some (rows_of p)) db)"
  define d2 where "d2 = staged spec (Some (rows_of p @ rows_of q)) d1"
  define d3 where "d3 = recorded env spec p (staged spec None d2)"
  define d4 where "d4 = staged spec (Some []) d3"
  define d6 where "d6 = loaded_into ?T (part_merged env spec ?c (uint (pa_ExtractLSN r)) (rows_of r)) (staged spec (Some (rows_of r)) d4)"
  define d7 where "d7 = recorded env spec q (staged spec None d6)"
  define d8 where "d8 = recorded env spec r (staged spec None d7)"
  have "exec_stmts env spec ?c (?S @ [CreateStagingTable, ?im p, ?me p]) db = Some d1"
    using ok(1,3) keys(1) reads(1) by (simp add: assms(3) exec_import exec_merge d1_def)
  from loading_begin [OF _ _ _ _ stmts(1) this] have s1: "?go (Map.empty, db) ([p \<mapsto> DropStagingTable # ?R], d1)"
    using assms(4,6) by simp
  have "exec_stmts env spec ?c (?S @ [CreateStagingTable, ?im q]) d1 = Some d2"
    using ok(1) keys(2) reads(2) by (simp add: exec_import d1_def d2_def)
  from loading_begin [OF _ _ _ _ stmts(2) this, of "[p \<mapsto> DropStagingTable # ?R]"]
  have s2: "?go ([p \<mapsto> DropStagingTable # ?R], d1)
      ([p \<mapsto> DropStagingTable # ?R, q \<mapsto> ?me q # DropStagingTable # ?R], d2)"
    using assms(4,6) pqr by (simp add: d1_def)
  have "exec_stmts env spec ?c (DropStagingTable # ?R) d2 = Some (staged spec None d2)" by simp
  from loading_end [OF _ this, of "[p \<mapsto> DropStagingTable # ?R, q \<mapsto> ?me q # DropStagingTable # ?R]" p]
  have s3: "?go ([p \<mapsto> DropStagingTable # ?R, q \<mapsto> ?me q # DropStagingTable # ?R], d2) ([q \<mapsto> ?me q # DropStagingTable # ?R], d3)"
    using pqr by (simp add: d3_def fun_upd_twist)
  have "exec_stmts env spec ?c (?S @ [CreateStagingTable]) d3 = Some d4" by (simp add: d4_def d3_def)
  from loading_begin [OF _ _ _ _ stmts(3) this, of r "[q \<mapsto> ?me q # DropStagingTable # ?R]"]
  have s4: "?go ([q \<mapsto> ?me q # DropStagingTable # ?R], d3)
      ([q \<mapsto> ?me q # DropStagingTable # ?R, r \<mapsto> ?im r # ?me r # DropStagingTable # ?R], d4)"
    using assms(4-6) pqr by (simp add: d1_def d2_def d3_def recorded_unrecorded)
  have "exec_stmts env spec ?c [?me q] d4 = Some d4"
    using exec_merge [of d4 spec "[]"] by (simp add: d4_def loaded_into_def staged_def)
  from loading_stmts [OF this, of "[q \<mapsto> ?me q # DropStagingTable # ?R, r \<mapsto> ?im r # ?me r # DropStagingTable # ?R]" q]
  have s5: "?go ([q \<mapsto> ?me q # DropStagingTable # ?R, r \<mapsto> ?im r # ?me r # DropStagingTable # ?R], d4)
      ([q \<mapsto> DropStagingTable # ?R, r \<mapsto> ?im r # ?me r # DropStagingTable # ?R], d4)"
    using pqr by (simp add: fun_upd_twist)
  have "exec_stmts env spec ?c (DropStagingTable # ?R) d6 = Some (staged spec None d6)" by simp
  from loading_end [OF _ this, of "[q \<mapsto> DropStagingTable # ?R, r \<mapsto> DropStagingTable # ?R]" q]
  have s7: "?go ([q \<mapsto> DropStagingTable # ?R, r \<mapsto> DropStagingTable # ?R], d6) ([r \<mapsto> DropStagingTable # ?R], d7)"
    using pqr by (simp add: d7_def fun_upd_twist)
  have "exec_stmts env spec ?c (DropStagingTable # ?R) d7 = Some (staged spec None d7)" by simp
  from loading_end [OF _ this, of "[r \<mapsto> DropStagingTable # ?R]" r]
  have s8: "?go ([r \<mapsto> DropStagingTable # ?R], d7) (Map.empty, d8)" by (simp add: d8_def)
  have "exec_stmts env spec ?c [?im r, ?me r] d4 = Some d6"
    using ok(1,3) keys(3) reads(3) by (simp add: exec_import exec_merge d4_def d6_def)
  from loading_stmts [OF this, of "[q \<mapsto> DropStagingTable # ?R, r \<mapsto> ?im r # ?me r # DropStagingTable # ?R]" r]
  have s6: "?go ([q \<mapsto> DropStagingTable # ?R, r \<mapsto> ?im r # ?me r # DropStagingTable # ?R], d4)
      ([q \<mapsto> DropStagingTable # ?R, r \<mapsto> DropStagingTable # ?R], d6)"
    using pqr by simp
  have run: "?go (Map.empty, db) (Map.empty, d8)"
    using s1 s2 s3 s4 s5 s6 s7 s8 by (meson rtranclp_trans)
  have lost: "ld_tables d8 ?T (key v) = ld_tables db ?T (key v)" if "v \<in> set (rows_of q)" for v
  proof -
    have "key v \<notin> set (map key (rows_of p))" "key v \<notin> set (map key (rows_of r))"
      using ok(2) that by (auto simp: key_def)
    then show ?thesis
      using fold_merge_other keys(1,3)
      by (simp add: d8_def d7_def d6_def d4_def d3_def d2_def d1_def part_merged_def one_per_key_distinct key_def)
  qed
  have new: "unrecorded env spec p (staged spec None d2)" "unrecorded env spec q (staged spec None d6)"
    "unrecorded env spec r (staged spec None d7)"
    using assms(5,6) by (simp_all add: d7_def d6_def d4_def d3_def d2_def d1_def recorded_unrecorded)
  have "PartLoaded (le_store env) None (ts_Source spec) (pa_Index x) (ld_control d8) = Inr True" if "x \<in> {p, q, r}" for x
  proof -
    have "PartLoaded (le_store env) None (ts_Source spec) (pa_Index p) (ld_control d3) = Inr True"
      using PartLoaded_recorded(1) [OF new(1)] by (simp add: d3_def)
    then have "PartLoaded (le_store env) None (ts_Source spec) (pa_Index p) (ld_control d8) = Inr True"
      by (simp add: d8_def d7_def d6_def d4_def PartLoaded_recorded(2))
    moreover have "PartLoaded (le_store env) None (ts_Source spec) (pa_Index q) (ld_control d8) = Inr True"
      using PartLoaded_recorded(1) [OF new(2)] by (simp add: d8_def d7_def PartLoaded_recorded(2))
    moreover have "PartLoaded (le_store env) None (ts_Source spec) (pa_Index r) (ld_control d8) = Inr True"
      using PartLoaded_recorded(1) [OF new(3)] by (simp add: d8_def)
    ultimately show ?thesis using that by blast
  qed
  then show ?thesis using run lost by blast
qed

section \<open>A small load\<close>

definition demo_typed :: "string option list \<Rightarrow> gval list" where
  "demo_typed = map (\<lambda>f. case f of None \<Rightarrow> GNil | Some t \<Rightarrow> GString t)"

definition demo_import :: "directory \<Rightarrow> s3_source \<Rightarrow> string list \<Rightarrow> go_error + gval list list" where
  "demo_import dir src columns =
     (case dir (s3_Key src) of
        None \<Rightarrow> Inl (database_error ''no such object'' None None)
      | Some t \<Rightarrow>
          (case import_file (hd (s3_Delimiter src)) (s3_NullSentinel src) t of
             None \<Rightarrow> Inl (database_error ''bad CSV'' None None)
           | Some rows \<Rightarrow> Inr (map demo_typed rows)))"

definition demo_load_env :: "engine \<Rightarrow> directory \<Rightarrow> load_env" where
  "demo_load_env e dir = \<lparr>le_engine = e, le_plan = demo_plan,
     le_storage = \<lparr>so_LocalDir = ''parts'', so_Bucket = ''b'', so_Prefix = '''', so_Region = ''r''\<rparr>,
     le_store = demo_store, le_sha = ev_sha demo_files_env, le_dir = dir, le_import = demo_import dir, le_pick = hd\<rparr>"

definition demo_load_db :: load_db where
  "demo_load_db = \<lparr>ld_tables = (\<lambda>t. Map.empty), ld_staging = Map.empty, ld_control = empty_control\<rparr>"

lemma demo_unrecorded [simp]: "unrecorded env spec p demo_load_db"
  by (simp add: unrecorded_def demo_load_db_def empty_control_def)

lemma demo_typed_row: "demo_typed (map (arrives_as DefaultNullSentinel) [GString ''1'', GString ''x'']) = [GString ''1'', GString ''x'']"
  by (simp add: demo_typed_def arrives_as_def DefaultNullSentinel_def)

lemma demo_columns: "ColumnNames demo_spec = [''id'', ''balance'']" "TargetColumnNames demo_spec = [''id'', ''balance'']"
  by (simp_all add: ColumnNames_def TargetColumnNames_def demo_defs cs_Target_def)

lemma demo_key: "merge_key demo_spec [''id'', ''balance''] [GString s, v] = [GString s]"
  by (simp add: merge_key_def row_key_of_def incoming_row_def demo_spec_def)

lemma demo_table: "Plan_Table demo_plan (ParseTableRef (TableRef_String (ts_Source demo_spec))) = Some demo_spec"
  by code_simp

lemma demo_path: "Join ['''', ''app.accounts.dat.00000''] = ''app.accounts.dat.00000''"
  by code_simp


text \<open>One file of one row, for each engine.\<close>

definition demo_file :: "int \<Rightarrow> string \<Rightarrow> part" where
  "demo_file i name = (demo_part i 1)\<lparr>pa_Name := name, pa_Bytes := 4\<rparr>"

definition demo_files :: directory where
  "demo_files = [''a'' \<mapsto> ''1,x'' @ [CHR 0x0A], ''b'' \<mapsto> ''2,y'' @ [CHR 0x0A], ''c'' \<mapsto> ''3,z'' @ [CHR 0x0A]]"

definition demo_files_manifest :: manifest where
  "demo_files_manifest = demo_manifest\<lparr>mn_Columns := [''id'', ''balance''], mn_NullSentinel := DefaultNullSentinel,
     mn_Parts := [demo_file 0 ''a'', demo_file 1 ''b'', demo_file 2 ''c''], mn_TotalRows := 3\<rparr>"

lemma demo_file_imports:
  "le_import (demo_load_env e demo_files) (source_of (demo_load_env e demo_files) demo_files_manifest (demo_file 0 ''a''))
     [''id'', ''balance''] = Inr [[GString ''1'', GString ''x'']]"
  "le_import (demo_load_env e demo_files) (source_of (demo_load_env e demo_files) demo_files_manifest (demo_file 1 ''b''))
     [''id'', ''balance''] = Inr [[GString ''2'', GString ''y'']]"
  "le_import (demo_load_env e demo_files) (source_of (demo_load_env e demo_files) demo_files_manifest (demo_file 2 ''c''))
     [''id'', ''balance''] = Inr [[GString ''3'', GString ''z'']]"
  by code_simp+

lemma demo_file_key: "pa_ExtractLSN (demo_file i n) = 0" "pa_Index (demo_file i n) = i" "pa_SHA256 (demo_file i n) = ''h''"
  by (simp_all add: demo_file_def demo_part_def)

lemma demo_files_verify:
  "VerifyPart (le_sha (demo_load_env e demo_files)) None (le_dir (demo_load_env e demo_files)) p = None"
  if "p \<in> {demo_file 0 ''a'', demo_file 1 ''b'', demo_file 2 ''c''}"
  using that by (auto simp: VerifyPart_def demo_load_env_def demo_files_env_def demo_files_def demo_file_def demo_part_def)

lemma demo_files_columns: "mn_Columns demo_files_manifest = [''id'', ''balance'']"
  by (simp add: demo_files_manifest_def)

lemma demo_files_sealed: "SealedParts demo_files_manifest = [demo_file 0 ''a'', demo_file 1 ''b'', demo_file 2 ''c'']"
  by (simp add: SealedParts_def demo_files_manifest_def Eligible_def demo_file_def demo_part_def)

lemma demo_files_importable:
  "importable (demo_load_env e demo_files) demo_spec [''id'', ''balance''] [[GString ''1'', GString ''x''], [GString ''2'', GString ''y''], [GString ''3'', GString ''z'']]"
  "importable (demo_load_env e demo_files) demo_spec [''id'', ''balance''] [[GString ''1'', GString ''x'']]"
  by (simp_all add: importable_def demo_columns demo_key)

theorem part_all_or_nothing_witness:
  "\<exists>r db'. loadPart (demo_load_env PostgresEngine demo_files) (calm_part\<lparr>pi_mark := Some (plain_error ''down'')\<rparr>) demo_spec
       demo_files_manifest (demo_file 0 ''a'') demo_load_db = (r, db')
     \<and> ld_staging db' = ld_staging demo_load_db"
proof -
  obtain r db' where load: "loadPart (demo_load_env PostgresEngine demo_files) (calm_part\<lparr>pi_mark := Some (plain_error ''down'')\<rparr>) demo_spec
       demo_files_manifest (demo_file 0 ''a'') demo_load_db = (r, db')" by (metis surj_pair)
  have "le_engine (demo_load_env PostgresEngine demo_files) = PostgresEngine" "ld_staging demo_load_db (staging_of demo_spec) = None"
    by (simp_all add: demo_load_env_def demo_load_db_def)
  from part_all_or_nothing [OF this load] show ?thesis using load by blast
qed

theorem staged_leftovers_wedge_witness:
  "\<exists>db1. \<forall>io. \<exists>e. loadPart (demo_load_env MySQLEngine demo_files) io demo_spec demo_files_manifest (demo_file 0 ''a'') db1 = (Some e, db1)"
proof -
  let ?io = "calm_part\<lparr>pi_stmt := (\<lambda>s. if s = MergeStaging (uint (pa_ExtractLSN (demo_file 0 ''a''))) then Some (plain_error ''lock wait'') else None)\<rparr>"
  obtain r db1 where load: "loadPart (demo_load_env MySQLEngine demo_files) ?io demo_spec demo_files_manifest (demo_file 0 ''a'') demo_load_db = (r, db1)"
    by (metis surj_pair)
  have "le_engine (demo_load_env MySQLEngine demo_files) = MySQLEngine" "ld_staging demo_load_db (staging_of demo_spec) = None"
    by (simp_all add: demo_load_env_def demo_load_db_def)
  from staged_leftovers_wedge [OF this demo_files_verify demo_file_imports(1) [folded demo_files_columns] _ _ refl load]
  show ?thesis using demo_files_importable(2) by (auto simp: demo_files_columns)
qed

theorem interleaved_parts_lost_witness:
  "\<exists>db'. (loading (demo_load_env MySQLEngine demo_files) demo_spec demo_files_manifest)\<^sup>*\<^sup>* (Map.empty, demo_load_db) (Map.empty, db')
    \<and> PartLoaded demo_store None (ts_Source demo_spec) 1 (ld_control db') = Inr True
    \<and> ld_tables db' (ts_Target demo_spec) [GString ''2''] = None"
proof -
  let ?env = "demo_load_env MySQLEngine demo_files"
  let ?p = "demo_file 0 ''a''" and ?q = "demo_file 1 ''b''" and ?r = "demo_file 2 ''c''"
  let ?rows = "\<lambda>x. if x = ?p then [[GString ''1'', GString ''x'']] else if x = ?q then [[GString ''2'', GString ''y'']] else [[GString ''3'', GString ''z'']]"
  have neq: "?p \<noteq> ?q" "?p \<noteq> ?r" "?q \<noteq> ?r" by (simp_all add: demo_file_def demo_part_def)
  have "le_engine ?env = MySQLEngine" "ld_staging demo_load_db (staging_of demo_spec) = None"
    by (simp_all add: demo_load_env_def demo_load_db_def)
  moreover have "\<forall>x \<in> {?p, ?q, ?r}. unrecorded ?env demo_spec x demo_load_db
      \<and> VerifyPart (le_sha ?env) None (le_dir ?env) x = None
      \<and> le_import ?env (source_of ?env demo_files_manifest x) (mn_Columns demo_files_manifest) = Inr (?rows x)"
    using neq demo_files_verify [of ?p] demo_files_verify [of ?q] demo_files_verify [of ?r]
    by (simp add: demo_files_columns demo_file_imports)
  moreover have "importable ?env demo_spec (mn_Columns demo_files_manifest) (?rows ?p @ ?rows ?q @ ?rows ?r)"
    using neq demo_files_importable(1) by (simp add: demo_files_columns)
  ultimately have "\<exists>db'. (loading ?env demo_spec demo_files_manifest)\<^sup>*\<^sup>* (Map.empty, demo_load_db) (Map.empty, db')
    \<and> (\<forall>x \<in> {?p, ?q, ?r}. PartLoaded (le_store ?env) None (ts_Source demo_spec) (pa_Index x) (ld_control db') = Inr True)
    \<and> (\<forall>v \<in> set (?rows ?q). ld_tables db' (ts_Target demo_spec) (merge_key demo_spec (mn_Columns demo_files_manifest) v)
          = ld_tables demo_load_db (ts_Target demo_spec) (merge_key demo_spec (mn_Columns demo_files_manifest) v))"
    by (intro interleaved_parts_lost) (simp_all add: demo_files_sealed demo_file_key)
  moreover have "le_store ?env = demo_store" "ld_tables demo_load_db t k = None" for t k
    by (simp_all add: demo_load_env_def demo_load_db_def)
  ultimately show ?thesis using neq by (auto simp: demo_file_key demo_files_columns demo_key)
qed

end
