(* ===== verification/Log.thy ===== *)
theory Log
  imports Decode "HOL-Library.AList"
begin

text \<open>
  Logging and health, \<open>internal/obs/log.go\<close> and the state behind \<open>internal/obs/server.go\<close>: the handler that
  redacts sensitive attributes, trace identifiers, the sampled logger, and the readiness of dependencies. The
  handler of the library that writes a line as JSON is modelled by what it writes of each attribute: its path of
  keys and its text. Random bytes are an argument; a lock makes each call atomic.
\<close>

section \<open>Attributes\<close>

text \<open>
  \<open>slog.Attr\<close>: a text, a group, or a value that the handler asks for its log value when it is
  written. \<open>slog.Group\<close> leaves out attributes that are empty groups.
\<close>

datatype attr = Attr (at_key: string) (at_value: attr_value)
and attr_value = VText string | VGroup "attr list" | VLogValuer attr_value

definition empty_group :: "attr \<Rightarrow> bool" where
  "empty_group a \<longleftrightarrow> at_value a = VGroup []"

definition sensitiveKeys :: "string list" where
  "sensitiveKeys = [''row'', ''before'', ''after'', ''values'', ''payload'', ''plaintext'', ''pii'', ''key_values'',
     ''password'', ''secret'', ''token'', ''credential'', ''dsn'', ''url'']"

definition sensitive :: "string \<Rightarrow> bool" where
  "sensitive key \<longleftrightarrow> ToLower key \<in> set sensitiveKeys"

definition redacted :: string where "redacted = ''[redacted]''"

fun redactAttr :: "attr \<Rightarrow> attr" where
  "redactAttr (Attr key (VGroup grp)) =
     (if sensitive key then Attr key (VText redacted)
      else Attr key (VGroup (filter (\<lambda>a. \<not> empty_group a) (map redactAttr grp))))"
| "redactAttr (Attr key v) = (if sensitive key then Attr key (VText redacted) else Attr key v)"

section \<open>The handler\<close>

datatype log_level = LevelDebug | LevelInfo | LevelWarn | LevelError

definition ParseLevel :: "string \<Rightarrow> log_level" where
  "ParseLevel s =
     (let t = ToLower (TrimSpace s) in
      if t = ''debug'' then LevelDebug
      else if t = ''warn'' \<or> t = ''warning'' then LevelWarn
      else if t = ''error'' then LevelError
      else LevelInfo)"

fun level_number :: "log_level \<Rightarrow> int" where
  "level_number LevelDebug = -4"
| "level_number LevelInfo = 0"
| "level_number LevelWarn = 4"
| "level_number LevelError = 8"

text \<open>Whether a logger that was set to a level writes a record of another.\<close>

definition Enabled :: "string \<Rightarrow> log_level \<Rightarrow> bool" where
  "Enabled configured l \<longleftrightarrow> level_number (ParseLevel configured) \<le> level_number l"

text \<open>What a logger was derived with, oldest first: attributes that were bound and groups that were opened.\<close>

datatype handler_step = Bound "attr list" | Opened string
type_synonym handler = "handler_step list"

definition WithAttrs :: "attr list \<Rightarrow> handler \<Rightarrow> handler" where
  "WithAttrs attrs h = h @ [Bound (map redactAttr attrs)]"

definition WithGroup :: "string \<Rightarrow> handler \<Rightarrow> handler" where
  "WithGroup name h = (if name = '''' then h else h @ [Opened name])"

record log_context =
  cx_trace :: string
  cx_component :: string

text \<open>The attributes of a record as the inner handler gets them.\<close>

definition Handle :: "log_context \<Rightarrow> attr list \<Rightarrow> attr list" where
  "Handle ctx attrs =
     (if cx_trace ctx \<noteq> '''' then [Attr ''trace_id'' (VText (cx_trace ctx))] else [])
     @ (if cx_component ctx \<noteq> '''' then [Attr ''component'' (VText (cx_component ctx))] else [])
     @ map redactAttr attrs"

definition NewLogger :: "string \<Rightarrow> string \<Rightarrow> handler" where
  "NewLogger service inst = WithAttrs [Attr ''service'' (VText service), Attr ''instance'' (VText inst)] []"

text \<open>
  What the inner handler writes: log values are resolved, groups are nested, a group without a name is inlined.
  The key of what is not a group is renamed by the option \<open>ReplaceAttr\<close>.
\<close>

definition ReplaceAttr :: "string \<Rightarrow> string" where
  "ReplaceAttr key = (if key = ''time'' then ''ts'' else key)"

fun written_attr :: "string list \<Rightarrow> attr \<Rightarrow> (string list \<times> string) list" where
  "written_attr path (Attr key (VText t)) = [(path @ [ReplaceAttr key], t)]"
| "written_attr path (Attr key (VLogValuer v)) = written_attr path (Attr key v)"
| "written_attr path (Attr key (VGroup as)) =
     concat (map (written_attr (if key = [] then path else path @ [key])) as)"

fun written :: "handler \<Rightarrow> string list \<Rightarrow> attr list \<Rightarrow> (string list \<times> string) list" where
  "written [] path attrs = concat (map (written_attr path) attrs)"
| "written (Bound as # h) path attrs = concat (map (written_attr path) as) @ written h path attrs"
| "written (Opened g # h) path attrs = written h (path @ [g]) attrs"

section \<open>Identifiers\<close>

definition hex_nibble :: "nat \<Rightarrow> char" where
  "hex_nibble n = ''0123456789abcdef'' ! n"

definition hex_encode :: "8 word list \<Rightarrow> string" where
  "hex_encode bs = concat (map (\<lambda>b. [hex_nibble (unat b div 16), hex_nibble (unat b mod 16)]) bs)"

text \<open>Random bytes, or nothing when the source of randomness fails.\<close>

definition NewTraceID :: "8 word list option \<Rightarrow> string" where
  "NewTraceID random = (case random of None \<Rightarrow> replicate 32 CHR ''0'' | Some bs \<Rightarrow> hex_encode (take 16 bs))"

definition WithTrace :: "8 word list option \<Rightarrow> string \<Rightarrow> log_context \<Rightarrow> log_context" where
  "WithTrace random traceID ctx = ctx\<lparr>cx_trace := (if traceID = '''' then NewTraceID random else traceID)\<rparr>"

definition WithComponent :: "string \<Rightarrow> log_context \<Rightarrow> log_context" where
  "WithComponent name ctx = ctx\<lparr>cx_component := name\<rparr>"

definition Traceparent :: "8 word list option \<Rightarrow> log_context \<Rightarrow> string" where
  "Traceparent random ctx =
     (if cx_trace ctx = '''' then ''''
      else case random of None \<Rightarrow> ''''
        | Some bs \<Rightarrow> ''00-'' @ cx_trace ctx @ ''-'' @ hex_encode (take 8 bs) @ ''-01'')"

section \<open>Sampling\<close>

record sampled_logger =
  sa_rate :: int
  sa_counts :: "string \<Rightarrow> int"

definition NewSampledLogger :: "int \<Rightarrow> sampled_logger" where
  "NewSampledLogger rate = \<lparr>sa_rate = (if rate < 1 then 1 else rate), sa_counts = (\<lambda>msg. 0)\<rparr>"

definition should :: "string \<Rightarrow> sampled_logger \<Rightarrow> bool \<times> sampled_logger" where
  "should msg s =
     (let n = sa_counts s msg in (n mod sa_rate s = 0, s\<lparr>sa_counts := (sa_counts s)(msg := n + 1)\<rparr>))"

text \<open>The messages of a sequence of calls that are written.\<close>

fun sampled :: "string list \<Rightarrow> sampled_logger \<Rightarrow> string list" where
  "sampled [] s = []"
| "sampled (m # ms) s = (let (emit, s) = should m s in if emit then m # sampled ms s else sampled ms s)"

section \<open>Health\<close>

record health_state =
  hs_Ready :: bool
  hs_Message :: string
  hs_Since :: int

record health =
  he_deps :: "(string \<times> health_state) list"
  he_live :: bool

definition NewHealth :: health where
  "NewHealth = \<lparr>he_deps = [], he_live = True\<rparr>"

definition Health_Set :: "int \<Rightarrow> string \<Rightarrow> bool \<Rightarrow> string \<Rightarrow> health \<Rightarrow> health" where
  "Health_Set now name ready msg h =
     (case map_of (he_deps h) name of
        Some prev \<Rightarrow>
          if hs_Ready prev = ready then h\<lparr>he_deps := AList.update name (prev\<lparr>hs_Message := msg\<rparr>) (he_deps h)\<rparr>
          else h\<lparr>he_deps := AList.update name \<lparr>hs_Ready = ready, hs_Message = msg, hs_Since = now\<rparr> (he_deps h)\<rparr>
      | None \<Rightarrow> h\<lparr>he_deps := AList.update name \<lparr>hs_Ready = ready, hs_Message = msg, hs_Since = now\<rparr> (he_deps h)\<rparr>)"

definition SetLive :: "bool \<Rightarrow> health \<Rightarrow> health" where
  "SetLive live h = h\<lparr>he_live := live\<rparr>"

definition Ready :: "health \<Rightarrow> bool" where
  "Ready h \<longleftrightarrow> he_deps h \<noteq> [] \<and> list_all (\<lambda>(n, s). hs_Ready s) (he_deps h)"

definition Live :: "health \<Rightarrow> bool" where
  "Live h = he_live h"

definition Snapshot :: "health \<Rightarrow> (string \<times> health_state) list" where
  "Snapshot h = he_deps h"

datatype probe = ProbeLive | ProbeReady

text \<open>The status code, the word in the answer and the dependencies that it lists.\<close>

definition probe_response :: "probe \<Rightarrow> health \<Rightarrow> nat \<times> string \<times> (string \<times> health_state) list" where
  "probe_response p h =
     (case p of
        ProbeLive \<Rightarrow> if Live h then (200, ''ok'', []) else (503, ''dead'', [])
      | ProbeReady \<Rightarrow> if Ready h then (200, ''ready'', Snapshot h) else (503, ''not_ready'', Snapshot h))"

section \<open>What redaction guarantees\<close>

text \<open>Attributes whose values can be told before they are written: no log values anywhere inside.\<close>

fun settled :: "attr \<Rightarrow> bool" where
  "settled (Attr key (VText t)) = True"
| "settled (Attr key (VLogValuer v)) = False"
| "settled (Attr key (VGroup as)) = list_all settled as"

definition open_path :: "string list \<Rightarrow> bool" where
  "open_path path \<longleftrightarrow> list_all (\<lambda>k. \<not> sensitive k) path"

lemma not_sensitive_empty [simp]: "\<not> sensitive []"
  by (simp add: sensitive_def sensitiveKeys_def ToLower_def)

lemma sensitive_replaced [simp]: "sensitive (ReplaceAttr key) = sensitive key"
proof (cases "key = ''time''")
  case True
  have "\<not> sensitive ''ts'' \<and> \<not> sensitive ''time''" by (simp add: sensitive_def sensitiveKeys_def ToLower_def)
  then show ?thesis using True by (simp add: ReplaceAttr_def)
qed (simp add: ReplaceAttr_def)

lemma empty_group_written: "empty_group a \<Longrightarrow> written_attr path a = []"
  by (cases a) (simp add: empty_group_def)

lemma redact_hides:
  "settled a \<Longrightarrow> (p, t) \<in> set (written_attr path (redactAttr a)) \<Longrightarrow> open_path path \<Longrightarrow> open_path p \<or> t = redacted"
proof (induction a arbitrary: path rule: redactAttr.induct)
  case (1 key grp)
  show ?case
  proof (cases "sensitive key")
    case True
    then show ?thesis using 1 by simp
  next
    case False
    let ?path = "if key = [] then path else path @ [key]"
    have "open_path ?path" using 1(4) False by (simp add: open_path_def)
    moreover obtain a where "a \<in> set grp" "(p, t) \<in> set (written_attr ?path (redactAttr a))"
      using 1(3) False by (auto split: if_splits)
    ultimately show ?thesis using 1 False by (auto simp: list_all_iff)
  qed
qed (auto simp: open_path_def split: if_splits)

text \<open>Nothing else is lost: what has no sensitive key on its path is written as before, in order.\<close>

lemma redact_keeps:
  "settled a \<Longrightarrow> filter (\<lambda>(p, t). open_path p) (written_attr path (redactAttr a))
    = filter (\<lambda>(p, t). open_path p) (written_attr path a)"
proof (induction a arbitrary: path rule: redactAttr.induct)
  case (1 key grp)
  show ?case
  proof (cases "sensitive key")
    case True
    have closed: "filter (\<lambda>(p, t). open_path p) (written_attr path a) = []" if "\<not> open_path path" for path a
      using that
      by (induction path a rule: written_attr.induct)
        (auto simp: open_path_def filter_concat comp_def split: if_splits)
    have "key \<noteq> []" using True by auto
    then show ?thesis using True closed [of "path @ [key]"]
      by (simp add: open_path_def filter_concat comp_def)
  next
    case False
    have skip: "concat (map f (filter (\<lambda>a. \<not> empty_group a) as)) = concat (map f as)"
      if "\<And>a. empty_group a \<Longrightarrow> f a = []" for f :: "attr \<Rightarrow> (string list \<times> string) list" and as
      using that by (induction as) auto
    show ?thesis using 1 False
      by (auto simp: skip [OF empty_group_written] filter_concat comp_def list_all_iff intro!: arg_cong [where f = concat])
  qed
qed (auto simp: open_path_def)

text \<open>How a logger is derived: attributes are bound to it, a group is opened.\<close>

datatype derivation = With "attr list" | InGroup string

fun derive :: "derivation list \<Rightarrow> handler \<Rightarrow> handler" where
  "derive [] h = h"
| "derive (With attrs # ds) h = derive ds (WithAttrs attrs h)"
| "derive (InGroup name # ds) h = derive ds (WithGroup name h)"

fun settled_derivation :: "derivation \<Rightarrow> bool" where
  "settled_derivation (With attrs) = list_all settled attrs"
| "settled_derivation (InGroup name) = True"

fun open_derivation :: "derivation \<Rightarrow> bool" where
  "open_derivation (With attrs) = True"
| "open_derivation (InGroup name) = (\<not> sensitive name)"

text \<open>What the calling code asked to be written: the same, with nothing redacted.\<close>

fun asked :: "derivation list \<Rightarrow> string list \<Rightarrow> attr list \<Rightarrow> (string list \<times> string) list" where
  "asked [] path attrs = concat (map (written_attr path) attrs)"
| "asked (With as # ds) path attrs = concat (map (written_attr path) as) @ asked ds path attrs"
| "asked (InGroup g # ds) path attrs = asked ds (if g = [] then path else path @ [g]) attrs"

definition context_attrs :: "log_context \<Rightarrow> attr list" where
  "context_attrs ctx =
     (if cx_trace ctx \<noteq> '''' then [Attr ''trace_id'' (VText (cx_trace ctx))] else [])
     @ (if cx_component ctx \<noteq> '''' then [Attr ''component'' (VText (cx_component ctx))] else [])"

lemma context_attrs_redact: "map redactAttr (context_attrs ctx) = context_attrs ctx"
proof -
  have "\<not> sensitive ''trace_id''" "\<not> sensitive ''component''" by code_simp+
  then show ?thesis by (simp add: context_attrs_def)
qed

lemma Handle_redacts: "Handle ctx attrs = map redactAttr (context_attrs ctx @ attrs)"
  by (simp add: Handle_def context_attrs_redact) (simp add: context_attrs_def)

lemma context_attrs_settled: "list_all settled (context_attrs ctx)"
  by (simp add: context_attrs_def)

fun group_path :: "string list \<Rightarrow> handler \<Rightarrow> string list" where
  "group_path path [] = path"
| "group_path path (Bound as # h) = group_path path h"
| "group_path path (Opened g # h) = group_path (path @ [g]) h"

lemma group_path_append [simp]: "group_path path (h @ h') = group_path (group_path path h) h'"
  by (induction path h rule: group_path.induct) simp_all

definition bound_written :: "handler \<Rightarrow> string list \<Rightarrow> (string list \<times> string) list" where
  "bound_written h path = written h path []"

lemma written_append:
  "written (h @ h') path attrs = bound_written h path @ written h' (group_path path h) attrs"
  by (induction h path attrs rule: written.induct) (simp_all add: bound_written_def)

lemma attrs_hide:
  assumes "list_all settled attrs" "open_path path"
  shows "list_all (\<lambda>(p, t). open_path p \<or> t = redacted) (concat (map (written_attr path) (map redactAttr attrs)))"
  using assms redact_hides [of _ _ _ path] by (auto simp: list_all_iff)

lemma attrs_keep:
  assumes "list_all settled attrs"
  shows "filter (\<lambda>(p, t). open_path p) (concat (map (written_attr path) (map redactAttr attrs)))
    = filter (\<lambda>(p, t). open_path p) (concat (map (written_attr path) attrs))"
  using assms redact_keeps [of _ path] by (induction attrs) auto

lemma derive_keeps:
  assumes "list_all settled_derivation ds" "list_all settled attrs"
  shows "filter (\<lambda>(p, t). open_path p) (written (derive ds h) path (map redactAttr attrs))
    = filter (\<lambda>(p, t). open_path p) (bound_written h path @ asked ds (group_path path h) attrs)"
  using assms
proof (induction ds h rule: derive.induct)
  case (1 h)
  then show ?case
    using written_append [of h "[]"] by (simp add: attrs_keep [simplified])
next
  case (2 as ds h)
  then show ?case
    by (simp add: WithAttrs_def bound_written_def written_append attrs_keep [simplified])
next
  case (3 name ds h)
  then show ?case
    by (simp add: WithGroup_def bound_written_def written_append)
qed

definition hidden :: "(string list \<times> string) list \<Rightarrow> bool" where
  "hidden out \<longleftrightarrow> list_all (\<lambda>(p, t). open_path p \<or> t = redacted) out"

lemma hidden_append [simp]: "hidden (a @ b) \<longleftrightarrow> hidden a \<and> hidden b"
  by (simp add: hidden_def)

lemma derive_hides:
  assumes "list_all settled_derivation ds" "list_all open_derivation ds" "list_all settled attrs"
    "open_path (group_path path h)" "hidden (bound_written h path)"
  shows "hidden (written (derive ds h) path (map redactAttr attrs))"
  using assms
proof (induction ds h rule: derive.induct)
  case (1 h)
  then show ?case
    using written_append [of h "[]" path "map redactAttr attrs"]
      attrs_hide [of attrs "group_path path h"] by (simp add: hidden_def)
next
  case (2 as ds h)
  then show ?case using attrs_hide [of as "group_path path h"]
    by (simp add: WithAttrs_def bound_written_def written_append hidden_def)
next
  case (3 name ds h)
  then show ?case by (simp add: WithGroup_def bound_written_def written_append open_path_def)
qed

definition service_attrs :: "string \<Rightarrow> string \<Rightarrow> attr list" where
  "service_attrs service inst = [Attr ''service'' (VText service), Attr ''instance'' (VText inst)]"

lemma NewLogger_bound:
  "NewLogger service inst = WithAttrs (service_attrs service inst) []"
  by (simp add: NewLogger_def service_attrs_def)

lemma service_attrs_settled [simp]: "list_all settled (service_attrs service inst)"
  by (simp add: service_attrs_def)

text \<open>One line as the process logger writes it, and the same line with nothing redacted.\<close>

definition log_line :: "string \<Rightarrow> string \<Rightarrow> derivation list \<Rightarrow> log_context \<Rightarrow> attr list \<Rightarrow> (string list \<times> string) list" where
  "log_line service inst ds ctx attrs = written (derive ds (NewLogger service inst)) [] (Handle ctx attrs)"

definition asked_line :: "string \<Rightarrow> string \<Rightarrow> derivation list \<Rightarrow> log_context \<Rightarrow> attr list \<Rightarrow> (string list \<times> string) list" where
  "asked_line service inst ds ctx attrs = asked (With (service_attrs service inst) # ds) [] (context_attrs ctx @ attrs)"

lemma log_line_derived:
  "log_line service inst ds ctx attrs
    = written (derive (With (service_attrs service inst) # ds) []) [] (map redactAttr (context_attrs ctx @ attrs))"
  by (simp only: log_line_def NewLogger_bound derive.simps Handle_redacts)

text \<open>
  C40: what reaches the log of a process. Whatever attributes and groups a logger was derived with, if none of the
  values is one that decides only when it is written (a log value) and no group was opened under a sensitive
  name, every value with a sensitive key anywhere on its path reads "[redacted]"; and every value without one is
  written exactly as it was asked for, in the same order, along with the trace and the component of the context.
\<close>

theorem redaction_holds:
  assumes "list_all settled_derivation ds" "list_all settled attrs"
  shows "(list_all open_derivation ds \<longrightarrow>
      list_all (\<lambda>(p, t). open_path p \<or> t = redacted) (log_line service inst ds ctx attrs))
    \<and> filter (\<lambda>(p, t). open_path p) (log_line service inst ds ctx attrs)
      = filter (\<lambda>(p, t). open_path p) (asked_line service inst ds ctx attrs)"
proof -
  let ?ds = "With (service_attrs service inst) # ds" and ?attrs = "context_attrs ctx @ attrs"
  have ok: "list_all settled_derivation ?ds" "list_all settled ?attrs"
    using assms context_attrs_settled by simp_all
  have "hidden (log_line service inst ds ctx attrs)" if "list_all open_derivation ds"
    unfolding log_line_derived
    by (rule derive_hides [OF ok(1) _ ok(2)]) (simp_all add: that hidden_def bound_written_def open_path_def)
  then show ?thesis
    unfolding asked_line_def log_line_derived
    using derive_keeps [OF ok, of "[]" "[]"] by (simp add: hidden_def bound_written_def)
qed

theorem redaction_holds_witness:
  "let ds = [InGroup ''apply'', With [Attr ''Token'' (VText ''t0p'')]];
       line = log_line ''applier'' ''i-1'' ds \<lparr>cx_trace = '''', cx_component = ''sink''\<rparr>
         [Attr ''event'' (VGroup [Attr ''before'' (VGroup [Attr ''ssn'' (VText ''123'')]), Attr ''lsn'' (VText ''9'')])]
   in list_all (\<lambda>(p, t). open_path p \<or> t = redacted) line
     \<and> filter (\<lambda>(p, t). open_path p) line
       = [([''service''], ''applier''), ([''instance''], ''i-1''), ([''apply'', ''component''], ''sink''),
          ([''apply'', ''event'', ''lsn''], ''9'')]"
proof -
  let ?ds = "[InGroup ''apply'', With [Attr ''Token'' (VText ''t0p'')]]"
  let ?ctx = "\<lparr>cx_trace = '''', cx_component = ''sink''\<rparr>"
  let ?as = "[Attr ''event'' (VGroup [Attr ''before'' (VGroup [Attr ''ssn'' (VText ''123'')]), Attr ''lsn'' (VText ''9'')])]"
  have open_ds: "list_all open_derivation ?ds" by code_simp
  have asked: "filter (\<lambda>(p, t). open_path p) (asked_line ''applier'' ''i-1'' ?ds ?ctx ?as)
    = [([''service''], ''applier''), ([''instance''], ''i-1''), ([''apply'', ''component''], ''sink''),
       ([''apply'', ''event'', ''lsn''], ''9'')]" by code_simp
  have "list_all settled_derivation ?ds" "list_all settled ?as" by simp_all
  from redaction_holds [OF this, of "''applier''" "''i-1''" ?ctx] show ?thesis
    using open_ds asked by (simp only: Let_def)
qed

text \<open>
  What the handler does not catch: a group that is opened under a sensitive name, and a value that is turned into
  a group or a text only when it is written.
\<close>

lemma redaction_gaps:
  "log_line ''s'' ''i'' [InGroup ''payload''] \<lparr>cx_trace = '''', cx_component = ''''\<rparr> [Attr ''ssn'' (VText ''123'')]
      = [([''service''], ''s''), ([''instance''], ''i''), ([''payload'', ''ssn''], ''123'')]
    \<and> log_line ''s'' ''i'' [] \<lparr>cx_trace = '''', cx_component = ''''\<rparr>
        [Attr ''event'' (VLogValuer (VGroup [Attr ''before'' (VText ''123'')]))]
      = [([''service''], ''s''), ([''instance''], ''i''), ([''event'', ''before''], ''123'')]"
  by (rule conjI) code_simp+

section \<open>What sampling promises\<close>

text \<open>How often a message was asked for and let through, for a counter that has not run over 63 bits.\<close>

lemma ceiling_step:
  fixes n r :: int
  assumes "0 < r"
  shows "(n + 1 + (r - 1)) div r = (n + (r - 1)) div r + (if n mod r = 0 then 1 else 0)"
proof -
  have split: "n = r * (n div r) + n mod r" by simp
  have bounds: "0 \<le> n mod r" "n mod r < r" using assms by simp_all
  have shift: "(n + k) div r = n div r + (n mod r + k) div r" for k
  proof -
    have "n + k = (n mod r + k) + r * (n div r)" using split by simp
    then have "(n + k) div r = ((n mod r + k) + r * (n div r)) div r" by (rule arg_cong)
    then show ?thesis using assms by (simp only: div_mult_self2)
  qed
  show ?thesis
  proof (cases "n mod r = 0")
    case True
    then show ?thesis using shift [of r] shift [of "r - 1"] assms by simp
  next
    case False
    have "(n mod r + r) div r = 1" using bounds assms by simp
    have "(n mod r + (r - 1)) div r = 1"
      using False bounds by (intro int_div_pos_eq [where r = "n mod r - 1"]) simp_all
    then show ?thesis using \<open>(n mod r + r) div r = 1\<close> shift [of r] shift [of "r - 1"] False by simp
  qed
qed

lemma sampled_rate [simp]: "sa_rate (snd (should m s)) = sa_rate s"
  by (simp add: should_def Let_def)

lemma sampled_count_from:
  assumes "0 < sa_rate s"
  shows "int (count_list (sampled ms s) m) + (sa_counts s m + (sa_rate s - 1)) div sa_rate s
    = (sa_counts s m + int (count_list ms m) + (sa_rate s - 1)) div sa_rate s"
  using assms
proof (induction ms arbitrary: s)
  case Nil
  then show ?case by simp
next
  case (Cons m' ms)
  let ?s = "snd (should m' s)"
  have IH: "int (count_list (sampled ms ?s) m) + (sa_counts ?s m + (sa_rate s - 1)) div sa_rate s
    = (sa_counts ?s m + int (count_list ms m) + (sa_rate s - 1)) div sa_rate s"
    using Cons.IH [of ?s] Cons.prems by simp
  show ?case
  proof (cases "m' = m")
    case True
    have count: "sa_counts ?s m = sa_counts s m + 1" "fst (should m' s) = (sa_counts s m mod sa_rate s = 0)"
      using True by (simp_all add: should_def Let_def)
    show ?thesis using IH True count ceiling_step [OF Cons.prems, of "sa_counts s m"]
      by (cases "sa_counts s m mod sa_rate s = 0") (simp_all add: split_beta Let_def ac_simps)
  next
    case False
    have "sa_counts ?s m = sa_counts s m" using False by (simp add: should_def Let_def)
    then show ?thesis using IH False by (simp add: split_beta Let_def)
  qed
qed

text \<open>
  A sampled logger lets through one in every rate calls of each message, the first one of them: of n calls, n
  divided by the rate and rounded up, whatever other messages come between; a rate below one is one.
\<close>

theorem sampling_exact:
  "int (count_list (sampled ms (NewSampledLogger rate)) m)
    = (int (count_list ms m) + (max 1 rate - 1)) div max 1 rate"
  using sampled_count_from [of "NewSampledLogger rate" ms m]
  by (simp add: NewSampledLogger_def max_def split: if_splits)

section \<open>What readiness means\<close>

text \<open>A report on a dependency: when, its name, whether it is ready, and a message.\<close>

type_synonym report = "int \<times> string \<times> bool \<times> string"

fun reported :: "report list \<Rightarrow> health \<Rightarrow> health" where
  "reported [] h = h"
| "reported ((now, name, ready, msg) # rs) h = reported rs (Health_Set now name ready msg h)"

definition rp_name :: "report \<Rightarrow> string" where "rp_name r = fst (snd r)"
definition rp_ready :: "report \<Rightarrow> bool" where "rp_ready r = fst (snd (snd r))"
definition rp_msg :: "report \<Rightarrow> string" where "rp_msg r = snd (snd (snd r))"

lemmas rp_defs = rp_name_def rp_ready_def rp_msg_def

text \<open>The state of a dependency after reports about it alone: it changed when its readiness last changed.\<close>

fun followed :: "health_state option \<Rightarrow> report list \<Rightarrow> health_state option" where
  "followed st [] = st"
| "followed st ((now, name, ready, msg) # rs) =
     followed (Some \<lparr>hs_Ready = ready, hs_Message = msg,
       hs_Since = (case st of Some p \<Rightarrow> if hs_Ready p = ready then hs_Since p else now | None \<Rightarrow> now)\<rparr>) rs"

lemma Health_Set_deps:
  "map_of (he_deps (Health_Set now name ready msg h)) =
     (map_of (he_deps h))(name \<mapsto> \<lparr>hs_Ready = ready, hs_Message = msg, hs_Since =
        (case map_of (he_deps h) name of Some p \<Rightarrow> if hs_Ready p = ready then hs_Since p else now | None \<Rightarrow> now)\<rparr>)"
  by (rule ext) (auto simp: Health_Set_def update_conv split: option.splits)

lemma Health_Set_distinct:
  "distinct (map fst (he_deps h)) \<Longrightarrow> distinct (map fst (he_deps (Health_Set now name ready msg h)))"
  by (auto simp: Health_Set_def distinct_update split: option.splits)

lemma Health_Set_live [simp]: "he_live (Health_Set now name ready msg h) = he_live h"
  by (auto simp: Health_Set_def split: option.splits)

lemma reported_distinct: "distinct (map fst (he_deps h)) \<Longrightarrow> distinct (map fst (he_deps (reported rs h)))"
  by (induction rs h rule: reported.induct) (simp_all add: Health_Set_distinct)

lemma reported_live: "he_live (reported rs h) = he_live h"
  by (induction rs h rule: reported.induct) simp_all

lemma reported_deps:
  "map_of (he_deps (reported rs h)) n = followed (map_of (he_deps h) n) (filter (\<lambda>r. rp_name r = n) rs)"
  by (induction rs h rule: reported.induct) (auto simp: Health_Set_deps rp_defs)

lemma followed_None [simp]: "followed None rs = None \<longleftrightarrow> rs = []"
proof -
  have "followed (Some p) rs \<noteq> None" for p rs
    by (induction "Some p" rs arbitrary: p rule: followed.induct) auto
  then show ?thesis by (cases rs) (auto split: prod.splits)
qed

lemma followed_last:
  "followed st rs = Some p \<Longrightarrow> rs \<noteq> [] \<Longrightarrow> hs_Ready p = rp_ready (last rs) \<and> hs_Message p = rp_msg (last rs)"
proof (induction st rs rule: followed.induct)
  case (2 st now name ready msg rs)
  then show ?case by (cases "rs = []") (auto simp: rp_defs)
qed simp

text \<open>The newest report on the dependency of a report.\<close>

definition newest :: "report list \<Rightarrow> report \<Rightarrow> report" where
  "newest rs r = last (filter (\<lambda>r'. rp_name r' = rp_name r) rs)"

lemma Ready_reported:
  "Ready (reported rs NewHealth) \<longleftrightarrow> rs \<noteq> [] \<and> list_all (\<lambda>r. rp_ready (newest rs r)) rs"
proof -
  let ?h = "reported rs NewHealth"
  have dist: "distinct (map fst (he_deps ?h))" by (rule reported_distinct) (simp add: NewHealth_def)
  have dep: "map_of (he_deps ?h) n = followed None (filter (\<lambda>r. rp_name r = n) rs)" for n
    by (simp add: reported_deps NewHealth_def)
  have known: "map_of (he_deps ?h) n = None \<longleftrightarrow> n \<notin> rp_name ` set rs" for n
    unfolding dep by (auto simp: filter_empty_conv)
  have state: "hs_Ready p = rp_ready (newest rs r)"
    if "map_of (he_deps ?h) (rp_name r) = Some p" for p r
    using that followed_last [of None "filter (\<lambda>r'. rp_name r' = rp_name r) rs" p]
    unfolding dep newest_def by fastforce
  have all: "list_all (\<lambda>(n, s). hs_Ready s) (he_deps ?h) \<longleftrightarrow> list_all (\<lambda>r. rp_ready (newest rs r)) rs"
    unfolding list_all_iff
  proof (intro iffI ballI)
    fix r assume all: "\<forall>(n, s) \<in> set (he_deps ?h). hs_Ready s" and r: "r \<in> set rs"
    then have "map_of (he_deps ?h) (rp_name r) \<noteq> None" unfolding known by blast
    then obtain p where p: "map_of (he_deps ?h) (rp_name r) = Some p" by blast
    then show "rp_ready (newest rs r)" using all state [OF p] map_of_SomeD [OF p] by fastforce
  next
    fix d assume all: "\<forall>r \<in> set rs. rp_ready (newest rs r)" and d: "d \<in> set (he_deps ?h)"
    obtain n s where [simp]: "d = (n, s)" by (cases d)
    have s: "map_of (he_deps ?h) n = Some s" using dist d by simp
    then have "n \<in> rp_name ` set rs" using known [of n] by auto
    then obtain r where r: "r \<in> set rs" "n = rp_name r" by blast
    then show "case d of (n, s) \<Rightarrow> hs_Ready s" using all state [of r s] s by simp
  qed
  have "he_deps ?h = [] \<longleftrightarrow> (\<forall>n. map_of (he_deps ?h) n = None)"
    by (cases "he_deps ?h") (auto split: if_splits)
  then have "he_deps ?h = [] \<longleftrightarrow> rs = []" using known by (cases rs) auto
  then show ?thesis by (simp add: Ready_def all)
qed

text \<open>
  A process is ready exactly when something was reported and the newest report on every dependency says ready; what
  the status endpoint lists of a dependency follows its own reports only, one entry each, dated by its last change;
  and no report on a dependency makes the process dead: while it is not ready the liveness probe still answers 200.
\<close>

theorem readiness_exact:
  "Ready (reported rs NewHealth) = (rs \<noteq> [] \<and> list_all (\<lambda>r. rp_ready (newest rs r)) rs)
    \<and> map_of (Snapshot (reported rs NewHealth)) n = followed None (filter (\<lambda>r. rp_name r = n) rs)
    \<and> distinct (map fst (Snapshot (reported rs NewHealth)))
    \<and> fst (probe_response ProbeLive (reported rs NewHealth)) = 200
    \<and> fst (probe_response ProbeReady (reported rs NewHealth))
        = (if rs \<noteq> [] \<and> list_all (\<lambda>r. rp_ready (newest rs r)) rs then 200 else 503)"
  by (simp add: Ready_reported probe_response_def Live_def Snapshot_def reported_live reported_deps reported_distinct)
    (simp add: NewHealth_def reported_distinct)

end
