(* ===== verification/Metrics.thy ===== *)
theory Metrics
  imports MigPrelude "HOL-Library.AList" "HOL-Library.Log_Nat"
begin

text \<open>
  The metrics of a process, \<open>internal/obs/metrics.go\<close>: families of counters, gauges and histograms, their series
  by label values, and the text exposition format. A \<open>float64\<close> is its exact rational value with IEEE rounding
  of sums written out (the sign of a zero is not kept); the shortest decimal text of a number, which
  \<open>strconv.FormatFloat\<close> finds, is an argument. A mutex makes each call atomic, and a panic is \<open>None\<close>.
\<close>

section \<open>Floating point\<close>

datatype float64 = NaN | NegInf | Fin rat | PosInf

definition pow2 :: "int \<Rightarrow> rat" where
  "pow2 k = (if 0 \<le> k then 2 ^ nat k else 1 / 2 ^ nat (- k))"

text \<open>The binary exponent of a positive number.\<close>

definition binade :: "rat \<Rightarrow> int" where
  "binade q =
     (let (n, d) = quotient_of q; k = bitlen n - bitlen d in if pow2 k \<le> q then k else k - 1)"

definition round_even :: "rat \<Rightarrow> int" where
  "round_even q =
     (let f = \<lfloor>q\<rfloor>; rest = q - of_int f in
      if rest < 1 / 2 \<or> rest = 1 / 2 \<and> even f then f else f + 1)"

definition round64 :: "rat \<Rightarrow> float64" where
  "round64 q =
     (if q = 0 then Fin 0
      else let ulp = pow2 (max (-1074) (binade \<bar>q\<bar> - 52));
               m = of_int (round_even (\<bar>q\<bar> / ulp)) * ulp
           in if 1024 \<le> binade m then if q < 0 then NegInf else PosInf
              else Fin (if q < 0 then - m else m))"

fun add64 :: "float64 \<Rightarrow> float64 \<Rightarrow> float64" where
  "add64 (Fin a) (Fin b) = round64 (a + b)"
| "add64 NaN y = NaN"
| "add64 x NaN = NaN"
| "add64 PosInf NegInf = NaN"
| "add64 NegInf PosInf = NaN"
| "add64 PosInf y = PosInf"
| "add64 NegInf y = NegInf"
| "add64 (Fin a) y = y"

text \<open>The order that \<open>sort.Float64s\<close> sorts by: what is not a number comes first.\<close>

instantiation float64 :: linorder
begin

fun less_eq_float64 :: "float64 \<Rightarrow> float64 \<Rightarrow> bool" where
  "less_eq_float64 NaN y = True"
| "less_eq_float64 NegInf y = (y \<noteq> NaN)"
| "less_eq_float64 (Fin a) (Fin b) = (a \<le> b)"
| "less_eq_float64 (Fin a) y = (y = PosInf)"
| "less_eq_float64 PosInf y = (y = PosInf)"

definition less_float64 :: "float64 \<Rightarrow> float64 \<Rightarrow> bool" where
  "less_float64 x y = (x \<le> y \<and> \<not> y \<le> (x :: float64))"

instance
proof
  fix x y z :: float64
  show "(x < y) = (x \<le> y \<and> \<not> y \<le> x)" by (rule less_float64_def)
  show "x \<le> x" by (cases x) simp_all
  show "x \<le> y \<Longrightarrow> y \<le> z \<Longrightarrow> x \<le> z" by (cases x; cases y; cases z) simp_all
  show "x \<le> y \<Longrightarrow> y \<le> x \<Longrightarrow> x = y" by (cases x; cases y) simp_all
  show "x \<le> y \<or> y \<le> x" by (cases x; cases y) auto
qed

end

text \<open>The comparison \<open>x <= y\<close> of the language.\<close>

definition le64 :: "float64 \<Rightarrow> float64 \<Rightarrow> bool" where
  "le64 x y \<longleftrightarrow> x \<noteq> NaN \<and> y \<noteq> NaN \<and> x \<le> y"

definition negative :: "float64 \<Rightarrow> bool" where
  "negative x \<longleftrightarrow> (case x of NegInf \<Rightarrow> True | Fin q \<Rightarrow> q < 0 | _ \<Rightarrow> False)"

section \<open>Families and series\<close>

datatype kind = KindCounter | KindGauge | KindHistogram

fun kind_text :: "kind \<Rightarrow> string" where
  "kind_text KindCounter = ''counter''"
| "kind_text KindGauge = ''gauge''"
| "kind_text KindHistogram = ''histogram''"

definition DefaultBuckets :: "float64 list" where
  "DefaultBuckets = map Fin [0.001, 0.005, 0.01, 0.025, 0.05, 0.1, 0.25, 0.5, 1, 2.5, 5, 10, 30, 60, 300]"

record series =
  se_labelValues :: "string list"
  se_value :: float64
  se_counts :: "uint64 list"
  se_sum :: float64
  se_count :: uint64

record family =
  fa_name :: string
  fa_help :: string
  fa_kind :: kind
  fa_labels :: "string list"
  fa_buckets :: "float64 list"
  fa_series :: "(string \<times> series) list"

type_synonym registry = "(string \<times> family) list"

definition NewRegistry :: registry where "NewRegistry = []"

text \<open>A vector of series is a pointer to its family, which the registry never drops: it is the family's name.\<close>

definition register :: "string \<Rightarrow> string \<Rightarrow> kind \<Rightarrow> string list \<Rightarrow> float64 list \<Rightarrow> registry \<Rightarrow> registry" where
  "register name help k labels buckets r =
     (case map_of r name of
        Some f \<Rightarrow> r
      | None \<Rightarrow> r @ [(name, \<lparr>fa_name = name, fa_help = help, fa_kind = k, fa_labels = labels,
                           fa_buckets = buckets, fa_series = []\<rparr>)])"

definition Counter :: "string \<Rightarrow> string \<Rightarrow> string list \<Rightarrow> registry \<Rightarrow> registry" where
  "Counter name help labels = register name help KindCounter labels []"

definition Gauge :: "string \<Rightarrow> string \<Rightarrow> string list \<Rightarrow> registry \<Rightarrow> registry" where
  "Gauge name help labels = register name help KindGauge labels []"

definition Histogram :: "string \<Rightarrow> string \<Rightarrow> float64 list \<Rightarrow> string list \<Rightarrow> registry \<Rightarrow> registry" where
  "Histogram name help buckets labels =
     register name help KindHistogram labels (sort (if buckets = [] then DefaultBuckets else buckets))"

definition series_key :: "string list \<Rightarrow> string" where
  "series_key lvs = join_with [CHR 0xFF] lvs"

text \<open>The series of some label values, created when it is not there yet; a wrong number of them panics.\<close>

definition seriesFor :: "string list \<Rightarrow> family \<Rightarrow> (series \<times> family) option" where
  "seriesFor lvs f =
     (if length lvs \<noteq> length (fa_labels f) then None
      else case map_of (fa_series f) (series_key lvs) of
          Some s \<Rightarrow> Some (s, f)
        | None \<Rightarrow>
            let s = \<lparr>se_labelValues = lvs, se_value = Fin 0,
                     se_counts = (if fa_kind f = KindHistogram then replicate (length (fa_buckets f)) 0 else []),
                     se_sum = Fin 0, se_count = 0\<rparr>
            in Some (s, f\<lparr>fa_series := fa_series f @ [(series_key lvs, s)]\<rparr>))"

definition update_series :: "(series \<Rightarrow> series) \<Rightarrow> string list \<Rightarrow> family \<Rightarrow> family option" where
  "update_series g lvs f =
     map_option (\<lambda>(s, f). f\<lparr>fa_series := AList.update (series_key lvs) (g s) (fa_series f)\<rparr>) (seriesFor lvs f)"

section \<open>Counters, gauges, histograms\<close>

definition Counter_Add :: "float64 \<Rightarrow> string list \<Rightarrow> family \<Rightarrow> family option" where
  "Counter_Add delta lvs f =
     (if negative delta then Some f
      else update_series (\<lambda>s. s\<lparr>se_value := add64 (se_value s) delta\<rparr>) lvs f)"

definition Counter_Inc :: "string list \<Rightarrow> family \<Rightarrow> family option" where
  "Counter_Inc = Counter_Add (Fin 1)"

definition Gauge_Set :: "float64 \<Rightarrow> string list \<Rightarrow> family \<Rightarrow> family option" where
  "Gauge_Set v = update_series (\<lambda>s. s\<lparr>se_value := v\<rparr>)"

definition Gauge_Add :: "float64 \<Rightarrow> string list \<Rightarrow> family \<Rightarrow> family option" where
  "Gauge_Add delta = update_series (\<lambda>s. s\<lparr>se_value := add64 (se_value s) delta\<rparr>)"

definition Gauge_Inc :: "string list \<Rightarrow> family \<Rightarrow> family option" where
  "Gauge_Inc = Gauge_Add (Fin 1)"

definition Gauge_Dec :: "string list \<Rightarrow> family \<Rightarrow> family option" where
  "Gauge_Dec = Gauge_Add (Fin (-1))"

text \<open>The loop over the buckets; the counts are as many as the buckets (see \<open>metrics_wf\<close>).\<close>

definition observe_buckets :: "float64 \<Rightarrow> float64 list \<Rightarrow> uint64 list \<Rightarrow> uint64 list" where
  "observe_buckets v buckets counts =
     map (\<lambda>(ub, n). if le64 v ub then n + 1 else n) (zip buckets counts)"

definition Observe :: "float64 \<Rightarrow> string list \<Rightarrow> family \<Rightarrow> family option" where
  "Observe v lvs f =
     update_series (\<lambda>s. s\<lparr>se_sum := add64 (se_sum s) v, se_count := se_count s + 1,
       se_counts := observe_buckets v (fa_buckets f) (se_counts s)\<rparr>) lvs f"

text \<open>Reading creates the series as well.\<close>

definition Value :: "string list \<Rightarrow> family \<Rightarrow> (float64 \<times> family) option" where
  "Value lvs f = map_option (\<lambda>(s, f). (se_value s, f)) (seriesFor lvs f)"

definition Count :: "string list \<Rightarrow> family \<Rightarrow> (uint64 \<times> family) option" where
  "Count lvs f = map_option (\<lambda>(s, f). (se_count s, f)) (seriesFor lvs f)"

definition Sum_observed :: "string list \<Rightarrow> family \<Rightarrow> (float64 \<times> family) option" where
  "Sum_observed lvs f = map_option (\<lambda>(s, f). (se_sum s, f)) (seriesFor lvs f)"

text \<open>A call on a vector that the registry handed out.\<close>

definition on_family :: "string \<Rightarrow> (family \<Rightarrow> family option) \<Rightarrow> registry \<Rightarrow> registry option" where
  "on_family name step r =
     (case map_of r name of None \<Rightarrow> None | Some f \<Rightarrow> map_option (\<lambda>f. AList.update name f r) (step f))"

section \<open>The exposition format\<close>

definition newline :: string where "newline = [CHR 0x0A]"

definition escapeLabel :: "string \<Rightarrow> string" where
  "escapeLabel s = concat (map (\<lambda>c. if c = CHR 0x5C then [CHR 0x5C, CHR 0x5C]
     else if c = CHR 0x22 then [CHR 0x5C, CHR 0x22] else if c = CHR 0x0A then [CHR 0x5C, CHR ''n''] else [c]) s)"

definition escapeHelp :: "string \<Rightarrow> string" where
  "escapeHelp s = concat (map (\<lambda>c. if c = CHR 0x5C then [CHR 0x5C, CHR 0x5C]
     else if c = CHR 0x0A then [CHR 0x5C, CHR ''n''] else [c]) s)"

definition formatFloat :: "(rat \<Rightarrow> string) \<Rightarrow> float64 \<Rightarrow> string" where
  "formatFloat shortest x =
     (case x of PosInf \<Rightarrow> ''+Inf'' | NegInf \<Rightarrow> ''-Inf'' | NaN \<Rightarrow> ''NaN'' | Fin q \<Rightarrow> shortest q)"

definition label_text :: "string \<times> string \<Rightarrow> string" where
  "label_text l = fst l @ [CHR ''='', CHR 0x22] @ escapeLabel (snd l) @ [CHR 0x22]"

definition writeLabels :: "string list \<Rightarrow> string list \<Rightarrow> string \<Rightarrow> string \<Rightarrow> string" where
  "writeLabels names lvs extraName extraValue =
     (if names = [] \<and> extraName = '''' then ''''
      else [CHR 0x7B] @ join_with '','' (map label_text
             (zip names lvs @ (if extraName \<noteq> '''' then [(extraName, extraValue)] else []))) @ [CHR 0x7D])"

definition series_text :: "(rat \<Rightarrow> string) \<Rightarrow> family \<Rightarrow> series \<Rightarrow> string" where
  "series_text shortest f s =
     (case fa_kind f of
        KindHistogram \<Rightarrow>
          concat (map (\<lambda>(ub, n). fa_name f @ ''_bucket''
              @ writeLabels (fa_labels f) (se_labelValues s) ''le'' (formatFloat shortest ub)
              @ '' '' @ digits (unat n) @ newline) (zip (fa_buckets f) (se_counts s)))
          @ fa_name f @ ''_bucket'' @ writeLabels (fa_labels f) (se_labelValues s) ''le'' ''+Inf''
          @ '' '' @ digits (unat (se_count s)) @ newline
          @ fa_name f @ ''_sum'' @ writeLabels (fa_labels f) (se_labelValues s) '''' ''''
          @ '' '' @ formatFloat shortest (se_sum s) @ newline
          @ fa_name f @ ''_count'' @ writeLabels (fa_labels f) (se_labelValues s) '''' ''''
          @ '' '' @ digits (unat (se_count s)) @ newline
      | _ \<Rightarrow> fa_name f @ writeLabels (fa_labels f) (se_labelValues s) '''' ''''
          @ '' '' @ formatFloat shortest (se_value s) @ newline)"

definition family_write :: "(rat \<Rightarrow> string) \<Rightarrow> family \<Rightarrow> string" where
  "family_write shortest f =
     (if fa_series f = [] then ''''
      else ''# HELP '' @ fa_name f @ '' '' @ escapeHelp (fa_help f) @ newline
        @ ''# TYPE '' @ fa_name f @ '' '' @ kind_text (fa_kind f) @ newline
        @ concat (map (series_text shortest f) (List.map_filter (map_of (fa_series f)) (sort (map fst (fa_series f))))))"

definition Registry_Write :: "(rat \<Rightarrow> string) \<Rightarrow> registry \<Rightarrow> string" where
  "Registry_Write shortest r =
     concat (map (family_write shortest) (List.map_filter (map_of r) (sort (map fst r))))"

section \<open>Well-formed families\<close>

definition series_wf :: "family \<Rightarrow> string \<Rightarrow> series \<Rightarrow> bool" where
  "series_wf f key s \<longleftrightarrow>
     key = series_key (se_labelValues s) \<and> length (se_labelValues s) = length (fa_labels f)
     \<and> length (se_counts s) = length (fa_buckets f)"

definition family_wf :: "family \<Rightarrow> bool" where
  "family_wf f \<longleftrightarrow>
     distinct (map fst (fa_series f)) \<and> (fa_kind f = KindHistogram \<or> fa_buckets f = [])
     \<and> list_all (\<lambda>(key, s). series_wf f key s) (fa_series f)"

lemma update_series_buckets:
  "update_series g lvs f = Some f' \<Longrightarrow> fa_buckets f' = fa_buckets f \<and> fa_labels f' = fa_labels f \<and> fa_kind f' = fa_kind f"
  by (auto simp: update_series_def seriesFor_def Let_def split: if_splits option.splits)

lemma series_wf_update [simp]: "series_wf (f\<lparr>fa_series := al\<rparr>) = series_wf f"
  by (intro ext) (simp add: series_wf_def)

lemma list_all_update:
  "list_all P al \<Longrightarrow> P (k, v) \<Longrightarrow> list_all P (AList.update k v al)"
  by (induction al) auto

text \<open>Every operation keeps a family well-formed: what it does to a series leaves its labels and the number of its counts alone.\<close>

lemma seriesFor_wf:
  assumes "family_wf f" "seriesFor lvs f = Some (s, f')"
  shows "family_wf f' \<and> series_wf f' (series_key lvs) s"
  using assms
  by (auto simp: seriesFor_def family_wf_def series_wf_def Let_def list_all_iff map_of_eq_None_iff
      dest: map_of_SomeD split: if_splits option.splits)

lemma update_series_wf:
  assumes "family_wf f" "update_series g lvs f = Some f'"
    and "\<And>s. length (se_counts s) = length (fa_buckets f) \<Longrightarrow> length (se_counts (g s)) = length (fa_buckets f)"
    and "\<And>s. se_labelValues (g s) = se_labelValues s"
  shows "family_wf f'"
proof -
  obtain s f1 where s: "seriesFor lvs f = Some (s, f1)"
    and f': "f' = f1\<lparr>fa_series := AList.update (series_key lvs) (g s) (fa_series f1)\<rparr>"
    using assms(2) by (auto simp: update_series_def)
  have same: "fa_buckets f1 = fa_buckets f" using s by (auto simp: seriesFor_def Let_def split: if_splits option.splits)
  have wf: "family_wf f1" "series_wf f1 (series_key lvs) s" using seriesFor_wf [OF assms(1) s] by auto
  have "series_wf f1 (series_key lvs) (g s)"
    using wf(2) assms(3,4) by (simp add: series_wf_def same)
  then have "list_all (\<lambda>(key, s). series_wf f1 key s) (AList.update (series_key lvs) (g s) (fa_series f1))"
    using wf(1) by (intro list_all_update) (simp_all add: family_wf_def)
  then show ?thesis using wf(1) unfolding f' family_wf_def
    by (simp add: distinct_update)
qed

text \<open>The calls a program makes on a family.\<close>

datatype metric_call = Added float64 | GaugeSet float64 | GaugeAdded float64 | Observed float64 | Looked

fun call_metric :: "metric_call \<Rightarrow> string list \<Rightarrow> family \<Rightarrow> family option" where
  "call_metric (Added d) lvs f = Counter_Add d lvs f"
| "call_metric (GaugeSet v) lvs f = Gauge_Set v lvs f"
| "call_metric (GaugeAdded d) lvs f = Gauge_Add d lvs f"
| "call_metric (Observed v) lvs f = Observe v lvs f"
| "call_metric Looked lvs f = map_option snd (Value lvs f)"

lemmas metric_ops = Counter_Add_def Gauge_Set_def Gauge_Add_def Observe_def

lemma call_metric_wf: "family_wf f \<Longrightarrow> call_metric c lvs f = Some f' \<Longrightarrow> family_wf f'"
proof (cases c)
  case Looked
  then show "family_wf f \<Longrightarrow> call_metric c lvs f = Some f' \<Longrightarrow> family_wf f'"
    using seriesFor_wf by (auto simp: Value_def)
qed (auto simp: metric_ops observe_buckets_def elim!: update_series_wf split: if_splits)

definition registry_wf :: "registry \<Rightarrow> bool" where
  "registry_wf r \<longleftrightarrow> distinct (map fst r) \<and> list_all (\<lambda>(name, f). family_wf f) r"

lemma register_wf:
  "registry_wf r \<Longrightarrow> k = KindHistogram \<or> buckets = [] \<Longrightarrow> registry_wf (register name help k labels buckets r)"
  by (auto simp: registry_wf_def register_def family_wf_def map_of_eq_None_iff split: option.splits)

lemma on_family_wf:
  assumes "registry_wf r" "on_family name (call_metric c lvs) r = Some r'"
  shows "registry_wf r'"
proof -
  obtain f f' where f: "map_of r name = Some f" "call_metric c lvs f = Some f'" "r' = AList.update name f' r"
    using assms(2) by (auto simp: on_family_def split: option.splits)
  have "family_wf f" using map_of_SomeD [OF f(1)] assms(1) by (auto simp: registry_wf_def list_all_iff)
  then have "family_wf f'" using call_metric_wf f(2) by blast
  then show ?thesis using assms(1) f(3)
    by (auto simp: registry_wf_def distinct_update intro!: list_all_update)
qed

text \<open>A program's use of its registry: it registers families and calls what it got, each name with its labels.\<close>

datatype metric_action =
    NewCounter string string "string list"
  | NewGauge string string "string list"
  | NewHistogram string string "float64 list" "string list"
  | Call string metric_call "string list"

fun metric_step :: "metric_action \<Rightarrow> registry \<Rightarrow> registry option" where
  "metric_step (NewCounter name help labels) r = Some (Counter name help labels r)"
| "metric_step (NewGauge name help labels) r = Some (Gauge name help labels r)"
| "metric_step (NewHistogram name help buckets labels) r = Some (Histogram name help buckets labels r)"
| "metric_step (Call name c lvs) r = on_family name (call_metric c lvs) r"

fun metric_steps :: "metric_action list \<Rightarrow> registry \<Rightarrow> registry option" where
  "metric_steps [] r = Some r"
| "metric_steps (s # ss) r = Option.bind (metric_step s r) (metric_steps ss)"

lemma metrics_wf: "registry_wf r \<Longrightarrow> metric_steps ss r = Some r' \<Longrightarrow> registry_wf r'"
proof (induction ss arbitrary: r)
  case (Cons s ss)
  then obtain r1 where r1: "metric_step s r = Some r1" "metric_steps ss r1 = Some r'"
    by (auto simp: bind_eq_Some_conv)
  have "registry_wf r1" using r1(1) Cons.prems(1)
    by (cases s) (auto simp: Counter_def Gauge_def Histogram_def intro: register_wf on_family_wf)
  then show ?case using Cons.IH r1(2) by blast
qed simp

section \<open>Counting\<close>

lemma round_even_int [simp]: "round_even (of_int m) = m"
  by (simp add: round_even_def)

lemma binade_int:
  assumes "0 < m"
  shows "binade (of_int m) = bitlen m - 1"
proof -
  have "2 ^ nat (bitlen m - 1) \<le> m" using bitlen_bounds [OF assms] by simp
  then have "(2 ^ nat (bitlen m - 1) :: rat) \<le> of_int m" by (metis of_int_le_iff of_int_numeral of_int_power)
  moreover have "1 \<le> bitlen m" using assms bitlen_eq_zero_iff [of m] bitlen_nonneg [of m] by linarith
  moreover have "bitlen 1 = 1" by code_simp
  ultimately show ?thesis by (simp add: binade_def quotient_of_int pow2_def Let_def)
qed

lemma round64_int:
  assumes "0 < m" "m < 2 ^ 53"
  shows "round64 (of_int m) = Fin (of_int m)"
proof -
  have "bitlen m \<le> 53" using assms bitlen_le_iff_power [of m 53] by simp
  then have k: "binade (of_int m) - 52 \<le> 0" "binade (of_int m) < 1024" using binade_int [OF assms(1)] by simp_all
  let ?e = "max (-1074) (binade (of_int m) - 52)"
  have ulp: "pow2 ?e = 1 / of_int (2 ^ nat (- ?e))" using k(1) by (simp add: pow2_def max_def)
  have "of_int m / pow2 ?e = of_int (m * 2 ^ nat (- ?e))" unfolding ulp by simp
  then have "of_int (round_even (of_int m / pow2 ?e)) * pow2 ?e = (of_int m :: rat)"
    using ulp by (simp only: round_even_int) simp
  then show ?thesis using assms k(2) by (simp add: round64_def Let_def)
qed

lemma round64_full: "round64 (2 ^ 53) = Fin (2 ^ 53)" "round64 (2 ^ 53 + 1) = Fin (2 ^ 53)"
  by (simp_all add: round64_def Let_def) code_simp+

lemma add64_one:
  "add64 (Fin (of_nat n)) (Fin 1) = (if n < 2 ^ 53 then Fin (of_nat (Suc n)) else add64 (Fin (of_nat n)) (Fin 1))"
proof (cases "n < 2 ^ 53 - 1")
  case True
  have "round64 (of_int (int n + 1)) = Fin (of_int (int n + 1))" using True by (intro round64_int) simp_all
  then show ?thesis by (simp add: add.commute)
next
  case False
  then have "n < 2 ^ 53 \<Longrightarrow> n = 2 ^ 53 - 1" by simp
  then show ?thesis using round64_full(1) by auto
qed

definition fresh_series :: "family \<Rightarrow> string list \<Rightarrow> series" where
  "fresh_series f lvs =
     \<lparr>se_labelValues = lvs, se_value = Fin 0,
      se_counts = (if fa_kind f = KindHistogram then replicate (length (fa_buckets f)) 0 else []), se_sum = Fin 0, se_count = 0\<rparr>"

definition series_at :: "family \<Rightarrow> string list \<Rightarrow> series" where
  "series_at f lvs = (case map_of (fa_series f) (series_key lvs) of Some s \<Rightarrow> s | None \<Rightarrow> fresh_series f lvs)"

text \<open>What an update does, said by what is read afterwards: the series changes, and those with other keys do not.\<close>

lemma update_series_at:
  assumes "length lvs = length (fa_labels f)"
  shows "\<exists>f'. update_series g lvs f = Some f' \<and> series_at f' lvs = g (series_at f lvs)
    \<and> fa_labels f' = fa_labels f \<and> fa_buckets f' = fa_buckets f \<and> fa_kind f' = fa_kind f
    \<and> (\<forall>k. k \<noteq> series_key lvs \<longrightarrow> map_of (fa_series f') k = map_of (fa_series f) k)
    \<and> map_of (fa_series f') (series_key lvs) = Some (g (series_at f lvs))"
  using assms
  by (auto simp: update_series_def seriesFor_def series_at_def fresh_series_def Let_def update_conv map_add_def split: option.splits)

fun repeated :: "nat \<Rightarrow> (family \<Rightarrow> family option) \<Rightarrow> family \<Rightarrow> family option" where
  "repeated 0 step f = Some f"
| "repeated (Suc n) step f = Option.bind (step f) (repeated n step)"

lemma add64_full: "add64 (Fin (2 ^ 53)) (Fin 1) = Fin (2 ^ 53)"
  using round64_full(2) by simp

lemma counter_value:
  assumes "length lvs = length (fa_labels f)" "se_value (series_at f lvs) = Fin (of_nat m)" "m \<le> 2 ^ 53"
  shows "\<exists>f'. repeated n (Counter_Inc lvs) f = Some f'
    \<and> se_value (series_at f' lvs) = Fin (of_nat (min (m + n) (2 ^ 53)))"
  using assms
proof (induction n arbitrary: f m)
  case (Suc n)
  obtain f1 where f1: "Counter_Inc lvs f = Some f1" "length lvs = length (fa_labels f1)"
    and v: "se_value (series_at f1 lvs) = add64 (Fin (of_nat m)) (Fin 1)"
    using update_series_at [OF Suc.prems(1), of "\<lambda>s. s\<lparr>se_value := add64 (se_value s) (Fin 1)\<rparr>"] Suc.prems(1,2)
    by (auto simp: Counter_Inc_def Counter_Add_def negative_def)
  let ?m = "min (Suc m) (2 ^ 53)"
  have "add64 (Fin (of_nat m)) (Fin 1) = Fin (of_nat ?m)"
  proof (cases "m < 2 ^ 53")
    case True
    then show ?thesis using add64_one [of m] by simp
  next
    case False
    then have "m = 2 ^ 53" using Suc.prems(3) by simp
    then show ?thesis using add64_full by simp
  qed
  then have "se_value (series_at f1 lvs) = Fin (of_nat ?m)" using v by simp
  from Suc.IH [OF f1(2) this] obtain f' where "repeated n (Counter_Inc lvs) f1 = Some f'"
    "se_value (series_at f' lvs) = Fin (of_nat (min (?m + n) (2 ^ 53)))" by auto
  moreover have "min (?m + n) (2 ^ 53) = min (m + Suc n) (2 ^ 53)" by (simp add: min_def)
  ultimately show ?case using f1(1) by (simp del: of_nat_add of_nat_Suc)
qed simp

text \<open>
  A counter that is raised by one counts exactly up to 2 to the 53rd, and there it stays: the next number has no
  \<open>float64\<close>, and the sum rounds back to the even one below.
\<close>

theorem counter_exact_to_53_bits:
  assumes "length lvs = length (fa_labels f)" "map_of (fa_series f) (series_key lvs) = None"
  shows "map_option (\<lambda>f'. se_value (series_at f' lvs)) (repeated n (Counter_Inc lvs) f)
    = Some (Fin (of_nat (min n (2 ^ 53))))"
proof -
  have "se_value (series_at f lvs) = Fin (of_nat 0)" using assms(2) by (simp add: series_at_def fresh_series_def)
  from counter_value [OF assms(1) this] show ?thesis by auto
qed

definition demo_counter :: family where
  "demo_counter = \<lparr>fa_name = ''events_total'', fa_help = ''Events.'', fa_kind = KindCounter, fa_labels = [''table''],
     fa_buckets = [], fa_series = []\<rparr>"

theorem counter_exact_to_53_bits_witness:
  "map_option (\<lambda>f. se_value (series_at f [''orders''])) (repeated (2 ^ 60) (Counter_Inc [''orders'']) demo_counter)
    = Some (Fin (2 ^ 53))"
  using counter_exact_to_53_bits [of "[''orders'']" demo_counter "2 ^ 60"] by (simp add: demo_counter_def min_def)

section \<open>Observing\<close>

fun observed_all :: "string list \<Rightarrow> float64 list \<Rightarrow> family \<Rightarrow> family option" where
  "observed_all lvs [] f = Some f"
| "observed_all lvs (v # vs) f = Option.bind (Observe v lvs f) (observed_all lvs vs)"

definition at_most :: "float64 \<Rightarrow> float64 list \<Rightarrow> nat" where
  "at_most ub vs = length (filter (\<lambda>v. le64 v ub) vs)"

lemma observe_buckets_shift:
  "length ns = length bs \<Longrightarrow>
    map (\<lambda>(n, b). n + of_nat (at_most b vs)) (zip (observe_buckets v bs ns) bs)
      = map (\<lambda>(n, b). n + of_nat (at_most b (v # vs))) (zip ns bs)"
  by (induction ns bs rule: list_induct2) (auto simp: observe_buckets_def at_most_def)

lemma observed_series:
  assumes "length lvs = length (fa_labels f)" "length (se_counts (series_at f lvs)) = length (fa_buckets f)"
  shows "map_option (\<lambda>f'. series_at f' lvs) (observed_all lvs vs f)
    = Some ((series_at f lvs)\<lparr>
        se_counts := map (\<lambda>(n, b). n + of_nat (at_most b vs)) (zip (se_counts (series_at f lvs)) (fa_buckets f)),
        se_sum := foldl add64 (se_sum (series_at f lvs)) vs,
        se_count := se_count (series_at f lvs) + of_nat (length vs)\<rparr>)"
  using assms
proof (induction vs arbitrary: f)
  case Nil
  have "map (\<lambda>(n, b). n + of_nat (at_most b [])) (zip ns bs) = ns" if "length ns = length bs" for ns :: "uint64 list" and bs
    using that by (induction ns bs rule: list_induct2) (auto simp: at_most_def)
  then show ?case using Nil by simp
next
  case (Cons v vs)
  let ?g = "\<lambda>s. s\<lparr>se_sum := add64 (se_sum s) v, se_count := se_count s + 1,
    se_counts := observe_buckets v (fa_buckets f) (se_counts s)\<rparr>"
  obtain f1 where f1: "Observe v lvs f = Some f1" "series_at f1 lvs = ?g (series_at f lvs)"
      "fa_labels f1 = fa_labels f" "fa_buckets f1 = fa_buckets f"
    using update_series_at [OF Cons.prems(1), of ?g] by (auto simp: Observe_def)
  have len: "length (observe_buckets v (fa_buckets f) (se_counts (series_at f lvs))) = length (fa_buckets f)"
    using Cons.prems(2) by (simp add: observe_buckets_def)
  show ?case using Cons.IH [of f1] Cons.prems f1 len by (simp add: observe_buckets_shift add.assoc)
qed

text \<open>The series that observations on a vector lead to.\<close>

definition histogram_series :: "string \<Rightarrow> string list \<Rightarrow> float64 list \<Rightarrow> registry \<Rightarrow> series option" where
  "histogram_series name lvs vs r =
     Option.bind (map_of r name) (\<lambda>f. map_option (\<lambda>f'. series_at f' lvs) (observed_all lvs vs f))"

lemma at_most_mono: "b \<le> b' \<Longrightarrow> b \<noteq> NaN \<Longrightarrow> at_most b vs \<le> at_most b' vs"
proof (induction vs)
  case (Cons v vs)
  have "b' \<noteq> NaN" using Cons.prems by (cases b; cases b') auto
  then show ?case using Cons by (auto simp: at_most_def le64_def)
qed (simp add: at_most_def)

lemma at_most_length: "at_most b vs \<le> length vs"
  by (simp add: at_most_def)

lemma sorted_at_most:
  "sorted bs \<Longrightarrow> NaN \<notin> set bs \<Longrightarrow> sorted (map (\<lambda>b. at_most b vs) bs @ [length vs])"
  by (induction bs) (auto simp: at_most_mono at_most_length)

text \<open>
  A histogram counts what it observed: each bucket holds the number of observations up to its bound, so the
  buckets are cumulative and in order, the last one at most the number of all; and the sum is the rounded sum in the
  order of observation. This holds for fewer than 2 to the 64th observations, whatever order the bounds came in.
\<close>

theorem histogram_exact:
  assumes "map_of r name = None" "length lvs = length labels" "length vs < 2 ^ 64" "NaN \<notin> set buckets"
  shows "case histogram_series name lvs vs (Histogram name help buckets labels r) of
      None \<Rightarrow> False
    | Some s \<Rightarrow>
        map unat (se_counts s) = map (\<lambda>b. at_most b vs) (sort (if buckets = [] then DefaultBuckets else buckets))
        \<and> sorted (map unat (se_counts s) @ [unat (se_count s)])
        \<and> unat (se_count s) = length vs \<and> se_sum s = foldl add64 (Fin 0) vs"
proof -
  define bs where "bs = sort (if buckets = [] then DefaultBuckets else buckets)"
  let ?f = "\<lparr>fa_name = name, fa_help = help, fa_kind = KindHistogram, fa_labels = labels, fa_buckets = bs, fa_series = []\<rparr>"
  have f: "map_of (Histogram name help buckets labels r) name = Some ?f"
    using assms(1) by (simp add: Histogram_def register_def map_add_def bs_def)
  have s: "series_at ?f lvs = fresh_series ?f lvs" by (simp add: series_at_def)
  have zero: "map (\<lambda>(n, b). n + of_nat (at_most b vs)) (zip (replicate (length xs) 0) xs)
      = map (\<lambda>b. of_nat (at_most b vs) :: uint64) xs" for xs
    by (induction xs) auto
  have small: "at_most b vs < 2 ^ 64" for b using at_most_length [of b vs] assms(3) by simp
  have counts: "map unat (map (\<lambda>b. of_nat (at_most b vs) :: uint64) bs) = map (\<lambda>b. at_most b vs) bs"
    using small by (simp add: unat_of_nat take_bit_nat_eq_self)
  have all: "unat (of_nat (length vs) :: uint64) = length vs" using assms(3) by (simp add: unat_of_nat take_bit_nat_eq_self)
  have bs: "sorted bs" "NaN \<notin> set bs" using assms(4) by (auto simp: DefaultBuckets_def bs_def)
  obtain z where z: "observed_all lvs vs ?f = Some z"
    "series_at z lvs = \<lparr>se_labelValues = lvs, se_value = Fin 0, se_counts = map (\<lambda>b. of_nat (at_most b vs)) bs,
       se_sum = foldl add64 (Fin 0) vs, se_count = of_nat (length vs)\<rparr>"
    using observed_series [of lvs ?f vs] assms(2) by (auto simp: s fresh_series_def zero)
  show ?thesis
    unfolding histogram_series_def f bs_def [symmetric]
    using sorted_at_most [OF bs, of vs] by (simp add: z counts all del: map_map)
qed

definition demo_latencies :: "float64 list" where
  "demo_latencies = [Fin (1/2), Fin 3, NaN, Fin 20]"

theorem histogram_exact_witness:
  "case histogram_series ''lag'' [''orders''] demo_latencies (Histogram ''lag'' ''Lag.'' [Fin 10, Fin 1] [''table''] NewRegistry) of
      None \<Rightarrow> False
    | Some s \<Rightarrow> map unat (se_counts s) = [1, 2] \<and> unat (se_count s) = 4"
proof -
  have "map_of NewRegistry ''lag'' = None" "length [''orders''] = length [''table'']"
    "length demo_latencies < 2 ^ 64" "NaN \<notin> set [Fin 10, Fin 1]"
    by (simp_all add: NewRegistry_def demo_latencies_def)
  from histogram_exact [OF this, of "''Lag.''"]
  have "case histogram_series ''lag'' [''orders''] demo_latencies (Histogram ''lag'' ''Lag.'' [Fin 10, Fin 1] [''table''] NewRegistry) of
      None \<Rightarrow> False
    | Some s \<Rightarrow> map unat (se_counts s) = map (\<lambda>b. at_most b demo_latencies) (sort [Fin 10, Fin 1])
        \<and> unat (se_count s) = length demo_latencies"
    by (simp split: option.splits)
  moreover have "map (\<lambda>b. at_most b demo_latencies) (sort [Fin 10, Fin 1]) = [1, 2] \<and> length demo_latencies = 4"
    by (rule conjI) code_simp+
  ultimately show ?thesis by (simp split: option.splits)
qed

section \<open>Reading the text back\<close>

text \<open>
  A scraper's reading of the labels of a sample: a brace, names and quoted values, a brace. A value ends at the first
  quote that is not escaped.
\<close>

fun read_value :: "string \<Rightarrow> (string \<times> string) option" where
  "read_value [] = None"
| "read_value [c] = (if c = CHR 0x22 then Some ([], []) else None)"
| "read_value (c # d # s) =
     (if c = CHR 0x22 then Some ([], d # s)
      else if c = CHR 0x5C then map_option (\<lambda>(v, rest). ((if d = CHR ''n'' then CHR 0x0A else d) # v, rest)) (read_value s)
      else if c = CHR 0x0A then None
      else map_option (\<lambda>(v, rest). (c # v, rest)) (read_value (d # s)))"

lemma read_value_shorter: "read_value s = Some (v, rest) \<Longrightarrow> length rest < length s"
  by (induction s arbitrary: v rule: read_value.induct) (auto split: if_splits)

lemma read_value_plain:
  assumes "c \<noteq> CHR 0x22" "c \<noteq> CHR 0x5C" "c \<noteq> CHR 0x0A"
  shows "read_value (c # s) = map_option (\<lambda>(v, rest). (c # v, rest)) (read_value s)"
  using assms by (cases s) simp_all

lemma escapeLabel_Cons:
  "escapeLabel (c # s) = (if c = CHR 0x5C then [CHR 0x5C, CHR 0x5C] else if c = CHR 0x22 then [CHR 0x5C, CHR 0x22]
    else if c = CHR 0x0A then [CHR 0x5C, CHR ''n''] else [c]) @ escapeLabel s"
  by (simp add: escapeLabel_def)

lemma read_value_escaped: "read_value (escapeLabel v @ [CHR 0x22] @ rest) = Some (v, rest)"
proof (induction v)
  case Nil
  show ?case by (cases rest) (simp_all add: escapeLabel_def)
next
  case (Cons c v)
  then show ?case by (simp add: escapeLabel_Cons read_value_plain)
qed

lemma label_rest_shorter:
  assumes "e # q # s1 = dropWhile (\<lambda>c. c \<noteq> CHR ''='') s" "Some (v, c # rest) = read_value s1"
  shows "length rest < length s"
proof -
  have "length (dropWhile (\<lambda>c. c \<noteq> CHR ''='') s) \<le> length s" by (rule length_dropWhile_le)
  moreover have "length (c # rest) < length s1" using assms(2) by (intro read_value_shorter [of s1 v]) simp
  ultimately show ?thesis using assms(1) [symmetric] by simp
qed

function read_labels :: "string \<Rightarrow> ((string \<times> string) list \<times> string) option" where
  "read_labels s =
     (let name = takeWhile (\<lambda>c. c \<noteq> CHR ''='') s in
      case dropWhile (\<lambda>c. c \<noteq> CHR ''='') s of
        e # q # s1 \<Rightarrow>
          if q \<noteq> CHR 0x22 then None
          else (case read_value s1 of
              Some (v, c # rest) \<Rightarrow>
                if c = CHR 0x7D then Some ([(name, v)], rest)
                else if c = CHR '','' then map_option (\<lambda>(ls, rest). ((name, v) # ls, rest)) (read_labels rest)
                else None
            | _ \<Rightarrow> None)
      | _ \<Rightarrow> None)"
  by pat_completeness auto

termination
  by (relation "measure length") (use label_rest_shorter in simp_all)

declare read_labels.simps [simp del]

definition plain_name :: "string \<Rightarrow> bool" where
  "plain_name n \<longleftrightarrow> CHR ''='' \<notin> set n \<and> CHR 0x0A \<notin> set n"

lemma read_label_text:
  assumes "plain_name n"
  shows "read_labels (label_text (n, v) @ c # rest) =
    (if c = CHR 0x7D then Some ([(n, v)], rest)
     else if c = CHR '','' then map_option (\<lambda>(ls, rest). ((n, v) # ls, rest)) (read_labels rest) else None)"
proof -
  let ?s = "label_text (n, v) @ c # rest"
  have s: "?s = n @ CHR ''='' # CHR 0x22 # (escapeLabel v @ [CHR 0x22] @ c # rest)" by (simp add: label_text_def)
  have n: "\<And>x. x \<in> set n \<Longrightarrow> x \<noteq> CHR ''=''" using assms by (auto simp: plain_name_def)
  have "takeWhile (\<lambda>c. c \<noteq> CHR ''='') ?s = n" "dropWhile (\<lambda>c. c \<noteq> CHR ''='') ?s = CHR ''='' # CHR 0x22 # (escapeLabel v @ [CHR 0x22] @ c # rest)"
    unfolding s using n by (simp_all add: takeWhile_append2 dropWhile_append2)
  then show ?thesis by (subst read_labels.simps) (simp add: Let_def read_value_escaped [simplified])
qed

lemma read_joined_labels:
  "ls \<noteq> [] \<Longrightarrow> list_all (plain_name \<circ> fst) ls \<Longrightarrow>
    read_labels (join_with '','' (map label_text ls) @ CHR 0x7D # rest) = Some (ls, rest)"
proof (induction ls rule: induct_list012)
  case (2 l)
  then show ?case using read_label_text [of "fst l" "snd l" "CHR 0x7D" rest] by simp
next
  case (3 l l' ls)
  then show ?case
    using read_label_text [of "fst l" "snd l" "CHR '',''" "join_with '','' (map label_text (l' # ls)) @ CHR 0x7D # rest"]
    by simp
qed simp

lemma escaped_one_line [simp]: "CHR 0x0A \<notin> set (escapeLabel v)"
  by (simp add: escapeLabel_def)

lemma joined_one_line:
  "list_all (plain_name \<circ> fst) ls \<Longrightarrow> CHR 0x0A \<notin> set (join_with '','' (map label_text ls))"
  by (induction ls rule: induct_list012) (auto simp: label_text_def plain_name_def)

text \<open>
  Label values survive the text format. Whatever bytes the values are, the labels of a sample are one line, and a
  scraper that reads them finds each name with its value, ending where the sample goes on: no value can close its
  quotes, add a label or start another sample.
\<close>

theorem labels_read_back:
  assumes "length lvs = length names" "list_all plain_name names" "names \<noteq> [] \<or> extra \<noteq> ''''" "plain_name extra"
  shows "read_labels (tl (writeLabels names lvs extra v) @ rest)
      = Some (zip names lvs @ (if extra \<noteq> '''' then [(extra, v)] else []), rest)
    \<and> hd (writeLabels names lvs extra v) = CHR 0x7B \<and> CHR 0x0A \<notin> set (writeLabels names lvs extra v)"
proof -
  let ?ls = "zip names lvs @ (if extra \<noteq> '''' then [(extra, v)] else [])"
  have "list_all (plain_name \<circ> fst) ?ls"
    using assms by (auto simp: list_all_iff dest: set_zip_leftD)
  moreover have "?ls \<noteq> []" using assms(1,3) by (cases names; cases lvs) auto
  ultimately show ?thesis
    using assms(3) read_joined_labels [of ?ls rest] joined_one_line [of ?ls]
    by (auto simp: writeLabels_def simp del: join_with.simps)
qed

theorem labels_read_back_witness:
  "read_labels (tl (writeLabels [''table''] [[CHR 0x22, CHR 0x7D, CHR 0x0A, CHR 0x5C]] ''le'' ''1'') @ '' 7'')
    = Some ([(''table'', [CHR 0x22, CHR 0x7D, CHR 0x0A, CHR 0x5C]), (''le'', ''1'')], '' 7'')"
  using labels_read_back [of "[[CHR 0x22, CHR 0x7D, CHR 0x0A, CHR 0x5C]]" "[''table'']" "''le''" "''1''" "'' 7''"]
  by (simp add: plain_name_def)

text \<open>
  Series are kept apart by the values joined with the byte FF: values without that byte are told apart, and two lists
  with it can share one series, which then shows the labels of the first.
\<close>

lemma series_key_inj:
  "length a = length b \<Longrightarrow> list_all (\<lambda>s. CHR 0xFF \<notin> set s) (a @ b) \<Longrightarrow> series_key a = series_key b \<Longrightarrow> a = b"
proof (induction a b rule: list_induct2)
  case (Cons x a y b)
  have cut: "takeWhile (\<lambda>c. c \<noteq> CHR 0xFF) (series_key (z # zs)) = z
      \<and> drop (Suc (length z)) (series_key (z # zs)) = series_key zs"
    if "CHR 0xFF \<notin> set z" for z zs
  proof (cases zs)
    case Nil
    then show ?thesis using that by (auto simp: series_key_def takeWhile_eq_all_conv)
  next
    case (Cons w ws)
    have "\<And>c. c \<in> set z \<Longrightarrow> c \<noteq> CHR 0xFF" using that by auto
    then show ?thesis using Cons by (simp add: series_key_def takeWhile_append2)
  qed
  have plain: "CHR 0xFF \<notin> set x" "CHR 0xFF \<notin> set y" using Cons.prems(1) by simp_all
  have xy: "x = y" using cut [OF plain(1), of a] cut [OF plain(2), of b] Cons.prems(2) by metis
  then have "series_key a = series_key b"
    using cut [OF plain(1), of a] cut [OF plain(2), of b] Cons.prems(2) by metis
  then show ?case using Cons.IH Cons.prems(1) xy by simp
qed simp

lemma series_keys_collide: "series_key [[CHR 0xFF], ''a''] = series_key ['''', CHR 0xFF # ''a'']"
  by (simp add: series_key_def)

end
