(* ===== verification/App.thy ===== *)
theory App
  imports Loader Provider Log Metrics
begin

text \<open>
  The life of a service, \<open>internal/app/app.go\<close>: what \<open>Bootstrap\<close> connects in which order, how \<open>Run\<close> ends, and what
  is released then. The database library is a parameter that says whether a pool opens and answers its ping;
  routes of the admin server are not modelled. \<open>Run\<close> is given the order in which it takes notice of what happens.
\<close>

section \<open>Connection pools\<close>

record flags =
  fg_ConfigPath :: string
  fg_PlanPath :: string
  fg_DryRun :: bool
  fg_Once :: bool

definition envOr :: "(string \<Rightarrow> string) \<Rightarrow> string \<Rightarrow> string \<Rightarrow> string" where
  "envOr env key def = (if env key \<noteq> '''' then env key else def)"

text \<open>The flags that were given on the command line, over the defaults.\<close>

definition ParseFlags :: "(string \<Rightarrow> string) \<Rightarrow> string option \<Rightarrow> string option \<Rightarrow> bool \<Rightarrow> bool \<Rightarrow> flags" where
  "ParseFlags env config plan dry once =
     \<lparr>fg_ConfigPath = (case config of None \<Rightarrow> envOr env ''CONFIG_FILE'' ''config.json'' | Some p \<Rightarrow> p),
      fg_PlanPath = (case plan of None \<Rightarrow> env ''PLAN_FILE'' | Some p \<Rightarrow> p), fg_DryRun = dry, fg_Once = once\<rparr>"

definition dialect_For :: "string \<Rightarrow> go_error + engine" where
  "dialect_For name =
     (if name = Postgres then Inr PostgresEngine else if name = MySQL then Inr MySQLEngine
      else Inl (plain_error (''dialect: unsupported engine '' @ name)))"

fun Driver :: "engine \<Rightarrow> string" where
  "Driver PostgresEngine = ''postgres''"
| "Driver MySQLEngine = ''mysql''"

record sql_library =
  sq_Open :: "string \<Rightarrow> string \<Rightarrow> go_error option"
  sq_Ping :: "string \<Rightarrow> string \<Rightarrow> go_error option"

record pool =
  po_Driver :: string
  po_DSN :: string
  po_MaxOpenConns :: int
  po_MaxIdleConns :: int
  po_ConnMaxLifetime :: duration
  po_ConnMaxIdleTime :: duration

definition orDefault :: "int \<Rightarrow> int \<Rightarrow> int" where
  "orDefault v def = (if v \<le> 0 then def else v)"

definition openDB :: "(nat \<Rightarrow> nat \<Rightarrow> nat \<Rightarrow> nat) \<Rightarrow> sql_library \<Rightarrow> database \<Rightarrow> string \<Rightarrow> go_error + pool" where
  "openDB fr sql c driver =
     (if dc_DSN c = ''''
      then Inl (plain_error ''no DSN configured; set it through the environment rather than the config file'')
      else case sq_Open sql driver (dc_DSN c) of
        Some e \<Rightarrow> Inl e
      | None \<Rightarrow>
          (case sq_Ping sql driver (dc_DSN c) of
             Some e \<Rightarrow> Inl e
           | None \<Rightarrow> Inr \<lparr>po_Driver = driver, po_DSN = dc_DSN c,
               po_MaxOpenConns = orDefault (dc_MaxOpenConns c) 16, po_MaxIdleConns = orDefault (dc_MaxIdleConns c) 8,
               po_ConnMaxLifetime = mustDuration fr (dc_ConnMaxLife c) (30 * Minute), po_ConnMaxIdleTime = 5 * Minute\<rparr>))"

section \<open>Start\<close>

text \<open>What a service holds, in the order of acquisition.\<close>

datatype resource = KeyMaterial | TargetPool | SourcePool

record app =
  ap_Service :: string
  ap_Cfg :: config
  ap_Log :: handler
  ap_Metrics :: registry
  ap_Health :: health
  ap_Target :: pool
  ap_Source :: "pool option"
  ap_Dialect :: engine
  ap_Crypto :: provider
  ap_closes :: "resource list"

datatype app_error = LoadError load_error | AppError go_error

record boot_env =
  bt_fraction :: "nat \<Rightarrow> nat \<Rightarrow> nat \<Rightarrow> nat"
  bt_files :: "string \<Rightarrow> go_error + string"
  bt_decode :: "string \<Rightarrow> config \<Rightarrow> go_error + config"
  bt_decode_plan :: "string \<Rightarrow> go_error + plan"
  bt_getenv :: "string \<Rightarrow> string"
  bt_host :: string
  bt_hmac :: hmac
  bt_aes :: aes_library
  bt_heap :: heap
  bt_sql :: sql_library
  bt_now :: int

definition load_config :: "boot_env \<Rightarrow> flags \<Rightarrow> load_error + config" where
  "load_config env f =
     (case Load (bt_fraction env) (bt_files env) (bt_decode env) (bt_decode_plan env) (bt_getenv env) (bt_host env)
             (fg_ConfigPath f) of
        Inl e \<Rightarrow> Inl e
      | Inr cfg \<Rightarrow>
          if fg_PlanPath f = '''' then Inr cfg
          else case LoadPlan (bt_files env) (bt_decode_plan env) (fg_PlanPath f) of
            Inl e \<Rightarrow> Inl e
          | Inr plan \<Rightarrow> Inr (cfg\<lparr>cf_Plan := plan\<rparr>))"

text \<open>The source is connected only when it is configured.\<close>

definition open_source :: "boot_env \<Rightarrow> config \<Rightarrow> go_error + pool option" where
  "open_source env cfg =
     (if dc_DSN (cf_Source cfg) = '''' then Inr None
      else case dialect_For (dc_Engine (cf_Source cfg)) of
        Inl e \<Rightarrow> Inl e
      | Inr sd \<Rightarrow>
          (case openDB (bt_fraction env) (bt_sql env) (cf_Source cfg) (Driver sd) of
             Inl e \<Rightarrow> Inl (Errorf ''connecting to the source database'' e)
           | Inr p \<Rightarrow> Inr (Some p)))"

text \<open>Beside its result, what was acquired by the time it returned: an error closes nothing.\<close>

definition Bootstrap :: "boot_env \<Rightarrow> string \<Rightarrow> flags \<Rightarrow> (app_error + app) \<times> resource list" where
  "Bootstrap env service f =
     (case load_config env f of
        Inl e \<Rightarrow> (Inl (LoadError e), [])
      | Inr cfg \<Rightarrow>
          (case dialect_For (dc_Engine (cf_Target cfg)) of
             Inl e \<Rightarrow> (Inl (AppError e), [])
           | Inr d \<Rightarrow>
               (case buildCrypto (bt_hmac env) (bt_aes env) (bt_getenv env) cfg (bt_heap env) of
                  Inl e \<Rightarrow> (Inl (AppError e), [])
                | Inr provider \<Rightarrow>
                    (case openDB (bt_fraction env) (bt_sql env) (cf_Target cfg) (Driver d) of
                       Inl e \<Rightarrow> (Inl (AppError (Errorf ''connecting to the target database'' e)), [KeyMaterial])
                     | Inr target \<Rightarrow>
                         let health = Health_Set (bt_now env) ''target-db'' True '''' NewHealth in
                         (case open_source env cfg of
                            Inl e \<Rightarrow> (Inl (AppError e), [KeyMaterial, TargetPool])
                          | Inr src \<Rightarrow>
                              let closes = [KeyMaterial, TargetPool] @ (if src = None then [] else [SourcePool]) in
                              (Inr \<lparr>ap_Service = service, ap_Cfg = cfg, ap_Log = NewLogger service (os_Instance (cf_Obs cfg)),
                                  ap_Metrics = NewRegistry,
                                  ap_Health = (if src = None then health else Health_Set (bt_now env) ''source-db'' True '''' health),
                                  ap_Target = target, ap_Source = src, ap_Dialect = d, ap_Crypto = provider,
                                  ap_closes = closes\<rparr>, closes))))))"

section \<open>End\<close>

text \<open>
  What \<open>Run\<close> can take notice of: the admin server or the service's loop has returned, a signal or the caller
  has cancelled the context, 30 seconds have passed since the first of these.
\<close>

datatype app_event = AdminReturned "go_error option" | LoopReturned "go_error option" | ContextDone | DrainElapsed

text \<open>Every resource is closed, the last acquired first; an error of one is logged and the next is closed.\<close>

fun close_all :: "(resource \<Rightarrow> go_error option) \<Rightarrow> resource list \<Rightarrow> (resource \<times> go_error option) list" where
  "close_all close [] = []"
| "close_all close (r # rs) = close_all close rs @ [(r, close r)]"

definition App_Close :: "(resource \<Rightarrow> go_error option) \<Rightarrow> app \<Rightarrow> (resource \<times> go_error option) list" where
  "App_Close close a = close_all close (ap_closes a)"

text \<open>The first select: the error it keeps, whether the loop has returned, and what happens afterwards.\<close>

fun first_select :: "app_event list \<Rightarrow> (go_error option \<times> bool \<times> app_event list) option" where
  "first_select [] = None"
| "first_select (AdminReturned e # es) = Some (e, False, es)"
| "first_select (LoopReturned e # es) = Some (e, True, es)"
| "first_select (ContextDone # es) = Some (None, False, es)"
| "first_select (DrainElapsed # es) = first_select es"

text \<open>The second select takes one more result or the end of the 30 seconds.\<close>

fun second_select :: "app_event list \<Rightarrow> (go_error option \<times> bool) option" where
  "second_select [] = None"
| "second_select (AdminReturned e # es) = Some (e, False)"
| "second_select (LoopReturned e # es) = Some (e, True)"
| "second_select (ContextDone # es) = second_select es"
| "second_select (DrainElapsed # es) = Some (None, False)"

definition exit_error :: "go_error option \<Rightarrow> go_error option" where
  "exit_error e =
     (case e of None \<Rightarrow> None | Some e \<Rightarrow> if be_is (base_of e) = Some CtxCanceled then None else Some e)"

record exit_report =
  xr_error :: "go_error option"
  xr_loop_returned :: bool
  xr_closed :: "(resource \<times> go_error option) list"

text \<open>\<open>None\<close> while it has not returned; otherwise what it returns, and whether the loop had when everything was closed.\<close>

definition Run :: "(resource \<Rightarrow> go_error option) \<Rightarrow> app \<Rightarrow> app_event list \<Rightarrow> exit_report option" where
  "Run close a es =
     (case first_select es of
        None \<Rightarrow> None
      | Some (e1, looped1, es) \<Rightarrow>
          (case second_select es of
             None \<Rightarrow> None
           | Some (e2, looped2) \<Rightarrow>
               Some \<lparr>xr_error = exit_error (if e1 = None then e2 else e1), xr_loop_returned = (looped1 \<or> looped2),
                 xr_closed = App_Close close a\<rparr>))"

section \<open>What start-up guarantees\<close>

lemma openDB_Inr:
  "openDB fr sql c driver = Inr p \<Longrightarrow>
     po_Driver p = driver \<and> po_DSN p = dc_DSN c \<and> dc_DSN c \<noteq> '''' \<and> 0 < po_MaxOpenConns p \<and> 0 < po_MaxIdleConns p
     \<and> sq_Open sql driver (dc_DSN c) = None \<and> sq_Ping sql driver (dc_DSN c) = None"
  by (auto simp: openDB_def orDefault_def split: if_splits option.splits)

lemma load_config_plan:
  "load_config env f = Inr cfg \<Longrightarrow> fg_PlanPath f \<noteq> '''' \<Longrightarrow> Plan_Validate (cf_Plan cfg) = None"
  by (auto simp: load_config_def LoadPlan_def split: sum.splits option.splits)

lemma map_fst_close_all: "map fst (close_all close rs) = rev rs"
  by (induction rs) simp_all

text \<open>
  A service that starts has all it needs. Its configuration is the one that loads, with a plan that validates
  when one was asked for; the target's dialect and pool are those of the configuration, the pool bounded and answering; the
  keys are built; the source is connected exactly when it is configured; it is ready at once; and everything it
  holds is closed at its end, the last acquired first.
\<close>

theorem bootstrap_ready:
  assumes "Bootstrap env service f = (Inr a, opened)"
  shows "load_config env f = Inr (ap_Cfg a) \<and> (fg_PlanPath f \<noteq> '''' \<longrightarrow> Plan_Validate (cf_Plan (ap_Cfg a)) = None)
    \<and> dialect_For (dc_Engine (cf_Target (ap_Cfg a))) = Inr (ap_Dialect a)
    \<and> buildCrypto (bt_hmac env) (bt_aes env) (bt_getenv env) (ap_Cfg a) (bt_heap env) = Inr (ap_Crypto a)
    \<and> po_DSN (ap_Target a) = dc_DSN (cf_Target (ap_Cfg a)) \<and> 0 < po_MaxOpenConns (ap_Target a)
    \<and> sq_Ping (bt_sql env) (Driver (ap_Dialect a)) (po_DSN (ap_Target a)) = None
    \<and> (ap_Source a = None) = (dc_DSN (cf_Source (ap_Cfg a)) = '''')
    \<and> Ready (ap_Health a) \<and> opened = ap_closes a \<and> map fst (App_Close close a) = rev opened"
proof -
  obtain cfg d p t src where stages: "load_config env f = Inr cfg" "dialect_For (dc_Engine (cf_Target cfg)) = Inr d"
      "buildCrypto (bt_hmac env) (bt_aes env) (bt_getenv env) cfg (bt_heap env) = Inr p"
      "openDB (bt_fraction env) (bt_sql env) (cf_Target cfg) (Driver d) = Inr t" "open_source env cfg = Inr src"
    using assms by (auto simp: Bootstrap_def Let_def split: sum.splits)
  have a: "ap_Cfg a = cfg" "ap_Dialect a = d" "ap_Crypto a = p" "ap_Target a = t" "ap_Source a = src" "opened = ap_closes a"
    "ap_Health a = (let h = Health_Set (bt_now env) ''target-db'' True '''' NewHealth
       in if src = None then h else Health_Set (bt_now env) ''source-db'' True '''' h)"
    using assms by (auto simp: Bootstrap_def Let_def stages)
  have "src = None \<longleftrightarrow> dc_DSN (cf_Source cfg) = ''''"
    using stages(5) by (auto simp: open_source_def split: if_splits sum.splits)
  moreover have "Ready (ap_Health a)"
    by (auto simp: a(7) Let_def Ready_def Health_Set_def NewHealth_def)
  ultimately show ?thesis
    using openDB_Inr [OF stages(4)] load_config_plan stages by (simp add: a App_Close_def map_fst_close_all)
qed

text \<open>
  A configuration or a key that is not usable is found before any database is contacted: the outcome does not
  depend on the databases, and nothing has been acquired.
\<close>

theorem misconfiguration_contacts_nothing:
  assumes "case load_config env f of Inl e \<Rightarrow> True
    | Inr cfg \<Rightarrow> isl (dialect_For (dc_Engine (cf_Target cfg)))
        \<or> isl (buildCrypto (bt_hmac env) (bt_aes env) (bt_getenv env) cfg (bt_heap env))"
  shows "isl (fst (Bootstrap env service f)) \<and> snd (Bootstrap env service f) = []
    \<and> Bootstrap (env\<lparr>bt_sql := sql\<rparr>) service f = Bootstrap env service f"
proof -
  have "load_config (env\<lparr>bt_sql := sql\<rparr>) f = load_config env f"
    by (simp add: load_config_def cong: sum.case_cong if_cong)
  then show ?thesis
    using assms by (auto simp: Bootstrap_def isl_def split: sum.splits)
qed

text \<open>
  The exception is the engine of the source: a configuration may leave it out, and that is found when the
  target is connected already, which then stays connected with the keys in memory.
\<close>

lemma missing_source_engine_found_late:
  assumes "load_config env f = Inr cfg" "dialect_For (dc_Engine (cf_Target cfg)) = Inr d"
    "buildCrypto (bt_hmac env) (bt_aes env) (bt_getenv env) cfg (bt_heap env) = Inr p"
    "openDB (bt_fraction env) (bt_sql env) (cf_Target cfg) (Driver d) = Inr t"
    "dc_DSN (cf_Source cfg) \<noteq> ''''" "dc_Engine (cf_Source cfg) = ''''"
  shows "isl (fst (Bootstrap env service f)) \<and> snd (Bootstrap env service f) = [KeyMaterial, TargetPool]"
  using assms by (simp add: Bootstrap_def open_source_def dialect_For_def Postgres_def MySQL_def Let_def)

section \<open>How a service ends\<close>

lemma exit_error_simps [simp]: "exit_error None = None"
  by (simp add: exit_error_def)

text \<open>
  The loop's own end is waited for only when it comes first, or when the admin server failed first: after a
  signal \<open>Run\<close> waits for one of the two, so that an idle admin server, which stops at once, lets everything be
  closed under a loop that is still at work, and the error of that loop is lost. When the loop ends first, its error
  is what is returned, unless the context was cancelled, whatever the admin server says.
\<close>

theorem signal_does_not_wait_for_loop:
  "Run close a (ContextDone # AdminReturned None # es)
      = Some \<lparr>xr_error = None, xr_loop_returned = False, xr_closed = App_Close close a\<rparr>
    \<and> Run close a (ContextDone # LoopReturned e # es)
      = Some \<lparr>xr_error = exit_error e, xr_loop_returned = True, xr_closed = App_Close close a\<rparr>
    \<and> Run close a (LoopReturned (Some e') # AdminReturned e # es)
      = Some \<lparr>xr_error = exit_error (Some e'), xr_loop_returned = True, xr_closed = App_Close close a\<rparr>
    \<and> Run close a (AdminReturned (Some e') # DrainElapsed # es)
      = Some \<lparr>xr_error = exit_error (Some e'), xr_loop_returned = False, xr_closed = App_Close close a\<rparr>
    \<and> map fst (App_Close close a) = rev (ap_closes a)"
  by (simp add: Run_def App_Close_def map_fst_close_all)

end
