(* ===== verification/SqlText.thy ===== *)
theory SqlText
  imports Loader Recon
begin

text \<open>
  The text of the statements, \<open>internal/dialect/postgres.go\<close> and \<open>mysql.go\<close>: quoting, placeholders and
  the rendering of every statement with its arguments. Definitions of the two engines are told apart by the prefixes
  \<open>pg_\<close> and \<open>my_\<close>. What an engine makes of the text is modelled as far as quoting and placeholders go.
\<close>

section \<open>Names and values\<close>

definition ColLSN :: string where "ColLSN = ''_mig_lsn''"
definition ColDeleted :: string where "ColDeleted = ''_mig_deleted''"
definition ColUpdatedAt :: string where "ColUpdatedAt = ''_mig_updated_at''"
definition NullSentinelSQL :: string where "NullSentinelSQL = CHR 0x5C # ''x00NULL''"
definition digestSeparator :: string where "digestSeparator = [CHR 0x1F]"

abbreviation sq :: string where "sq \<equiv> [CHR 0x27]"
abbreviation dq :: string where "dq \<equiv> [CHR 0x22]"
abbreviation bt :: string where "bt \<equiv> [CHR 0x60]"

text \<open>\<open>strings.ReplaceAll\<close> and \<open>strings.NewReplacer\<close> with patterns of one character.\<close>

definition replace_char :: "char \<Rightarrow> string \<Rightarrow> string \<Rightarrow> string" where
  "replace_char c new s = concat (map (\<lambda>x. if x = c then new else [x]) s)"

definition pg_Quote :: "string \<Rightarrow> string" where
  "pg_Quote ident = dq @ replace_char CHR 0x22 [CHR 0x22, CHR 0x22] ident @ dq"

definition my_Quote :: "string \<Rightarrow> string" where
  "my_Quote ident = bt @ replace_char CHR 0x60 [CHR 0x60, CHR 0x60] ident @ bt"

definition quoteLiteral :: "string \<Rightarrow> string" where
  "quoteLiteral s = sq @ replace_char CHR 0x27 [CHR 0x27, CHR 0x27] s @ sq"

definition quoteLiteralMySQL :: "string \<Rightarrow> string" where
  "quoteLiteralMySQL s =
     sq @ concat (map (\<lambda>c. if c = CHR 0x5C then [CHR 0x5C, CHR 0x5C] else if c = CHR 0x27 then [CHR 0x5C, CHR 0x27] else [c]) s)
        @ sq"

definition pg_QuoteTable :: "table_ref \<Rightarrow> string" where
  "pg_QuoteTable t =
     (if tr_Schema t = '''' then pg_Quote (tr_Name t) else pg_Quote (tr_Schema t) @ ''.'' @ pg_Quote (tr_Name t))"

definition my_QuoteTable :: "table_ref \<Rightarrow> string" where
  "my_QuoteTable t =
     (if tr_Schema t = '''' then my_Quote (tr_Name t) else my_Quote (tr_Schema t) @ ''.'' @ my_Quote (tr_Name t))"

definition pg_Placeholder :: "nat \<Rightarrow> string" where
  "pg_Placeholder n = ''$'' @ digits n"

definition quoteAll :: "(string \<Rightarrow> string) \<Rightarrow> string list \<Rightarrow> string list" where
  "quoteAll quote names = map quote names"

definition prefixAll :: "string \<Rightarrow> string list \<Rightarrow> string list" where
  "prefixAll pre items = map (\<lambda>s. pre @ s) items"

abbreviation commas :: "string list \<Rightarrow> string" where "commas \<equiv> join_with '', ''"

section \<open>PostgreSQL: writing\<close>

definition pg_tuple :: "nat \<Rightarrow> nat \<Rightarrow> string" where
  "pg_tuple width n =
     ''('' @ commas (map pg_Placeholder [n..<n + width]) @ '', '' @ pg_Placeholder (n + width) @ '', FALSE, now())''"

definition pg_tuples :: "nat \<Rightarrow> nat \<Rightarrow> string" where
  "pg_tuples width rows = commas (map (\<lambda>r. pg_tuple width (r * Suc width + 1)) [0..<rows])"

definition pg_assign :: "string \<Rightarrow> string" where
  "pg_assign c = pg_Quote c @ '' = EXCLUDED.'' @ pg_Quote c"

definition pg_FencedUpsert :: "table_spec \<Rightarrow> string list \<Rightarrow> nat \<Rightarrow> string" where
  "pg_FencedUpsert spec columns rows =
     (let target = pg_QuoteTable (ts_Target spec);
          cols = quoteAll pg_Quote columns @ [pg_Quote ColLSN, pg_Quote ColDeleted, pg_Quote ColUpdatedAt];
          conflict = commas (quoteAll pg_Quote (ts_PrimaryKey spec));
          assignments = map pg_assign (filter (\<lambda>c. c \<notin> set (ts_PrimaryKey spec)) columns)
            @ [pg_assign ColLSN, pg_Quote ColDeleted @ '' = FALSE'', pg_Quote ColUpdatedAt @ '' = now()'']
      in ''INSERT INTO '' @ target @ '' ('' @ commas cols @ '') VALUES '' @ pg_tuples (length columns) rows
         @ '' ON CONFLICT ('' @ conflict @ '') DO UPDATE SET '' @ commas assignments
         @ '' WHERE '' @ target @ ''.'' @ pg_Quote ColLSN @ '' <= EXCLUDED.'' @ pg_Quote ColLSN)"

definition pg_FencedDelete :: "table_spec \<Rightarrow> string" where
  "pg_FencedDelete spec =
     (let target = pg_QuoteTable (ts_Target spec); keys = quoteAll pg_Quote (ts_PrimaryKey spec); n = length (ts_PrimaryKey spec)
      in ''INSERT INTO '' @ target @ '' ('' @ commas (keys @ [pg_Quote ColLSN, pg_Quote ColDeleted, pg_Quote ColUpdatedAt])
         @ '') VALUES ('' @ commas (map pg_Placeholder [1..<Suc n] @ [pg_Placeholder (Suc n), ''TRUE'', ''now()''])
         @ '') ON CONFLICT ('' @ commas keys @ '') DO UPDATE SET '' @ pg_Quote ColDeleted @ '' = TRUE, ''
         @ pg_Quote ColLSN @ '' = EXCLUDED.'' @ pg_Quote ColLSN @ '', '' @ pg_Quote ColUpdatedAt @ '' = now() WHERE ''
         @ target @ ''.'' @ pg_Quote ColLSN @ '' <= EXCLUDED.'' @ pg_Quote ColLSN)"

definition pg_CreateStagingTable :: "table_ref \<Rightarrow> table_ref \<Rightarrow> string" where
  "pg_CreateStagingTable target staging =
     ''CREATE UNLOGGED TABLE IF NOT EXISTS '' @ pg_QuoteTable staging @ '' (LIKE '' @ pg_QuoteTable target
     @ '' INCLUDING DEFAULTS EXCLUDING CONSTRAINTS EXCLUDING INDEXES)''"

definition pg_DropStagingTable :: "table_ref \<Rightarrow> string" where
  "pg_DropStagingTable staging = ''DROP TABLE IF EXISTS '' @ pg_QuoteTable staging"

definition pg_BulkImport :: "table_ref \<Rightarrow> string list \<Rightarrow> s3_source \<Rightarrow> string \<times> string list" where
  "pg_BulkImport staging columns src =
     (let opts = ''(FORMAT csv, DELIMITER '' @ quoteLiteral (s3_Delimiter src) @ '', NULL ''
            @ quoteLiteral (s3_NullSentinel src) @ '', QUOTE '' @ sq @ dq @ sq @ '')''
      in (''SELECT aws_s3.table_import_from_s3('' @ pg_Placeholder 1 @ '', '' @ pg_Placeholder 2 @ '', '' @ pg_Placeholder 3
          @ '', aws_commons.create_s3_uri('' @ pg_Placeholder 4 @ '', '' @ pg_Placeholder 5 @ '', '' @ pg_Placeholder 6 @ ''))'',
          [TableRef_String staging, join_with '','' columns, opts, s3_Bucket src, s3_Key src, s3_Region src]))"

definition pg_MergeStaging :: "table_spec \<Rightarrow> table_ref \<Rightarrow> string list \<Rightarrow> uint64 \<Rightarrow> string" where
  "pg_MergeStaging spec staging columns lsn =
     (let target = pg_QuoteTable (ts_Target spec); quoted = quoteAll pg_Quote columns;
          insertCols = quoted @ [pg_Quote ColLSN, pg_Quote ColDeleted, pg_Quote ColUpdatedAt];
          selectCols = prefixAll ''s.'' quoted @ [digits (unat lsn), ''FALSE'', ''now()''];
          assignments = map pg_assign (filter (\<lambda>c. c \<notin> set (ts_PrimaryKey spec)) columns)
            @ [pg_assign ColLSN, pg_Quote ColUpdatedAt @ '' = now()''];
          pkList = commas (quoteAll pg_Quote (ts_PrimaryKey spec));
          sPK = commas (prefixAll ''s.'' (quoteAll pg_Quote (ts_PrimaryKey spec)))
      in ''INSERT INTO '' @ target @ '' ('' @ commas insertCols @ '') SELECT * FROM (SELECT DISTINCT ON ('' @ sPK @ '') ''
         @ commas selectCols @ '' FROM '' @ pg_QuoteTable staging @ '' AS s ORDER BY '' @ sPK @ '') AS d ON CONFLICT (''
         @ pkList @ '') DO UPDATE SET '' @ commas assignments @ '' WHERE '' @ target @ ''.'' @ pg_Quote ColLSN
         @ '' <= EXCLUDED.'' @ pg_Quote ColLSN)"

section \<open>PostgreSQL: reading\<close>

definition pg_normalise :: "string \<Rightarrow> column_spec \<Rightarrow> string" where
  "pg_normalise alias c =
     (let ref = (if alias \<noteq> '''' then alias @ ''.'' @ pg_Quote (cs_Name c) else pg_Quote (cs_Name c));
          mask = ''FM999999999999999999990'';
          expr =
            (if cs_Type c = ''timestamp'' then ''to_char(('' @ ref @ '' AT TIME ZONE '' @ sq @ ''UTC'' @ sq @ ''), '' @ sq
               @ ''YYYY-MM-DD'' @ dq @ ''T'' @ dq @ ''HH24:MI:SS.US'' @ sq @ '')''
             else if cs_Type c = ''date'' then ''to_char('' @ ref @ '', '' @ sq @ ''YYYY-MM-DD'' @ sq @ '')''
             else if cs_Type c = ''decimal'' then
               (if cs_Scale c > 0
                then ''to_char(round('' @ ref @ ''::numeric, '' @ FormatInt (cs_Scale c) @ ''), '' @ sq @ mask @ ''.''
                  @ replicate (nat (cs_Scale c)) CHR ''0'' @ sq @ '')''
                else ''to_char(round('' @ ref @ ''::numeric, 0), '' @ sq @ mask @ sq @ '')'')
             else if cs_Type c = ''float'' then ''to_char(round('' @ ref @ ''::numeric, 12), '' @ sq @ mask @ ''.''
                  @ replicate 12 CHR ''0'' @ sq @ '')''
             else if cs_Type c = ''bool'' then ''CASE WHEN '' @ ref @ '' THEN '' @ sq @ ''1'' @ sq @ '' ELSE '' @ sq @ ''0'' @ sq @ '' END''
             else if cs_Type c = ''bytes'' then ''encode('' @ ref @ '', '' @ sq @ ''hex'' @ sq @ '')''
             else if cs_Type c = ''json'' then ref @ ''::jsonb::text''
             else ref @ ''::text'');
          trimmed = (if cs_TrimTrailingSpace c then ''rtrim('' @ expr @ '')'' else expr)
      in ''coalesce('' @ trimmed @ '', '' @ quoteLiteral NullSentinelSQL @ '')'')"

definition pg_RowDigestExpr :: "string \<Rightarrow> column_spec list \<Rightarrow> string" where
  "pg_RowDigestExpr alias columns =
     ''md5(concat_ws('' @ quoteLiteral digestSeparator @ '', '' @ commas (map (pg_normalise alias) (columnsForDigest columns)) @ ''))''"

definition pg_whereClause :: "string \<Rightarrow> key_range \<Rightarrow> bool \<Rightarrow> nat \<Rightarrow> string \<times> gval list" where
  "pg_whereClause alias r includeDeleted start =
     (let col = alias @ ''.'' @ pg_Quote (rg_Column r);
          low = rg_Column r \<noteq> '''' \<and> rg_Low r \<noteq> GNil; high = rg_Column r \<noteq> '''' \<and> rg_High r \<noteq> GNil;
          n = (if low then start + 1 else start);
          conds = (if low then [col @ '' > '' @ pg_Placeholder start] else [])
            @ (if high then [col @ '' <= '' @ pg_Placeholder n] else [])
            @ (if includeDeleted then [] else [''coalesce('' @ alias @ ''.'' @ pg_Quote ColDeleted @ '', FALSE) = FALSE'']);
          args = (if low then [rg_Low r] else []) @ (if high then [rg_High r] else [])
      in if conds = [] then ('''', []) else ('' WHERE '' @ join_with '' AND '' conds, args))"

definition pg_RangeDigestQuery :: "table_ref \<Rightarrow> column_spec list \<Rightarrow> key_range \<Rightarrow> bool \<Rightarrow> string \<times> gval list" where
  "pg_RangeDigestQuery t columns r includeDeleted =
     (let digest = pg_RowDigestExpr ''t'' columns; (cond, args) = pg_whereClause ''t'' r includeDeleted 1;
          nl = CHR 0x0A # ''       ''
      in (''SELECT count(*)::bigint,'' @ nl @ ''coalesce(sum(('' @ sq @ ''x'' @ sq @ ''||substr('' @ digest
          @ '',1,15))::bit(60)::bigint), 0)::text,'' @ nl @ ''coalesce(sum(('' @ sq @ ''x'' @ sq @ ''||substr('' @ digest
          @ '',17,15))::bit(60)::bigint), 0)::text'' @ CHR 0x0A # ''  FROM '' @ pg_QuoteTable t @ '' AS t'' @ cond, args))"

definition pg_CountQuery :: "table_ref \<Rightarrow> key_range \<Rightarrow> bool \<Rightarrow> string \<times> gval list" where
  "pg_CountQuery t r includeDeleted =
     (let (cond, args) = pg_whereClause ''t'' r includeDeleted 1
      in (''SELECT count(*)::bigint FROM '' @ pg_QuoteTable t @ '' AS t'' @ cond, args))"

definition pg_KeysetPageQuery :: "table_ref \<Rightarrow> string \<Rightarrow> int \<Rightarrow> gval \<Rightarrow> string \<times> gval list" where
  "pg_KeysetPageQuery t keyColumn limit after =
     (let col = pg_Quote keyColumn in
      if after = GNil
      then (''SELECT '' @ col @ '' FROM '' @ pg_QuoteTable t @ '' ORDER BY '' @ col @ '' LIMIT '' @ FormatInt limit, [])
      else (''SELECT '' @ col @ '' FROM '' @ pg_QuoteTable t @ '' WHERE '' @ col @ '' > '' @ pg_Placeholder 1
            @ '' ORDER BY '' @ col @ '' LIMIT '' @ FormatInt limit, [after]))"

definition pg_RowsInRangeQuery :: "table_ref \<Rightarrow> string list \<Rightarrow> key_range \<Rightarrow> bool \<Rightarrow> string \<times> gval list" where
  "pg_RowsInRangeQuery t columns r includeDeleted =
     (let (cond, args) = pg_whereClause ''t'' r includeDeleted 1;
          order = (if rg_Column r \<noteq> '''' then '' ORDER BY t.'' @ pg_Quote (rg_Column r) else '''')
      in (''SELECT '' @ commas (prefixAll ''t.'' (quoteAll pg_Quote columns)) @ '' FROM '' @ pg_QuoteTable t @ '' AS t''
          @ cond @ order, args))"

definition pg_MarkDeadLettersClaimed :: "nat \<Rightarrow> string" where
  "pg_MarkDeadLettersClaimed ids =
     ''UPDATE '' @ ControlSchema @ ''.dead_letter'' @ CHR 0x0A # ''   SET status = '' @ sq @ ''retrying'' @ sq
     @ '', claimed_at = now(), claimed_by = $1'' @ CHR 0x0A # '' WHERE id IN ('' @ commas (map pg_Placeholder [2..<ids + 2]) @ '')''"

definition pg_SelectClaimableDeadLetters :: "int \<Rightarrow> string" where
  "pg_SelectClaimableDeadLetters limit =
     ''SELECT id, migration_id, source_table, op, row_key_hash, payload, payload_encrypted,'' @ CHR 0x0A
     # ''       error_class, last_error, attempts, first_seen_at, next_retry_at, source_lsn, topic, partition, '' @ dq @ ''offset'' @ dq
     @ CHR 0x0A # ''  FROM '' @ ControlSchema @ ''.dead_letter'' @ CHR 0x0A # '' WHERE status = '' @ sq @ ''pending'' @ sq
     @ '' AND next_retry_at <= now()'' @ CHR 0x0A # '' ORDER BY next_retry_at'' @ CHR 0x0A # '' LIMIT '' @ FormatInt limit
     @ CHR 0x0A # '' FOR UPDATE SKIP LOCKED''"

definition pg_UpsertOffset :: string where
  "pg_UpsertOffset =
     (let off = dq @ ''offset'' @ dq in
      ''INSERT INTO '' @ ControlSchema @ ''.applied_offset (migration_id, topic, partition, '' @ off @ '', last_lsn, updated_at)''
      @ CHR 0x0A # '' VALUES ($1, $2, $3, $4, $5, now())'' @ CHR 0x0A # '' ON CONFLICT (migration_id, topic, partition)''
      @ CHR 0x0A # '' DO UPDATE SET '' @ off @ '' = EXCLUDED.'' @ off
      @ '', last_lsn = EXCLUDED.last_lsn, updated_at = now()'' @ CHR 0x0A # '' WHERE '' @ ControlSchema @ ''.applied_offset.'' @ off
      @ '' <= EXCLUDED.'' @ off)"

definition pg_SelectOffsets :: string where
  "pg_SelectOffsets = ''SELECT topic, partition, '' @ dq @ ''offset'' @ dq @ '', last_lsn FROM '' @ ControlSchema
     @ ''.applied_offset WHERE migration_id = $1''"

definition pg_PurgeTombstones :: "table_ref \<Rightarrow> string" where
  "pg_PurgeTombstones t = ''DELETE FROM '' @ pg_QuoteTable t @ '' WHERE '' @ pg_Quote ColDeleted @ '' = TRUE''"

section \<open>MySQL: writing\<close>

definition newRowAlias :: string where "newRowAlias = bt @ ''new_row'' @ bt"

definition my_fence :: "string \<Rightarrow> string" where
  "my_fence target = target @ ''.'' @ my_Quote ColLSN @ '' <= '' @ newRowAlias @ ''.'' @ my_Quote ColLSN"

definition my_tuple :: "nat \<Rightarrow> string" where
  "my_tuple width = ''('' @ commas (replicate width ''?'') @ '', ?, 0, UTC_TIMESTAMP(6))''"

text \<open>\<open>column = IF(fence, new value, old value)\<close>.\<close>

definition my_if :: "string \<Rightarrow> string \<Rightarrow> string \<Rightarrow> string" where
  "my_if target c new =
     my_Quote c @ '' = IF('' @ my_fence target @ '', '' @ new @ '', '' @ target @ ''.'' @ my_Quote c @ '')''"

definition my_new :: "string \<Rightarrow> string" where
  "my_new c = newRowAlias @ ''.'' @ my_Quote c"

definition my_FencedUpsert :: "table_spec \<Rightarrow> string list \<Rightarrow> nat \<Rightarrow> string" where
  "my_FencedUpsert spec columns rows =
     (let target = my_QuoteTable (ts_Target spec);
          cols = quoteAll my_Quote columns @ [my_Quote ColLSN, my_Quote ColDeleted, my_Quote ColUpdatedAt];
          assignments = map (\<lambda>c. my_if target c (my_new c)) (filter (\<lambda>c. c \<notin> set (ts_PrimaryKey spec)) columns)
            @ [my_if target ColLSN (my_new ColLSN), my_if target ColDeleted ''0'', my_if target ColUpdatedAt ''UTC_TIMESTAMP(6)'']
      in ''INSERT INTO '' @ target @ '' ('' @ commas cols @ '') VALUES '' @ commas (replicate rows (my_tuple (length columns)))
         @ '' AS '' @ newRowAlias @ '' ON DUPLICATE KEY UPDATE '' @ commas assignments)"

definition my_FencedDelete :: "table_spec \<Rightarrow> string" where
  "my_FencedDelete spec =
     (let target = my_QuoteTable (ts_Target spec);
          cols = quoteAll my_Quote (ts_PrimaryKey spec) @ [my_Quote ColLSN, my_Quote ColDeleted, my_Quote ColUpdatedAt];
          vals = replicate (length (ts_PrimaryKey spec)) ''?'' @ [''?'', ''1'', ''UTC_TIMESTAMP(6)'']
      in ''INSERT INTO '' @ target @ '' ('' @ commas cols @ '') VALUES ('' @ commas vals @ '') AS '' @ newRowAlias
         @ '' ON DUPLICATE KEY UPDATE '' @ commas [my_if target ColDeleted ''1'', my_if target ColLSN (my_new ColLSN),
             my_if target ColUpdatedAt ''UTC_TIMESTAMP(6)''])"

definition my_CreateStagingTable :: "table_ref \<Rightarrow> table_ref \<Rightarrow> string" where
  "my_CreateStagingTable target staging =
     ''CREATE TABLE IF NOT EXISTS '' @ my_QuoteTable staging @ '' LIKE '' @ my_QuoteTable target"

definition my_DropStagingTable :: "table_ref \<Rightarrow> string" where
  "my_DropStagingTable staging = ''DROP TABLE IF EXISTS '' @ my_QuoteTable staging"

definition my_BulkImport :: "table_ref \<Rightarrow> string list \<Rightarrow> s3_source \<Rightarrow> string \<times> string list" where
  "my_BulkImport staging columns src =
     (let vars = map (\<lambda>i. ''@v'' @ digits i) [0..<length columns];
          sets = map (\<lambda>(c, v). my_Quote c @ '' = NULLIF('' @ v @ '', '' @ quoteLiteralMySQL (s3_NullSentinel src) @ '')'')
            (zip columns vars)
      in (''LOAD DATA FROM S3 '' @ quoteLiteralMySQL (URI src) @ '' INTO TABLE '' @ my_QuoteTable staging
          @ '' FIELDS TERMINATED BY '' @ quoteLiteralMySQL (s3_Delimiter src) @ '' ENCLOSED BY '' @ sq @ dq @ sq
          @ '' LINES TERMINATED BY '' @ sq @ [CHR 0x5C, CHR ''n''] @ sq @ '' ('' @ commas vars @ '') SET '' @ commas sets, []))"

definition my_MergeStaging :: "table_spec \<Rightarrow> table_ref \<Rightarrow> string list \<Rightarrow> uint64 \<Rightarrow> string" where
  "my_MergeStaging spec staging columns lsn =
     (let target = my_QuoteTable (ts_Target spec);
          insertCols = quoteAll my_Quote columns @ [my_Quote ColLSN, my_Quote ColDeleted, my_Quote ColUpdatedAt];
          keys = prefixAll ''s.'' (quoteAll my_Quote (ts_PrimaryKey spec));
          assignments = map (\<lambda>c. my_if target c (my_new c)) (filter (\<lambda>c. c \<notin> set (ts_PrimaryKey spec)) columns)
            @ [my_if target ColLSN (my_new ColLSN), my_if target ColUpdatedAt ''UTC_TIMESTAMP(6)''];
          inner = map (\<lambda>c. ''s.'' @ my_Quote c @ '' AS '' @ my_Quote c) columns
            @ [digits (unat lsn) @ '' AS '' @ my_Quote ColLSN, ''0 AS '' @ my_Quote ColDeleted,
               ''UTC_TIMESTAMP(6) AS '' @ my_Quote ColUpdatedAt,
               ''ROW_NUMBER() OVER (PARTITION BY '' @ commas keys @ '' ORDER BY '' @ commas keys @ '') AS '' @ my_Quote ''_mig_rn''];
          outer = map my_new columns @ [my_new ColLSN, my_new ColDeleted, my_new ColUpdatedAt]
      in ''INSERT INTO '' @ target @ '' ('' @ commas insertCols @ '') SELECT '' @ commas outer @ '' FROM (SELECT '' @ commas inner
         @ '' FROM '' @ my_QuoteTable staging @ '' AS s) AS '' @ newRowAlias @ '' WHERE '' @ newRowAlias @ ''.'' @ my_Quote ''_mig_rn''
         @ '' = 1 ON DUPLICATE KEY UPDATE '' @ commas assignments)"

section \<open>MySQL: reading\<close>

definition my_normalise :: "string \<Rightarrow> column_spec \<Rightarrow> string" where
  "my_normalise alias c =
     (let ref = (if alias \<noteq> '''' then alias @ ''.'' @ my_Quote (cs_Name c) else my_Quote (cs_Name c));
          scale = FormatInt (cs_Scale c);
          expr =
            (if cs_Type c = ''timestamp'' then ''DATE_FORMAT(CONVERT_TZ('' @ ref @ '', @@session.time_zone, '' @ sq @ ''+00:00'' @ sq
               @ ''), '' @ sq @ ''%Y-%m-%dT%H:%i:%s.%f'' @ sq @ '')''
             else if cs_Type c = ''date'' then ''DATE_FORMAT('' @ ref @ '', '' @ sq @ ''%Y-%m-%d'' @ sq @ '')''
             else if cs_Type c = ''decimal'' then
               (if cs_Scale c > 0
                then ''REPLACE(FORMAT(ROUND(CAST('' @ ref @ '' AS DECIMAL(65,'' @ scale @ '')), '' @ scale @ ''), '' @ scale
                  @ '', '' @ sq @ ''en_US'' @ sq @ ''), '' @ sq @ '','' @ sq @ '', '' @ sq @ sq @ '')''
                else ''CAST(ROUND(CAST('' @ ref @ '' AS DECIMAL(65,0)), 0) AS CHAR)'')
             else if cs_Type c = ''float'' then ''REPLACE(FORMAT(CAST('' @ ref @ '' AS DECIMAL(65,12)), 12, '' @ sq @ ''en_US'' @ sq
                  @ ''), '' @ sq @ '','' @ sq @ '', '' @ sq @ sq @ '')''
             else if cs_Type c = ''bool'' then ''IF('' @ ref @ '', '' @ sq @ ''1'' @ sq @ '', '' @ sq @ ''0'' @ sq @ '')''
             else if cs_Type c = ''bytes'' then ''LOWER(HEX('' @ ref @ ''))''
             else ''CAST('' @ ref @ '' AS CHAR)'');
          trimmed = (if cs_TrimTrailingSpace c then ''RTRIM('' @ expr @ '')'' else expr)
      in ''IFNULL('' @ trimmed @ '', '' @ quoteLiteralMySQL NullSentinelSQL @ '')'')"

definition my_RowDigestExpr :: "string \<Rightarrow> column_spec list \<Rightarrow> string" where
  "my_RowDigestExpr alias columns =
     ''MD5(CONCAT_WS('' @ quoteLiteralMySQL digestSeparator @ '', '' @ commas (map (my_normalise alias) (columnsForDigest columns)) @ ''))''"

definition my_whereClause :: "string \<Rightarrow> key_range \<Rightarrow> bool \<Rightarrow> string \<times> gval list" where
  "my_whereClause alias r includeDeleted =
     (let col = alias @ ''.'' @ my_Quote (rg_Column r);
          low = rg_Column r \<noteq> '''' \<and> rg_Low r \<noteq> GNil; high = rg_Column r \<noteq> '''' \<and> rg_High r \<noteq> GNil;
          conds = (if low then [col @ '' > ?''] else []) @ (if high then [col @ '' <= ?''] else [])
            @ (if includeDeleted then [] else [''IFNULL('' @ alias @ ''.'' @ my_Quote ColDeleted @ '', 0) = 0'']);
          args = (if low then [rg_Low r] else []) @ (if high then [rg_High r] else [])
      in if conds = [] then ('''', []) else ('' WHERE '' @ join_with '' AND '' conds, args))"

definition my_RangeDigestQuery :: "table_ref \<Rightarrow> column_spec list \<Rightarrow> key_range \<Rightarrow> bool \<Rightarrow> string \<times> gval list" where
  "my_RangeDigestQuery t columns r includeDeleted =
     (let digest = my_RowDigestExpr ''t'' columns; (cond, args) = my_whereClause ''t'' r includeDeleted;
          nl = CHR 0x0A # ''       ''
      in (''SELECT CAST(COUNT(*) AS SIGNED),'' @ nl @ ''CAST(IFNULL(SUM(CAST(CONV(SUBSTR('' @ digest
          @ '',1,15),16,10) AS DECIMAL(65,0))), 0) AS CHAR),'' @ nl @ ''CAST(IFNULL(SUM(CAST(CONV(SUBSTR('' @ digest
          @ '',17,15),16,10) AS DECIMAL(65,0))), 0) AS CHAR)'' @ CHR 0x0A # ''  FROM '' @ my_QuoteTable t @ '' AS t'' @ cond, args))"

definition my_CountQuery :: "table_ref \<Rightarrow> key_range \<Rightarrow> bool \<Rightarrow> string \<times> gval list" where
  "my_CountQuery t r includeDeleted =
     (let (cond, args) = my_whereClause ''t'' r includeDeleted
      in (''SELECT CAST(COUNT(*) AS SIGNED) FROM '' @ my_QuoteTable t @ '' AS t'' @ cond, args))"

definition my_KeysetPageQuery :: "table_ref \<Rightarrow> string \<Rightarrow> int \<Rightarrow> gval \<Rightarrow> string \<times> gval list" where
  "my_KeysetPageQuery t keyColumn limit after =
     (let col = my_Quote keyColumn in
      if after = GNil
      then (''SELECT '' @ col @ '' FROM '' @ my_QuoteTable t @ '' ORDER BY '' @ col @ '' LIMIT '' @ FormatInt limit, [])
      else (''SELECT '' @ col @ '' FROM '' @ my_QuoteTable t @ '' WHERE '' @ col @ '' > ? ORDER BY '' @ col @ '' LIMIT ''
            @ FormatInt limit, [after]))"

definition my_RowsInRangeQuery :: "table_ref \<Rightarrow> string list \<Rightarrow> key_range \<Rightarrow> bool \<Rightarrow> string \<times> gval list" where
  "my_RowsInRangeQuery t columns r includeDeleted =
     (let (cond, args) = my_whereClause ''t'' r includeDeleted;
          order = (if rg_Column r \<noteq> '''' then '' ORDER BY t.'' @ my_Quote (rg_Column r) else '''')
      in (''SELECT '' @ commas (prefixAll ''t.'' (quoteAll my_Quote columns)) @ '' FROM '' @ my_QuoteTable t @ '' AS t''
          @ cond @ order, args))"

definition my_MarkDeadLettersClaimed :: "nat \<Rightarrow> string" where
  "my_MarkDeadLettersClaimed ids =
     ''UPDATE '' @ ControlSchema @ ''.dead_letter SET status = '' @ sq @ ''retrying'' @ sq
     @ '', claimed_at = UTC_TIMESTAMP(6), claimed_by = ? WHERE id IN ('' @ commas (replicate ids ''?'') @ '')''"

definition my_SelectClaimableDeadLetters :: "int \<Rightarrow> string" where
  "my_SelectClaimableDeadLetters limit =
     ''SELECT id, migration_id, source_table, op, row_key_hash, payload, payload_encrypted, error_class, last_error, attempts,''
     @ '' first_seen_at, next_retry_at, source_lsn, topic, '' @ bt @ ''partition'' @ bt @ '', '' @ bt @ ''offset'' @ bt
     @ '' FROM '' @ ControlSchema @ ''.dead_letter WHERE status = '' @ sq @ ''pending'' @ sq
     @ '' AND next_retry_at <= UTC_TIMESTAMP(6) ORDER BY next_retry_at LIMIT '' @ FormatInt limit @ '' FOR UPDATE SKIP LOCKED''"

definition my_UpsertOffset :: string where
  "my_UpsertOffset =
     (let off = bt @ ''offset'' @ bt; old = ControlSchema @ ''.applied_offset.''; new = newRowAlias @ ''.'';
          guard = old @ off @ '' <= '' @ new @ off
      in ''INSERT INTO '' @ ControlSchema @ ''.applied_offset (migration_id, topic, '' @ bt @ ''partition'' @ bt @ '', '' @ off
         @ '', last_lsn, updated_at) VALUES (?, ?, ?, ?, ?, UTC_TIMESTAMP(6)) AS '' @ newRowAlias @ '' ON DUPLICATE KEY UPDATE ''
         @ off @ '' = IF('' @ guard @ '', '' @ new @ off @ '', '' @ old @ off @ ''), last_lsn = IF('' @ guard @ '', ''
         @ new @ ''last_lsn, '' @ old @ ''last_lsn), updated_at = UTC_TIMESTAMP(6)'')"

definition my_SelectOffsets :: string where
  "my_SelectOffsets = ''SELECT topic, '' @ bt @ ''partition'' @ bt @ '', '' @ bt @ ''offset'' @ bt @ '', last_lsn FROM ''
     @ ControlSchema @ ''.applied_offset WHERE migration_id = ?''"

definition my_PurgeTombstones :: "table_ref \<Rightarrow> string" where
  "my_PurgeTombstones t = ''DELETE FROM '' @ my_QuoteTable t @ '' WHERE '' @ my_Quote ColDeleted @ '' = 1''"

section \<open>How an engine reads quotes and placeholders\<close>

text \<open>
  PostgreSQL reads a text from left to right, outside quotes, inside a quoted name or value (which a doubled
  quote only seems to leave), or in the number of a placeholder. The result is the numbers of the placeholders.
\<close>

datatype lex_mode = Code | Inside char | Number nat | Escaped

fun pg_code :: "char \<Rightarrow> nat list \<Rightarrow> lex_mode \<times> nat list" where
  "pg_code c out = (if c = CHR 0x22 \<or> c = CHR 0x27 then Inside c else if c = CHR ''$'' then Number 0 else Code, out)"

fun pg_read :: "char \<Rightarrow> lex_mode \<times> nat list \<Rightarrow> lex_mode \<times> nat list" where
  "pg_read c (Inside q, out) = (if c = q then Code else Inside q, out)"
| "pg_read c (Number n, out) =
     (if is_digit c then (Number (10 * n + (of_char c - 48)), out) else pg_code c (out @ [n]))"
| "pg_read c (m, out) = pg_code c out"

definition pg_parameters :: "string \<Rightarrow> nat list option" where
  "pg_parameters s =
     (case fold pg_read s (Code, []) of
        (Code, out) \<Rightarrow> Some out
      | (Number n, out) \<Rightarrow> Some (out @ [n])
      | (m, out) \<Rightarrow> None)"

text \<open>MySQL: a backslash in a value takes the next character; the result is how many placeholders there are.\<close>

fun my_read :: "char \<Rightarrow> lex_mode \<times> nat \<Rightarrow> lex_mode \<times> nat" where
  "my_read c (Inside q, n) =
     (if c = q then Code else if q = CHR 0x27 \<and> c = CHR 0x5C then Escaped else Inside q, n)"
| "my_read c (Escaped, n) = (Inside CHR 0x27, n)"
| "my_read c (m, n) =
     (if c = CHR 0x60 \<or> c = CHR 0x27 then (Inside c, n) else if c = CHR ''?'' then (Code, Suc n) else (Code, n))"

definition my_parameters :: "string \<Rightarrow> nat option" where
  "my_parameters s = (case fold my_read s (Code, 0) of (Code, n) \<Rightarrow> Some n | (m, n) \<Rightarrow> None)"

section \<open>Quoted names and values\<close>

definition pg_neutral :: "string \<Rightarrow> bool" where
  "pg_neutral s \<longleftrightarrow> (\<forall>out. fold pg_read s (Code, out) = (Code, out))"

definition pg_plain :: "char \<Rightarrow> bool" where
  "pg_plain c \<longleftrightarrow> c \<noteq> CHR 0x22 \<and> c \<noteq> CHR 0x27 \<and> c \<noteq> CHR ''$''"

lemma pg_inside: "fold pg_read (replace_char q [q, q] s) (Inside q, out) = (Inside q, out)" if "\<not> pg_plain q" "q \<noteq> CHR ''$''"
proof -
  have "q = CHR 0x22 \<or> q = CHR 0x27" using that by (auto simp: pg_plain_def)
  then show ?thesis by (induction s) (auto simp: replace_char_def)
qed

lemma pg_neutral_append [simp]: "pg_neutral s \<Longrightarrow> pg_neutral (s @ t) \<longleftrightarrow> pg_neutral t"
  by (simp add: pg_neutral_def)

lemma pg_neutral_Cons [simp]: "pg_neutral []" "pg_plain c \<Longrightarrow> pg_neutral (c # s) \<longleftrightarrow> pg_neutral s"
  by (auto simp: pg_neutral_def pg_plain_def)

lemma pg_neutral_quote: "\<not> pg_plain q \<Longrightarrow> q \<noteq> CHR ''$'' \<Longrightarrow> pg_neutral ([q] @ replace_char q [q, q] s @ [q])"
proof -
  assume q: "\<not> pg_plain q" "q \<noteq> CHR ''$''"
  then have "q = CHR 0x22 \<or> q = CHR 0x27" by (auto simp: pg_plain_def)
  then show ?thesis using pg_inside [OF q] by (auto simp: pg_neutral_def)
qed

lemma pg_neutral_Quote [simp]: "pg_neutral (pg_Quote s)" "pg_neutral (quoteLiteral s)"
  unfolding pg_Quote_def quoteLiteral_def by (rule pg_neutral_quote; simp add: pg_plain_def)+

lemma pg_neutral_QuoteTable [simp]: "pg_neutral (pg_QuoteTable t)"
  by (simp add: pg_QuoteTable_def pg_plain_def)

definition my_neutral :: "string \<Rightarrow> bool" where
  "my_neutral s \<longleftrightarrow> (\<forall>n. fold my_read s (Code, n) = (Code, n))"

lemma my_inside_name: "fold my_read (replace_char CHR 0x60 [CHR 0x60, CHR 0x60] s) (Inside CHR 0x60, n) = (Inside CHR 0x60, n)"
  by (induction s) (auto simp: replace_char_def)

lemma my_inside_value:
  "fold my_read (concat (map (\<lambda>c. if c = CHR 0x5C then [CHR 0x5C, CHR 0x5C] else if c = CHR 0x27 then [CHR 0x5C, CHR 0x27] else [c]) s))
     (Inside CHR 0x27, n) = (Inside CHR 0x27, n)"
  by (induction s) auto

lemma my_neutral_Quote [simp]: "my_neutral (my_Quote s)" "my_neutral (quoteLiteralMySQL s)"
  by (simp_all add: my_neutral_def my_Quote_def quoteLiteralMySQL_def my_inside_name my_inside_value)

lemma my_neutral_append [simp]: "my_neutral s \<Longrightarrow> my_neutral (s @ t) \<longleftrightarrow> my_neutral t"
  by (simp add: my_neutral_def)

definition my_plain :: "char \<Rightarrow> bool" where
  "my_plain c \<longleftrightarrow> c \<noteq> CHR 0x60 \<and> c \<noteq> CHR 0x27 \<and> c \<noteq> CHR ''?''"

lemma my_neutral_Cons [simp]: "my_neutral []" "my_plain c \<Longrightarrow> my_neutral (c # s) \<longleftrightarrow> my_neutral s"
  by (auto simp: my_neutral_def my_plain_def)

lemma my_neutral_QuoteTable [simp]: "my_neutral (my_QuoteTable t)"
  by (simp add: my_QuoteTable_def my_plain_def)

text \<open>Reading a quoted name or value back, in each engine.\<close>

fun read_doubled :: "char \<Rightarrow> string \<Rightarrow> (string \<times> string) option" where
  "read_doubled q [] = None"
| "read_doubled q [c] = (if c = q then Some ([], []) else None)"
| "read_doubled q (c # d # s) =
     (if c = q then if d = q then map_option (apfst ((#) q)) (read_doubled q s) else Some ([], d # s)
      else map_option (apfst ((#) c)) (read_doubled q (d # s)))"

fun read_escaped :: "string \<Rightarrow> (string \<times> string) option" where
  "read_escaped [] = None"
| "read_escaped (c # s) =
     (if c = CHR 0x27 then Some ([], s)
      else if c = CHR 0x5C then (case s of [] \<Rightarrow> None | d # r \<Rightarrow> map_option (apfst ((#) d)) (read_escaped r))
      else map_option (apfst ((#) c)) (read_escaped s))"

lemma read_doubled_quote: "r = [] \<or> hd r \<noteq> q \<Longrightarrow> read_doubled q (replace_char q [q, q] s @ q # r) = Some (s, r)"
proof (induction s)
  case Nil
  then show ?case by (cases r) (auto simp: replace_char_def)
next
  case (Cons c s)
  obtain d t where t: "replace_char q [q, q] s @ q # r = d # t" by (cases "replace_char q [q, q] s") auto
  show ?case
  proof (cases "c = q")
    case True
    then have "replace_char q [q, q] (c # s) @ q # r = q # q # (replace_char q [q, q] s @ q # r)" by (simp add: replace_char_def)
    then show ?thesis using True Cons by simp
  next
    case False
    then have "replace_char q [q, q] (c # s) @ q # r = c # (replace_char q [q, q] s @ q # r)" by (simp add: replace_char_def)
    then show ?thesis using False Cons unfolding t by simp
  qed
qed

lemma read_escaped_quote:
  "read_escaped (concat (map (\<lambda>c. if c = CHR 0x5C then [CHR 0x5C, CHR 0x5C] else if c = CHR 0x27 then [CHR 0x5C, CHR 0x27] else [c]) s)
     @ CHR 0x27 # r) = Some (s, r)"
  by (induction s) auto



section \<open>The parameters of a statement\<close>

lemma pg_neutralD [simp]: "pg_neutral s \<Longrightarrow> fold pg_read s (Code, out) = (Code, out)"
  by (simp add: pg_neutral_def)

lemma my_neutralD [simp]: "my_neutral s \<Longrightarrow> fold my_read s (Code, n) = (Code, n)"
  by (simp add: my_neutral_def)

lemma pg_neutral_commas: "\<forall>x \<in> set xs. pg_neutral x \<Longrightarrow> pg_neutral (commas xs)"
proof (induction xs rule: induct_list012)
  case (3 x y zs)
  then show ?case by (simp add: pg_plain_def)
qed simp_all

lemma my_neutral_commas: "\<forall>x \<in> set xs. my_neutral x \<Longrightarrow> my_neutral (commas xs)"
proof (induction xs rule: induct_list012)
  case (3 x y zs)
  then show ?case by (simp add: my_plain_def)
qed simp_all

lemma digits_plain: "pg_neutral (digits n)" "my_neutral (digits n)"
proof -
  have plain: "\<forall>c \<in> set (digits n). pg_plain c \<and> my_plain c"
    using digits_chars [of _ n] by (fastforce simp: pg_plain_def my_plain_def)
  have "\<forall>c \<in> set s. pg_plain c \<and> my_plain c \<Longrightarrow> pg_neutral s \<and> my_neutral s" for s
    by (induction s) auto
  then show "pg_neutral (digits n)" "my_neutral (digits n)" using plain by simp_all
qed

lemma FormatInt_plain [simp]: "pg_neutral (FormatInt i)" "my_neutral (FormatInt i)"
  using digits_plain by (auto simp: FormatInt_def pg_plain_def my_plain_def)

lemma pg_number: "list_all is_digit ds \<Longrightarrow>
  fold pg_read ds (Number k, out) = (Number (foldl (\<lambda>a c. 10 * a + (of_char c - 48)) k ds), out)"
  by (induction ds arbitrary: k) auto

lemma pg_Placeholder_read: "fold pg_read (pg_Placeholder n) (Code, out) = (Number n, out)"
proof -
  have "list_all is_digit (digits n)" using digits_chars by (auto simp: list_all_iff is_digit_def)
  from pg_number [OF digits_are_digits, where k = 0 and out = out] have "fold pg_read (digits n) (Number 0, out) = (Number n, out)"
    using undigits_digits [of n] unfolding undigits_def by simp
  then show ?thesis by (simp add: pg_Placeholder_def)
qed

text \<open>A list of placeholders, up to the character after it.\<close>

lemma pg_placeholders:
  "\<not> is_digit c \<Longrightarrow> pg_read c (fold pg_read (commas (map pg_Placeholder ns)) (Code, out)) = pg_read c (Code, out @ ns)"
proof (induction ns arbitrary: out rule: induct_list012)
  case (3 n m ns)
  have "fold pg_read (commas (map pg_Placeholder (n # m # ns))) (Code, out)
      = fold pg_read (commas (map pg_Placeholder (m # ns))) (Code, out @ [n])"
    by (simp add: pg_Placeholder_read is_digit_def)
  then show ?case using 3 by simp
qed (simp_all add: pg_Placeholder_read)

lemma pg_tuple_read: "fold pg_read (pg_tuple w n) (Code, out) = (Code, out @ [n..<n + w + 1])"
  by (simp add: pg_tuple_def pg_placeholders pg_Placeholder_read is_digit_def)

lemma pg_list_read:
  "(\<And>x out. fold pg_read (f x) (Code, out) = (Code, out @ g x)) \<Longrightarrow>
   fold pg_read (commas (map f xs)) (Code, out) = (Code, out @ concat (map g xs))"
  by (induction xs arbitrary: out rule: induct_list012) simp_all

lemma pg_tuples_read:
  "fold pg_read (pg_tuples w rows) (Code, out) = (Code, out @ [1..<rows * Suc w + 1])"
proof -
  have one: "fold pg_read (pg_tuple w (r * Suc w + 1)) (Code, out) = (Code, out @ [r * Suc w + 1..<Suc r * Suc w + 1])"
    for r out using pg_tuple_read [of w "r * Suc w + 1" out] by (simp add: algebra_simps)
  note step = pg_list_read [of "\<lambda>r. pg_tuple w (r * Suc w + 1)" "\<lambda>r. [r * Suc w + 1..<Suc r * Suc w + 1]", OF one]
  have "concat (map (\<lambda>r. [r * Suc w + 1..<Suc r * Suc w + 1]) [0..<rows]) = [1..<rows * Suc w + 1]"
  proof (induction rows)
    case (Suc n)
    have "[1..<n * Suc w + 1] @ [n * Suc w + 1..<Suc n * Suc w + 1] = [1..<Suc n * Suc w + 1]"
      using upt_add_eq_append [of 1 "n * Suc w + 1" "Suc w"] by (simp add: algebra_simps del: upt_Suc)
    moreover have "[0..<Suc n] = [0..<n] @ [n]" by simp
    ultimately show ?case by (simp only: map_append concat_append Suc.IH list.map concat.simps append_Nil2)
  qed simp
  then show ?thesis unfolding pg_tuples_def step by (rule arg_cong)
qed

lemma my_list_read:
  "(\<And>n. fold my_read x (Code, n) = (Code, n + w)) \<Longrightarrow> fold my_read (commas (replicate k x)) (Code, n) = (Code, n + k * w)"
proof -
  assume x: "\<And>n. fold my_read x (Code, n) = (Code, n + w)"
  have "\<forall>y \<in> set ys. y = x \<Longrightarrow> fold my_read (commas ys) (Code, n) = (Code, n + length ys * w)" for ys
    by (induction ys arbitrary: n rule: induct_list012) (simp_all add: x)
  from this [of "replicate k x"] show ?thesis by simp
qed

lemma my_marks: "fold my_read (commas (replicate k ''?'')) (Code, n) = (Code, n + k)"
  using my_list_read [of "''?''" 1] by simp

lemma my_tuple_read: "fold my_read (my_tuple w) (Code, n) = (Code, n + Suc w)"
  by (simp add: my_tuple_def my_marks)

lemma my_tuples_read: "fold my_read (commas (replicate rows (my_tuple w))) (Code, n) = (Code, n + rows * Suc w)"
  by (rule my_list_read) (rule my_tuple_read)

lemma my_neutral_alias [simp]: "my_neutral newRowAlias"
  by (simp add: newRowAlias_def my_neutral_def)

lemma pg_neutral_assign [simp]: "pg_neutral (pg_assign c)"
  by (simp add: pg_assign_def pg_plain_def)

lemma my_neutral_new [simp]: "my_neutral (my_new c)"
  by (simp add: my_new_def my_plain_def)

lemma my_neutral_if [simp]: "my_neutral target \<Longrightarrow> my_neutral new \<Longrightarrow> my_neutral (my_if target c new)"
  by (simp add: my_if_def my_fence_def my_plain_def)

text \<open>The writing statements.\<close>

lemma pg_FencedUpsert_parameters: "pg_parameters (pg_FencedUpsert spec columns rows) = Some [1..<rows * Suc (length columns) + 1]"
  by (simp add: pg_parameters_def pg_FencedUpsert_def Let_def pg_neutral_commas quoteAll_def pg_tuples_read pg_plain_def
      del: upt_Suc)

lemma my_FencedUpsert_parameters: "my_parameters (my_FencedUpsert spec columns rows) = Some (rows * Suc (length columns))"
  by (simp add: my_parameters_def my_FencedUpsert_def Let_def my_neutral_commas quoteAll_def my_tuples_read my_plain_def)

lemma pg_FencedDelete_parameters: "pg_parameters (pg_FencedDelete spec) = Some [1..<Suc (Suc (length (ts_PrimaryKey spec)))]"
proof -
  let ?n = "length (ts_PrimaryKey spec)"
  have eq: "map pg_Placeholder [1..<Suc ?n] @ [pg_Placeholder (Suc ?n), ''TRUE'', ''now()'']
      = map pg_Placeholder [1..<Suc (Suc ?n)] @ [''TRUE'', ''now()'']" by simp
  have "commas (map pg_Placeholder [1..<Suc ?n] @ [pg_Placeholder (Suc ?n), ''TRUE'', ''now()''])
      = commas (map pg_Placeholder [1..<Suc (Suc ?n)]) @ '', TRUE, now()''"
    unfolding eq using join_with_append [of "map pg_Placeholder [1..<Suc (Suc ?n)]" "[''TRUE'', ''now()'']" "'', ''"] by (simp del: upt_Suc)
  then show ?thesis
    by (simp add: pg_parameters_def pg_FencedDelete_def Let_def pg_neutral_commas quoteAll_def pg_placeholders is_digit_def
        pg_plain_def del: upt_Suc)
qed

lemma my_FencedDelete_parameters: "my_parameters (my_FencedDelete spec) = Some (Suc (length (ts_PrimaryKey spec)))"
proof -
  let ?n = "length (ts_PrimaryKey spec)"
  have eq: "replicate ?n ''?'' @ [''?'', ''1'', ''UTC_TIMESTAMP(6)''] = replicate (Suc ?n) ''?'' @ [''1'', ''UTC_TIMESTAMP(6)'']"
    by (simp add: replicate_append_same)
  have "commas (replicate ?n ''?'' @ [''?'', ''1'', ''UTC_TIMESTAMP(6)'']) = commas (replicate (Suc ?n) ''?'') @ '', 1, UTC_TIMESTAMP(6)''"
    unfolding eq using join_with_append [of "replicate (Suc ?n) ''?''" "[''1'', ''UTC_TIMESTAMP(6)'']" "'', ''"] by (simp del: replicate_Suc)
  then show ?thesis
    by (simp add: my_parameters_def my_FencedDelete_def Let_def my_neutral_commas quoteAll_def my_marks my_plain_def
        del: replicate_Suc)
qed

lemma pg_MarkDeadLettersClaimed_parameters: "pg_parameters (pg_MarkDeadLettersClaimed ids) = Some [1..<ids + 2]"
proof -
  have "[1..<ids + 2] = 1 # [2..<ids + 2]" by (simp add: upt_conv_Cons numeral_2_eq_2 del: upt_Suc)
  then show ?thesis
    by (simp add: pg_parameters_def pg_MarkDeadLettersClaimed_def ControlSchema_def pg_placeholders is_digit_def del: upt_Suc)
qed

lemma my_MarkDeadLettersClaimed_parameters: "my_parameters (my_MarkDeadLettersClaimed ids) = Some (Suc ids)"
  by (simp add: my_parameters_def my_MarkDeadLettersClaimed_def ControlSchema_def my_marks)

lemma offset_parameters:
  "pg_parameters pg_UpsertOffset = Some [1..<6]" "pg_parameters pg_SelectOffsets = Some [1]"
  "my_parameters my_UpsertOffset = Some 5" "my_parameters my_SelectOffsets = Some 1"
  by code_simp+

text \<open>The digest expressions contain no placeholder, whatever the columns are called.\<close>

lemma pg_inside_replicate: "c \<noteq> q \<Longrightarrow> (pg_read c ^^ n) (Inside q, out) = (Inside q, out)"
  by (induction n) simp_all

lemma pg_normalise_neutral [simp]: "pg_neutral (pg_normalise ''t'' c)"
proof -
  let ?ref = "''t.'' @ pg_Quote (cs_Name c)"
  have ref: "pg_neutral ?ref" by (simp add: pg_plain_def)
  have literal: "fold pg_read (quoteLiteral NullSentinelSQL) (Code, out) = (Code, out)" for out by simp
  show ?thesis
    unfolding pg_neutral_def pg_normalise_def Let_def
    by (simp add: pg_inside_replicate literal)
qed

lemma pg_digest_neutral [simp]: "pg_neutral (pg_RowDigestExpr ''t'' columns)"
  by (simp add: pg_RowDigestExpr_def pg_neutral_commas pg_plain_def)

lemma my_inside_replicate: "c \<noteq> q \<Longrightarrow> c \<noteq> CHR 0x5C \<Longrightarrow> (my_read c ^^ n) (Inside q, k) = (Inside q, k)"
  by (induction n) simp_all

lemma my_normalise_neutral [simp]: "my_neutral (my_normalise ''t'' c)"
proof -
  have literal: "fold my_read (quoteLiteralMySQL NullSentinelSQL) (Code, n) = (Code, n)" for n by simp
  show ?thesis
    unfolding my_neutral_def my_normalise_def Let_def
    by (simp add: my_inside_replicate literal)
qed

lemma my_digest_neutral [simp]: "my_neutral (my_RowDigestExpr ''t'' columns)"
  by (simp add: my_RowDigestExpr_def my_neutral_commas my_plain_def)

text \<open>A condition, wherever it stands.\<close>

lemma pg_where_read:
  assumes "pg_whereClause ''t'' r includeDeleted 1 = (cond, args)"
  shows "fold pg_read cond (Code, []) \<in> {(Code, [1..<length args + 1])} \<union>
    (if args = [] then {} else {(Number (length args), [1..<length args])})"
  using assms
  by (auto simp: pg_whereClause_def Let_def pg_Placeholder_read is_digit_def split: if_splits)

lemma my_where_read:
  assumes "my_whereClause ''t'' r includeDeleted = (cond, args)"
  shows "fold my_read cond (Code, n) = (Code, n + length args)"
  using assms by (auto simp: my_whereClause_def Let_def split: if_splits)

lemma pg_query_parameters:
  "case pg_RangeDigestQuery t columns r d of (q, args) \<Rightarrow> pg_parameters q = Some [1..<length args + 1]"
  "case pg_CountQuery t r d of (q, args) \<Rightarrow> pg_parameters q = Some [1..<length args + 1]"
  "case pg_RowsInRangeQuery t names r d of (q, args) \<Rightarrow> pg_parameters q = Some [1..<length args + 1]"
proof -
  obtain cond args where w: "pg_whereClause ''t'' r d 1 = (cond, args)" by (metis surj_pair)
  have last: "[1..<length args] @ [length args] = [1..<length args + 1]" if "args \<noteq> []"
    using that by (cases args) simp_all
  note read = pg_where_read [OF w]
  have neutral: "\<forall>x \<in> set (prefixAll ''t.'' (quoteAll pg_Quote ns)). pg_neutral x" for ns
    by (simp add: prefixAll_def quoteAll_def pg_plain_def)
  show "case pg_RangeDigestQuery t columns r d of (q, args) \<Rightarrow> pg_parameters q = Some [1..<length args + 1]"
    "case pg_CountQuery t r d of (q, args) \<Rightarrow> pg_parameters q = Some [1..<length args + 1]"
    using read last
    by (auto simp: pg_RangeDigestQuery_def pg_CountQuery_def w [unfolded One_nat_def] pg_parameters_def Let_def simp del: upt_Suc split: if_splits)
  show "case pg_RowsInRangeQuery t names r d of (q, args) \<Rightarrow> pg_parameters q = Some [1..<length args + 1]"
    using read last
    by (auto simp: pg_RowsInRangeQuery_def w [unfolded One_nat_def] pg_parameters_def Let_def pg_neutral_commas [OF neutral] is_digit_def
        simp del: upt_Suc split: if_splits)
qed

lemma my_query_parameters:
  "case my_RangeDigestQuery t columns r d of (q, args) \<Rightarrow> my_parameters q = Some (length args)"
  "case my_CountQuery t r d of (q, args) \<Rightarrow> my_parameters q = Some (length args)"
  "case my_RowsInRangeQuery t names r d of (q, args) \<Rightarrow> my_parameters q = Some (length args)"
proof -
  obtain cond args where w: "my_whereClause ''t'' r d = (cond, args)" by (metis surj_pair)
  have neutral: "\<forall>x \<in> set (prefixAll ''t.'' (quoteAll my_Quote ns)). my_neutral x" for ns
    by (simp add: prefixAll_def quoteAll_def my_plain_def)
  show "case my_RangeDigestQuery t columns r d of (q, args) \<Rightarrow> my_parameters q = Some (length args)"
    "case my_CountQuery t r d of (q, args) \<Rightarrow> my_parameters q = Some (length args)"
    by (simp_all add: my_RangeDigestQuery_def my_CountQuery_def w my_parameters_def Let_def my_where_read [OF w])
  show "case my_RowsInRangeQuery t names r d of (q, args) \<Rightarrow> my_parameters q = Some (length args)"
    by (simp add: my_RowsInRangeQuery_def w my_parameters_def Let_def my_neutral_commas [OF neutral] my_where_read [OF w])
qed

lemma page_parameters:
  "case pg_KeysetPageQuery t key limit after of (q, args) \<Rightarrow> pg_parameters q = Some [1..<length args + 1]"
  "case my_KeysetPageQuery t key limit after of (q, args) \<Rightarrow> my_parameters q = Some (length args)"
  by (simp_all add: pg_KeysetPageQuery_def my_KeysetPageQuery_def pg_parameters_def my_parameters_def Let_def
      pg_Placeholder_read is_digit_def)

lemma length_upsert_args:
  "length (upsert_args spec events) = length events * Suc (length (TargetColumnNames spec))"
  by (induction events) (simp_all add: upsert_args_def ColumnNames_def TargetColumnNames_def)


end
