(* ===== verification/StoreSql.thy ===== *)
theory StoreSql
  imports SqlText DlqStore
begin

text \<open>
  The text of the store's own statements, \<open>internal/store/store.go\<close>: they are written once with question marks and
  renumbered for PostgreSQL. What they do to the control database is in \<open>DlqStore\<close> and \<open>Plane\<close>. Also the reading of
  offsets, and what cutting a text at a number of bytes does to its encoding.
\<close>

section \<open>Rebinding\<close>

text \<open>Every question mark becomes the next placeholder.\<close>

fun rebind_from :: "nat \<Rightarrow> string \<Rightarrow> string" where
  "rebind_from n [] = []"
| "rebind_from n (c # q) = (if c = CHR ''?'' then pg_Placeholder (Suc n) @ rebind_from (Suc n) q else c # rebind_from n q)"

definition rebind :: "engine \<Rightarrow> string \<Rightarrow> string" where
  "rebind e q = (if e = PostgresEngine then rebind_from 0 q else q)"

definition col :: "engine \<Rightarrow> string \<Rightarrow> string" where
  "col e name = (if e = PostgresEngine then pg_Quote name else my_Quote name)"

text \<open>A statement over several lines, and a table of the control schema.\<close>

definition sql_lines :: "string list \<Rightarrow> string" where
  "sql_lines ls = join_with [CHR 0x0A] ls"

definition ctl :: "string \<Rightarrow> string" where
  "ctl table = ControlSchema @ ''.'' @ table"

definition put_dead_letter_sql :: "engine \<Rightarrow> string" where
  "put_dead_letter_sql e = rebind e (sql_lines
     [''INSERT INTO '' @ ctl ''dead_letter'',
      '' (migration_id, source_table, op, row_key_hash, row_key, payload, payload_encrypted,'',
      ''  error_class, last_error, attempts, status, first_seen_at, next_retry_at,'',
      ''  source_lsn, topic, '' @ col e ''partition'' @ '', '' @ col e ''offset'' @ '')'',
      '' VALUES (?,?,?,?,?,?,?,?,?,?,?,?,?,?,?,?,?)''])"

definition resolve_sql :: "engine \<Rightarrow> string" where
  "resolve_sql e = rebind e (sql_lines
     [''UPDATE '' @ ctl ''dead_letter'',
      '' SET status = ?, attempts = ?, resolved_at = ?, last_error = ?, claimed_by = NULL, claimed_at = NULL'',
      '' WHERE id = ?''])"

definition reschedule_sql :: "engine \<Rightarrow> string" where
  "reschedule_sql e = rebind e (sql_lines
     [''UPDATE '' @ ctl ''dead_letter'',
      '' SET status = ?, attempts = ?, next_retry_at = ?, last_error = ?, error_class = ?,'',
      ''     claimed_by = NULL, claimed_at = NULL'',
      '' WHERE id = ?''])"

definition requeue_head :: string where
  "requeue_head = sql_lines
     [''UPDATE '' @ ctl ''dead_letter'',
      '' SET status = '' @ quoteLiteral ''pending'' @ '', next_retry_at = ?, attempts = 0, requeued_by = ?'',
      '' WHERE id IN ('']"

definition requeue_tail :: string where
  "requeue_tail = '') AND status = '' @ quoteLiteral ''quarantined''"

definition requeue_sql :: "engine \<Rightarrow> nat \<Rightarrow> string" where
  "requeue_sql e ids = rebind e
     (requeue_head @ commas (replicate ids ''?'') @ requeue_tail)"

definition counts_sql :: "engine \<Rightarrow> string" where
  "counts_sql e = rebind e (sql_lines
     [''SELECT status, COUNT(*), MIN(first_seen_at)'',
      '' FROM '' @ ctl ''dead_letter'' @ '' WHERE migration_id = ? GROUP BY status''])"

definition load_state_sql :: "engine \<Rightarrow> string" where
  "load_state_sql e = rebind e (sql_lines
     [''SELECT phase, parts_total, parts_loaded, reconcile_ran_at,'',
      '' reconcile_findings, reconcile_complete, reverse_replication_armed, updated_at'',
      '' FROM '' @ ctl ''migration_state'' @ '' WHERE migration_id = ?''])"

definition set_phase_sql :: "engine \<Rightarrow> string" where
  "set_phase_sql e = rebind e (sql_lines
     [''UPDATE '' @ ctl ''migration_state'', '' SET phase = ?, updated_at = ? WHERE migration_id = ?''])"

definition record_run_sql :: "engine \<Rightarrow> string" where
  "record_run_sql e = rebind e (sql_lines
     [''UPDATE '' @ ctl ''migration_state'',
      '' SET reconcile_ran_at = ?, reconcile_findings = ?, reconcile_complete = ?, updated_at = ?'',
      '' WHERE migration_id = ?''])"

definition mark_part_sql :: "engine \<Rightarrow> string" where
  "mark_part_sql e = rebind e (sql_lines
     [''INSERT INTO '' @ ctl ''part_state'',
      '' (migration_id, source_table, part_index, rows_loaded, sha256, state, loaded_at)'',
      '' VALUES (?,?,?,?,?,'' @ quoteLiteral ''loaded'' @ '',?)''])"

definition part_loaded_sql :: "engine \<Rightarrow> string" where
  "part_loaded_sql e = rebind e (sql_lines
     [''SELECT COUNT(*) FROM '' @ ctl ''part_state'',
      '' WHERE migration_id = ? AND source_table = ? AND part_index = ? AND state = '' @ quoteLiteral ''loaded''])"

definition part_counts_sql :: "engine \<Rightarrow> string" where
  "part_counts_sql e = rebind e (sql_lines
     [''SELECT COUNT(*), SUM(CASE WHEN state = '' @ quoteLiteral ''loaded'' @ '' THEN 1 ELSE 0 END)'',
      '' FROM '' @ ctl ''part_state'' @ '' WHERE migration_id = ?''])"

section \<open>Each statement takes its arguments\<close>

text \<open>How many parameters an engine finds in a statement; for PostgreSQL they must be numbered from one.\<close>

definition takes :: "engine \<Rightarrow> string \<Rightarrow> nat \<Rightarrow> bool" where
  "takes e q n \<longleftrightarrow> (if e = PostgresEngine then pg_parameters q = Some [1..<n + 1] else my_parameters q = Some n)"

lemma rebind_from_append:
  "rebind_from n (p @ q) = rebind_from n p @ rebind_from (n + count_list p CHR ''?'') q"
  by (induction p arbitrary: n) auto

lemma rebind_from_marks:
  "rebind_from n (commas (replicate k ''?'')) = commas (map pg_Placeholder [Suc n..<Suc (n + k)])"
proof (induction k arbitrary: n)
  case (Suc k)
  show ?case
  proof (cases k)
    case 0
    then show ?thesis by simp
  next
    case (Suc j)
    have "rebind_from n (commas (replicate (Suc k) ''?'')) = pg_Placeholder (Suc n) @ '', '' @ rebind_from (Suc n) (commas (replicate k ''?''))"
      using Suc by simp
    also have "\<dots> = pg_Placeholder (Suc n) @ '', '' @ commas (map pg_Placeholder [Suc (Suc n)..<Suc (Suc n + k)])"
      by (simp only: Suc.IH)
    also have "\<dots> = commas (map pg_Placeholder (Suc n # [Suc (Suc n)..<Suc (Suc n + k)]))"
      using Suc by (simp add: upt_conv_Cons del: upt_Suc)
    also have "Suc n # [Suc (Suc n)..<Suc (Suc n + k)] = [Suc n..<Suc (n + Suc k)]"
      by (simp add: upt_conv_Cons del: upt_Suc)
    finally show ?thesis .
  qed
qed simp

lemma rebind_from_plain: "CHR ''?'' \<notin> set q \<Longrightarrow> rebind_from n q = q"
  by (induction q) auto

lemma requeue_takes: "takes e (requeue_sql e ids) (2 + ids)"
proof -
  let ?ns = "[Suc 2..<Suc (2 + ids)]"
  have head: "fold pg_read (rebind_from 0 requeue_head) (Code, []) = (Code, [1, 2])"
    "fold my_read requeue_head (Code, 0) = (Code, 2)" "count_list requeue_head CHR ''?'' = 2"
    by code_simp+
  have tail: "rebind_from n requeue_tail = requeue_tail" for n by (rule rebind_from_plain) code_simp
  obtain rest where rest: "requeue_tail = CHR '')'' # rest" by (simp add: requeue_tail_def)
  have neutral: "pg_neutral requeue_tail" "my_neutral requeue_tail"
    by (simp_all add: requeue_tail_def pg_plain_def my_plain_def) (simp add: my_neutral_def quoteLiteral_def replace_char_def)
  have ns: "[1, 2] @ ?ns = [1..<2 + ids + 1]"
    using upt_add_eq_append [of 1 3 ids] by (simp add: numeral_3_eq_3 numeral_2_eq_2 del: upt_Suc) (simp add: upt_rec)
  have "fold pg_read (commas (map pg_Placeholder ?ns) @ requeue_tail) (Code, [1, 2])
      = fold pg_read rest (pg_read CHR '')'' (Code, [1, 2] @ ?ns))"
    by (simp add: rest pg_placeholders is_digit_def del: upt_Suc)
  also have "\<dots> = fold pg_read requeue_tail (Code, [1, 2] @ ?ns)" by (simp add: rest)
  finally have pg: "fold pg_read (commas (map pg_Placeholder ?ns) @ requeue_tail) (Code, [1, 2]) = (Code, [1..<2 + ids + 1])"
    unfolding ns using neutral by simp
  have bound: "rebind_from 0 (requeue_head @ commas (replicate ids ''?'') @ requeue_tail)
      = rebind_from 0 requeue_head @ commas (map pg_Placeholder ?ns) @ requeue_tail"
    by (simp only: rebind_from_append head tail rebind_from_marks add_0)
  have "pg_parameters (requeue_sql PostgresEngine ids) = Some [1..<2 + ids + 1]"
    unfolding requeue_sql_def rebind_def if_P [OF refl] bound pg_parameters_def
    by (simp only: fold_append comp_apply head) (simp only: pg [unfolded fold_append comp_apply] prod.case lex_mode.case)
  moreover have "my_parameters (requeue_sql MySQLEngine ids) = Some (2 + ids)"
    using neutral by (simp add: requeue_sql_def rebind_def my_parameters_def head my_marks)
  ultimately show ?thesis by (cases e) (simp_all add: takes_def)
qed

text \<open>
  Every statement of the store, renumbered for PostgreSQL or as it is for MySQL, has exactly as many parameters as the
  operation passes values, numbered in their order.
\<close>

theorem store_statements_take_their_arguments:
  "takes e (put_dead_letter_sql e) 17 \<and> takes e (resolve_sql e) 5 \<and> takes e (reschedule_sql e) 6
   \<and> takes e (requeue_sql e ids) (2 + ids) \<and> takes e (counts_sql e) 1 \<and> takes e (load_state_sql e) 1
   \<and> takes e (set_phase_sql e) 3 \<and> takes e (record_run_sql e) 5 \<and> takes e (mark_part_sql e) 6
   \<and> takes e (part_loaded_sql e) 3 \<and> takes e (part_counts_sql e) 1"
  by (cases e; intro conjI; (rule requeue_takes | simp, code_simp))

section \<open>Reading offsets\<close>

text \<open>
  \<open>LoadOffsets\<close>: the outcome of the query, of each scan, and of the iteration. A sequence number is stored as
  the \<open>int64\<close> with the same bits.
\<close>

fun scan_offsets ::
  "(go_error + string \<times> int \<times> int \<times> int) list \<Rightarrow> position list \<Rightarrow> go_error option \<Rightarrow> position list \<times> go_error option" where
  "scan_offsets [] out final = (out, final)"
| "scan_offsets (Inl e # rows) out final = ([], Some (Errorf ''store: scanning offset'' e))"
| "scan_offsets (Inr (topic, part, off, lsn) # rows) out final =
     scan_offsets rows (out @ [\<lparr>po_Topic = topic, po_Partition = part, po_Offset = off, po_LastLSN = word_of_int lsn\<rparr>]) final"

definition LoadOffsets ::
  "go_error + (go_error + string \<times> int \<times> int \<times> int) list \<Rightarrow> go_error option \<Rightarrow> position list \<times> go_error option" where
  "LoadOffsets query final =
     (case query of Inl e \<Rightarrow> ([], Some (Errorf ''store: loading offsets'' e)) | Inr rows \<Rightarrow> scan_offsets rows [] final)"

definition stored_offset :: "position \<Rightarrow> string \<times> int \<times> int \<times> int" where
  "stored_offset p = (po_Topic p, po_Partition p, po_Offset p, int64_of (po_LastLSN p))"

lemma scan_offsets_stored:
  "scan_offsets (map (Inr \<circ> stored_offset) ps) out final = (out @ ps, final)"
  by (induction ps arbitrary: out) (simp_all add: stored_offset_def int64_of_def)

text \<open>What was stored comes back, the sequence numbers above the range of \<open>int64\<close> too.\<close>

lemma LoadOffsets_stored: "LoadOffsets (Inr (map (Inr \<circ> stored_offset) ps)) None = (ps, None)"
  by (simp add: LoadOffsets_def scan_offsets_stored)

section \<open>Cutting a text\<close>

text \<open>
  Well-formed UTF-8, byte by byte: how many bytes are still to come and the range of the next one. PostgreSQL
  refuses a text that is not well-formed.
\<close>

definition utf8_first :: "nat \<Rightarrow> (nat \<times> nat \<times> nat) option" where
  "utf8_first b =
     (if b < 0x80 then Some (0, 0, 0) else if b < 0xC2 then None else if b < 0xE0 then Some (1, 0x80, 0xBF)
      else if b = 0xE0 then Some (2, 0xA0, 0xBF) else if b = 0xED then Some (2, 0x80, 0x9F)
      else if b < 0xF0 then Some (2, 0x80, 0xBF) else if b = 0xF0 then Some (3, 0x90, 0xBF)
      else if b < 0xF4 then Some (3, 0x80, 0xBF) else if b = 0xF4 then Some (3, 0x80, 0x8F) else None)"

fun utf8_byte :: "char \<Rightarrow> (nat \<times> nat \<times> nat) option \<Rightarrow> (nat \<times> nat \<times> nat) option" where
  "utf8_byte c None = None"
| "utf8_byte c (Some (0, lo, hi)) = utf8_first (of_char c)"
| "utf8_byte c (Some (Suc k, lo, hi)) = (if lo \<le> of_char c \<and> of_char c \<le> hi then Some (k, 0x80, 0xBF) else None)"

definition utf8_done :: "(nat \<times> nat \<times> nat) option \<Rightarrow> bool" where
  "utf8_done st \<longleftrightarrow> (case st of Some (0, lo, hi) \<Rightarrow> True | _ \<Rightarrow> False)"

definition valid_utf8 :: "string \<Rightarrow> bool" where
  "valid_utf8 s \<longleftrightarrow> utf8_done (fold utf8_byte s (Some (0, 0, 0)))"

definition continuation :: "char \<Rightarrow> bool" where
  "continuation c \<longleftrightarrow> 0x80 \<le> (of_char c :: nat) \<and> (of_char c :: nat) < 0xC0"

lemma utf8_dead: "fold utf8_byte s None = None"
  by (induction s) simp_all

text \<open>Inside a character every range lies within that of continuation bytes.\<close>

definition utf8_state :: "(nat \<times> nat \<times> nat) option \<Rightarrow> bool" where
  "utf8_state st \<longleftrightarrow> (case st of None \<Rightarrow> True | Some (k, lo, hi) \<Rightarrow> k = 0 \<or> 0x80 \<le> lo \<and> hi \<le> 0xBF)"

lemma utf8_state_step: "utf8_state st \<Longrightarrow> utf8_state (utf8_byte c st)"
  by (cases "(c, st)" rule: utf8_byte.cases) (auto simp: utf8_state_def utf8_first_def)

lemma utf8_state_fold: "utf8_state st \<Longrightarrow> utf8_state (fold utf8_byte s st)"
  by (induction s arbitrary: st) (simp_all add: utf8_state_step)

lemma utf8_next:
  assumes "utf8_state (Some (k, lo, hi))" "utf8_byte c (Some (k, lo, hi)) \<noteq> None"
  shows "continuation c \<longleftrightarrow> 0 < k"
  using assms by (cases k) (auto simp: utf8_state_def utf8_first_def continuation_def split: if_splits)

lemma utf8_suffix:
  assumes "utf8_state (Some (k, lo, hi))"
  shows "utf8_done (fold utf8_byte (ellipsis @ '' (truncated)'') (Some (k, lo, hi))) \<longleftrightarrow> k = 0"
proof (cases k)
  case 0
  have "utf8_done (fold utf8_byte (ellipsis @ '' (truncated)'') (Some (0, 0, 0)))" by code_simp
  moreover have "utf8_byte c (Some (0, lo, hi)) = utf8_byte c (Some (0, 0, 0))" for c by simp
  ultimately show ?thesis using 0 by (simp add: ellipsis_def del: utf8_byte.simps)
next
  case (Suc j)
  then have "utf8_byte CHR 0xE2 (Some (k, lo, hi)) = None" using assms by (auto simp: utf8_state_def)
  then show ?thesis using Suc by (simp add: ellipsis_def utf8_dead utf8_done_def del: utf8_byte.simps(3))
qed

text \<open>
  C37: what a long error text becomes. It is cut at a number of bytes: the result is well-formed exactly when the
  first byte left out does not continue a character, so a text with a character across the limit becomes one that
  PostgreSQL refuses, and with it the statement that records the error.
\<close>

theorem truncated_text_valid:
  assumes "valid_utf8 s" "n < length s"
  shows "valid_utf8 (truncate_at s n) \<longleftrightarrow> \<not> continuation (s ! n)"
proof -
  let ?st = "fold utf8_byte (take n s) (Some (0, 0, 0))"
  have "fold utf8_byte s (Some (0, 0, 0)) = fold utf8_byte (drop n s) ?st"
    using fold_append [of utf8_byte "take n s" "drop n s"] by simp
  then have "utf8_done (fold utf8_byte (drop n s) ?st)" using assms(1) by (simp add: valid_utf8_def)
  then have all: "fold utf8_byte (drop n s) ?st \<noteq> None" by (intro notI) (simp add: utf8_done_def)
  then obtain k lo hi where st: "?st = Some (k, lo, hi)" by (cases ?st) (auto simp: utf8_dead)
  have wf: "utf8_state (Some (k, lo, hi))"
    using utf8_state_fold [of "Some (0, 0, 0)" "take n s"] by (simp add: st utf8_state_def)
  have "utf8_byte (s ! n) (Some (k, lo, hi)) \<noteq> None"
  proof
    assume "utf8_byte (s ! n) (Some (k, lo, hi)) = None"
    then have "fold utf8_byte (s ! n # drop (Suc n) s) ?st = None" by (simp add: st utf8_dead)
    then show False using all assms(2) by (simp add: Cons_nth_drop_Suc)
  qed
  from utf8_next [OF wf this] show ?thesis
    using utf8_suffix [OF wf] assms(2) by (simp add: valid_utf8_def truncate_at_def st del: fold_append) (simp add: st)
qed

theorem truncated_text_valid_witness:
  "\<not> valid_utf8 (truncate_at ([CHR 0xC3, CHR 0xA9, CHR 0xC3, CHR 0xA9]) 3)
   \<and> valid_utf8 (truncate_at ([CHR 0xC3, CHR 0xA9, CHR 0xC3, CHR 0xA9]) 2)"
proof -
  let ?s = "[CHR 0xC3, CHR 0xA9, CHR 0xC3, CHR 0xA9]"
  have "valid_utf8 ?s" "continuation (?s ! 3)" "\<not> continuation (?s ! 2)" by code_simp+
  then show ?thesis using truncated_text_valid [of ?s 3] truncated_text_valid [of ?s 2] by simp
qed

end
