(* ===== verification/Commands.thy ===== *)
theory Commands
  imports App Consume Verify StoreSql
begin

text \<open>
  The loops of the commands under \<open>cmd/\<close>, around the rounds that \<open>Consume\<close>, \<open>DlqStore\<close>, \<open>Loader\<close>, \<open>Verify\<close> and
  \<open>Plane\<close> model, and the gauges of the control plane. A loop is given what each of its rounds meets; a sleep
  that is cut short returns as the next round does when it finds the context done, so it is that round.
  Log lines and the counters that no theorem speaks of are left out.
\<close>

datatype loop_end = StillRunning | Ended "go_error option" | Hung

section \<open>The change applier\<close>

text \<open>A round: whether the context is done, the failure of the poll (and whether the context was done by then), the
  brokers' log and how many messages of each partition have arrived, and the batch.\<close>

record applier_round =
  ar_cancelled :: bool
  ar_poll_error :: "(go_error \<times> bool) option"
  ar_log :: broker_log
  ar_arrived :: "nat list"
  ar_batch :: batch_env

fun applier_loop ::
  "'w driver \<Rightarrow> apply_env \<Rightarrow> applier_round list \<Rightarrow> consumer \<times> 'w \<times> dl_db \<Rightarrow> loop_end \<times> consumer \<times> 'w \<times> dl_db" where
  "applier_loop drv env [] st = (StillRunning, st)"
| "applier_loop drv env (r # rs) (c, w, db) =
     (if ar_cancelled r then (Ended None, c, w, db)
      else case ar_poll_error r of
        Some (e, cancelled) \<Rightarrow> if cancelled then (Ended None, c, w, db) else applier_loop drv env rs (c, w, db)
      | None \<Rightarrow>
          (case Poll (ar_log r) (ar_arrived r) c of
             (messages, c) \<Rightarrow>
               (case process_batch drv env (ar_batch r) messages (w, db) of
                  None \<Rightarrow> (Hung, c, w, db)
                | Some (Stop e, w, db) \<Rightarrow> (Ended (Some e), c, w, db)
                | Some (Continue, w, db) \<Rightarrow> applier_loop drv env rs (c, w, db))))"

definition newMetrics :: "registry \<Rightarrow> registry" where
  "newMetrics r =
     Gauge ''migration_replication_lag_seconds'' ''Source commit to target apply, in seconds'' []
     (Histogram ''migration_batch_apply_seconds'' ''Time to apply one batch'' [] []
     (Counter ''migration_watermarks_seen_total'' ''Snapshot watermarks observed in the stream'' []
     (Counter ''migration_poll_errors_total'' ''Failures reading from the change stream'' []
     (Counter ''migration_apply_errors_total'' ''Batches that failed to apply'' []
     (Counter ''migration_decode_failures_total'' ''Messages that could not be decoded'' [''topic'']
     (Counter ''migration_dead_lettered_total'' ''Records written to the dead-letter store'' [''table'']
     (Counter ''migration_events_coalesced_total'' ''Events dropped as superseded within a batch'' []
     (Counter ''migration_rows_tombstoned_total'' ''Rows tombstoned on the target'' []
     (Counter ''migration_rows_applied_total'' ''Rows written to the target'' [] r)))))))))"

section \<open>The repair worker\<close>

record repair_round =
  rr_cancelled :: bool
  rr_faults :: claim_faults
  rr_now :: gotime
  rr_locked :: "int set"
  rr_draw :: "int \<Rightarrow> int"
  rr_clock :: "nat \<Rightarrow> gotime"
  rr_put_fault :: "nat \<Rightarrow> go_error option"

text \<open>The claimed entries, one by one; an entry that cannot be settled ends the worker.\<close>

fun repair_entries ::
  "(string \<Rightarrow> int \<Rightarrow> int \<Rightarrow> string \<Rightarrow> go_error + change_event option) \<Rightarrow> 'w driver \<Rightarrow> applier \<Rightarrow> policy \<Rightarrow> repair_round
   \<Rightarrow> entry list \<Rightarrow> 'w \<times> dl_db \<Rightarrow> go_error option \<times> 'w \<times> dl_db" where
  "repair_entries dec drv a p r [] st = (None, st)"
| "repair_entries dec drv a p r (e # es) st =
     (case repair_one dec drv a (rr_draw r) p (rr_clock r (length es)) (rr_put_fault r (length es)) e st of
        (Some err, st) \<Rightarrow> (Some err, st)
      | (None, st) \<Rightarrow> repair_entries dec drv a p r es st)"

fun repair_loop ::
  "(string \<Rightarrow> int \<Rightarrow> int \<Rightarrow> string \<Rightarrow> go_error + change_event option) \<Rightarrow> 'w driver \<Rightarrow> applier \<Rightarrow> policy \<Rightarrow> store \<Rightarrow> string
   \<Rightarrow> bool \<Rightarrow> repair_round list \<Rightarrow> 'w \<times> dl_db \<Rightarrow> loop_end \<times> 'w \<times> dl_db" where
  "repair_loop dec drv a p s worker once [] st = (StillRunning, st)"
| "repair_loop dec drv a p s worker once (r # rs) (w, db) =
     (if rr_cancelled r then (Ended None, w, db)
      else case Claim s (rr_faults r) (rr_now r) (rr_locked r) worker 100 db of
        ((entries, Some e), db) \<Rightarrow> repair_loop dec drv a p s worker once rs (w, db)
      | ((entries, None), db) \<Rightarrow>
          if entries = []
          then if once then (Ended None, w, db) else repair_loop dec drv a p s worker once rs (w, db)
          else (case repair_entries dec drv a p r entries (w, db) of
                  (Some err, st) \<Rightarrow> (Ended (Some err), st)
                | (None, st) \<Rightarrow> repair_loop dec drv a p s worker once rs st))"

section \<open>The snapshot loader and the reconciler\<close>

record loader_round =
  lr_cancelled :: bool
  lr_io :: "part \<Rightarrow> part_io"
  lr_order :: "part list \<Rightarrow> part list"
  lr_found :: "go_error + (go_error + (go_error + manifest)) list"

text \<open>The error of a pass is logged.\<close>

fun loader_loop :: "load_env \<Rightarrow> bool \<Rightarrow> loader_round list \<Rightarrow> load_db \<Rightarrow> loop_end \<times> load_db" where
  "loader_loop env once [] db = (StillRunning, db)"
| "loader_loop env once (r # rs) db =
     (if lr_cancelled r then (Ended None, db)
      else case pass env (lr_io r) (lr_order r) (lr_found r) db of
        (res, db) \<Rightarrow> if once then (Ended None, db) else loader_loop env once rs db)"

definition durationOr :: "(nat \<Rightarrow> nat \<Rightarrow> nat \<Rightarrow> nat) \<Rightarrow> string \<Rightarrow> duration \<Rightarrow> duration" where
  "durationOr fr s def = (case ParseDuration fr s of None \<Rightarrow> def | Some d \<Rightarrow> if d \<le> 0 then def else d)"

record recon_round =
  cr_cancelled :: bool
  cr_tables :: "(sql_pair \<times> (nat \<Rightarrow> go_error option)) list"
  cr_fault :: "go_error option"
  cr_now :: gotime

fun recon_loop ::
  "store \<Rightarrow> recon_options \<Rightarrow> (string \<Rightarrow> 8 word list) \<Rightarrow> (gotime \<Rightarrow> string) \<Rightarrow> bool \<Rightarrow> recon_round list \<Rightarrow> control_db
   \<Rightarrow> loop_end \<times> control_db" where
  "recon_loop s opts sum256 fmt once [] db = (StillRunning, db)"
| "recon_loop s opts sum256 fmt once (r # rs) db =
     (if cr_cancelled r then (Ended None, db)
      else case verification_pass s opts sum256 fmt (cr_tables r) (cr_fault r) (cr_now r) db of
        (e, db) \<Rightarrow> if once then (Ended e, db) else recon_loop s opts sum256 fmt once rs db)"

section \<open>The control plane's gauges\<close>

definition ready_gauge :: string where "ready_gauge = ''migration_cutover_ready''"
definition blockers_gauge :: string where "blockers_gauge = ''migration_cutover_blockers''"

definition plane_metrics :: "registry \<Rightarrow> registry" where
  "plane_metrics r = Gauge blockers_gauge ''Active cutover blockers'' [''code'']
     (Gauge ready_gauge ''1 when the cutover gate is open, 0 when it is closed'' [] r)"

fun publish_blockers :: "string list \<Rightarrow> registry \<Rightarrow> registry option" where
  "publish_blockers [] r = Some r"
| "publish_blockers (code # codes) r =
     Option.bind (on_family blockers_gauge (Gauge_Set (Fin 1) [code]) r) (publish_blockers codes)"

text \<open>One evaluation: a failure is logged and changes no gauge; \<open>None\<close> would be a panic.\<close>

definition publish :: "go_error + readiness \<times> state \<Rightarrow> registry \<Rightarrow> registry option" where
  "publish evaluated r =
     (case evaluated of
        Inl e \<Rightarrow> Some r
      | Inr (rd, st) \<Rightarrow>
          Option.bind (on_family ready_gauge (Gauge_Set (Fin (if rd_Ready rd then 1 else 0)) []) r)
            (publish_blockers (map bk_Code (rd_Blockers rd))))"

fun publish_all :: "(go_error + readiness \<times> state) list \<Rightarrow> registry \<Rightarrow> registry option" where
  "publish_all [] r = Some r"
| "publish_all (ev # evs) r = Option.bind (publish ev r) (publish_all evs)"

section \<open>The workers keep the dead letters\<close>

text \<open>
  A run implements the abstract life of dead letters (\<open>dl_step\<close>): from a reachable table it leads to a reachable
  one in which every record is still there.
\<close>

definition letters_kept :: "store \<Rightarrow> dl_db \<Rightarrow> dl_db \<Rightarrow> bool" where
  "letters_kept s db db' \<longleftrightarrow>
     dl_reach s db' \<and> list_all (\<lambda>r. list_ex (same_record r) (db_rows db')) (db_rows db)"

lemma letters_kept_refl [simp]: "dl_reach s db \<Longrightarrow> letters_kept s db db"
  by (simp add: letters_kept_def list_all_iff list_ex_iff) (metis same_record_refl)

lemma same_record_trans: "same_record a b \<Longrightarrow> same_record b c \<Longrightarrow> same_record a c"
  by (simp add: same_record_def)

lemma letters_kept_trans: "letters_kept s a b \<Longrightarrow> letters_kept s b c \<Longrightarrow> letters_kept s a c"
  unfolding letters_kept_def list_all_iff list_ex_iff by (meson same_record_trans)

lemma letters_kept_step:
  assumes "dl_reach s db" "dl_step s db l db'"
  shows "letters_kept s db db'"
proof -
  have "dl_reach s db'" by (rule reach_dl_step [OF assms])
  moreover have "\<exists>r' \<in> set (db_rows db'). same_record r r'" if "r \<in> set (db_rows db)" for r
    using dl_step_rows [OF assms(2)] that by (elim disjE exE conjE) (auto simp: row_move_def intro: bexI [of _ r])
  ultimately show ?thesis by (simp add: letters_kept_def list_all_iff list_ex_iff)
qed

lemma letters_kept_reach: "letters_kept s db db' \<Longrightarrow> dl_reach s db'"
  by (simp add: letters_kept_def)

text \<open>What a batch or a round needs of its surroundings: a valid policy, a clock after the epoch, random draws in range.\<close>

definition batch_ok :: "apply_env \<Rightarrow> batch_env \<Rightarrow> bool" where
  "batch_ok env b \<longleftrightarrow> Policy_Validate (en_dlqPolicy env) = (None, en_dlqPolicy env) \<and> int63n (be_draw b) \<and> 0 < be_now b"

lemma new_entry_kept:
  assumes "batch_ok env b" "dl_reach (en_store env) db"
    "PutDeadLetter (en_store env) fault (new_entry env b ev err) db = (r, db')"
  shows "letters_kept (en_store env) db db'"
  using assms unfolding batch_ok_def new_entry_def
  by (intro letters_kept_step [OF assms(2), where l = Wrote]) (blast intro: dl_step.put)

lemma decode_batch_kept:
  assumes "batch_ok env b" "dl_reach (en_store env) db"
  shows "letters_kept (en_store env) db (snd (decode_batch env b ms events db))"
  using assms(2)
proof (induction ms arbitrary: events db)
  case (Cons m ms)
  show ?case
  proof (cases "Decode (en_fmt env) (en_parse env) (be_now b) (en_decoder env) (mg_Topic m) (mg_Partition m) (mg_Offset m) (mg_Key m) (mg_Value m)")
    case (Inl err)
    obtain perr db1 where put: "PutDeadLetter (en_store env) (be_put_fault b (length ms)) (new_entry env b (undecodable_event m) err) db = (perr, db1)"
      by (metis surj_pair)
    have kept: "letters_kept (en_store env) db db1" by (rule new_entry_kept [OF assms(1) Cons.prems put])
    then show ?thesis
      using Inl put Cons.IH [OF letters_kept_reach [OF kept], of events] by (cases perr) (auto intro: letters_kept_trans)
  next
    case (Inr res)
    then show ?thesis using Cons by (cases res) (simp_all split: if_splits)
  qed
qed simp

lemma put_all_kept:
  assumes "batch_ok env b" "dl_reach (en_store env) db"
  shows "letters_kept (en_store env) db (snd (PutDeadLetters (en_store env) faults (map (\<lambda>(ev, err). new_entry env b ev err) fs) db))"
  using assms(2)
proof (induction fs arbitrary: db)
  case (Cons f fs)
  obtain ev err where f: "f = (ev, err)" by (metis surj_pair)
  obtain perr db1 where put: "PutDeadLetter (en_store env) (faults (length fs)) (new_entry env b ev err) db = (perr, db1)"
    by (metis surj_pair)
  have kept: "letters_kept (en_store env) db db1" by (rule new_entry_kept [OF assms(1) Cons.prems put])
  then show ?case
    using f put Cons.IH [OF letters_kept_reach [OF kept]] by (cases perr) (auto intro: letters_kept_trans)
qed simp

lemma process_batch_kept:
  assumes "batch_ok env b" "dl_reach (en_store env) db" "process_batch drv env b ms (w, db) = Some (out, w', db')"
  shows "letters_kept (en_store env) db db'"
proof -
  let ?dec = "decode_batch env b ms [] db"
  have dec: "letters_kept (en_store env) db (snd ?dec)" by (rule decode_batch_kept [OF assms(1,2)])
  have put: "letters_kept (en_store env) db db1"
    if "PutDeadLetters (en_store env) faults (map (\<lambda>(ev, err). new_entry env b ev err) fs) (snd ?dec) = (e, db1)" for faults fs e db1
    using letters_kept_trans [OF dec put_all_kept [OF assms(1) letters_kept_reach [OF dec], of faults fs]] that by simp
  show ?thesis
    using assms(3) dec assms(2)
    by (auto simp: process_batch_def Let_def split: if_splits sum.splits option.splits prod.splits intro: put)
qed

lemma applier_loop_kept:
  assumes "list_all (\<lambda>r. batch_ok env (ar_batch r)) rounds" "dl_reach (en_store env) db"
  shows "letters_kept (en_store env) db (snd (snd (snd (applier_loop drv env rounds (c, w, db)))))"
  using assms
proof (induction rounds arbitrary: c w db)
  case (Cons r rs)
  obtain ms c1 where poll: "Poll (ar_log r) (ar_arrived r) c = (ms, c1)" by (metis surj_pair)
  have batch: "letters_kept (en_store env) db db1" if "process_batch drv env (ar_batch r) ms (w, db) = Some (out, w1, db1)" for out w1 db1
    using process_batch_kept [OF _ _ that] Cons.prems by simp
  have next_round: "letters_kept (en_store env) db1 (snd (snd (snd (applier_loop drv env rs (c, w, db1)))))"
    if "dl_reach (en_store env) db1" for c w db1
    using Cons.IH [OF _ that] Cons.prems(1) by simp
  show ?case
    using Cons.prems(2) poll batch next_round letters_kept_reach letters_kept_trans
    by (auto split: option.splits loop_outcome.splits)
qed simp

definition repair_ok :: "policy \<Rightarrow> repair_round \<Rightarrow> bool" where
  "repair_ok p r \<longleftrightarrow> Policy_Validate p = (None, p) \<and> int63n (rr_draw r) \<and> list_all (\<lambda>n. 0 < rr_clock r n) [0..<100]"

lemma repair_one_kept:
  assumes "Policy_Validate p = (None, p)" "int63n draw" "0 < now" "dl_reach s db"
    "repair_one dec drv a draw p now fault e (w, db) = (res, w', db')"
  shows "letters_kept s db db'"
proof -
  obtain outcome w1 where applied: "(case rebuild dec e of Inl err \<Rightarrow> (Some err, w)
      | Inr ev \<Rightarrow> (case Apply drv a [ev] [] w of ((res, err), w) \<Rightarrow> (err, w))) = (outcome, w1)" by (metis surj_pair)
  show ?thesis
  proof (cases outcome)
    case None
    then have "Resolve fault now e (EvaluateSuccess e now) db = (res, db')"
      using assms(5) applied by (simp add: repair_one_def split: prod.splits)
    then show ?thesis by (rule letters_kept_step [OF assms(4) dl_step.resolve])
  next
    case (Some err)
    then have "Reschedule fault e (Dlq_Evaluate draw e (Some err) p now) (Some err) db = (res, db')"
      using assms(5) applied by (simp add: repair_one_def split: prod.splits)
    then show ?thesis by (rule letters_kept_step [OF assms(4) dl_step.reschedule [OF assms(1-3)]])
  qed
qed

lemma repair_entries_kept:
  assumes "repair_ok p r" "length es \<le> 100" "dl_reach s db"
  shows "letters_kept s db (snd (snd (repair_entries dec drv a p r es (w, db))))"
  using assms(2,3)
proof (induction es arbitrary: w db)
  case (Cons e es)
  obtain res w1 db1 where one: "repair_one dec drv a (rr_draw r) p (rr_clock r (length es)) (rr_put_fault r (length es)) e (w, db) = (res, w1, db1)"
    by (metis surj_pair)
  have now: "0 < rr_clock r (length es)" using assms(1) Cons.prems(1) by (simp add: repair_ok_def list_all_iff)
  have kept: "letters_kept s db db1"
    using assms(1) by (intro repair_one_kept [OF _ _ now Cons.prems(2) one]) (simp_all add: repair_ok_def)
  show ?case
    using one kept Cons.IH [of db1 w1] Cons.prems(1) letters_kept_reach [OF kept]
    by (cases res) (auto intro: letters_kept_trans)
qed simp

lemma claim_kept:
  assumes "dl_reach s db" "Claim s f now locked worker limit db = (res, db')"
  shows "letters_kept s db db'"
  using assms(2) by (rule letters_kept_step [OF assms(1) dl_step.claim])

lemma claimed_few:
  assumes "Claim s f now locked worker limit db = ((es, None), db')"
  shows "length es \<le> limit"
proof -
  obtain rows where "scan_all s rows = Inr es" "length rows \<le> limit" using Claim_Inr [OF assms] by blast
  then show ?thesis using scan_all_ids [of s rows es] by (metis length_map)
qed

lemma repair_loop_kept:
  assumes "list_all (repair_ok p) rounds" "dl_reach s db"
  shows "letters_kept s db (snd (snd (repair_loop dec drv a p s worker once rounds (w, db))))"
  using assms
proof (induction rounds arbitrary: w db)
  case (Cons r rs)
  obtain es err db1 where claim: "Claim s (rr_faults r) (rr_now r) (rr_locked r) worker 100 db = ((es, err), db1)"
    by (metis surj_pair)
  have kept: "letters_kept s db db1" by (rule claim_kept [OF Cons.prems(2) claim])
  have rest: "letters_kept s db (snd (snd (repair_loop dec drv a p s worker once rs (w', db'))))"
    if "letters_kept s db db'" for w' db'
    using Cons.IH [OF _ letters_kept_reach [OF that]] Cons.prems(1) letters_kept_trans [OF that] by simp
  obtain res w2 db2 where entries: "repair_entries dec drv a p r es (w, db1) = (res, w2, db2)" by (metis surj_pair)
  have settled: "letters_kept s db db2" if "err = None"
    using repair_entries_kept [of p r es s db1 dec drv a w] entries claimed_few [of s _ _ _ worker 100 db es db1] claim that
      Cons.prems(1) letters_kept_reach [OF kept] letters_kept_trans [OF kept] by simp
  show ?case
    using claim entries kept rest settled Cons.prems(2)
    by (auto split: option.splits)
qed simp


definition demo_applier_round :: applier_round where
  "demo_applier_round = \<lparr>ar_cancelled = False, ar_poll_error = None, ar_log = demo_log, ar_arrived = [1], ar_batch = demo_batch_env\<rparr>"

definition demo_repair_round :: repair_round where
  "demo_repair_round = \<lparr>rr_cancelled = False,
     rr_faults = \<lparr>cf_begin = None, cf_select = None, cf_mark = None, cf_commit = None\<rparr>, rr_now = 9, rr_locked = {},
     rr_draw = (\<lambda>n. 0), rr_clock = (\<lambda>i. 9), rr_put_fault = (\<lambda>i. None)\<rparr>"


section \<open>Ends with -once\<close>

text \<open>
  With -once the loader ends without an error whatever its pass met; the reconciler ends with the error of its pass.
\<close>

lemma loader_once_ends_clean:
  "\<not> lr_cancelled r \<Longrightarrow> fst (loader_loop env True (r # rs) db) = Ended None"
  by (simp split: prod.splits)

lemma recon_once_reports:
  "\<not> cr_cancelled r \<Longrightarrow> fst (recon_loop s opts sum256 fmt True (r # rs) db)
    = Ended (fst (verification_pass s opts sum256 fmt (cr_tables r) (cr_fault r) (cr_now r) db))"
  by (simp split: prod.splits)

section \<open>What the gauges show\<close>

definition gauge_value :: "string \<Rightarrow> string \<Rightarrow> registry \<Rightarrow> float64 option" where
  "gauge_value name key r = Option.bind (map_of r name) (\<lambda>f. map_option se_value (map_of (fa_series f) key))"

definition plane_families :: "registry \<Rightarrow> bool" where
  "plane_families r \<longleftrightarrow> map_option (length \<circ> fa_labels) (map_of r blockers_gauge) = Some 1
     \<and> map_option (length \<circ> fa_labels) (map_of r ready_gauge) = Some 0"

lemma gauges_differ [simp]: "blockers_gauge \<noteq> ready_gauge" "ready_gauge \<noteq> blockers_gauge"
  by (simp_all add: blockers_gauge_def ready_gauge_def)

lemma set_gauge:
  assumes "map_option (length \<circ> fa_labels) (map_of r name) = Some (length lvs)"
  shows "\<exists>r'. on_family name (Gauge_Set v lvs) r = Some r'
    \<and> (\<forall>n. map_option (length \<circ> fa_labels) (map_of r' n) = map_option (length \<circ> fa_labels) (map_of r n))
    \<and> (\<forall>n key. gauge_value n key r' = (if n = name \<and> key = series_key lvs then Some v else gauge_value n key r))"
proof -
  obtain f where f: "map_of r name = Some f" "length lvs = length (fa_labels f)" using assms by auto
  obtain f' where f': "Gauge_Set v lvs f = Some f'" "fa_labels f' = fa_labels f"
      "\<forall>k. k \<noteq> series_key lvs \<longrightarrow> map_of (fa_series f') k = map_of (fa_series f) k"
      "map_of (fa_series f') (series_key lvs) = Some ((series_at f lvs)\<lparr>se_value := v\<rparr>)"
    using update_series_at [OF f(2), of "\<lambda>s. s\<lparr>se_value := v\<rparr>"] unfolding Gauge_Set_def by blast
  have "on_family name (Gauge_Set v lvs) r = Some (AList.update name f' r)" using f(1) f'(1) by (simp add: on_family_def)
  then show ?thesis using f f' by (auto simp: update_conv gauge_value_def)
qed

lemma set_plane_gauge:
  assumes "plane_families r" "map_option (length \<circ> fa_labels) (map_of r name) = Some (length lvs)"
  obtains r1 where "on_family name (Gauge_Set v lvs) r = Some r1" "plane_families r1"
    "\<And>n k. gauge_value n k r1 = (if n = name \<and> k = series_key lvs then Some v else gauge_value n k r)"
proof -
  obtain r1 where r1: "on_family name (Gauge_Set v lvs) r = Some r1"
      "\<And>n. map_option (length \<circ> fa_labels) (map_of r1 n) = map_option (length \<circ> fa_labels) (map_of r n)"
      "\<And>n key. gauge_value n key r1 = (if n = name \<and> key = series_key lvs then Some v else gauge_value n key r)"
    using set_gauge [OF assms(2)] by blast
  have "plane_families r1" using assms(1) unfolding plane_families_def r1(2) .
  then show ?thesis using r1(1,3) that by blast
qed

lemma publish_blockers_shows:
  assumes "plane_families r"
  shows "\<exists>r'. publish_blockers codes r = Some r' \<and> plane_families r'
    \<and> (\<forall>key. gauge_value blockers_gauge key r' = (if key \<in> set codes then Some (Fin 1) else gauge_value blockers_gauge key r))
    \<and> gauge_value ready_gauge [] r' = gauge_value ready_gauge [] r"
  using assms
proof (induction codes arbitrary: r)
  case (Cons code codes)
  have key: "series_key [code] = code" by (simp add: series_key_def)
  obtain r1 where r1: "on_family blockers_gauge (Gauge_Set (Fin 1) [code]) r = Some r1" "plane_families r1"
      "\<And>n k. gauge_value n k r1 = (if n = blockers_gauge \<and> k = code then Some (Fin 1) else gauge_value n k r)"
    using set_plane_gauge [OF Cons.prems, of blockers_gauge "[code]" "Fin 1"] Cons.prems unfolding key plane_families_def by force
  show ?case using Cons.IH [OF r1(2)] r1(1,3) by auto
qed simp

definition shown_blockers :: "go_error + readiness \<times> state \<Rightarrow> string list" where
  "shown_blockers ev = (case ev of Inl e \<Rightarrow> [] | Inr (rd, st) \<Rightarrow> map bk_Code (rd_Blockers rd))"

definition shown_ready :: "go_error + readiness \<times> state \<Rightarrow> float64 option \<Rightarrow> float64 option" where
  "shown_ready ev before = (case ev of Inl e \<Rightarrow> before | Inr (rd, st) \<Rightarrow> Some (Fin (if rd_Ready rd then 1 else 0)))"

lemma publish_shows:
  assumes "plane_families r"
  shows "\<exists>r'. publish ev r = Some r' \<and> plane_families r'
    \<and> (\<forall>key. gauge_value blockers_gauge key r' = (if key \<in> set (shown_blockers ev) then Some (Fin 1) else gauge_value blockers_gauge key r))
    \<and> gauge_value ready_gauge [] r' = shown_ready ev (gauge_value ready_gauge [] r)"
proof (cases ev)
  case (Inl e)
  then show ?thesis using assms by (simp add: publish_def shown_blockers_def shown_ready_def)
next
  case (Inr p)
  obtain rd st where p: "p = (rd, st)" by (cases p)
  let ?v = "Fin (if rd_Ready rd then 1 else 0)"
  have no_labels: "series_key [] = []" by (simp add: series_key_def)
  obtain r1 where r1: "on_family ready_gauge (Gauge_Set ?v []) r = Some r1" "plane_families r1"
      "\<And>n k. gauge_value n k r1 = (if n = ready_gauge \<and> k = [] then Some ?v else gauge_value n k r)"
    using set_plane_gauge [OF assms, of ready_gauge "[]" ?v] assms unfolding no_labels plane_families_def by force
  show ?thesis
    using publish_blockers_shows [OF r1(2), of "map bk_Code (rd_Blockers rd)"] r1(1,3)
    by (auto simp: Inr p publish_def shown_blockers_def shown_ready_def)
qed

lemma publish_all_shows:
  assumes "plane_families r"
  shows "\<exists>r'. publish_all evs r = Some r'
    \<and> (\<forall>key. gauge_value blockers_gauge key r'
        = (if key \<in> set (concat (map shown_blockers evs)) then Some (Fin 1) else gauge_value blockers_gauge key r))
    \<and> gauge_value ready_gauge [] r' = fold shown_ready evs (gauge_value ready_gauge [] r)"
  using assms
proof (induction evs arbitrary: r)
  case (Cons ev evs)
  obtain r1 where r1: "publish ev r = Some r1" "plane_families r1"
      "\<And>key. gauge_value blockers_gauge key r1 = (if key \<in> set (shown_blockers ev) then Some (Fin 1) else gauge_value blockers_gauge key r)"
      "gauge_value ready_gauge [] r1 = shown_ready ev (gauge_value ready_gauge [] r)"
    using publish_shows [OF Cons.prems, of ev] by blast
  show ?case using Cons.IH [OF r1(2)] r1(1,3,4) by auto
qed simp

text \<open>
  What an operator sees of the gate. After any sequence of evaluations the readiness gauge shows the newest that
  succeeded; a blocker's gauge shows one if any evaluation ever had that blocker and is absent otherwise: it is
  never set back, so that a gate that is open still shows every blocker it has had.
\<close>

theorem gate_gauges:
  "map_option (gauge_value ready_gauge []) (publish_all evs (plane_metrics NewRegistry)) = Some (fold shown_ready evs None)
   \<and> map_option (gauge_value blockers_gauge code) (publish_all evs (plane_metrics NewRegistry))
      = Some (if code \<in> set (concat (map shown_blockers evs)) then Some (Fin 1) else None)"
proof -
  let ?r = "plane_metrics NewRegistry"
  have "plane_families ?r \<and> gauge_value blockers_gauge code ?r = None \<and> gauge_value ready_gauge [] ?r = None"
    by (simp add: plane_families_def plane_metrics_def NewRegistry_def Gauge_def register_def gauge_value_def)
  then show ?thesis using publish_all_shows [of ?r evs] by auto
qed

end
