(* ===== verification/Spec2Isabelle.thy ===== *)
theory Spec2Isabelle
  imports TargetDb Window Control Retry DlqStore Recon Decode Consume Config Verify Provider Commands
begin

text \<open>
  A zero-downtime database migration platform (Go): a source database is extracted in parts and
  streamed by change data capture, and both arrive at a target database whose every write is
  fenced by the log sequence number (LSN) of the source. Records that cannot be applied become
  dead letters that a repair worker drains; a reconciler compares the two databases; a control
  plane lets the cutover happen only when nothing is left to do.

  \<^bold>\<open>Parts and theories.\<close>
  \<^item> \<open>MigPrelude\<close>: the Go values the program passes around (\<open>any\<close>, maps, \<open>int64\<close>/\<open>uint64\<close>), the
    standard-library functions on strings it uses, and generic lemmas.
  \<^item> \<open>RowKey\<close>, \<open>Event\<close>, \<open>TableSpec\<close>: \<open>internal/model\<close>. Row keys and their canonical form, hash and
    partition; change events; table specifications and plans with their validation.
  \<^item> \<open>ErrClass\<close>: \<open>internal/errclass\<close>, the classification of errors into transient and permanent.
  \<^item> \<open>SqlFence\<close>: what the fenced statements of \<open>internal/dialect/postgres.go\<close> and \<open>mysql.go\<close> do to a
    row, and that the two engines agree. \<open>Fence\<close>: the locale \<open>fenced_register\<close> and its interpretation,
    from which replay safety follows.
  \<^item> \<open>Batch\<close>, \<open>Sink\<close>, \<open>SinkAtomic\<close>, \<open>TargetDb\<close>: \<open>internal/sink/applier.go\<close>. The pure part (coalescing,
    grouping, chunking, high water marks), the effectful part over a database driver, the locales
    \<open>tx_db\<close> (a transactional database) and \<open>steady_db\<close> (one without faults) with the lemmas about
    the applier, and their interpretation on tables with the fenced statements and a script of faults.
  \<^item> \<open>Window\<close>: \<open>internal/snapshot/window.go\<close>, the watermark window of one chunk, with the step relation
    \<open>window_reach\<close>.
  \<^item> \<open>Control\<close>: \<open>internal/control/phase.go\<close>, the phases, the cutover gate and its override.
  \<^item> \<open>Retry\<close>: \<open>internal/retryx/backoff.go\<close>, delays and the retry loop.
  \<^item> \<open>Dlq\<close>, \<open>DlqStore\<close>: \<open>internal/dlq/entry.go\<close>, the dead-letter operations of \<open>internal/store/store.go\<close>
    and the repair of one entry in \<open>cmd/repair-worker\<close>, with the step relation \<open>dl_step\<close>.
  \<^item> \<open>Bisect\<close>, \<open>Recon\<close>: \<open>internal/recon\<close> and the digests of \<open>internal/dialect/dialect.go\<close>. The locale
    \<open>bisector\<close> is interpreted for the three bisectors, the locale \<open>row_source\<close> for two SQL tables.
  \<^item> \<open>Decode\<close>: \<open>internal/cdc/decode.go\<close>, from the bytes of a Debezium message to a change event.
  \<^item> \<open>Consume\<close>: \<open>internal/stream/consumer.go\<close> and one round of the loop of \<open>cmd/cdc-applier\<close>, which joins
    the consumer, the decoder, the applier, the retry loop and the dead letters.
  \<^item> \<open>Plane\<close>: the migration state and part rows of \<open>internal/store/store.go\<close>, the gate and the request
    handlers of \<open>cmd/controlplane\<close>. \<open>Verify\<close>: one pass of \<open>cmd/reconciler\<close> over the tables of a plan.
  \<^item> \<open>Config\<close>: \<open>internal/config/config.go\<close>, from files and environment to policies and thresholds.
  \<^item> \<open>Token\<close>, \<open>Cipher\<close>, \<open>KeySource\<close>, \<open>Provider\<close>: \<open>internal/crypto\<close>. Key derivation and tokens, reversible
    encryption, the key sources over a heap of key buffers (the locale \<open>key_source\<close>, interpreted for
    both), and the protection of rows and keys by them.
  \<^item> \<open>Csv\<close>, \<open>Manifest\<close>, \<open>Parts\<close>: \<open>internal/snapshot\<close>. The text of a part file and its import, the manifest, and
    the partition writer with every fault of the operating system. \<open>Loader\<close>: \<open>cmd/snapshot-loader\<close> and
    what its statements do to the target in each engine, parts interleaved.
  \<^item> \<open>SqlText\<close>: the text of every statement of the two dialects, with quoting and placeholders. \<open>StoreSql\<close>: the
    text of the store's own statements, and the cutting of error texts.
  \<^item> \<open>Log\<close>, \<open>Metrics\<close>: \<open>internal/obs\<close>. Redaction, sampling, health and its probes; metric families with IEEE
    sums and the exposition format. \<open>App\<close>: \<open>internal/app/app.go\<close>, how a service starts and ends.
    \<open>Commands\<close>: the loops of the commands under \<open>cmd\<close> and the gauges of the control plane.

  \<^bold>\<open>What the lemmas show.\<close> The applier's batching is equivalent to applying the events one by one;
  a batch is atomic with its offsets; isolation by bisection loses no event and stops only on
  transient errors; any two deliveries of the same writes converge, and the newest write wins; a
  chunk loaded between watermarks leaves the table as the source has it; no dead letter is lost
  and each has one owner, over whole runs of the applier and the repair worker; the phases of a
  migration follow the transitions that are allowed, and a gate that is open has nothing left to do; a reconciliation run
  misses no difference outside a digest collision and reports no false one; the stream is resumed
  after the stored offset without a gap; what decodes is a valid event and what does not is a
  permanent error; the log positions of a connector keep their order; a configuration that loads is usable;
  what a provider protects is recovered by whoever holds the keys and has the shape asked for; an extract
  that is closed holds every row once, in parts that verify, and reads back as it was; a part is
  loaded wholly or not at all, and a snapshot whose parts are all loaded is in the target under the
  fence; a statement asks for exactly the arguments it is sent with, and no name or text leaves its quotes;
  a value under a sensitive key is logged as redacted, unless it takes
  its form only when it is written. Where the code does not do what its comments promise,
  a theorem says what it does instead.

  \<^bold>\<open>Parameters.\<close> SHA-256, HMAC, AES-GCM, MD5 (as the row digest), gzip, the payload cipher,
  the JSON parser (bytes to a tree), the Unicode tables, the rounding of the fraction of a duration, the KMS or HSM
  that unwraps keys, files, the environment, the database library that opens pools, the import from object storage, the
  shortest text of a float, the texts Go prints of floats and nested values, the messages the brokers hold, the source of random numbers,
  the clock, the texts of floats and times, and the database engines' comparison of a column with
  a bound are arguments of the definitions. Faults of the database are scripts (\<open>TargetDb\<close>) or
  arguments, so that every theorem about errors covers each of them.

  \<^bold>\<open>Termination.\<close> Recursive Go functions are total functions with a measure (the size of the batch in
  \<open>isolate\<close>, the distance to the depth limit in \<open>descend\<close>); the retry loop, which need not end, is a
  \<open>partial_function\<close> whose theorems say when it returns, and so is the rejection sampling of tokens, which ends
  as soon as the keystream yields a digit in range. The rounds of \<open>hkdfExpand\<close> are counted down from the number
  of bytes asked for, of which each round adds at least one. No other fuel is used.

  \<^bold>\<open>Not modelled.\<close> Routing, request decoding and JSON encoding of the HTTP servers; the log lines of
  the commands and the counters they keep (but for the gauges of the gate); the brokers' protocol; the
  schema of the control database (\<open>migrations/\<close>); what a part file holds while it is
  being written. None of them keeps state that the theorems would
  speak of, or they are calls of libraries whose source is not here.
\<close>

end
